(* ===== verification/Prelude.thy ===== *)
theory Prelude
  imports Main "HOL-Library.Word" "HOL-Library.Multiset"
begin

text \<open>
  Shared vocabulary of the development.

  \<^item> Names for the types every service uses: a \<open>uuid.UUID\<close> is its 16 bytes read as one
    128-bit word (\<open>uuid.Nil\<close> is 0), a \<open>time.Time\<close> or \<open>timestamptz\<close> is a number of
    microseconds.
  \<^item> \<open>('w, 'e, 'a) act\<close> is the type of a Go function that returns \<open>(T, error)\<close> and acts
    on a world: it maps a world to a result (\<open>Inl\<close> the error, \<open>Inr\<close> the value) and the
    world it leaves behind.  \<open>tryE m h k\<close> is the Go idiom
    \<open>x, err := m(); if err != nil { h }; k\<close>.
  \<^item> \<open>kept I m\<close> says that the call \<open>m\<close> keeps \<open>I\<close>, whatever it returns, and
    \<open>steps_by R m\<close> that it only changes the world along \<open>R\<close>; their rules for the
    combinators are collected in \<open>kept_intros\<close> and \<open>steps_intros\<close>.
  \<^item> List lemmas about tables whose rows have a key.
\<close>

named_theorems kept_intros "rules for kept on the combinators and the modelled calls"
named_theorems steps_intros "rules for steps_by on the combinators and the modelled calls"
named_theorems wp_simps "weakest preconditions of the combinators"
named_theorems act_defs "definitions of the combinators, to evaluate a call on a concrete world"

type_synonym uuid = "128 word"
type_synonym time = int

abbreviation uuid_Nil :: uuid where
  "uuid_Nil \<equiv> 0"

section \<open>Calls that may fail\<close>

type_synonym ('w, 'e, 'a) act = "'w \<Rightarrow> ('e + 'a) \<times> 'w"

definition ret :: "'a \<Rightarrow> ('w, 'e, 'a) act" where
  "ret x w = (Inr x, w)"

definition fail :: "'e \<Rightarrow> ('w, 'e, 'a) act" where
  "fail e w = (Inl e, w)"

definition tryE :: "('w, 'e, 'a) act \<Rightarrow> ('e \<Rightarrow> ('w, 'f, 'b) act) \<Rightarrow> ('a \<Rightarrow> ('w, 'f, 'b) act)
    \<Rightarrow> ('w, 'f, 'b) act" where
  "tryE m h k w = (case m w of (Inl e, w') \<Rightarrow> h e w' | (Inr x, w') \<Rightarrow> k x w')"

text \<open>A call whose error is dropped (Go: the error is logged and the function goes on).\<close>

definition attempt :: "('w, 'e, 'a) act \<Rightarrow> ('w, 'f, 'b) act \<Rightarrow> ('w, 'f, 'b) act" where
  "attempt m k = tryE m (\<lambda>_. k) (\<lambda>_. k)"

lemmas [act_defs] = ret_def fail_def tryE_def attempt_def

section \<open>Invariants and transition relations of calls\<close>

definition kept :: "('w \<Rightarrow> bool) \<Rightarrow> ('w, 'e, 'a) act \<Rightarrow> bool" where
  "kept I m \<longleftrightarrow> (\<forall>w. I w \<longrightarrow> I (snd (m w)))"

definition steps_by :: "('w \<Rightarrow> 'w \<Rightarrow> bool) \<Rightarrow> ('w, 'e, 'a) act \<Rightarrow> bool" where
  "steps_by R m \<longleftrightarrow> (\<forall>w. R w (snd (m w)))"

lemma keptD: "kept I m \<Longrightarrow> I w \<Longrightarrow> m w = (r, w') \<Longrightarrow> I w'"
  unfolding kept_def by (metis snd_conv)

lemma kept_ret [kept_intros]: "kept I (ret x)"
  by (simp add: kept_def ret_def)

lemma kept_fail [kept_intros]: "kept I (fail e)"
  by (simp add: kept_def fail_def)

lemma kept_tryE [kept_intros]:
  assumes "kept I m" and "\<And>e. kept I (h e)" and "\<And>x. kept I (k x)"
  shows "kept I (tryE m h k)"
  using assms unfolding kept_def tryE_def
  by (force split: prod.splits sum.splits)

lemma kept_attempt [kept_intros]:
  assumes "kept I m" and "kept I k"
  shows "kept I (attempt m k)"
  unfolding attempt_def by (intro kept_intros assms)

lemma kept_If [kept_intros]: "kept I m \<Longrightarrow> kept I n \<Longrightarrow> kept I (if b then m else n)"
  by simp

lemma kept_case_option [kept_intros]:
  "kept I m \<Longrightarrow> (\<And>x. kept I (k x)) \<Longrightarrow> kept I (case v of None \<Rightarrow> m | Some x \<Rightarrow> k x)"
  by (cases v) auto

lemma steps_byD: "steps_by R m \<Longrightarrow> m w = (r, w') \<Longrightarrow> R w w'"
  unfolding steps_by_def by (metis snd_conv)

lemma steps_by_mono: "steps_by R m \<Longrightarrow> (\<And>w w'. R w w' \<Longrightarrow> S w w') \<Longrightarrow> steps_by S m"
  unfolding steps_by_def by blast

lemma steps_ret [steps_intros]: "reflp R \<Longrightarrow> steps_by R (ret x)"
  by (simp add: steps_by_def ret_def reflpD)

lemma steps_fail [steps_intros]: "reflp R \<Longrightarrow> steps_by R (fail e)"
  by (simp add: steps_by_def fail_def reflpD)

lemma steps_tryE [steps_intros]:
  assumes "transp R" and "steps_by R m" and "\<And>e. steps_by R (h e)" and "\<And>x. steps_by R (k x)"
  shows "steps_by R (tryE m h k)"
proof -
  have "R w (snd (tryE m h k w))" for w
  proof (cases "m w")
    case (Pair r w')
    with assms(2) have "R w w'" by (auto dest: steps_byD)
    moreover have "R w' (snd (tryE m h k w))"
      using assms(3,4) Pair by (cases r) (auto simp: tryE_def steps_by_def)
    ultimately show ?thesis using assms(1) by (rule_tac transpD)
  qed
  then show ?thesis by (simp add: steps_by_def)
qed

lemma steps_attempt [steps_intros]:
  assumes "transp R" and "steps_by R m" and "steps_by R k"
  shows "steps_by R (attempt m k)"
  unfolding attempt_def by (intro steps_intros assms)

lemma steps_If [steps_intros]: "steps_by R m \<Longrightarrow> steps_by R n \<Longrightarrow> steps_by R (if b then m else n)"
  by simp

lemma tryE_Inr: "m w = (Inr x, w') \<Longrightarrow> tryE m h k w = k x w'"
  by (simp add: tryE_def)

lemma tryE_Inl: "m w = (Inl e, w') \<Longrightarrow> tryE m h k w = h e w'"
  by (simp add: tryE_def)

text \<open>Inversion of a whole call: either the step failed and the handler ran, or it returned a
  value and the continuation ran.\<close>

lemma tryE_cases:
  assumes "tryE m h k w = (r, w')"
  obtains (error) e w1 where "m w = (Inl e, w1)" "h e w1 = (r, w')"
    | (ok) x w1 where "m w = (Inr x, w1)" "k x w1 = (r, w')"
  using assms unfolding tryE_def by (auto split: prod.splits sum.splits)

lemma attempt_cases:
  assumes "attempt m k w = (r, w')"
  obtains q w1 where "m w = (q, w1)" "k w1 = (r, w')"
  using assms unfolding attempt_def tryE_def by (auto split: prod.splits sum.splits)

section \<open>Weakest preconditions\<close>

text \<open>\<open>wp m Q E w\<close>: run in \<open>w\<close>, the call \<open>m\<close> returns a value and a world with \<open>Q\<close>, or an error
  and a world with \<open>E\<close>.  Simplification with \<open>wp_simps\<close> takes a composed call apart into the
  conditions on the calls it makes; those have introduction rules (their contracts).\<close>

definition wp :: "('w, 'e, 'a) act \<Rightarrow> ('a \<Rightarrow> 'w \<Rightarrow> bool) \<Rightarrow> ('e \<Rightarrow> 'w \<Rightarrow> bool) \<Rightarrow> 'w \<Rightarrow> bool" where
  "wp m Q E w \<longleftrightarrow> (case m w of (Inl e, w') \<Rightarrow> E e w' | (Inr x, w') \<Rightarrow> Q x w')"

lemma wp_ret [wp_simps]: "wp (ret x) Q E w \<longleftrightarrow> Q x w"
  by (simp add: wp_def ret_def)

lemma wp_fail [wp_simps]: "wp (fail e) Q E w \<longleftrightarrow> E e w"
  by (simp add: wp_def fail_def)

lemma wp_tryE [wp_simps]:
  "wp (tryE m h k) Q E w \<longleftrightarrow> wp m (\<lambda>x. wp (k x) Q E) (\<lambda>e. wp (h e) Q E) w"
  by (simp add: wp_def tryE_def split: prod.splits sum.splits)

lemma wp_attempt [wp_simps]:
  "wp (attempt m k) Q E w \<longleftrightarrow> wp m (\<lambda>_. wp k Q E) (\<lambda>_. wp k Q E) w"
  by (simp add: attempt_def wp_tryE)

lemma wp_If [wp_simps]: "wp (if b then m else n) Q E w \<longleftrightarrow> (if b then wp m Q E w else wp n Q E w)"
  by simp

lemma wp_case_option [wp_simps]:
  "wp (case v of None \<Rightarrow> m | Some x \<Rightarrow> k x) Q E w \<longleftrightarrow>
    (case v of None \<Rightarrow> wp m Q E w | Some x \<Rightarrow> wp (k x) Q E w)"
  by (cases v) simp_all

lemma wp_Let [wp_simps]: "wp (let x = a in m x) Q E w \<longleftrightarrow> (let x = a in wp (m x) Q E w)"
  by (simp add: Let_def)

lemma wp_mono:
  assumes "wp m Q E w" and "\<And>x w'. Q x w' \<Longrightarrow> Q' x w'" and "\<And>e w'. E e w' \<Longrightarrow> E' e w'"
  shows "wp m Q' E' w"
  using assms by (auto simp: wp_def split: prod.splits sum.splits)

lemma wp_kept:
  assumes "kept I m" and "wp m Q E w" and "I w"
  shows "wp m (\<lambda>x w'. I w' \<and> Q x w') (\<lambda>e w'. I w' \<and> E e w') w"
  using assms by (auto simp: wp_def kept_def split: prod.splits sum.splits)

lemma wpD:
  assumes "wp m Q E w" and "m w = (r, w')"
  shows "(\<forall>x. r = Inr x \<longrightarrow> Q x w') \<and> (\<forall>e. r = Inl e \<longrightarrow> E e w')"
  using assms by (auto simp: wp_def split: sum.splits)

lemma wpI:
  assumes "\<And>x w'. m w = (Inr x, w') \<Longrightarrow> Q x w'" and "\<And>e w'. m w = (Inl e, w') \<Longrightarrow> E e w'"
  shows "wp m Q E w"
  using assms by (auto simp: wp_def split: prod.splits sum.splits)

section \<open>Tables\<close>

text \<open>A row with key \<open>k\<close> is unique in a table whose keys are distinct.\<close>

lemma find_key_Some_iff:
  assumes "distinct (map f xs)"
  shows "find (\<lambda>x. f x = k) xs = Some y \<longleftrightarrow> y \<in> set xs \<and> f y = k"
  using assms by (induction xs) (auto simp: image_iff)

lemma find_key_None_iff: "find (\<lambda>x. f x = k) xs = None \<longleftrightarrow> k \<notin> f ` set xs"
  by (auto simp: find_None_iff image_iff)

lemma find_SomeD: "find P xs = Some x \<Longrightarrow> x \<in> set xs \<and> P x"
  by (auto simp: find_Some_iff)

lemma find_map_pred:
  assumes "\<And>x. P (f x) = P x"
  shows "find P (map f xs) = map_option f (find P xs)"
  using assms by (induction xs) auto

lemma find_append: "find P (xs @ ys) = (case find P xs of None \<Rightarrow> find P ys | Some x \<Rightarrow> Some x)"
  by (induction xs) auto

lemma find_snoc_fresh:
  assumes "f r \<notin> f ` set xs"
  shows "find (\<lambda>x. f x = k) (xs @ [r]) = (if f r = k then Some r else find (\<lambda>x. f x = k) xs)"
  using assms find_key_None_iff [of f k xs] by (auto simp: find_append split: option.splits)

lemma find_filter_disjoint:
  assumes "\<And>x. P x \<Longrightarrow> Q x"
  shows "find P (filter Q xs) = find P xs"
  using assms by (induction xs) auto

lemma find_filter_none:
  assumes "\<And>x. P x \<Longrightarrow> \<not> Q x"
  shows "find P (filter Q xs) = None"
  using assms by (induction xs) auto

end
