(* ===== verification/Errors.thy ===== *)
theory Errors
  imports Prelude
begin

text \<open>
  Go error values, the shared package \<open>services/shared/pkg/errors\<close> and
  \<open>services/shared/pkg/mapper\<close>.

  An error value is a chain: a sentinel made once by \<open>errors.New\<close> (identified by the
  package variable that holds it), an error wrapped by \<open>fmt.Errorf("...: %w", err)\<close>, an
  error that came from outside the program, or one of the program's own error structs.
  \<open>errors_Is\<close> and \<open>errors_As_StatusError\<close> walk the chain as the standard library does, so
  that a handler that compares with the wrong package's sentinel is wrong in the model too.

  The lemmas show that the eight codes survive the trip code, gRPC status, code
  (\<open>FromError_StatusError\<close>), that the HTTP table is injective (\<open>ToHTTPCode_inj\<close>),
  and that \<open>Wrap\<close> is idempotent for one code (\<open>Code_Wrap_idempotent\<close>).
\<close>

section \<open>gRPC codes and error codes\<close>

datatype grpc_code = OK | Canceled | Unknown | InvalidArgument | DeadlineExceeded | NotFound
  | AlreadyExists | PermissionDenied | ResourceExhausted | FailedPrecondition | Aborted
  | OutOfRange | Unimplemented | Internal | Unavailable | DataLoss | Unauthenticated

text \<open>\<open>type Code string\<close> and its constants.\<close>

type_synonym Code = string

definition CodeNotFound :: Code where "CodeNotFound = ''NOT_FOUND''"
definition CodeAlreadyExists :: Code where "CodeAlreadyExists = ''ALREADY_EXISTS''"
definition CodePermissionDenied :: Code where "CodePermissionDenied = ''PERMISSION_DENIED''"
definition CodeUnauthenticated :: Code where "CodeUnauthenticated = ''UNAUTHENTICATED''"
definition CodeInvalidArgument :: Code where "CodeInvalidArgument = ''INVALID_ARGUMENT''"
definition CodeUnavailable :: Code where "CodeUnavailable = ''UNAVAILABLE''"
definition CodeInternal :: Code where "CodeInternal = ''INTERNAL''"
definition CodeRateLimited :: Code where "CodeRateLimited = ''RATE_LIMITED''"

lemmas code_defs = CodeNotFound_def CodeAlreadyExists_def CodePermissionDenied_def
  CodeUnauthenticated_def CodeInvalidArgument_def CodeUnavailable_def CodeInternal_def
  CodeRateLimited_def

definition codeToGRPCCode :: "Code \<rightharpoonup> grpc_code" where
  "codeToGRPCCode = map_of
    [(CodeNotFound, NotFound), (CodeAlreadyExists, AlreadyExists),
     (CodePermissionDenied, PermissionDenied), (CodeUnauthenticated, Unauthenticated),
     (CodeInvalidArgument, InvalidArgument), (CodeUnavailable, Unavailable),
     (CodeInternal, Internal), (CodeRateLimited, ResourceExhausted)]"

definition codeToHTTPCode :: "Code \<rightharpoonup> int" where
  "codeToHTTPCode = map_of
    [(CodeNotFound, 404), (CodeAlreadyExists, 409), (CodePermissionDenied, 403),
     (CodeUnauthenticated, 401), (CodeInvalidArgument, 400), (CodeUnavailable, 503),
     (CodeInternal, 500), (CodeRateLimited, 429)]"

definition codeToDefaultMessage :: "Code \<rightharpoonup> string" where
  "codeToDefaultMessage = map_of
    [(CodeNotFound, ''not found''), (CodeAlreadyExists, ''already exists''),
     (CodePermissionDenied, ''permission denied''), (CodeUnauthenticated, ''unauthenticated''),
     (CodeInvalidArgument, ''invalid argument''), (CodeUnavailable, ''service unavailable''),
     (CodeInternal, ''internal error''), (CodeRateLimited, ''rate limit exceeded'')]"

definition known_codes :: "Code list" where
  "known_codes = [CodeNotFound, CodeAlreadyExists, CodePermissionDenied, CodeUnauthenticated,
     CodeInvalidArgument, CodeUnavailable, CodeInternal, CodeRateLimited]"

definition ToGRPCCode :: "Code \<Rightarrow> grpc_code" where
  "ToGRPCCode c = (case codeToGRPCCode c of Some code \<Rightarrow> code | None \<Rightarrow> Internal)"

definition ToHTTPCode :: "Code \<Rightarrow> int" where
  "ToHTTPCode c = (case codeToHTTPCode c of Some code \<Rightarrow> code | None \<Rightarrow> 500)"

section \<open>Error values\<close>

text \<open>The package-level \<open>errors.New\<close> values, one constructor per variable.\<close>

datatype sentinel =
    pgx_ErrNoRows
  | roomRepo_ErrRoomNotFound | roomRepo_ErrMemberNotFound | roomRepo_ErrMemberAlreadyExists
  | roomRepo_ErrDirectRoomExists
  | roomSvc_ErrRoomNotFound | roomSvc_ErrNotOwner | roomSvc_ErrNotMember
  | roomSvc_ErrDirectRoomExists | roomSvc_ErrMemberNotFound | roomSvc_ErrCannotRemoveOwner
  | roomSvc_ErrInvalidDirectRoom | roomSvc_ErrDirectRoomImmutable
  | msgRepo_ErrMessageNotFound | msgRepo_ErrInvalidCursor
  | msgSvc_ErrMessageNotFound | msgSvc_ErrNotMember | msgSvc_ErrNotOwner
  | msgSvc_ErrInvalidReplyTarget
  | accountRepo_ErrAccountNotFound | tokenRepo_ErrTokenNotFound | vk_Nil
  | authSvc_ErrAccountAlreadyExists | authSvc_ErrInvalidCredentials | authSvc_ErrInvalidToken
  | authSvc_ErrExpiredToken | authSvc_ErrRateLimitExceeded
  | userRepo_ErrUserNotFound | userRepo_ErrUserAlreadyExists | userRepo_ErrUsernameAlreadyExists
  | userSvc_ErrUserNotFound
  | ctx_Err | jetstream_ErrStreamNotFound

text \<open>Errors that come from outside the program: a Postgres error with its SQLSTATE, or a
  failure of a connection, a driver or a library.\<close>

datatype external = PgError string | IOError string

datatype error =
    Sentinel sentinel
  | Errorf string
  | Wrap string error
  | External external
  | StatusError Code string "error option"
  | GRPCStatus grpc_code string
  | ErrRateLimitExceeded string string

text \<open>\<open>errors.Is(err, target)\<close> for a sentinel target, and \<open>errors.As\<close> for the program's
  own struct: both follow \<open>Unwrap\<close>.\<close>

fun errors_Is :: "error \<Rightarrow> sentinel \<Rightarrow> bool" where
  "errors_Is (Sentinel s) t = (s = t)"
| "errors_Is (Wrap _ e) t = errors_Is e t"
| "errors_Is (StatusError _ _ (Some e)) t = errors_Is e t"
| "errors_Is _ t = False"

fun errors_As_StatusError :: "error \<Rightarrow> (Code \<times> string \<times> error option) option" where
  "errors_As_StatusError (StatusError c m e) = Some (c, m, e)"
| "errors_As_StatusError (Wrap _ e) = errors_As_StatusError e"
| "errors_As_StatusError _ = None"

section \<open>The operations of the errors package\<close>

definition Code_Error :: "Code \<Rightarrow> string \<Rightarrow> error" where
  "Code_Error c msg = StatusError c msg None"

definition Code_Wrap :: "Code \<Rightarrow> error option \<Rightarrow> error option" where
  "Code_Wrap c err =
     (case err of
        None \<Rightarrow> None
      | Some e \<Rightarrow>
          (if (case errors_As_StatusError e of Some (sc, _, _) \<Rightarrow> sc = c | None \<Rightarrow> False)
           then Some e
           else Some (StatusError c (case codeToDefaultMessage c of Some m \<Rightarrow> m | None \<Rightarrow> '''') (Some e))))"

text \<open>\<open>FromError\<close>: the library's \<open>status.FromError\<close> is the parameter \<open>sfe\<close>; \<open>None\<close> is its
  answer \<open>ok = false\<close>.\<close>

definition FromError :: "(error \<Rightarrow> grpc_code option) \<Rightarrow> error option \<Rightarrow> Code \<times> bool" where
  "FromError sfe err =
     (case err of
        None \<Rightarrow> ('''', False)
      | Some e \<Rightarrow>
         (case sfe e of
            None \<Rightarrow> (CodeInternal, True)
          | Some code \<Rightarrow>
             (case code of
                NotFound \<Rightarrow> (CodeNotFound, True)
              | AlreadyExists \<Rightarrow> (CodeAlreadyExists, True)
              | PermissionDenied \<Rightarrow> (CodePermissionDenied, True)
              | Unauthenticated \<Rightarrow> (CodeUnauthenticated, True)
              | InvalidArgument \<Rightarrow> (CodeInvalidArgument, True)
              | Unavailable \<Rightarrow> (CodeUnavailable, True)
              | ResourceExhausted \<Rightarrow> (CodeRateLimited, True)
              | _ \<Rightarrow> (CodeInternal, True))))"

text \<open>What the code relies on of \<open>status.FromError\<close>: it finds the gRPC status that a
  \<open>StatusError\<close> offers by its \<open>GRPCStatus\<close> method, and the one of a gRPC error itself.\<close>

definition GRPCStatus_of :: "Code \<Rightarrow> grpc_code" where
  "GRPCStatus_of c = ToGRPCCode c"

definition grpc_status_ok :: "(error \<Rightarrow> grpc_code option) \<Rightarrow> bool" where
  "grpc_status_ok sfe \<longleftrightarrow>
     (\<forall>c m e. sfe (StatusError c m e) = Some (GRPCStatus_of c)) \<and> (\<forall>g m. sfe (GRPCStatus g m) = Some g)"

text \<open>\<open>mapper.Slice\<close>, \<open>mapper.Enum\<close> and \<open>mapper.EnumWithOk\<close>.\<close>

definition mapper_Slice :: "('a \<Rightarrow> 'b) \<Rightarrow> 'a list \<Rightarrow> 'b list" where
  "mapper_Slice fn items = List.map fn items"

definition mapper_Enum :: "('a \<rightharpoonup> 'b) \<Rightarrow> 'a \<Rightarrow> 'b \<Rightarrow> 'b" where
  "mapper_Enum m from fallback = (case m from of None \<Rightarrow> fallback | Some to \<Rightarrow> to)"

definition mapper_EnumWithOk :: "('a \<rightharpoonup> 'b) \<Rightarrow> 'a \<Rightarrow> 'b option" where
  "mapper_EnumWithOk m from = m from"

section \<open>Lemmas\<close>

lemma errors_Is_StatusError_None [simp]: "\<not> errors_Is (StatusError c m None) t"
  by simp

lemma known_code_cases:
  assumes "c \<in> set known_codes"
  shows "c = CodeNotFound \<or> c = CodeAlreadyExists \<or> c = CodePermissionDenied \<or>
    c = CodeUnauthenticated \<or> c = CodeInvalidArgument \<or> c = CodeUnavailable \<or>
    c = CodeInternal \<or> c = CodeRateLimited"
  using assms by (simp add: known_codes_def)

lemma ToGRPCCode_inverse:
  assumes "c \<in> set known_codes" and "sfe e = Some (ToGRPCCode c)"
  shows "FromError sfe (Some e) = (c, True)"
  using known_code_cases [OF assms(1)] assms(2)
  by (elim disjE) (simp_all add: FromError_def ToGRPCCode_def codeToGRPCCode_def code_defs)

lemma FromError_StatusError:
  assumes "grpc_status_ok sfe" and "c \<in> set known_codes"
  shows "FromError sfe (Some (StatusError c msg cause)) = (c, True)"
  using ToGRPCCode_inverse [OF assms(2)] assms(1) by (simp add: grpc_status_ok_def GRPCStatus_of_def)

lemma Code_Wrap_idempotent: "Code_Wrap c (Code_Wrap c err) = Code_Wrap c err"
  by (cases err) (auto simp: Code_Wrap_def split: option.splits)

lemma ToHTTPCode_inj:
  assumes "c \<in> set known_codes" and "d \<in> set known_codes" and "ToHTTPCode c = ToHTTPCode d"
  shows "c = d"
  using known_code_cases [OF assms(1)] known_code_cases [OF assms(2)] assms(3)
  by (elim disjE) (simp_all add: ToHTTPCode_def codeToHTTPCode_def code_defs)

lemma FromError_known: "fst (FromError sfe (Some e)) \<in> set known_codes"
  by (simp add: FromError_def known_codes_def split: option.splits grpc_code.splits)

end
