(* ===== verification/Json.thy ===== *)
theory Json
  imports Prelude
begin

text \<open>
  JSON documents and what the program uses of \<open>encoding/json\<close>.

  A document is its abstract value; the characters of its text are not modelled.  An object is
  the list of its members in order.  Strings are lists of characters, numbers are integers
  (\<open>JReal\<close> keeps the literal of a number that is no integer).  The functions \<open>json_field_*\<close> are
  \<open>json.Unmarshal\<close> into one field of a struct: a member is matched to the field by its name
  without regard to case, a later member overrides an earlier one, \<open>null\<close> leaves a plain field
  as it is and clears a pointer, and a value of another type makes the call fail (\<open>None\<close>).

  A \<open>[]byte\<close> is carried as a base64 string; \<open>base64_decode_encode\<close> is its round trip.
\<close>

datatype json = JNull | JBool bool | JNum int | JReal string | JStr string
  | JArr "json list" | JObj "(string \<times> json) list"

text \<open>Postgres stores no NUL character, neither in a text nor inside a \<open>jsonb\<close> document.\<close>

definition no_nul :: "string \<Rightarrow> bool" where
  "no_nul s \<longleftrightarrow> list_all (\<lambda>c. c \<noteq> CHR 0x00) s"

fun json_no_nul :: "json \<Rightarrow> bool" where
  "json_no_nul (JStr s) = no_nul s"
| "json_no_nul (JArr xs) = list_all json_no_nul xs"
| "json_no_nul (JObj kvs) = list_all (\<lambda>kv. no_nul (fst kv) \<and> json_no_nul (snd kv)) kvs"
| "json_no_nul _ = True"

section \<open>Matching a member with a field\<close>

definition ascii_lower :: "char \<Rightarrow> char" where
  "ascii_lower c = (let n = (of_char c :: nat) in if 65 \<le> n \<and> n \<le> 90 then char_of (n + 32) else c)"

definition key_matches :: "string \<Rightarrow> string \<Rightarrow> bool" where
  "key_matches name k \<longleftrightarrow> List.map ascii_lower k = List.map ascii_lower name"

text \<open>One field: fold over the members, starting from the zero value.\<close>

fun json_field :: "(json \<Rightarrow> 'a \<Rightarrow> 'a option) \<Rightarrow> string \<Rightarrow> 'a \<Rightarrow> (string \<times> json) list \<Rightarrow> 'a option" where
  "json_field upd name d [] = Some d"
| "json_field upd name d ((k, v) # kvs) =
     (if key_matches name k
      then (case upd v d of None \<Rightarrow> None | Some d' \<Rightarrow> json_field upd name d' kvs)
      else json_field upd name d kvs)"

fun set_string :: "json \<Rightarrow> string \<Rightarrow> string option" where
  "set_string (JStr s) d = Some s"
| "set_string JNull d = Some d"
| "set_string _ d = None"

fun set_bool :: "json \<Rightarrow> bool \<Rightarrow> bool option" where
  "set_bool (JBool b) d = Some b"
| "set_bool JNull d = Some d"
| "set_bool _ d = None"

fun set_string_ptr :: "json \<Rightarrow> string option \<Rightarrow> string option option" where
  "set_string_ptr (JStr s) d = Some (Some s)"
| "set_string_ptr JNull d = Some None"
| "set_string_ptr _ d = None"

fun set_any :: "json \<Rightarrow> json \<Rightarrow> json option" where
  "set_any v d = Some v"

text \<open>Signed machine integers: a number outside the range of the field makes the call fail.\<close>

fun set_int :: "json \<Rightarrow> ('l::len) word \<Rightarrow> 'l word option" where
  "set_int (JNum i) d =
     (if - (2 ^ (LENGTH('l) - 1)) \<le> i \<and> i < 2 ^ (LENGTH('l) - 1) then Some (word_of_int i) else None)"
| "set_int JNull d = Some d"
| "set_int _ d = None"

fun set_int_ptr :: "json \<Rightarrow> ('l::len) word option \<Rightarrow> 'l word option option" where
  "set_int_ptr JNull d = Some None"
| "set_int_ptr v d = (case set_int v 0 of None \<Rightarrow> None | Some i \<Rightarrow> Some (Some i))"

text \<open>The members of the document that is decoded into a struct: \<open>null\<close> sets nothing, anything
  but an object is a type error.\<close>

definition json_members :: "json \<Rightarrow> (string \<times> json) list option" where
  "json_members j = (case j of JObj kvs \<Rightarrow> Some kvs | JNull \<Rightarrow> Some [] | _ \<Rightarrow> None)"

section \<open>Base64\<close>

text \<open>The standard alphabet: capitals, small letters, digits, plus, slash.\<close>

definition base64_char :: "nat \<Rightarrow> char" where
  "base64_char n = char_of
     (if n < 26 then n + 65 else if n < 52 then n + 71 else if n < 62 then n - 4
      else if n = 62 then 43 else 47)"

definition base64_digit :: "char \<Rightarrow> nat option" where
  "base64_digit c = (let n = (of_char c :: nat) in
     if 65 \<le> n \<and> n \<le> 90 then Some (n - 65)
     else if 97 \<le> n \<and> n \<le> 122 then Some (n - 71)
     else if 48 \<le> n \<and> n \<le> 57 then Some (n + 4)
     else if n = 43 then Some 62 else if n = 47 then Some 63 else None)"

fun base64_encode :: "8 word list \<Rightarrow> string" where
  "base64_encode [] = []"
| "base64_encode [a] =
     (let n = unat a in [base64_char (n div 4), base64_char ((n mod 4) * 16), CHR ''='', CHR ''=''])"
| "base64_encode [a, b] =
     (let m = unat a; n = unat b in
      [base64_char (m div 4), base64_char ((m mod 4) * 16 + n div 16),
       base64_char ((n mod 16) * 4), CHR ''=''])"
| "base64_encode (a # b # c # rest) =
     (let m = unat a; n = unat b; k = unat c in
      base64_char (m div 4) # base64_char ((m mod 4) * 16 + n div 16) #
      base64_char ((n mod 16) * 4 + k div 64) # base64_char (k mod 64) # base64_encode rest)"

fun base64_quads :: "string \<Rightarrow> 8 word list option" where
  "base64_quads [] = Some []"
| "base64_quads (w # x # y # z # rest) =
     (case (base64_digit w, base64_digit x) of
        (Some p, Some q) \<Rightarrow>
          (let a = word_of_nat (p * 4 + q div 16) in
           if y = CHR ''='' then (if z = CHR ''='' \<and> rest = [] then Some [a] else None)
           else (case base64_digit y of
               None \<Rightarrow> None
             | Some r \<Rightarrow>
                (let b = word_of_nat ((q mod 16) * 16 + r div 4) in
                 if z = CHR ''='' then (if rest = [] then Some [a, b] else None)
                 else (case (base64_digit z, base64_quads rest) of
                     (Some s, Some bs) \<Rightarrow> Some (a # b # word_of_nat ((r mod 4) * 64 + s) # bs)
                   | _ \<Rightarrow> None))))
      | _ \<Rightarrow> None)"
| "base64_quads _ = None"

text \<open>The decoder skips carriage returns and line feeds.\<close>

definition base64_decode :: "string \<Rightarrow> 8 word list option" where
  "base64_decode s = base64_quads (filter (\<lambda>c. of_char c \<noteq> (13::nat) \<and> of_char c \<noteq> (10::nat)) s)"

fun set_bytes :: "json \<Rightarrow> 8 word list option \<Rightarrow> 8 word list option option" where
  "set_bytes (JStr s) d = (case base64_decode s of None \<Rightarrow> None | Some bs \<Rightarrow> Some (Some bs))"
| "set_bytes JNull d = Some None"
| "set_bytes _ d = None"

section \<open>Lemmas\<close>

lemma base64_char_code:
  assumes "n < 64"
  shows "(of_char (base64_char n) :: nat) =
    (if n < 26 then n + 65 else if n < 52 then n + 71 else if n < 62 then n - 4
      else if n = 62 then 43 else 47)"
  using assms by (simp add: base64_char_def)

lemma base64_char_props:
  assumes "n < 64"
  shows "base64_digit (base64_char n) = Some n" and "base64_char n \<noteq> CHR ''=''"
    and "of_char (base64_char n) \<noteq> (13::nat)" and "of_char (base64_char n) \<noteq> (10::nat)"
proof -
  show "base64_digit (base64_char n) = Some n"
    using assms by (auto simp: base64_digit_def Let_def base64_char_code [OF assms])
  have "(of_char (base64_char n) :: nat) \<noteq> of_char (CHR ''='')"
    using assms by (auto simp: base64_char_code [OF assms])
  then show "base64_char n \<noteq> CHR ''=''" by metis
qed (use assms in \<open>auto simp: base64_char_code [OF assms]\<close>)

lemma unat_byte_less: "unat (a :: 8 word) < 256"
  using unsigned_less [of a, where 'a = nat] by simp

lemma byte_of_unat: "word_of_nat (unat (a :: 8 word)) = a"
  by simp

lemma div4_less: "n < 256 \<Longrightarrow> n div 4 < (64::nat)"
  by (simp add: less_mult_imp_div_less)

lemma div16_less: "n < 256 \<Longrightarrow> n div 16 < (16::nat)"
  by (simp add: less_mult_imp_div_less)

lemma div64_less: "n < 256 \<Longrightarrow> n div 64 < (4::nat)"
  by (simp add: less_mult_imp_div_less)

lemma six_bits:
  assumes "m < 256" "n < 256" "k < (256::nat)"
  shows "m div 4 < 64" and "m mod 4 * 16 < 64" and "m mod 4 * 16 + n div 16 < 64"
    and "n mod 16 * 4 < 64" and "n mod 16 * 4 + k div 64 < 64" and "k mod 64 < 64"
proof -
  have "m mod 4 < 4" "n mod 16 < 16" "n div 16 < 16" "k div 64 < 4"
    using assms div16_less [of n] div64_less [of k] by simp_all
  then show "m mod 4 * 16 < 64" "m mod 4 * 16 + n div 16 < 64" "n mod 16 * 4 < 64"
    "n mod 16 * 4 + k div 64 < 64"
    by linarith+
qed (use assms div4_less in simp_all)

lemma regroup:
  assumes "n < 256" and "k < (256::nat)"
  shows "(m div 4 * 4 + (m mod 4 * 16 + n div 16) div 16 = m \<and>
      m div 4 * 4 + m mod 4 * 16 div 16 = m) \<and>
    ((m mod 4 * 16 + n div 16) mod 16 * 16 + (n mod 16 * 4 + k div 64) div 4 = n \<and>
      (m mod 4 * 16 + n div 16) mod 16 * 16 + n mod 16 * 4 div 4 = n) \<and>
    (n mod 16 * 4 + k div 64) mod 4 * 64 + k mod 64 = k"
  using div16_less [OF assms(1)] div64_less [OF assms(2)] by simp

lemma base64_quads_encode: "base64_quads (base64_encode bs) = Some bs"
proof (induction bs rule: base64_encode.induct)
  case 1
  show ?case by simp
next
  case (2 a)
  show ?case
    using six_bits [OF unat_byte_less [of a] unat_byte_less [of a] unat_byte_less [of a]]
      regroup [OF unat_byte_less [of a] unat_byte_less [of a], of "unat a"]
    by (simp add: Let_def base64_char_props)
next
  case (3 a b)
  show ?case
    using six_bits [OF unat_byte_less [of a] unat_byte_less [of b] unat_byte_less [of b]]
      regroup [OF unat_byte_less [of b] unat_byte_less [of b], of "unat a"]
    by (simp add: Let_def base64_char_props)
next
  case (4 a b c rest)
  show ?case
    using six_bits [OF unat_byte_less [of a] unat_byte_less [of b] unat_byte_less [of c]]
      regroup [OF unat_byte_less [of b] unat_byte_less [of c], of "unat a"] 4
    by (simp add: Let_def base64_char_props)
qed

lemma base64_encode_clean:
  "filter (\<lambda>c. of_char c \<noteq> (13::nat) \<and> of_char c \<noteq> (10::nat)) (base64_encode bs) = base64_encode bs"
proof (induction bs rule: base64_encode.induct)
  case (2 a)
  show ?case
    using six_bits [OF unat_byte_less [of a] unat_byte_less [of a] unat_byte_less [of a]]
    by (simp add: Let_def base64_char_props)
next
  case (3 a b)
  show ?case
    using six_bits [OF unat_byte_less [of a] unat_byte_less [of b] unat_byte_less [of b]]
    by (simp add: Let_def base64_char_props)
next
  case (4 a b c rest)
  then show ?case
    using six_bits [OF unat_byte_less [of a] unat_byte_less [of b] unat_byte_less [of c]]
    by (simp add: Let_def base64_char_props)
qed simp

lemma base64_decode_encode [simp]: "base64_decode (base64_encode bs) = Some bs"
  by (simp add: base64_decode_def base64_encode_clean base64_quads_encode)

lemma set_int_sint [simp]:
  fixes i :: "'l::len word"
  shows "set_int (JNum (sint i)) d = Some i"
proof -
  have "- (2 ^ (LENGTH('l) - 1)) \<le> sint i \<and> sint i < 2 ^ (LENGTH('l) - 1)"
    unfolding One_nat_def using sint_greater_eq [of i] sint_less [of i] by (rule conjI)
  then show ?thesis by (simp only: set_int.simps if_True simp_thms of_int_sint scast_id)
qed

lemma set_int_ptr_sint [simp]: "set_int_ptr (JNum (sint i)) d = Some (Some (i :: 'l::len word))"
  by (simp del: set_int.simps)

end
