(* ===== verification/World.thy ===== *)
theory World
  imports Errors Json
begin

text \<open>
  The world the services act on, and the calls that leave the program.

  Every service keeps its state outside the process (Postgres, Valkey, NATS), so its state is a
  record that extends \<open>world\<close>: the environment, the number of external calls made so far, and
  the messages published on NATS.

  The environment decides, for the \<open>n\<close>-th external call, whether it works, fails without any
  effect, or takes effect and then fails to report it (a lost reply); it gives the clock reading
  of that call, the UUID generated for it (\<open>gen_random_uuid()\<close>, \<open>uuid.New()\<close>), and whether the
  caller's context is cancelled by then.  No theorem restricts it unless its statement says so.

  A SQL statement is a function from the clock, a generated UUID and the database of one service
  to a result or a database error; a statement that fails has no effect.  \<open>pool_call\<close> runs one
  statement on the connection pool, \<open>tx_call\<close> inside a transaction on its working copy, which
  \<open>tx_commit\<close> installs.  A request is a function on the world; the theories on interleaving let others act
  between its calls.
\<close>

section \<open>The environment and the world\<close>

datatype fault = Works | Fails external | Lost external

record environment =
  fault_at :: "nat \<Rightarrow> fault"
  clock_at :: "nat \<Rightarrow> time"
  uuid_at :: "nat \<Rightarrow> uuid"
  cancelled_at :: "nat \<Rightarrow> bool"

record world =
  env :: environment
  calls :: nat
  published :: "(string \<times> json) list"

type_synonym ('w, 'a) op = "('w, error, 'a) act"

definition tick :: "'z world_scheme \<Rightarrow> 'z world_scheme" where
  "tick w = w\<lparr>calls := Suc (calls w)\<rparr>"

definition now_in :: "'z world_scheme \<Rightarrow> time" where
  "now_in w = clock_at (env w) (calls w)"

definition uuid_in :: "'z world_scheme \<Rightarrow> uuid" where
  "uuid_in w = uuid_at (env w) (calls w)"

definition ctx_done :: "'z world_scheme \<Rightarrow> bool" where
  "ctx_done w = cancelled_at (env w) (calls w)"

section \<open>External calls\<close>

text \<open>\<open>ext_call f\<close>: the effect \<open>f\<close> of a remote operation, subject to the environment.  A lost
  reply keeps the effect and reports an error; an error of the remote side itself is reported
  as such, or lost too.\<close>

definition ext_call :: "('z world_scheme, 'a) op \<Rightarrow> ('z world_scheme, 'a) op" where
  "ext_call f w =
     (case fault_at (env w) (calls w) of
        Works \<Rightarrow> f (tick w)
      | Fails x \<Rightarrow> (Inl (External x), tick w)
      | Lost x \<Rightarrow> (Inl (External x), snd (f (tick w))))"

text \<open>Publishing on NATS: \<open>js.Publish(ctx, subject, data)\<close>.\<close>

definition js_Publish :: "string \<Rightarrow> json \<Rightarrow> ('z world_scheme, unit) op" where
  "js_Publish subject data =
     ext_call (\<lambda>w. (Inr (), w\<lparr>published := published w @ [(subject, data)]\<rparr>))"

section \<open>The UUID library\<close>

text \<open>\<open>github.com/google/uuid\<close>: \<open>uuid.Parse\<close> and \<open>UUID.String\<close> are parameters.  What the program
  relies on is that a printed UUID is not empty and parses back to itself.\<close>

record uuid_lib =
  uuid_Parse :: "string \<Rightarrow> uuid option"
  uuid_String :: "uuid \<Rightarrow> string"

definition uuid_lib_ok :: "uuid_lib \<Rightarrow> bool" where
  "uuid_lib_ok U \<longleftrightarrow> (\<forall>u. uuid_String U u \<noteq> [] \<and> uuid_Parse U (uuid_String U u) = Some u)"

section \<open>Calls between services\<close>

text \<open>gRPC is a library: \<open>status.FromError\<close> and the status code of a transport failure are
  parameters.  A call runs the handler of the other service in the same world; an error of the
  handler reaches the client as a gRPC status with its code, a failure of the connection as the
  status of that failure (and then the handler may have run).\<close>

record grpc_lib =
  status_FromError :: "error \<Rightarrow> grpc_code option"
  transport_code :: "external \<Rightarrow> grpc_code"

definition error_text :: "error \<Rightarrow> string" where
  "error_text e = (case e of StatusError _ m _ \<Rightarrow> m | GRPCStatus _ m \<Rightarrow> m | _ \<Rightarrow> [])"

definition rpc_status :: "grpc_lib \<Rightarrow> error \<Rightarrow> error" where
  "rpc_status L e =
     GRPCStatus (case status_FromError L e of Some c \<Rightarrow> c | None \<Rightarrow> Unknown) (error_text e)"

definition grpc_call :: "grpc_lib \<Rightarrow> ('z world_scheme, 'a) op \<Rightarrow> ('z world_scheme, 'a) op" where
  "grpc_call L m w =
     (case fault_at (env w) (calls w) of
        Works \<Rightarrow> (case m (tick w) of
            (Inl e, w') \<Rightarrow> (Inl (rpc_status L e), w')
          | (Inr x, w') \<Rightarrow> (Inr x, w'))
      | Fails x \<Rightarrow> (Inl (GRPCStatus (transport_code L x) []), tick w)
      | Lost x \<Rightarrow> (Inl (GRPCStatus (transport_code L x) []), snd (m (tick w))))"

section \<open>SQL statements\<close>

type_synonym ('db, 'a) stmt = "time \<Rightarrow> uuid \<Rightarrow> 'db \<Rightarrow> error + ('a \<times> 'db)"

definition run_stmt :: "('w \<Rightarrow> 'db) \<Rightarrow> ('db \<Rightarrow> 'w \<Rightarrow> 'w) \<Rightarrow> time \<Rightarrow> uuid \<Rightarrow> ('db, 'a) stmt \<Rightarrow> ('w, 'a) op" where
  "run_stmt get put t u s w =
     (case s t u (get w) of Inl e \<Rightarrow> (Inl e, w) | Inr (a, db) \<Rightarrow> (Inr a, put db w))"

definition pool_call :: "('z world_scheme \<Rightarrow> 'db) \<Rightarrow> ('db \<Rightarrow> 'z world_scheme \<Rightarrow> 'z world_scheme)
    \<Rightarrow> ('db, 'a) stmt \<Rightarrow> ('z world_scheme, 'a) op" where
  "pool_call get put s w = ext_call (run_stmt get put (now_in w) (uuid_in w) s) w"

text \<open>A transaction works on a copy of the database beside the world.  \<open>now()\<close> inside a
  transaction is its start time.\<close>

definition tx_call :: "time \<Rightarrow> ('db, 'a) stmt \<Rightarrow> ('z world_scheme \<times> 'db, 'a) op" where
  "tx_call t s wd =
     (case wd of (w, db) \<Rightarrow>
       (case fault_at (env w) (calls w) of
          Works \<Rightarrow> (case s t (uuid_in w) db of
                      Inl e \<Rightarrow> (Inl e, (tick w, db))
                    | Inr (a, db') \<Rightarrow> (Inr a, (tick w, db')))
        | Fails x \<Rightarrow> (Inl (External x), (tick w, db))
        | Lost x \<Rightarrow> (Inl (External x), (tick w, db))))"

definition tx_commit :: "('db \<Rightarrow> 'z world_scheme \<Rightarrow> 'z world_scheme)
    \<Rightarrow> ('z world_scheme \<times> 'db, unit) op" where
  "tx_commit put wd =
     (case wd of (w, db) \<Rightarrow>
       (case fault_at (env w) (calls w) of
          Works \<Rightarrow> (Inr (), (tick (put db w), db))
        | Fails x \<Rightarrow> (Inl (External x), (tick w, db))
        | Lost x \<Rightarrow> (Inl (External x), (tick (put db w), db))))"

text \<open>\<open>pool.BeginTx\<close>; the body runs on a copy of the database, and leaving it without a commit
  (the deferred \<open>tx.Rollback\<close>) drops the copy.\<close>

definition in_tx :: "('z world_scheme \<Rightarrow> 'db) \<Rightarrow> (time \<Rightarrow> ('z world_scheme \<times> 'db, 'a) op)
    \<Rightarrow> ('z world_scheme, 'a) op" where
  "in_tx get body w = (case body (now_in w) (w, get w) of (r, (w', _)) \<Rightarrow> (r, w'))"

definition begin_tx :: "('z world_scheme, unit) op" where
  "begin_tx = ext_call (\<lambda>w. (Inr (), w))"

text \<open>\<open>QueryRow(...).Scan\<close> of a statement that returns no row is \<open>pgx.ErrNoRows\<close>.\<close>

definition one_row :: "('db, 'a option) stmt \<Rightarrow> ('db, 'a) stmt" where
  "one_row s t u db =
     (case s t u db of
        Inl e \<Rightarrow> Inl e
      | Inr (None, _) \<Rightarrow> Inl (Sentinel pgx_ErrNoRows)
      | Inr (Some a, db') \<Rightarrow> Inr (a, db'))"

text \<open>Iterating over the rows of a query: \<open>rows.Scan\<close> may fail on one of them, and \<open>rows.Err()\<close>
  reports afterwards whether all were read.\<close>

definition rows_Scan :: "('z world_scheme, unit) op" where
  "rows_Scan = ext_call (\<lambda>w. (Inr (), w))"

definition rows_Err :: "('z world_scheme, unit) op" where
  "rows_Err = ext_call (\<lambda>w. (Inr (), w))"

text \<open>\<open>VARCHAR(n)\<close>: a NUL is an error, and a longer value too, unless all past \<open>n\<close> is blanks.\<close>

definition varchar :: "nat \<Rightarrow> string \<Rightarrow> error + string" where
  "varchar n s =
     (if \<not> no_nul s then Inl (External (PgError ''22021''))
      else if length s \<le> n then Inr s
      else if list_all (\<lambda>c. c = CHR '' '') (drop n s) then Inr (take n s)
      else Inl (External (PgError ''22001'')))"

lemmas world_defs = ext_call_def run_stmt_def pool_call_def tx_call_def tx_commit_def in_tx_def
  begin_tx_def one_row_def rows_Scan_def rows_Err_def now_in_def uuid_in_def ctx_done_def js_Publish_def
lemmas [act_defs] = world_defs tick_def

section \<open>Lemmas\<close>

lemma tick_simps [simp]:
  "env (tick w) = env w" "calls (tick w) = Suc (calls w)" "published (tick w) = published w"
  "world.more (tick w) = world.more w"
  by (simp_all add: tick_def)

text \<open>An environment in which every external call works.\<close>

definition calm :: "'z world_scheme \<Rightarrow> bool" where
  "calm w \<longleftrightarrow> (\<forall>n. fault_at (env w) n = Works \<and> \<not> cancelled_at (env w) n)"

lemma calm_simps [simp]:
  "calm w \<Longrightarrow> fault_at (env w) n = Works" "calm w \<Longrightarrow> \<not> cancelled_at (env w) n"
  "calm (tick w) = calm w"
  by (simp_all add: calm_def)

lemma not_calm [dest]:
  "fault_at (env w) n = Fails x \<Longrightarrow> \<not> calm w" "fault_at (env w) n = Lost x \<Longrightarrow> \<not> calm w"
  unfolding calm_def by (metis fault.distinct(1))(metis fault.distinct(3))

lemma ext_call_calm: "calm w \<Longrightarrow> ext_call f w = f (tick w)"
  by (simp add: ext_call_def)

text \<open>A statement on the pool: its four outcomes, with the world each leaves.\<close>

lemma wp_pool_call:
  assumes "get (tick w) = get w"
    and "\<And>x. \<not> calm w \<Longrightarrow> E (External x) (tick w)"
    and "\<And>x t u a db. \<not> calm w \<Longrightarrow> s t u (get w) = Inr (a, db) \<Longrightarrow> E (External x) (put db (tick w))"
    and "\<And>t u e. u = uuid_in w \<Longrightarrow> s t u (get w) = Inl e \<Longrightarrow> E e (tick w)"
    and "\<And>t u a db. s t u (get w) = Inr (a, db) \<Longrightarrow> Q a (put db (tick w))"
  shows "wp (pool_call get put s) Q E w"
proof (cases "s (now_in w) (uuid_in w) (get w)")
  case (Inl e)
  with assms show ?thesis
    by (auto simp: wp_def pool_call_def ext_call_def run_stmt_def split: fault.splits)
next
  case (Inr p)
  with assms show ?thesis
    by (cases p) (auto simp: wp_def pool_call_def ext_call_def run_stmt_def split: fault.splits)
qed

lemma wp_grpc_call:
  assumes "wp m (\<lambda>x w'. (\<not> calm w \<longrightarrow> (\<forall>c. E (GRPCStatus c []) w')) \<and> Q x w')
      (\<lambda>e w'. (\<not> calm w \<longrightarrow> (\<forall>c. E (GRPCStatus c []) w')) \<and> E (rpc_status L e) w') (tick w)"
    and "\<And>c. \<not> calm w \<Longrightarrow> E (GRPCStatus c []) (tick w)"
  shows "wp (grpc_call L m) Q E w"
proof (cases "fault_at (env w) (calls w)")
  case Works
  with assms(1) show ?thesis by (auto simp: wp_def grpc_call_def split: prod.splits sum.splits)
next
  case (Fails x)
  with assms(2) show ?thesis by (auto simp: wp_def grpc_call_def)
next
  case (Lost x)
  then have "\<not> calm w" by blast
  with Lost assms(1) show ?thesis by (auto simp: wp_def grpc_call_def split: prod.splits sum.splits)
qed

lemma kept_grpc_call:
  assumes "\<And>w. I (tick w) = I w" and "kept I m"
  shows "kept I (grpc_call L m)"
proof -
  have "I (snd (grpc_call L m w))" if "I w" for w
    using that assms(1) [of w] keptD [OF assms(2), of "tick w"]
    by (cases "m (tick w)") (auto simp: grpc_call_def split: fault.splits sum.splits)
  then show ?thesis by (simp add: kept_def)
qed

lemma wp_idle_call:
  assumes "\<And>x. \<not> calm w \<Longrightarrow> E (External x) (tick w)" and "Q () (tick w)"
  shows "wp (ext_call (\<lambda>w. (Inr (), w))) Q E w"
  using assms by (auto simp: wp_def ext_call_def split: fault.splits)

lemma wp_js_Publish:
  assumes "\<And>x. \<not> calm w \<Longrightarrow> E (External x) (tick w)"
    and "\<And>x. \<not> calm w \<Longrightarrow> E (External x) ((tick w)\<lparr>published := published w @ [(s, d)]\<rparr>)"
    and "Q () ((tick w)\<lparr>published := published w @ [(s, d)]\<rparr>)"
  shows "wp (js_Publish s d) Q E w"
  using assms by (auto simp: wp_def js_Publish_def ext_call_def split: fault.splits)

lemma calm_published [simp]: "calm (w\<lparr>published := p\<rparr>) = calm w"
  unfolding calm_def by simp

text \<open>An invariant that ignores the number of calls is kept by an external call when its effect
  keeps it.\<close>

lemma kept_ext_call:
  assumes "\<And>w. I (tick w) = I w" and "kept I f"
  shows "kept I (ext_call f)"
  using assms unfolding kept_def ext_call_def
  by (auto split: fault.splits)

lemma kept_js_Publish:
  assumes "\<And>w. I (tick w) = I w"
    and "\<And>w p. I w \<Longrightarrow> I (w\<lparr>published := p\<rparr>)"
  shows "kept I (js_Publish s d)"
  unfolding js_Publish_def
  by (rule kept_ext_call) (use assms in \<open>auto simp: kept_def\<close>)

lemma varchar_Inr_length: "varchar n s = Inr t \<Longrightarrow> length t \<le> n"
  by (auto simp: varchar_def split: if_splits)

text \<open>A text that fits its column.\<close>

definition fits :: "nat \<Rightarrow> string \<Rightarrow> bool" where
  "fits n s \<longleftrightarrow> no_nul s \<and> length s \<le> n"

lemma varchar_short: "fits n s \<Longrightarrow> varchar n s = Inr s"
  by (simp add: varchar_def fits_def)

lemma one_row_Inr: "one_row s t u db = Inr (a, db') \<longleftrightarrow> s t u db = Inr (Some a, db')"
  by (auto simp: one_row_def split: sum.splits prod.splits option.splits)

lemma one_row_Inl: "one_row s t u db = Inl e \<longleftrightarrow>
    s t u db = Inl e \<or> (e = Sentinel pgx_ErrNoRows \<and> (\<exists>db'. s t u db = Inr (None, db')))"
  by (auto simp: one_row_def split: sum.splits prod.splits option.splits)

end
