(* ===== verification/MessageContent.thy ===== *)
theory MessageContent
  imports World
begin

text \<open>
  The contents of messages: the types of \<open>services/message/internal/repository/message.go\<close> and
  \<open>internal/service/types.go\<close>, the JSON form of the column \<open>content\<close> (\<open>marshalContent\<close> and
  \<open>unmarshalContent\<close> of \<open>internal/repository/postgres.go\<close>) and the mappers between the packages
  (\<open>internal/service/mapper.go\<close>, \<open>internal/handler/mapper.go\<close>).

  The structs \<open>MediaContent\<close>, \<open>FileContent\<close> and so on are declared alike in the repository, the
  service and the protobuf package; one record stands for the three, while the sum types that
  hold them are kept apart.  A \<open>[]byte\<close> that may be \<open>nil\<close> is an optional list of bytes.

  The lemmas show that a content read back under a type it belongs to is the content that was
  written, and that the mappers neither lose nor change anything.
\<close>

section \<open>Types\<close>

type_synonym MessageType = string

definition MessageTypeText :: MessageType where "MessageTypeText = ''text''"
definition MessageTypeImage :: MessageType where "MessageTypeImage = ''image''"
definition MessageTypeVideo :: MessageType where "MessageTypeVideo = ''video''"
definition MessageTypeVideoNote :: MessageType where "MessageTypeVideoNote = ''video_note''"
definition MessageTypeVoice :: MessageType where "MessageTypeVoice = ''voice''"
definition MessageTypeAudio :: MessageType where "MessageTypeAudio = ''audio''"
definition MessageTypeFile :: MessageType where "MessageTypeFile = ''file''"
definition MessageTypeSticker :: MessageType where "MessageTypeSticker = ''sticker''"
definition MessageTypeVideoSticker :: MessageType where "MessageTypeVideoSticker = ''video_sticker''"
definition MessageTypeEvent :: MessageType where "MessageTypeEvent = ''event''"

lemmas message_type_defs = MessageTypeText_def MessageTypeImage_def MessageTypeVideo_def
  MessageTypeVideoNote_def MessageTypeVoice_def MessageTypeAudio_def MessageTypeFile_def
  MessageTypeSticker_def MessageTypeVideoSticker_def MessageTypeEvent_def

record TextContent =
  tc_Text :: string

record MediaContent =
  mc_FileID :: string
  mc_MimeType :: string
  mc_FileSize :: "64 word"
  mc_Width :: "32 word"
  mc_Height :: "32 word"
  mc_ThumbnailID :: "string option"
  mc_DurationSec :: "32 word option"

record FileContent =
  fc_FileID :: string
  fc_MimeType :: string
  fc_FileSize :: "64 word"
  fc_FileName :: string
  fc_DurationSec :: "32 word option"

record VoiceContent =
  vc_FileID :: string
  vc_MimeType :: string
  vc_FileSize :: "64 word"
  vc_DurationSec :: "32 word"
  vc_Waveform :: "8 word list option"

record VideoNoteContent =
  vn_FileID :: string
  vn_MimeType :: string
  vn_FileSize :: "64 word"
  vn_DurationSec :: "32 word"
  vn_Width :: "32 word"
  vn_Height :: "32 word"
  vn_ThumbnailID :: "string option"

record StickerContent =
  sc_FileID :: string
  sc_MimeType :: string
  sc_Emoji :: "string option"
  sc_SetName :: "string option"

record EventContent =
  ec_Text :: string

text \<open>The interface \<open>MessageContent\<close> of the repository and of the service; \<open>nil\<close> is \<open>None\<close> of an
  option around it.\<close>

datatype rContent =
    RText TextContent | RMedia MediaContent | RFile FileContent | RVoice VoiceContent
  | RVideoNote VideoNoteContent | RSticker StickerContent | REvent EventContent

datatype sContent =
    SText TextContent | SMedia MediaContent | SFile FileContent | SVoice VoiceContent
  | SVideoNote VideoNoteContent | SSticker StickerContent | SEvent EventContent

section \<open>JSON\<close>

definition json_opt :: "('a \<Rightarrow> json) \<Rightarrow> 'a option \<Rightarrow> json" where
  "json_opt f v = (case v of None \<Rightarrow> JNull | Some x \<Rightarrow> f x)"

definition json_int :: "('l::len) word \<Rightarrow> json" where
  "json_int i = JNum (sint i)"

definition json_bytes :: "8 word list \<Rightarrow> json" where
  "json_bytes bs = JStr (base64_encode bs)"

fun marshalContent :: "rContent option \<Rightarrow> error + json" where
  "marshalContent None = Inl (Errorf ''unknown content type'')"
| "marshalContent (Some (RText c)) = Inr (JObj [(''Text'', JStr (tc_Text c))])"
| "marshalContent (Some (RMedia c)) = Inr (JObj
     [(''FileID'', JStr (mc_FileID c)), (''MimeType'', JStr (mc_MimeType c)),
      (''FileSize'', json_int (mc_FileSize c)), (''Width'', json_int (mc_Width c)),
      (''Height'', json_int (mc_Height c)), (''ThumbnailID'', json_opt JStr (mc_ThumbnailID c)),
      (''DurationSec'', json_opt json_int (mc_DurationSec c))])"
| "marshalContent (Some (RFile c)) = Inr (JObj
     [(''FileID'', JStr (fc_FileID c)), (''MimeType'', JStr (fc_MimeType c)),
      (''FileSize'', json_int (fc_FileSize c)), (''FileName'', JStr (fc_FileName c)),
      (''DurationSec'', json_opt json_int (fc_DurationSec c))])"
| "marshalContent (Some (RVoice c)) = Inr (JObj
     [(''FileID'', JStr (vc_FileID c)), (''MimeType'', JStr (vc_MimeType c)),
      (''FileSize'', json_int (vc_FileSize c)), (''DurationSec'', json_int (vc_DurationSec c)),
      (''Waveform'', json_opt json_bytes (vc_Waveform c))])"
| "marshalContent (Some (RVideoNote c)) = Inr (JObj
     [(''FileID'', JStr (vn_FileID c)), (''MimeType'', JStr (vn_MimeType c)),
      (''FileSize'', json_int (vn_FileSize c)), (''DurationSec'', json_int (vn_DurationSec c)),
      (''Width'', json_int (vn_Width c)), (''Height'', json_int (vn_Height c)),
      (''ThumbnailID'', json_opt JStr (vn_ThumbnailID c))])"
| "marshalContent (Some (RSticker c)) = Inr (JObj
     [(''FileID'', JStr (sc_FileID c)), (''MimeType'', JStr (sc_MimeType c)),
      (''Emoji'', json_opt JStr (sc_Emoji c)), (''SetName'', json_opt JStr (sc_SetName c))])"
| "marshalContent (Some (REvent c)) = Inr (JObj [(''Text'', JStr (ec_Text c))])"

text \<open>\<open>json.Unmarshal\<close> into each struct.\<close>

definition unmarshal_text :: "(string \<times> json) list \<Rightarrow> string option" where
  "unmarshal_text kvs = json_field set_string ''Text'' [] kvs"

definition unmarshal_media :: "(string \<times> json) list \<Rightarrow> MediaContent option" where
  "unmarshal_media kvs =
     Option.bind (json_field set_string ''FileID'' [] kvs) (\<lambda>a.
     Option.bind (json_field set_string ''MimeType'' [] kvs) (\<lambda>b.
     Option.bind (json_field set_int ''FileSize'' 0 kvs) (\<lambda>c.
     Option.bind (json_field set_int ''Width'' 0 kvs) (\<lambda>d.
     Option.bind (json_field set_int ''Height'' 0 kvs) (\<lambda>e.
     Option.bind (json_field set_string_ptr ''ThumbnailID'' None kvs) (\<lambda>f.
     Option.bind (json_field set_int_ptr ''DurationSec'' None kvs) (\<lambda>g.
       Some \<lparr>mc_FileID = a, mc_MimeType = b, mc_FileSize = c, mc_Width = d, mc_Height = e,
             mc_ThumbnailID = f, mc_DurationSec = g\<rparr>)))))))"

definition unmarshal_file :: "(string \<times> json) list \<Rightarrow> FileContent option" where
  "unmarshal_file kvs =
     Option.bind (json_field set_string ''FileID'' [] kvs) (\<lambda>a.
     Option.bind (json_field set_string ''MimeType'' [] kvs) (\<lambda>b.
     Option.bind (json_field set_int ''FileSize'' 0 kvs) (\<lambda>c.
     Option.bind (json_field set_string ''FileName'' [] kvs) (\<lambda>d.
     Option.bind (json_field set_int_ptr ''DurationSec'' None kvs) (\<lambda>e.
       Some \<lparr>fc_FileID = a, fc_MimeType = b, fc_FileSize = c, fc_FileName = d, fc_DurationSec = e\<rparr>)))))"

definition unmarshal_voice :: "(string \<times> json) list \<Rightarrow> VoiceContent option" where
  "unmarshal_voice kvs =
     Option.bind (json_field set_string ''FileID'' [] kvs) (\<lambda>a.
     Option.bind (json_field set_string ''MimeType'' [] kvs) (\<lambda>b.
     Option.bind (json_field set_int ''FileSize'' 0 kvs) (\<lambda>c.
     Option.bind (json_field set_int ''DurationSec'' 0 kvs) (\<lambda>d.
     Option.bind (json_field set_bytes ''Waveform'' None kvs) (\<lambda>e.
       Some \<lparr>vc_FileID = a, vc_MimeType = b, vc_FileSize = c, vc_DurationSec = d, vc_Waveform = e\<rparr>)))))"

definition unmarshal_video_note :: "(string \<times> json) list \<Rightarrow> VideoNoteContent option" where
  "unmarshal_video_note kvs =
     Option.bind (json_field set_string ''FileID'' [] kvs) (\<lambda>a.
     Option.bind (json_field set_string ''MimeType'' [] kvs) (\<lambda>b.
     Option.bind (json_field set_int ''FileSize'' 0 kvs) (\<lambda>c.
     Option.bind (json_field set_int ''DurationSec'' 0 kvs) (\<lambda>d.
     Option.bind (json_field set_int ''Width'' 0 kvs) (\<lambda>e.
     Option.bind (json_field set_int ''Height'' 0 kvs) (\<lambda>f.
     Option.bind (json_field set_string_ptr ''ThumbnailID'' None kvs) (\<lambda>g.
       Some \<lparr>vn_FileID = a, vn_MimeType = b, vn_FileSize = c, vn_DurationSec = d, vn_Width = e,
             vn_Height = f, vn_ThumbnailID = g\<rparr>)))))))"

definition unmarshal_sticker :: "(string \<times> json) list \<Rightarrow> StickerContent option" where
  "unmarshal_sticker kvs =
     Option.bind (json_field set_string ''FileID'' [] kvs) (\<lambda>a.
     Option.bind (json_field set_string ''MimeType'' [] kvs) (\<lambda>b.
     Option.bind (json_field set_string_ptr ''Emoji'' None kvs) (\<lambda>c.
     Option.bind (json_field set_string_ptr ''SetName'' None kvs) (\<lambda>d.
       Some \<lparr>sc_FileID = a, sc_MimeType = b, sc_Emoji = c, sc_SetName = d\<rparr>))))"

definition unmarshal_as :: "((string \<times> json) list \<Rightarrow> 'a option) \<Rightarrow> ('a \<Rightarrow> rContent) \<Rightarrow> json \<Rightarrow> error + rContent" where
  "unmarshal_as f C j =
     (case Option.bind (json_members j) f of
        None \<Rightarrow> Inl (External (IOError ''json''))
      | Some c \<Rightarrow> Inr (C c))"

definition unmarshalContent :: "MessageType \<Rightarrow> json \<Rightarrow> error + rContent" where
  "unmarshalContent msgType data =
     (if msgType = MessageTypeText
      then unmarshal_as unmarshal_text (\<lambda>t. RText \<lparr>tc_Text = t\<rparr>) data
      else if msgType \<in> {MessageTypeImage, MessageTypeVideo}
      then unmarshal_as unmarshal_media RMedia data
      else if msgType \<in> {MessageTypeFile, MessageTypeAudio}
      then unmarshal_as unmarshal_file RFile data
      else if msgType = MessageTypeVoice
      then unmarshal_as unmarshal_voice RVoice data
      else if msgType = MessageTypeVideoNote
      then unmarshal_as unmarshal_video_note RVideoNote data
      else if msgType \<in> {MessageTypeSticker, MessageTypeVideoSticker}
      then unmarshal_as unmarshal_sticker RSticker data
      else if msgType = MessageTypeEvent
      then unmarshal_as unmarshal_text (\<lambda>t. REvent \<lparr>ec_Text = t\<rparr>) data
      else Inl (Errorf ''unknown message type''))"

section \<open>The mappers of the service\<close>

fun toContent :: "rContent option \<Rightarrow> sContent option" where
  "toContent None = None"
| "toContent (Some (RText v)) = Some (SText \<lparr>tc_Text = tc_Text v\<rparr>)"
| "toContent (Some (RMedia v)) = Some (SMedia
     \<lparr>mc_FileID = mc_FileID v, mc_MimeType = mc_MimeType v, mc_FileSize = mc_FileSize v,
      mc_Width = mc_Width v, mc_Height = mc_Height v, mc_ThumbnailID = mc_ThumbnailID v,
      mc_DurationSec = mc_DurationSec v\<rparr>)"
| "toContent (Some (RFile v)) = Some (SFile
     \<lparr>fc_FileID = fc_FileID v, fc_MimeType = fc_MimeType v, fc_FileSize = fc_FileSize v,
      fc_FileName = fc_FileName v, fc_DurationSec = fc_DurationSec v\<rparr>)"
| "toContent (Some (RVoice v)) = Some (SVoice
     \<lparr>vc_FileID = vc_FileID v, vc_MimeType = vc_MimeType v, vc_FileSize = vc_FileSize v,
      vc_DurationSec = vc_DurationSec v, vc_Waveform = vc_Waveform v\<rparr>)"
| "toContent (Some (RVideoNote v)) = Some (SVideoNote
     \<lparr>vn_FileID = vn_FileID v, vn_MimeType = vn_MimeType v, vn_FileSize = vn_FileSize v,
      vn_DurationSec = vn_DurationSec v, vn_Width = vn_Width v, vn_Height = vn_Height v,
      vn_ThumbnailID = vn_ThumbnailID v\<rparr>)"
| "toContent (Some (RSticker v)) = Some (SSticker
     \<lparr>sc_FileID = sc_FileID v, sc_MimeType = sc_MimeType v, sc_Emoji = sc_Emoji v,
      sc_SetName = sc_SetName v\<rparr>)"
| "toContent (Some (REvent v)) = Some (SEvent \<lparr>ec_Text = ec_Text v\<rparr>)"

fun toRepoContent :: "sContent option \<Rightarrow> rContent option" where
  "toRepoContent None = None"
| "toRepoContent (Some (SText v)) = Some (RText \<lparr>tc_Text = tc_Text v\<rparr>)"
| "toRepoContent (Some (SMedia v)) = Some (RMedia
     \<lparr>mc_FileID = mc_FileID v, mc_MimeType = mc_MimeType v, mc_FileSize = mc_FileSize v,
      mc_Width = mc_Width v, mc_Height = mc_Height v, mc_ThumbnailID = mc_ThumbnailID v,
      mc_DurationSec = mc_DurationSec v\<rparr>)"
| "toRepoContent (Some (SFile v)) = Some (RFile
     \<lparr>fc_FileID = fc_FileID v, fc_MimeType = fc_MimeType v, fc_FileSize = fc_FileSize v,
      fc_FileName = fc_FileName v, fc_DurationSec = fc_DurationSec v\<rparr>)"
| "toRepoContent (Some (SVoice v)) = Some (RVoice
     \<lparr>vc_FileID = vc_FileID v, vc_MimeType = vc_MimeType v, vc_FileSize = vc_FileSize v,
      vc_DurationSec = vc_DurationSec v, vc_Waveform = vc_Waveform v\<rparr>)"
| "toRepoContent (Some (SVideoNote v)) = Some (RVideoNote
     \<lparr>vn_FileID = vn_FileID v, vn_MimeType = vn_MimeType v, vn_FileSize = vn_FileSize v,
      vn_DurationSec = vn_DurationSec v, vn_Width = vn_Width v, vn_Height = vn_Height v,
      vn_ThumbnailID = vn_ThumbnailID v\<rparr>)"
| "toRepoContent (Some (SSticker v)) = Some (RSticker
     \<lparr>sc_FileID = sc_FileID v, sc_MimeType = sc_MimeType v, sc_Emoji = sc_Emoji v,
      sc_SetName = sc_SetName v\<rparr>)"
| "toRepoContent (Some (SEvent v)) = Some (REvent \<lparr>ec_Text = ec_Text v\<rparr>)"

section \<open>Lemmas\<close>

text \<open>The types a content may be stored under.\<close>

definition content_types :: "rContent \<Rightarrow> MessageType list" where
  "content_types c =
     (case c of
        RText _ \<Rightarrow> [MessageTypeText]
      | RMedia _ \<Rightarrow> [MessageTypeImage, MessageTypeVideo]
      | RFile _ \<Rightarrow> [MessageTypeFile, MessageTypeAudio]
      | RVoice _ \<Rightarrow> [MessageTypeVoice]
      | RVideoNote _ \<Rightarrow> [MessageTypeVideoNote]
      | RSticker _ \<Rightarrow> [MessageTypeSticker, MessageTypeVideoSticker]
      | REvent _ \<Rightarrow> [MessageTypeEvent])"

lemma mappers_inverse [simp]: "toContent (toRepoContent c) = c" "toRepoContent (toContent r) = r"
proof -
  show "toContent (toRepoContent c) = c"
    by (cases c rule: toRepoContent.cases) simp_all
  show "toRepoContent (toContent r) = r"
    by (cases r rule: toContent.cases) simp_all
qed

lemma key_matches_refl [simp]: "key_matches k k"
  by (simp add: key_matches_def)

lemma key_matches_length: "length k \<noteq> length name \<Longrightarrow> \<not> key_matches name k"
  unfolding key_matches_def by (metis length_map)

lemma keys_differ [simp]:
  "\<not> key_matches ''FileSize'' ''MimeType''" "\<not> key_matches ''MimeType'' ''FileSize''"
  "\<not> key_matches ''FileID'' ''Height''" "\<not> key_matches ''Height'' ''FileID''"
  "\<not> key_matches ''ThumbnailID'' ''DurationSec''" "\<not> key_matches ''DurationSec'' ''ThumbnailID''"
  "\<not> key_matches ''FileName'' ''MimeType''" "\<not> key_matches ''MimeType'' ''FileName''"
  "\<not> key_matches ''FileName'' ''FileSize''" "\<not> key_matches ''FileSize'' ''FileName''"
  "\<not> key_matches ''Waveform'' ''MimeType''" "\<not> key_matches ''MimeType'' ''Waveform''"
  "\<not> key_matches ''Waveform'' ''FileSize''" "\<not> key_matches ''FileSize'' ''Waveform''"
  by (simp_all add: key_matches_def ascii_lower_def)

lemma set_opt_simps [simp]:
  fixes i :: "('l::len) word option" and j :: "'l word"
  shows "set_string_ptr (json_opt JStr v) None = Some v"
    and "set_int_ptr (json_opt json_int i) None = Some i"
    and "set_int (json_int j) d = Some j"
    and "set_bytes (json_opt json_bytes b) None = Some b"
proof -
  show "set_string_ptr (json_opt JStr v) None = Some v"
    by (cases v) (simp_all add: json_opt_def)
  show "set_int_ptr (json_opt json_int i) None = Some i"
    by (cases i) (simp_all add: json_opt_def json_int_def del: set_int_ptr.simps(2-) set_int.simps)
  show "set_int (json_int j) d = Some j"
    unfolding json_int_def by (rule set_int_sint)
  show "set_bytes (json_opt json_bytes b) None = Some b"
    by (cases b) (simp_all add: json_opt_def json_bytes_def)
qed

lemma unmarshal_dispatch:
  "unmarshalContent MessageTypeText = unmarshal_as unmarshal_text (\<lambda>t. RText \<lparr>tc_Text = t\<rparr>)"
  "unmarshalContent MessageTypeImage = unmarshal_as unmarshal_media RMedia"
  "unmarshalContent MessageTypeVideo = unmarshal_as unmarshal_media RMedia"
  "unmarshalContent MessageTypeFile = unmarshal_as unmarshal_file RFile"
  "unmarshalContent MessageTypeAudio = unmarshal_as unmarshal_file RFile"
  "unmarshalContent MessageTypeVoice = unmarshal_as unmarshal_voice RVoice"
  "unmarshalContent MessageTypeVideoNote = unmarshal_as unmarshal_video_note RVideoNote"
  "unmarshalContent MessageTypeSticker = unmarshal_as unmarshal_sticker RSticker"
  "unmarshalContent MessageTypeVideoSticker = unmarshal_as unmarshal_sticker RSticker"
  "unmarshalContent MessageTypeEvent = unmarshal_as unmarshal_text (\<lambda>t. REvent \<lparr>ec_Text = t\<rparr>)"
  by (simp_all add: unmarshalContent_def message_type_defs fun_eq_iff)

lemma unmarshal_as_simp:
  "unmarshal_as f C (JObj kvs) = (case f kvs of None \<Rightarrow> Inl (External (IOError ''json'')) | Some c \<Rightarrow> Inr (C c))"
  by (simp add: unmarshal_as_def json_members_def)

lemmas unmarshal_struct_simps = unmarshal_as_simp key_matches_length unmarshal_text_def unmarshal_media_def
  unmarshal_file_def unmarshal_voice_def unmarshal_video_note_def unmarshal_sticker_def

text \<open>Reading back what was written, for a type the content belongs to.\<close>

lemma unmarshal_marshal:
  assumes "ty \<in> set (content_types c)" and "marshalContent (Some c) = Inr j"
  shows "unmarshalContent ty j = Inr c"
proof (cases c)
  case (RText x)
  with assms show ?thesis
    by (auto simp: content_types_def unmarshal_dispatch unmarshal_struct_simps)
next
  case (RMedia x)
  with assms show ?thesis
    by (auto simp: content_types_def unmarshal_dispatch unmarshal_struct_simps
        simp del: set_int.simps set_int_ptr.simps)
next
  case (RFile x)
  with assms show ?thesis
    by (auto simp: content_types_def unmarshal_dispatch unmarshal_struct_simps
        simp del: set_int.simps set_int_ptr.simps)
next
  case (RVoice x)
  with assms show ?thesis
    by (auto simp: content_types_def unmarshal_dispatch unmarshal_struct_simps
        simp del: set_int.simps set_int_ptr.simps)
next
  case (RVideoNote x)
  with assms show ?thesis
    by (auto simp: content_types_def unmarshal_dispatch unmarshal_struct_simps
        simp del: set_int.simps set_int_ptr.simps)
next
  case (RSticker x)
  with assms show ?thesis
    by (auto simp: content_types_def unmarshal_dispatch unmarshal_struct_simps)
next
  case (REvent x)
  with assms show ?thesis
    by (auto simp: content_types_def unmarshal_dispatch unmarshal_struct_simps)
qed

lemma marshal_total: "\<exists>j. marshalContent (Some c) = Inr j"
  by (cases c) simp_all

end
