(* ===== verification/RoomRepo.thy ===== *)
theory RoomRepo
  imports World
begin

text \<open>
  \<open>services/room/internal/repository/room.go\<close> over the schema of
  \<open>services/room/migrations\<close>.

  The tables \<open>rooms\<close> and \<open>room_members\<close> are lists of rows in insertion order.  Each SQL statement
  of the file is a function \<open>sql_*\<close>, with the constraints of the schema (primary keys, the foreign
  key with its cascade, the enum types, \<open>VARCHAR(100)\<close>); each method of \<open>pgRoomRepository\<close> is a
  function \<open>pgRoom_*\<close> that issues its statements in the order of the code.  The interface
  \<open>RoomRepository\<close> is a record of functions, as the service sees it, and \<open>pgRoomRepository\<close>
  fills it.

  The lemmas describe what each statement does to the two lookups \<open>room_at\<close> and \<open>role_at\<close>, which
  is all the service depends on.
\<close>

section \<open>Types\<close>

text \<open>\<open>type RoomType string\<close>, \<open>type MemberRole string\<close> and their constants.\<close>

type_synonym RoomType = string
type_synonym MemberRole = string

definition RoomTypeDirect :: RoomType where "RoomTypeDirect = ''direct''"
definition RoomTypeGroup :: RoomType where "RoomTypeGroup = ''group''"
definition MemberRoleOwner :: MemberRole where "MemberRoleOwner = ''owner''"
definition MemberRoleMember :: MemberRole where "MemberRoleMember = ''member''"

lemmas room_consts = RoomTypeDirect_def RoomTypeGroup_def MemberRoleOwner_def MemberRoleMember_def

lemma role_distinct [simp]: "MemberRoleOwner \<noteq> MemberRoleMember" "MemberRoleMember \<noteq> MemberRoleOwner"
  by (simp_all add: room_consts)

lemma type_distinct [simp]: "RoomTypeDirect \<noteq> RoomTypeGroup" "RoomTypeGroup \<noteq> RoomTypeDirect"
  by (simp_all add: room_consts)

record Room =
  room_ID :: uuid
  room_Name :: string
  room_Type :: RoomType
  room_CreatedBy :: uuid
  room_CreatedAt :: time
  room_UpdatedAt :: time

record RoomMember =
  rm_RoomID :: uuid
  rm_UserID :: uuid
  rm_Role :: MemberRole
  rm_JoinedAt :: time

record room_tables =
  rooms :: "Room list"
  room_members :: "RoomMember list"

record room_world = world +
  room_db :: room_tables

record 'w RoomRepository =
  repo_CreateRoom :: "string \<Rightarrow> RoomType \<Rightarrow> uuid \<Rightarrow> uuid \<Rightarrow> ('w, Room) op"
  repo_GetRoomByID :: "uuid \<Rightarrow> ('w, Room) op"
  repo_UpdateRoom :: "uuid \<Rightarrow> string \<Rightarrow> ('w, Room) op"
  repo_DeleteRoom :: "uuid \<Rightarrow> ('w, unit) op"
  repo_AddMember :: "uuid \<Rightarrow> uuid \<Rightarrow> MemberRole \<Rightarrow> ('w, RoomMember) op"
  repo_RemoveMember :: "uuid \<Rightarrow> uuid \<Rightarrow> ('w, unit) op"
  repo_GetRoomMembers :: "uuid \<Rightarrow> ('w, RoomMember list) op"
  repo_IsMember :: "uuid \<Rightarrow> uuid \<Rightarrow> ('w, bool) op"
  repo_GetMemberRole :: "uuid \<Rightarrow> uuid \<Rightarrow> ('w, MemberRole) op"
  repo_GetDirectRoomByUsers :: "uuid \<Rightarrow> uuid \<Rightarrow> ('w, Room) op"
  repo_GetUserRooms :: "uuid \<Rightarrow> ('w, Room list) op"

section \<open>The SQL statements\<close>

definition is_row :: "uuid \<Rightarrow> uuid \<Rightarrow> RoomMember \<Rightarrow> bool" where
  "is_row rid uid m \<longleftrightarrow> rm_RoomID m = rid \<and> rm_UserID m = uid"

definition sql_insert_room :: "string \<Rightarrow> RoomType \<Rightarrow> uuid \<Rightarrow> (room_tables, Room) stmt" where
  "sql_insert_room name ty createdBy t u db =
     (if ty \<notin> {''direct'', ''group''} then Inl (External (PgError ''22P02''))
      else case varchar 100 name of
        Inl e \<Rightarrow> Inl e
      | Inr nm \<Rightarrow>
         (if u \<in> room_ID ` set (rooms db) then Inl (External (PgError ''23505''))
          else let r = \<lparr>room_ID = u, room_Name = nm, room_Type = ty, room_CreatedBy = createdBy,
                        room_CreatedAt = t, room_UpdatedAt = t\<rparr>
               in Inr (r, db\<lparr>rooms := rooms db @ [r]\<rparr>)))"

text \<open>\<open>INSERT INTO room_members ... ON CONFLICT (room_id, user_id) DO NOTHING RETURNING ...\<close>:
  a conflicting row makes the statement return no row.\<close>

definition sql_insert_member :: "uuid \<Rightarrow> uuid \<Rightarrow> MemberRole \<Rightarrow> (room_tables, RoomMember option) stmt" where
  "sql_insert_member rid uid role t u db =
     (if role \<notin> {''owner'', ''member''} then Inl (External (PgError ''22P02''))
      else if list_ex (is_row rid uid) (room_members db) then Inr (None, db)
      else if rid \<notin> room_ID ` set (rooms db) then Inl (External (PgError ''23503''))
      else let m = \<lparr>rm_RoomID = rid, rm_UserID = uid, rm_Role = role, rm_JoinedAt = t\<rparr>
           in Inr (Some m, db\<lparr>room_members := room_members db @ [m]\<rparr>))"

definition sql_select_direct_room :: "uuid \<Rightarrow> uuid \<Rightarrow> (room_tables, Room option) stmt" where
  "sql_select_direct_room u1 u2 t u db =
     Inr (find (\<lambda>r. room_Type r = ''direct'' \<and> list_ex (is_row (room_ID r) u1) (room_members db)
                     \<and> list_ex (is_row (room_ID r) u2) (room_members db)) (rooms db), db)"

definition sql_select_room :: "uuid \<Rightarrow> (room_tables, Room option) stmt" where
  "sql_select_room rid t u db = Inr (find (\<lambda>r. room_ID r = rid) (rooms db), db)"

definition sql_update_room :: "uuid \<Rightarrow> string \<Rightarrow> (room_tables, Room option) stmt" where
  "sql_update_room rid name t u db =
     (if rid \<notin> room_ID ` set (rooms db) then Inr (None, db)
      else case varchar 100 name of
        Inl e \<Rightarrow> Inl e
      | Inr nm \<Rightarrow>
         (let rs = List.map (\<lambda>r. if room_ID r = rid then r\<lparr>room_Name := nm, room_UpdatedAt := t\<rparr> else r)
                     (rooms db)
          in Inr (find (\<lambda>r. room_ID r = rid) rs, db\<lparr>rooms := rs\<rparr>)))"

text \<open>\<open>DELETE\<close> statements return the number of rows they removed.  Deleting a room removes its
  members (\<open>ON DELETE CASCADE\<close>).\<close>

definition sql_delete_room :: "uuid \<Rightarrow> (room_tables, nat) stmt" where
  "sql_delete_room rid t u db =
     Inr (length (filter (\<lambda>r. room_ID r = rid) (rooms db)),
          \<lparr>rooms = filter (\<lambda>r. room_ID r \<noteq> rid) (rooms db),
           room_members = filter (\<lambda>m. rm_RoomID m \<noteq> rid) (room_members db)\<rparr>)"

definition sql_delete_member :: "uuid \<Rightarrow> uuid \<Rightarrow> (room_tables, nat) stmt" where
  "sql_delete_member rid uid t u db =
     Inr (length (filter (is_row rid uid) (room_members db)),
          db\<lparr>room_members := filter (\<lambda>m. \<not> is_row rid uid m) (room_members db)\<rparr>)"

definition sql_select_members :: "uuid \<Rightarrow> (room_tables, RoomMember list) stmt" where
  "sql_select_members rid t u db = Inr (filter (\<lambda>m. rm_RoomID m = rid) (room_members db), db)"

definition sql_select_member_one :: "uuid \<Rightarrow> uuid \<Rightarrow> (room_tables, int option) stmt" where
  "sql_select_member_one rid uid t u db =
     Inr (if list_ex (is_row rid uid) (room_members db) then Some 1 else None, db)"

definition sql_select_role :: "uuid \<Rightarrow> uuid \<Rightarrow> (room_tables, MemberRole option) stmt" where
  "sql_select_role rid uid t u db =
     Inr (map_option rm_Role (find (is_row rid uid) (room_members db)), db)"

text \<open>\<open>ORDER BY r.created_at DESC\<close>: rooms made at the same time come in insertion order here
  (SQL leaves their order open).\<close>

definition sql_select_user_rooms :: "uuid \<Rightarrow> (room_tables, Room list) stmt" where
  "sql_select_user_rooms uid t u db =
     Inr (sort_key (\<lambda>r. - room_CreatedAt r)
            (filter (\<lambda>r. list_ex (is_row (room_ID r) uid) (room_members db)) (rooms db)), db)"

lemmas room_sql_defs = sql_insert_room_def sql_insert_member_def sql_select_direct_room_def
  sql_select_room_def sql_update_room_def sql_delete_room_def sql_delete_member_def
  sql_select_members_def sql_select_member_one_def sql_select_role_def sql_select_user_rooms_def

section \<open>The methods of \<open>pgRoomRepository\<close>\<close>

definition put_room_db :: "room_tables \<Rightarrow> 'z room_world_scheme \<Rightarrow> 'z room_world_scheme" where
  "put_room_db db w = w\<lparr>room_db := db\<rparr>"

definition room_pool :: "(room_tables, 'a) stmt \<Rightarrow> ('z room_world_scheme, 'a) op" where
  "room_pool s = pool_call room_db put_room_db s"

definition no_room :: "string \<Rightarrow> error \<Rightarrow> error" where
  "no_room msg e =
     (if errors_Is e pgx_ErrNoRows then Sentinel roomRepo_ErrRoomNotFound else Wrap msg e)"

definition pgRoom_getDirectRoomByUsersTx ::
    "time \<Rightarrow> uuid \<Rightarrow> uuid \<Rightarrow> ('z room_world_scheme \<times> room_tables, Room) op" where
  "pgRoom_getDirectRoomByUsersTx t userID1 userID2 =
     tryE (tx_call t (one_row (sql_select_direct_room userID1 userID2)))
       (\<lambda>e. fail (no_room ''get direct room by users'' e))
       (\<lambda>room. ret room)"

text \<open>The body of \<open>CreateRoom\<close> after \<open>BeginTx\<close>, in three parts: the check for an existing direct
  room, the inserts, and the commit.\<close>

definition pgRoom_checkDirect ::
    "time \<Rightarrow> RoomType \<Rightarrow> uuid \<Rightarrow> uuid \<Rightarrow> ('z room_world_scheme \<times> room_tables, unit) op" where
  "pgRoom_checkDirect t roomType createdBy participantID =
     (if roomType = RoomTypeDirect \<and> participantID \<noteq> uuid_Nil
      then tryE (pgRoom_getDirectRoomByUsersTx t createdBy participantID)
             (\<lambda>e. if \<not> errors_Is e roomRepo_ErrRoomNotFound
                  then fail (Wrap ''check existing direct room'' e)
                  else ret ())
             (\<lambda>existing. fail (Sentinel roomRepo_ErrDirectRoomExists))
      else ret ())"

definition pgRoom_insertRoom ::
    "time \<Rightarrow> string \<Rightarrow> RoomType \<Rightarrow> uuid \<Rightarrow> uuid \<Rightarrow> ('z room_world_scheme \<times> room_tables, Room) op" where
  "pgRoom_insertRoom t name roomType createdBy participantID =
     tryE (tx_call t (sql_insert_room name roomType createdBy))
       (\<lambda>e. fail (Wrap ''create room'' e))
       (\<lambda>room. tryE (tx_call t (sql_insert_member (room_ID room) createdBy MemberRoleOwner))
          (\<lambda>e. fail (Wrap ''add owner as member'' e))
          (\<lambda>_. if roomType = RoomTypeDirect \<and> participantID \<noteq> uuid_Nil
               then tryE (tx_call t (sql_insert_member (room_ID room) participantID MemberRoleMember))
                      (\<lambda>e. fail (Wrap ''add participant as member'' e))
                      (\<lambda>_. ret room)
               else ret room))"

definition pgRoom_CreateRoom ::
    "string \<Rightarrow> RoomType \<Rightarrow> uuid \<Rightarrow> uuid \<Rightarrow> ('z room_world_scheme, Room) op" where
  "pgRoom_CreateRoom name roomType createdBy participantID =
     tryE begin_tx
       (\<lambda>e. fail (Wrap ''begin transaction'' e))
       (\<lambda>_. in_tx room_db (\<lambda>t.
          tryE (pgRoom_checkDirect t roomType createdBy participantID)
            fail
            (\<lambda>_. tryE (pgRoom_insertRoom t name roomType createdBy participantID)
               fail
               (\<lambda>room. tryE (tx_commit put_room_db)
                  (\<lambda>e. fail (Wrap ''commit transaction'' e))
                  (\<lambda>_. ret room)))))"

definition pgRoom_GetRoomByID :: "uuid \<Rightarrow> ('z room_world_scheme, Room) op" where
  "pgRoom_GetRoomByID rid =
     tryE (room_pool (one_row (sql_select_room rid)))
       (\<lambda>e. fail (no_room ''get room by id'' e)) ret"

definition pgRoom_UpdateRoom :: "uuid \<Rightarrow> string \<Rightarrow> ('z room_world_scheme, Room) op" where
  "pgRoom_UpdateRoom rid name =
     tryE (room_pool (one_row (sql_update_room rid name)))
       (\<lambda>e. fail (no_room ''update room'' e)) ret"

definition pgRoom_DeleteRoom :: "uuid \<Rightarrow> ('z room_world_scheme, unit) op" where
  "pgRoom_DeleteRoom rid =
     tryE (room_pool (sql_delete_room rid))
       (\<lambda>e. fail (Wrap ''delete room'' e))
       (\<lambda>n. if n = 0 then fail (Sentinel roomRepo_ErrRoomNotFound) else ret ())"

definition pgRoom_AddMember :: "uuid \<Rightarrow> uuid \<Rightarrow> MemberRole \<Rightarrow> ('z room_world_scheme, RoomMember) op" where
  "pgRoom_AddMember rid uid role =
     tryE (room_pool (one_row (sql_insert_member rid uid role)))
       (\<lambda>e. if errors_Is e pgx_ErrNoRows then fail (Sentinel roomRepo_ErrMemberAlreadyExists)
            else fail (Wrap ''add member'' e))
       ret"

definition pgRoom_RemoveMember :: "uuid \<Rightarrow> uuid \<Rightarrow> ('z room_world_scheme, unit) op" where
  "pgRoom_RemoveMember rid uid =
     tryE (room_pool (sql_delete_member rid uid))
       (\<lambda>e. fail (Wrap ''remove member'' e))
       (\<lambda>n. if n = 0 then fail (Sentinel roomRepo_ErrMemberNotFound) else ret ())"

definition pgRoom_GetRoomMembers :: "uuid \<Rightarrow> ('z room_world_scheme, RoomMember list) op" where
  "pgRoom_GetRoomMembers rid =
     tryE (room_pool (sql_select_members rid))
       (\<lambda>e. fail (Wrap ''get room members'' e))
       (\<lambda>members. tryE rows_Scan (\<lambda>e. fail (Wrap ''scan member'' e))
          (\<lambda>_. tryE rows_Err (\<lambda>e. fail (Wrap ''iterate members'' e)) (\<lambda>_. ret members)))"

definition pgRoom_IsMember :: "uuid \<Rightarrow> uuid \<Rightarrow> ('z room_world_scheme, bool) op" where
  "pgRoom_IsMember rid uid =
     tryE (room_pool (one_row (sql_select_member_one rid uid)))
       (\<lambda>e. if errors_Is e pgx_ErrNoRows then ret False else fail (Wrap ''check membership'' e))
       (\<lambda>_. ret True)"

definition pgRoom_GetMemberRole :: "uuid \<Rightarrow> uuid \<Rightarrow> ('z room_world_scheme, MemberRole) op" where
  "pgRoom_GetMemberRole rid uid =
     tryE (room_pool (one_row (sql_select_role rid uid)))
       (\<lambda>e. if errors_Is e pgx_ErrNoRows then fail (Sentinel roomRepo_ErrMemberNotFound)
            else fail (Wrap ''get member role'' e))
       ret"

definition pgRoom_GetDirectRoomByUsers :: "uuid \<Rightarrow> uuid \<Rightarrow> ('z room_world_scheme, Room) op" where
  "pgRoom_GetDirectRoomByUsers userID1 userID2 =
     tryE (room_pool (one_row (sql_select_direct_room userID1 userID2)))
       (\<lambda>e. fail (no_room ''get direct room by users'' e)) ret"

definition pgRoom_GetUserRooms :: "uuid \<Rightarrow> ('z room_world_scheme, Room list) op" where
  "pgRoom_GetUserRooms uid =
     tryE (room_pool (sql_select_user_rooms uid))
       (\<lambda>e. fail (Wrap ''get user rooms'' e))
       (\<lambda>rs. tryE rows_Scan (\<lambda>e. fail (Wrap ''scan room'' e))
          (\<lambda>_. tryE rows_Err (\<lambda>e. fail (Wrap ''iterate rooms'' e)) (\<lambda>_. ret rs)))"

definition pgRoomRepository :: "('z room_world_scheme) RoomRepository" where
  "pgRoomRepository =
     \<lparr>repo_CreateRoom = pgRoom_CreateRoom, repo_GetRoomByID = pgRoom_GetRoomByID,
      repo_UpdateRoom = pgRoom_UpdateRoom, repo_DeleteRoom = pgRoom_DeleteRoom,
      repo_AddMember = pgRoom_AddMember, repo_RemoveMember = pgRoom_RemoveMember,
      repo_GetRoomMembers = pgRoom_GetRoomMembers, repo_IsMember = pgRoom_IsMember,
      repo_GetMemberRole = pgRoom_GetMemberRole,
      repo_GetDirectRoomByUsers = pgRoom_GetDirectRoomByUsers,
      repo_GetUserRooms = pgRoom_GetUserRooms\<rparr>"

lemmas pgRoom_defs = pgRoom_CreateRoom_def pgRoom_GetRoomByID_def pgRoom_UpdateRoom_def
  pgRoom_DeleteRoom_def pgRoom_AddMember_def pgRoom_RemoveMember_def pgRoom_GetRoomMembers_def
  pgRoom_IsMember_def pgRoom_GetMemberRole_def pgRoom_GetDirectRoomByUsers_def
  pgRoom_GetUserRooms_def pgRoom_checkDirect_def pgRoom_insertRoom_def
  pgRoom_getDirectRoomByUsersTx_def

section \<open>What a repository promises\<close>

text \<open>
  The abstract state of the room service: the room with a given id, and the role a user has in a
  room.  The operations of the interface act on it as follows.
\<close>

record room_view =
  v_rooms :: "uuid \<Rightarrow> Room option"
  v_roles :: "uuid \<Rightarrow> uuid \<Rightarrow> MemberRole option"

definition spec_create :: "Room \<Rightarrow> (uuid \<Rightarrow> MemberRole option) \<Rightarrow> room_view \<Rightarrow> room_view" where
  "spec_create room roles v =
     \<lparr>v_rooms = (v_rooms v)(room_ID room := Some room), v_roles = (v_roles v)(room_ID room := roles)\<rparr>"

definition spec_rename :: "uuid \<Rightarrow> Room \<Rightarrow> room_view \<Rightarrow> room_view" where
  "spec_rename rid room v = v\<lparr>v_rooms := (v_rooms v)(rid := Some room)\<rparr>"

definition spec_delete :: "uuid \<Rightarrow> room_view \<Rightarrow> room_view" where
  "spec_delete rid v =
     \<lparr>v_rooms = (v_rooms v)(rid := None), v_roles = (v_roles v)(rid := (\<lambda>_. None))\<rparr>"

definition spec_set_role :: "uuid \<Rightarrow> uuid \<Rightarrow> MemberRole option \<Rightarrow> room_view \<Rightarrow> room_view" where
  "spec_set_role rid uid role v =
     v\<lparr>v_roles := (v_roles v)(rid := (v_roles v rid)(uid := role))\<rparr>"

lemmas room_spec_defs = spec_create_def spec_rename_def spec_delete_def spec_set_role_def

text \<open>The members a new room starts with.\<close>

definition initial_roles :: "RoomType \<Rightarrow> uuid \<Rightarrow> uuid \<Rightarrow> uuid \<Rightarrow> MemberRole option" where
  "initial_roles ty createdBy participantID =
     (let owner = (\<lambda>_. None)(createdBy := Some MemberRoleOwner)
      in if ty = RoomTypeDirect \<and> participantID \<noteq> uuid_Nil \<and> participantID \<noteq> createdBy
         then owner(participantID := Some MemberRoleMember) else owner)"

definition direct_room_of :: "room_view \<Rightarrow> uuid \<Rightarrow> uuid \<Rightarrow> uuid \<Rightarrow> bool" where
  "direct_room_of v u1 u2 rid \<longleftrightarrow>
     (\<exists>r. v_rooms v rid = Some r \<and> room_Type r = RoomTypeDirect) \<and>
     v_roles v rid u1 \<noteq> None \<and> v_roles v rid u2 \<noteq> None"

text \<open>What one call of \<open>CreateRoom\<close> may leave behind.\<close>

definition created :: "RoomType \<Rightarrow> uuid \<Rightarrow> uuid \<Rightarrow> room_view \<Rightarrow> Room \<Rightarrow> room_view \<Rightarrow> bool" where
  "created ty c p v room v' \<longleftrightarrow>
     v_rooms v (room_ID room) = None \<and> room_Type room = ty \<and>
     ty \<in> {RoomTypeDirect, RoomTypeGroup} \<and> room_CreatedBy room = c \<and>
     (ty = RoomTypeDirect \<and> p \<noteq> uuid_Nil \<longrightarrow> (\<forall>rid. \<not> direct_room_of v c p rid)) \<and>
     v' = spec_create room (initial_roles ty c p) v"

text \<open>What one call of \<open>UpdateRoom\<close> and of \<open>AddMember\<close> may leave behind.\<close>

definition renamed :: "uuid \<Rightarrow> string \<Rightarrow> room_view \<Rightarrow> Room \<Rightarrow> room_view \<Rightarrow> bool" where
  "renamed rid name v y v' \<longleftrightarrow>
     (\<exists>x nm t. v_rooms v rid = Some x \<and> varchar 100 name = Inr nm \<and>
        y = x\<lparr>room_Name := nm, room_UpdatedAt := t\<rparr> \<and> v' = spec_rename rid y v)"

definition added :: "uuid \<Rightarrow> uuid \<Rightarrow> MemberRole \<Rightarrow> room_view \<Rightarrow> room_view \<Rightarrow> bool" where
  "added rid uid role v v' \<longleftrightarrow>
     v_rooms v rid \<noteq> None \<and> v_roles v rid uid = None \<and> v' = spec_set_role rid uid (Some role) v"

text \<open>
  The contract between a \<open>RoomRepository\<close> and its client: reads do not change the abstract state
  and report it truthfully; a write changes it in one of the ways above or not at all, and its
  result says which.  A write that reports an error may have taken effect (a lost reply), so the
  error cases leave both possibilities open, unless the error is one of the repository's own.  In
  a \<open>reliable\<close> state (no external call fails) the reads, \<open>AddMember\<close>, \<open>RemoveMember\<close> and
  \<open>DeleteRoom\<close> fail with the repository's own errors only.
\<close>

locale room_repository =
  fixes repo :: "'w RoomRepository"
    and view :: "'w \<Rightarrow> room_view"
    and invar :: "'w \<Rightarrow> bool"
    and reliable :: "'w \<Rightarrow> bool"
  assumes GetRoomByID: "invar w \<Longrightarrow> wp (repo_GetRoomByID repo rid)
      (\<lambda>x w'. invar w' \<and> view w' = view w \<and> reliable w' = reliable w \<and>
         v_rooms (view w) rid = Some x \<and> room_ID x = rid)
      (\<lambda>e w'. invar w' \<and> view w' = view w \<and> reliable w' = reliable w \<and>
         (errors_Is e roomRepo_ErrRoomNotFound \<longrightarrow> v_rooms (view w) rid = None) \<and>
         (reliable w \<longrightarrow> errors_Is e roomRepo_ErrRoomNotFound)) w"
    and GetMemberRole: "invar w \<Longrightarrow> wp (repo_GetMemberRole repo rid uid)
      (\<lambda>role w'. invar w' \<and> view w' = view w \<and> reliable w' = reliable w \<and>
         v_roles (view w) rid uid = Some role)
      (\<lambda>e w'. invar w' \<and> view w' = view w \<and> reliable w' = reliable w \<and>
         (errors_Is e roomRepo_ErrMemberNotFound \<longrightarrow> v_roles (view w) rid uid = None) \<and>
         (reliable w \<longrightarrow> errors_Is e roomRepo_ErrMemberNotFound)) w"
    and IsMember: "invar w \<Longrightarrow> wp (repo_IsMember repo rid uid)
      (\<lambda>b w'. invar w' \<and> view w' = view w \<and> reliable w' = reliable w \<and>
         b = (v_roles (view w) rid uid \<noteq> None))
      (\<lambda>e w'. invar w' \<and> view w' = view w \<and> reliable w' = reliable w \<and> \<not> reliable w) w"
    and GetRoomMembers: "invar w \<Longrightarrow> wp (repo_GetRoomMembers repo rid)
      (\<lambda>ms w'. invar w' \<and> view w' = view w \<and> reliable w' = reliable w \<and>
         distinct (List.map rm_UserID ms) \<and> (\<forall>m \<in> set ms. rm_RoomID m = rid) \<and>
         (\<forall>u role. v_roles (view w) rid u = Some role \<longleftrightarrow>
            (\<exists>m \<in> set ms. rm_UserID m = u \<and> rm_Role m = role)))
      (\<lambda>e w'. invar w' \<and> view w' = view w \<and> reliable w' = reliable w \<and> \<not> reliable w) w"
    and GetUserRooms: "invar w \<Longrightarrow> wp (repo_GetUserRooms repo uid)
      (\<lambda>rs w'. invar w' \<and> view w' = view w \<and> reliable w' = reliable w \<and>
         sorted_wrt (\<lambda>a b. room_CreatedAt b \<le> room_CreatedAt a) rs \<and> distinct (List.map room_ID rs) \<and>
         (\<forall>x. x \<in> set rs \<longleftrightarrow>
            v_rooms (view w) (room_ID x) = Some x \<and> v_roles (view w) (room_ID x) uid \<noteq> None))
      (\<lambda>e w'. invar w' \<and> view w' = view w \<and> reliable w' = reliable w \<and> \<not> reliable w) w"
    and CreateRoom: "invar w \<Longrightarrow> wp (repo_CreateRoom repo name ty c p)
      (\<lambda>room w'. invar w' \<and> reliable w' = reliable w \<and> created ty c p (view w) room (view w'))
      (\<lambda>e w'. invar w' \<and> reliable w' = reliable w \<and>
         (if errors_Is e roomRepo_ErrDirectRoomExists
          then view w' = view w \<and> (\<exists>rid. direct_room_of (view w) c p rid)
          else view w' = view w \<or> (\<exists>room. created ty c p (view w) room (view w')))) w"
    and UpdateRoom: "invar w \<Longrightarrow> wp (repo_UpdateRoom repo rid name)
      (\<lambda>y w'. invar w' \<and> reliable w' = reliable w \<and> renamed rid name (view w) y (view w'))
      (\<lambda>e w'. invar w' \<and> reliable w' = reliable w \<and>
         (view w' = view w \<or> (\<exists>y. renamed rid name (view w) y (view w'))) \<and>
         (errors_Is e roomRepo_ErrRoomNotFound \<longrightarrow> view w' = view w)) w"
    and DeleteRoom: "invar w \<Longrightarrow> wp (repo_DeleteRoom repo rid)
      (\<lambda>_ w'. invar w' \<and> reliable w' = reliable w \<and> v_rooms (view w) rid \<noteq> None \<and>
         view w' = spec_delete rid (view w))
      (\<lambda>e w'. invar w' \<and> reliable w' = reliable w \<and> view w' \<in> {view w, spec_delete rid (view w)} \<and>
         (errors_Is e roomRepo_ErrRoomNotFound \<longrightarrow> v_rooms (view w) rid = None) \<and>
         (reliable w \<longrightarrow> errors_Is e roomRepo_ErrRoomNotFound)) w"
    and AddMember: "invar w \<Longrightarrow> wp (repo_AddMember repo rid uid role)
      (\<lambda>m w'. invar w' \<and> reliable w' = reliable w \<and> rm_RoomID m = rid \<and> rm_UserID m = uid \<and>
         rm_Role m = role \<and> added rid uid role (view w) (view w'))
      (\<lambda>e w'. invar w' \<and> reliable w' = reliable w \<and>
         (view w' = view w \<or> added rid uid role (view w) (view w')) \<and>
         (errors_Is e roomRepo_ErrMemberAlreadyExists \<longrightarrow>
            view w' = view w \<and> v_roles (view w) rid uid \<noteq> None) \<and>
         (reliable w \<and> v_rooms (view w) rid \<noteq> None \<and> role \<in> {MemberRoleOwner, MemberRoleMember} \<longrightarrow>
            errors_Is e roomRepo_ErrMemberAlreadyExists)) w"
    and RemoveMember: "invar w \<Longrightarrow> wp (repo_RemoveMember repo rid uid)
      (\<lambda>_ w'. invar w' \<and> reliable w' = reliable w \<and> v_roles (view w) rid uid \<noteq> None \<and>
         view w' = spec_set_role rid uid None (view w))
      (\<lambda>e w'. invar w' \<and> reliable w' = reliable w \<and>
         view w' \<in> {view w, spec_set_role rid uid None (view w)} \<and>
         (errors_Is e roomRepo_ErrMemberNotFound \<longrightarrow> v_roles (view w) rid uid = None) \<and>
         (reliable w \<longrightarrow> errors_Is e roomRepo_ErrMemberNotFound)) w"

section \<open>The Postgres repository keeps the promises\<close>

definition tables_view :: "room_tables \<Rightarrow> room_view" where
  "tables_view db =
     \<lparr>v_rooms = (\<lambda>rid. find (\<lambda>r. room_ID r = rid) (rooms db)),
      v_roles = (\<lambda>rid uid. map_option rm_Role (find (is_row rid uid) (room_members db)))\<rparr>"

definition pg_view :: "'z room_world_scheme \<Rightarrow> room_view" where
  "pg_view w = tables_view (room_db w)"

text \<open>The constraints of the schema: both primary keys and the foreign key.\<close>

definition member_key :: "RoomMember \<Rightarrow> uuid \<times> uuid" where
  "member_key m = (rm_RoomID m, rm_UserID m)"

definition tables_ok :: "room_tables \<Rightarrow> bool" where
  "tables_ok db \<longleftrightarrow> distinct (List.map room_ID (rooms db)) \<and>
     distinct (List.map member_key (room_members db)) \<and>
     list_all (\<lambda>m. rm_RoomID m \<in> room_ID ` set (rooms db)) (room_members db)"

definition pg_ok :: "'z room_world_scheme \<Rightarrow> bool" where
  "pg_ok w = tables_ok (room_db w)"

lemma is_row_key: "is_row rid uid = (\<lambda>m. member_key m = (rid, uid))"
  by (auto simp: is_row_def member_key_def)

lemma find_row_iff:
  assumes "tables_ok db"
  shows "find (is_row rid uid) (room_members db) = Some m \<longleftrightarrow>
    m \<in> set (room_members db) \<and> rm_RoomID m = rid \<and> rm_UserID m = uid"
  using assms find_key_Some_iff [of member_key "room_members db" "(rid, uid)" m]
  unfolding tables_ok_def is_row_key by (auto simp: member_key_def)

lemma find_row_None: "find (is_row rid uid) ms = None \<longleftrightarrow> \<not> list_ex (is_row rid uid) ms"
  by (auto simp: find_None_iff list_ex_iff)

lemma find_room_iff:
  assumes "tables_ok db"
  shows "find (\<lambda>r. room_ID r = rid) (rooms db) = Some x \<longleftrightarrow> x \<in> set (rooms db) \<and> room_ID x = rid"
  using assms by (simp add: tables_ok_def find_key_Some_iff)

lemma find_room_None: "find (\<lambda>r. room_ID r = rid) rs = None \<longleftrightarrow> rid \<notin> room_ID ` set rs"
  by (rule find_key_None_iff)

lemma tables_view_simps [simp]:
  "v_rooms (tables_view db) rid = find (\<lambda>r. room_ID r = rid) (rooms db)"
  "v_roles (tables_view db) rid uid = map_option rm_Role (find (is_row rid uid) (room_members db))"
  by (simp_all add: tables_view_def)

lemma member_has_room:
  "tables_ok db \<Longrightarrow> find (is_row rid uid) (room_members db) \<noteq> None \<Longrightarrow> rid \<in> room_ID ` set (rooms db)"
  by (auto simp: find_row_iff tables_ok_def list_all_iff)

text \<open>What each writing statement does to a consistent database.\<close>

lemma insert_room_effect:
  assumes "tables_ok db" and "sql_insert_room name ty createdBy t u db = Inr (r, db')"
  shows "tables_ok db'" and "v_rooms (tables_view db) (room_ID r) = None"
    and "tables_view db' = spec_rename (room_ID r) r (tables_view db)"
    and "room_Type r = ty" and "ty \<in> {RoomTypeDirect, RoomTypeGroup}" and "room_CreatedBy r = createdBy"
    and "room_ID r \<in> room_ID ` set (rooms db')" and "room_members db' = room_members db"
proof -
  from assms(2) obtain nm where nm: "u \<notin> room_ID ` set (rooms db)" "ty \<in> {''direct'', ''group''}"
      "r = \<lparr>room_ID = u, room_Name = nm, room_Type = ty, room_CreatedBy = createdBy,
            room_CreatedAt = t, room_UpdatedAt = t\<rparr>" "db' = db\<lparr>rooms := rooms db @ [r]\<rparr>"
    by (auto simp: sql_insert_room_def Let_def split: if_splits sum.splits)
  then show "tables_ok db'" using assms(1) by (auto simp: tables_ok_def list_all_iff)
  show "v_rooms (tables_view db) (room_ID r) = None"
    using nm by (simp add: find_room_None)
  show "tables_view db' = spec_rename (room_ID r) r (tables_view db)"
    using nm find_snoc_fresh [of room_ID r "rooms db"]
    by (auto simp: tables_view_def spec_rename_def fun_eq_iff)
  show "room_Type r = ty" "ty \<in> {RoomTypeDirect, RoomTypeGroup}" "room_CreatedBy r = createdBy"
    "room_ID r \<in> room_ID ` set (rooms db')" "room_members db' = room_members db"
    using nm by (simp_all add: room_consts)
qed

lemma insert_member_Some:
  assumes "tables_ok db" and "sql_insert_member rid uid role t u db = Inr (Some m, db')"
  shows "tables_ok db'" and "tables_view db' = spec_set_role rid uid (Some role) (tables_view db)"
    and "v_rooms (tables_view db) rid \<noteq> None" and "v_roles (tables_view db) rid uid = None"
    and "rooms db' = rooms db"
proof -
  from assms(2) have *: "\<not> list_ex (is_row rid uid) (room_members db)" "rid \<in> room_ID ` set (rooms db)"
      "m = \<lparr>rm_RoomID = rid, rm_UserID = uid, rm_Role = role, rm_JoinedAt = t\<rparr>"
      "db' = db\<lparr>room_members := room_members db @ [m]\<rparr>"
    by (auto simp: sql_insert_member_def Let_def split: if_splits)
  then show "tables_ok db'"
    using assms(1) by (auto simp: tables_ok_def list_all_iff list_ex_iff member_key_def is_row_def)
  have "member_key m \<notin> member_key ` set (room_members db)"
    using *(1,3) by (auto simp: list_ex_iff is_row_def member_key_def)
  then have "find (is_row k v) (room_members db @ [m]) =
      (if k = rid \<and> v = uid then Some m else find (is_row k v) (room_members db))" for k v
    using *(3) find_snoc_fresh [of member_key m "room_members db" "(k, v)"]
    unfolding is_row_key by (auto simp: member_key_def)
  with * show "tables_view db' = spec_set_role rid uid (Some role) (tables_view db)"
    by (auto simp: tables_view_def spec_set_role_def fun_eq_iff)
  show "v_rooms (tables_view db) rid \<noteq> None" "v_roles (tables_view db) rid uid = None"
    using * by (simp_all add: find_room_None find_row_None)
  show "rooms db' = rooms db" using * by simp
qed

lemma insert_member_None:
  assumes "sql_insert_member rid uid role t u db = Inr (None, db')"
  shows "db' = db" and "v_roles (tables_view db) rid uid \<noteq> None"
  using assms find_row_None [of rid uid "room_members db"]
  by (auto simp: sql_insert_member_def Let_def split: if_splits)

lemma update_room_effect:
  assumes "tables_ok db" and "sql_update_room rid name t u db = Inr (x, db')"
  shows "tables_ok db'" and "x = None \<longrightarrow> db' = db \<and> v_rooms (tables_view db) rid = None"
    and "x = Some y \<longrightarrow> (\<exists>old. v_rooms (tables_view db) rid = Some old \<and>
       (\<exists>nm. varchar 100 name = Inr nm \<and> y = old\<lparr>room_Name := nm, room_UpdatedAt := t\<rparr>)) \<and>
       tables_view db' = spec_rename rid y (tables_view db)"
proof -
  consider (gone) "rid \<notin> room_ID ` set (rooms db)" "x = None" "db' = db"
    | (upd) nm f where "rid \<in> room_ID ` set (rooms db)" "varchar 100 name = Inr nm"
        "f = (\<lambda>r. if room_ID r = rid then r\<lparr>room_Name := nm, room_UpdatedAt := t\<rparr> else r)"
        "x = find (\<lambda>r. room_ID r = rid) (List.map f (rooms db))" "db' = db\<lparr>rooms := List.map f (rooms db)\<rparr>"
    using assms(2) by (auto simp: sql_update_room_def Let_def split: if_splits sum.splits)
  then have "tables_ok db' \<and> (x = None \<longrightarrow> db' = db \<and> v_rooms (tables_view db) rid = None) \<and>
     (x = Some y \<longrightarrow> (\<exists>old. v_rooms (tables_view db) rid = Some old \<and>
       (\<exists>nm. varchar 100 name = Inr nm \<and> y = old\<lparr>room_Name := nm, room_UpdatedAt := t\<rparr>)) \<and>
       tables_view db' = spec_rename rid y (tables_view db))"
  proof cases
    case gone
    then show ?thesis using assms(1) by (auto simp: find_room_None)
  next
    case upd
    have id: "room_ID (f r) = room_ID r" for r by (simp add: upd(3))
    then have ids: "List.map room_ID (List.map f (rooms db)) = List.map room_ID (rooms db)" by simp
    have finds: "find (\<lambda>r. room_ID r = k) (List.map f (rooms db)) =
        map_option f (find (\<lambda>r. room_ID r = k) (rooms db))" for k
      by (rule find_map_pred) (simp add: id)
    have other: "find (\<lambda>r. room_ID r = k) (rooms db) = Some r \<Longrightarrow> k \<noteq> rid \<Longrightarrow> f r = r" for k r
      using upd(3) by (auto dest: find_SomeD)
    obtain old where old: "find (\<lambda>r. room_ID r = rid) (rooms db) = Some old" "room_ID old = rid"
      using upd(1) find_room_None [of rid "rooms db"] by (auto dest: find_SomeD)
    have "tables_ok db'"
      using assms(1) ids upd(5) unfolding tables_ok_def
      by (simp del: map_map add: image_image id)
    moreover have "x = Some (f old)" using upd(4) old finds by simp
    moreover have "tables_view db' = spec_rename rid (f old) (tables_view db)"
      using old upd(5) finds other
      by (auto simp: tables_view_def spec_rename_def fun_eq_iff map_option_case split: option.splits)
    ultimately show ?thesis using old upd(2,3) by auto
  qed
  then show "tables_ok db'" "x = None \<longrightarrow> db' = db \<and> v_rooms (tables_view db) rid = None"
    "x = Some y \<longrightarrow> (\<exists>old. v_rooms (tables_view db) rid = Some old \<and>
       (\<exists>nm. varchar 100 name = Inr nm \<and> y = old\<lparr>room_Name := nm, room_UpdatedAt := t\<rparr>)) \<and>
       tables_view db' = spec_rename rid y (tables_view db)"
    by blast+
qed

lemma delete_room_effect:
  assumes "tables_ok db" and "sql_delete_room rid t u db = Inr (n, db')"
  shows "tables_ok db'" and "tables_view db' = spec_delete rid (tables_view db)"
    and "n = 0 \<longleftrightarrow> v_rooms (tables_view db) rid = None"
proof -
  have db': "db' = \<lparr>rooms = filter (\<lambda>r. room_ID r \<noteq> rid) (rooms db),
           room_members = filter (\<lambda>m. rm_RoomID m \<noteq> rid) (room_members db)\<rparr>"
    and n: "n = length (filter (\<lambda>r. room_ID r = rid) (rooms db))"
    using assms(2) by (auto simp: sql_delete_room_def)
  show "tables_ok db'" using assms(1)
    by (auto simp: db' tables_ok_def list_all_iff distinct_map_filter)
  have "find (\<lambda>r. room_ID r = k) (rooms db') = (if k = rid then None else find (\<lambda>r. room_ID r = k) (rooms db))" for k
    by (auto simp: db' find_filter_disjoint find_filter_none)
  moreover have "find (is_row k u) (room_members db') =
      (if k = rid then None else find (is_row k u) (room_members db))" for k u
    by (auto simp: db' is_row_def intro!: find_filter_disjoint find_filter_none)
  ultimately show "tables_view db' = spec_delete rid (tables_view db)"
    by (auto simp: tables_view_def spec_delete_def fun_eq_iff)
  show "n = 0 \<longleftrightarrow> v_rooms (tables_view db) rid = None"
    by (auto simp: n find_None_iff filter_empty_conv)
qed

lemma delete_member_effect:
  assumes "tables_ok db" and "sql_delete_member rid uid t u db = Inr (n, db')"
  shows "tables_ok db'" and "tables_view db' = spec_set_role rid uid None (tables_view db)"
    and "n = 0 \<longleftrightarrow> v_roles (tables_view db) rid uid = None"
proof -
  have db': "db' = db\<lparr>room_members := filter (\<lambda>m. \<not> is_row rid uid m) (room_members db)\<rparr>"
    and n: "n = length (filter (is_row rid uid) (room_members db))"
    using assms(2) by (auto simp: sql_delete_member_def)
  show "tables_ok db'" using assms(1)
    by (auto simp: db' tables_ok_def list_all_iff distinct_map_filter)
  have "find (is_row k v) (room_members db') =
      (if k = rid \<and> v = uid then None else find (is_row k v) (room_members db))" for k v
    by (auto simp: db' is_row_def intro!: find_filter_disjoint find_filter_none)
  then show "tables_view db' = spec_set_role rid uid None (tables_view db)"
    by (auto simp: tables_view_def spec_set_role_def fun_eq_iff db')
  show "n = 0 \<longleftrightarrow> v_roles (tables_view db) rid uid = None"
    by (auto simp: n find_None_iff filter_empty_conv)
qed

text \<open>The outcomes of one statement on the pool.\<close>

lemma room_db_tick [simp]: "room_db (tick w) = room_db w"
  by (simp add: tick_def)

lemma calm_put_room_db [simp]: "calm (put_room_db db w) = calm w"
  unfolding calm_def put_room_db_def by simp

lemma wp_room_pool:
  assumes "\<And>x w'. \<not> calm w \<Longrightarrow> calm w' = calm w \<Longrightarrow> room_db w' = room_db w \<Longrightarrow> E (External x) w'"
    and "\<And>x t u a db w'. \<not> calm w \<Longrightarrow> calm w' = calm w \<Longrightarrow> s t u (room_db w) = Inr (a, db) \<Longrightarrow>
      room_db w' = db \<Longrightarrow> E (External x) w'"
    and "\<And>t u e w'. calm w' = calm w \<Longrightarrow> s t u (room_db w) = Inl e \<Longrightarrow> room_db w' = room_db w \<Longrightarrow> E e w'"
    and "\<And>t u a db w'. calm w' = calm w \<Longrightarrow> s t u (room_db w) = Inr (a, db) \<Longrightarrow> room_db w' = db \<Longrightarrow> Q a w'"
  shows "wp (room_pool s) Q E w"
proof (cases "s (now_in w) (uuid_in w) (room_db w)")
  case (Inl e)
  with assms(1,3) show ?thesis
    by (auto simp: wp_def room_pool_def pool_call_def ext_call_def run_stmt_def split: fault.splits)
next
  case (Inr p)
  then have "room_db (put_room_db (snd p) (tick w)) = snd p" by (simp add: put_room_db_def)
  with Inr assms(1,2,4) show ?thesis
    by (cases p) (auto simp: wp_def room_pool_def pool_call_def ext_call_def run_stmt_def
        split: fault.splits)
qed

lemma wp_rows_Err:
  assumes "\<And>x w'. \<not> calm w \<Longrightarrow> calm w' = calm w \<Longrightarrow> room_db w' = room_db w \<Longrightarrow> E (External x) w'"
    and "\<And>w'. calm w' = calm w \<Longrightarrow> room_db w' = room_db w \<Longrightarrow> Q () w'"
  shows "wp rows_Err Q E w"
  using assms by (auto simp: wp_def rows_Err_def ext_call_def split: fault.splits)

lemma wp_rows_Scan:
  assumes "\<And>x w'. \<not> calm w \<Longrightarrow> calm w' = calm w \<Longrightarrow> room_db w' = room_db w \<Longrightarrow> E (External x) w'"
    and "\<And>w'. calm w' = calm w \<Longrightarrow> room_db w' = room_db w \<Longrightarrow> Q () w'"
  shows "wp rows_Scan Q E w"
  using assms by (auto simp: wp_def rows_Scan_def ext_call_def split: fault.splits)

lemma pg_view_eq: "room_db w' = room_db w \<Longrightarrow> pg_view w' = pg_view w"
  "room_db w' = db \<Longrightarrow> pg_view w' = tables_view db"
  by (simp_all add: pg_view_def)

text \<open>A statement that cannot fail by itself; a list query; a query of a single row.\<close>

lemma wp_room_exec:
  assumes sel: "\<And>t u db. s t u db = Inr (f db, g db)"
    and "\<And>x w'. \<not> calm w \<Longrightarrow> calm w' = calm w \<Longrightarrow> room_db w' \<in> {room_db w, g (room_db w)} \<Longrightarrow>
      E (External x) w'"
    and "\<And>w'. calm w' = calm w \<Longrightarrow> room_db w' = g (room_db w) \<Longrightarrow> Q (f (room_db w)) w'"
  shows "wp (room_pool s) Q E w"
  by (rule wp_room_pool) (use assms(2-) in \<open>auto simp: sel\<close>)

lemma wp_room_query:
  assumes sel: "\<And>t u db. s t u db = Inr (f db, db)"
    and "\<And>x w'. \<not> calm w \<Longrightarrow> calm w' = calm w \<Longrightarrow> room_db w' = room_db w \<Longrightarrow> E (External x) w'"
    and "\<And>w'. f (room_db w) = None \<Longrightarrow> calm w' = calm w \<Longrightarrow> room_db w' = room_db w \<Longrightarrow>
      E (Sentinel pgx_ErrNoRows) w'"
    and "\<And>a w'. f (room_db w) = Some a \<Longrightarrow> calm w' = calm w \<Longrightarrow> room_db w' = room_db w \<Longrightarrow> Q a w'"
  shows "wp (room_pool (one_row s)) Q E w"
  by (rule wp_room_pool) (use assms(2-) in \<open>auto simp: one_row_def sel split: option.splits\<close>)

lemma wp_room_list:
  assumes sel: "\<And>t u db. s t u db = Inr (f db, db)"
    and "\<And>x w'. \<not> calm w \<Longrightarrow> calm w' = calm w \<Longrightarrow> room_db w' = room_db w \<Longrightarrow> E (External x) w'"
    and "\<And>w'. calm w' = calm w \<Longrightarrow> room_db w' = room_db w \<Longrightarrow> Q (f (room_db w)) w'"
  shows "wp (room_pool s) Q E w"
  by (rule wp_room_pool) (use assms(2-) in \<open>auto simp: sel\<close>)

lemma pg_GetRoomByID:
  assumes "pg_ok w"
  shows "wp (pgRoom_GetRoomByID rid)
      (\<lambda>x w'. pg_ok w' \<and> pg_view w' = pg_view w \<and> calm w' = calm w \<and>
         v_rooms (pg_view w) rid = Some x \<and> room_ID x = rid)
      (\<lambda>e w'. pg_ok w' \<and> pg_view w' = pg_view w \<and> calm w' = calm w \<and>
         (errors_Is e roomRepo_ErrRoomNotFound \<longrightarrow> v_rooms (pg_view w) rid = None) \<and>
         (calm w \<longrightarrow> errors_Is e roomRepo_ErrRoomNotFound)) w"
  unfolding pgRoom_GetRoomByID_def wp_simps
  by (rule wp_room_query [OF sql_select_room_def])
    (use assms in \<open>auto simp: no_room_def pg_ok_def pg_view_def dest: find_SomeD\<close>)

lemma pg_GetMemberRole:
  assumes "pg_ok w"
  shows "wp (pgRoom_GetMemberRole rid uid)
      (\<lambda>role w'. pg_ok w' \<and> pg_view w' = pg_view w \<and> calm w' = calm w \<and>
         v_roles (pg_view w) rid uid = Some role)
      (\<lambda>e w'. pg_ok w' \<and> pg_view w' = pg_view w \<and> calm w' = calm w \<and>
         (errors_Is e roomRepo_ErrMemberNotFound \<longrightarrow> v_roles (pg_view w) rid uid = None) \<and>
         (calm w \<longrightarrow> errors_Is e roomRepo_ErrMemberNotFound)) w"
  unfolding pgRoom_GetMemberRole_def wp_simps
  by (rule wp_room_query [OF sql_select_role_def])
    (use assms in \<open>auto simp: pg_ok_def pg_view_def wp_simps\<close>)

lemma pg_IsMember:
  assumes "pg_ok w"
  shows "wp (pgRoom_IsMember rid uid)
      (\<lambda>b w'. pg_ok w' \<and> pg_view w' = pg_view w \<and> calm w' = calm w \<and>
         b = (v_roles (pg_view w) rid uid \<noteq> None))
      (\<lambda>e w'. pg_ok w' \<and> pg_view w' = pg_view w \<and> calm w' = calm w \<and> \<not> calm w) w"
  unfolding pgRoom_IsMember_def wp_simps
  by (rule wp_room_query [OF sql_select_member_one_def])
    (use assms find_row_None [of rid uid "room_members (room_db w)"] in
      \<open>auto simp: pg_ok_def pg_view_def wp_simps split: if_splits\<close>)

lemma pg_GetRoomMembers:
  assumes "pg_ok w"
  shows "wp (pgRoom_GetRoomMembers rid)
      (\<lambda>ms w'. pg_ok w' \<and> pg_view w' = pg_view w \<and> calm w' = calm w \<and>
         ms = filter (\<lambda>m. rm_RoomID m = rid) (room_members (room_db w)))
      (\<lambda>e w'. pg_ok w' \<and> pg_view w' = pg_view w \<and> calm w' = calm w \<and> \<not> calm w) w"
  unfolding pgRoom_GetRoomMembers_def wp_simps
  by (intro wp_room_list [OF sql_select_members_def] wp_rows_Scan wp_rows_Err)
    (use assms in \<open>auto simp: pg_ok_def pg_view_def\<close>)

lemma pg_GetUserRooms:
  assumes "pg_ok w"
  shows "wp (pgRoom_GetUserRooms uid)
      (\<lambda>rs w'. pg_ok w' \<and> pg_view w' = pg_view w \<and> calm w' = calm w \<and>
         rs = sort_key (\<lambda>r. - room_CreatedAt r)
           (filter (\<lambda>r. list_ex (is_row (room_ID r) uid) (room_members (room_db w))) (rooms (room_db w))))
      (\<lambda>e w'. pg_ok w' \<and> pg_view w' = pg_view w \<and> calm w' = calm w \<and> \<not> calm w) w"
  unfolding pgRoom_GetUserRooms_def wp_simps
  by (intro wp_room_list [OF sql_select_user_rooms_def] wp_rows_Scan wp_rows_Err)
    (use assms in \<open>auto simp: pg_ok_def pg_view_def\<close>)

lemma pg_UpdateRoom:
  assumes "pg_ok w"
  shows "wp (pgRoom_UpdateRoom rid name)
      (\<lambda>y w'. pg_ok w' \<and> calm w' = calm w \<and> renamed rid name (pg_view w) y (pg_view w'))
      (\<lambda>e w'. pg_ok w' \<and> calm w' = calm w \<and>
         (pg_view w' = pg_view w \<or> (\<exists>y. renamed rid name (pg_view w) y (pg_view w'))) \<and>
         (errors_Is e roomRepo_ErrRoomNotFound \<longrightarrow> pg_view w' = pg_view w)) w"
proof -
  have upd: "tables_ok db \<and> renamed rid name (pg_view w) y (tables_view db)"
    if "sql_update_room rid name t u (room_db w) = Inr (Some y, db)" for t u y db
    using update_room_effect(1,3) [OF assms(1) [unfolded pg_ok_def] that]
    by (simp add: pg_view_def renamed_def del: tables_view_simps) metis
  show ?thesis
    unfolding pgRoom_UpdateRoom_def wp_simps
    by (rule wp_room_pool; (drule one_row_Inr [THEN iffD1], drule upd)?)
      (use assms in \<open>auto simp: pg_ok_def pg_view_def no_room_def\<close>)
qed

lemma pg_DeleteRoom:
  assumes "pg_ok w"
  shows "wp (pgRoom_DeleteRoom rid)
      (\<lambda>_ w'. pg_ok w' \<and> calm w' = calm w \<and> v_rooms (pg_view w) rid \<noteq> None \<and>
         pg_view w' = spec_delete rid (pg_view w))
      (\<lambda>e w'. pg_ok w' \<and> calm w' = calm w \<and> pg_view w' \<in> {pg_view w, spec_delete rid (pg_view w)} \<and>
         (errors_Is e roomRepo_ErrRoomNotFound \<longrightarrow> v_rooms (pg_view w) rid = None) \<and>
         (calm w \<longrightarrow> errors_Is e roomRepo_ErrRoomNotFound)) w"
  unfolding pgRoom_DeleteRoom_def wp_simps
  by (rule wp_room_exec [OF sql_delete_room_def])
    (use assms delete_room_effect [OF assms [unfolded pg_ok_def] sql_delete_room_def] in
      \<open>auto simp: pg_ok_def pg_view_def wp_simps simp del: tables_view_simps\<close>)

lemma pg_RemoveMember:
  assumes "pg_ok w"
  shows "wp (pgRoom_RemoveMember rid uid)
      (\<lambda>_ w'. pg_ok w' \<and> calm w' = calm w \<and> v_roles (pg_view w) rid uid \<noteq> None \<and>
         pg_view w' = spec_set_role rid uid None (pg_view w))
      (\<lambda>e w'. pg_ok w' \<and> calm w' = calm w \<and>
         pg_view w' \<in> {pg_view w, spec_set_role rid uid None (pg_view w)} \<and>
         (errors_Is e roomRepo_ErrMemberNotFound \<longrightarrow> v_roles (pg_view w) rid uid = None) \<and>
         (calm w \<longrightarrow> errors_Is e roomRepo_ErrMemberNotFound)) w"
  unfolding pgRoom_RemoveMember_def wp_simps
  by (rule wp_room_exec [OF sql_delete_member_def])
    (use assms delete_member_effect [OF assms [unfolded pg_ok_def] sql_delete_member_def] in
      \<open>auto simp: pg_ok_def pg_view_def wp_simps simp del: tables_view_simps\<close>)

lemma pg_AddMember:
  assumes "pg_ok w"
  shows "wp (pgRoom_AddMember rid uid role)
      (\<lambda>m w'. pg_ok w' \<and> calm w' = calm w \<and> rm_RoomID m = rid \<and> rm_UserID m = uid \<and>
         rm_Role m = role \<and> added rid uid role (pg_view w) (pg_view w'))
      (\<lambda>e w'. pg_ok w' \<and> calm w' = calm w \<and>
         (pg_view w' = pg_view w \<or> added rid uid role (pg_view w) (pg_view w')) \<and>
         (errors_Is e roomRepo_ErrMemberAlreadyExists \<longrightarrow>
            pg_view w' = pg_view w \<and> v_roles (pg_view w) rid uid \<noteq> None) \<and>
         (calm w \<and> v_rooms (pg_view w) rid \<noteq> None \<and> role \<in> {MemberRoleOwner, MemberRoleMember} \<longrightarrow>
            errors_Is e roomRepo_ErrMemberAlreadyExists)) w"
proof -
  have ok: "tables_ok (room_db w)" using assms by (simp add: pg_ok_def)
  have add: "tables_ok db \<and> rm_RoomID m = rid \<and> rm_UserID m = uid \<and> rm_Role m = role \<and>
      added rid uid role (tables_view (room_db w)) (tables_view db)"
    if "sql_insert_member rid uid role t u (room_db w) = Inr (Some m, db)" for t u m db
    using insert_member_Some [OF ok that] that
    by (auto simp: added_def sql_insert_member_def Let_def simp del: tables_view_simps split: if_splits)
  have rej: "\<exists>x. e = External x \<and>
      (v_rooms (tables_view (room_db w)) rid = None \<or> role \<notin> {MemberRoleOwner, MemberRoleMember})"
    if "sql_insert_member rid uid role t u (room_db w) = Inl e" for t u e
    using that by (auto simp: sql_insert_member_def Let_def room_consts find_room_None split: if_splits)
  have conflict: "v_roles (tables_view (room_db w)) rid uid \<noteq> None"
    if "sql_insert_member rid uid role t u (room_db w) = Inr (None, db)" for t u db
    using insert_member_None [OF that] by simp
  show ?thesis
    unfolding pgRoom_AddMember_def wp_simps pg_ok_def pg_view_def
  proof (rule wp_room_pool, goal_cases)
    case (1 x w')
    with ok show ?case by simp
  next
    case (2 x t u a db w')
    then have "sql_insert_member rid uid role t u (room_db w) = Inr (Some a, db)" by (simp add: one_row_Inr)
    from add [OF this] 2 show ?case by simp
  next
    case (3 t u e w')
    then consider "sql_insert_member rid uid role t u (room_db w) = Inl e"
      | db where "e = Sentinel pgx_ErrNoRows" "sql_insert_member rid uid role t u (room_db w) = Inr (None, db)"
      by (auto simp: one_row_Inl)
    then show ?case
      by cases (use 3 ok in \<open>auto simp: wp_fail dest!: rej conflict simp del: tables_view_simps\<close>)
  next
    case (4 t u a db w')
    then have "sql_insert_member rid uid role t u (room_db w) = Inr (Some a, db)" by (simp add: one_row_Inr)
    from add [OF this] 4 show ?case by simp
  qed
qed

text \<open>Statements of a transaction leave the committed tables alone.\<close>

lemma tx_call_cases:
  assumes "tx_call t s (w, db) = (r, (w', db'))"
  obtains (external) x where "r = Inl (External x)" "db' = db" "w' = tick w"
    | (rejected) u e where "r = Inl e" "s t u db = Inl e" "db' = db" "w' = tick w"
    | (finished) u a where "r = Inr a" "s t u db = Inr (a, db')" "w' = tick w"
proof (cases "fault_at (env w) (calls w)")
  case Works
  show thesis
  proof (cases "s t (uuid_in w) db")
    case (Inl e)
    with assms Works have "r = Inl e" "db' = db" "w' = tick w" by (simp_all add: tx_call_def)
    with Inl show thesis by (rule_tac that(2))
  next
    case (Inr p)
    with assms Works have "r = Inr (fst p)" "s t (uuid_in w) db = Inr (fst p, db')" "w' = tick w"
      by (cases p; simp add: tx_call_def)+
    then show thesis by (rule that(3))
  qed
next
  case (Fails x)
  with assms have "r = Inl (External x)" "db' = db" "w' = tick w" by (simp_all add: tx_call_def)
  then show thesis by (rule that(1))
next
  case (Lost x)
  with assms have "r = Inl (External x)" "db' = db" "w' = tick w" by (simp_all add: tx_call_def)
  then show thesis by (rule that(1))
qed

lemma is_member_iff: "v_roles (tables_view db) rid u \<noteq> None \<longleftrightarrow> list_ex (is_row rid u) (room_members db)"
  using find_row_None [of rid u "room_members db"] by auto

lemma direct_room_find:
  assumes "tables_ok db"
  shows "find (\<lambda>r. room_Type r = ''direct'' \<and> list_ex (is_row (room_ID r) u1) (room_members db)
                  \<and> list_ex (is_row (room_ID r) u2) (room_members db)) (rooms db) \<noteq> None \<longleftrightarrow>
    (\<exists>rid. direct_room_of (tables_view db) u1 u2 rid)"
proof -
  have at: "v_rooms (tables_view db) rid = Some r \<longleftrightarrow> r \<in> set (rooms db) \<and> room_ID r = rid" for rid r
    unfolding tables_view_simps by (rule find_room_iff [OF assms])
  have "(\<exists>rid. direct_room_of (tables_view db) u1 u2 rid) \<longleftrightarrow>
      (\<exists>r \<in> set (rooms db). room_Type r = ''direct'' \<and> list_ex (is_row (room_ID r) u1) (room_members db)
         \<and> list_ex (is_row (room_ID r) u2) (room_members db))"
    unfolding direct_room_of_def is_member_iff RoomTypeDirect_def at by blast
  then show ?thesis unfolding find_None_iff by blast
qed

lemma getDirectRoomByUsersTx:
  assumes "tables_ok db" and "pgRoom_getDirectRoomByUsersTx t c p (w, db) = (r, (w', db'))"
  shows "w' = tick w" and "db' = db"
    and "r = Inr x \<Longrightarrow> \<exists>rid. direct_room_of (tables_view db) c p rid"
    and "r = Inl e \<Longrightarrow> errors_Is e roomRepo_ErrRoomNotFound \<Longrightarrow> \<not> direct_room_of (tables_view db) c p rid"
    and "r = Inl e \<Longrightarrow> \<not> errors_Is e roomRepo_ErrDirectRoomExists"
proof -
  obtain d where d: "\<And>u. sql_select_direct_room c p t u db = Inr (d, db)"
    and d_iff: "(d \<noteq> None) = (\<exists>rid. direct_room_of (tables_view db) c p rid)"
    using direct_room_find [OF assms(1), of c p] by (simp add: sql_select_direct_room_def)
  have "w' = tick w \<and> db' = db \<and> (\<forall>x. r = Inr x \<longrightarrow> d \<noteq> None) \<and>
      (\<forall>e. r = Inl e \<longrightarrow> (errors_Is e roomRepo_ErrRoomNotFound \<longrightarrow> d = None) \<and>
         \<not> errors_Is e roomRepo_ErrDirectRoomExists)"
    using assms(2) unfolding pgRoom_getDirectRoomByUsersTx_def
  proof (cases rule: tryE_cases)
    case (error e w1)
    obtain w2 db2 where w1: "w1 = (w2, db2)" by (rule prod.exhaust)
    from error(1) show ?thesis unfolding w1
      by (cases rule: tx_call_cases) (use error(2) w1 in
        \<open>auto simp: one_row_Inl d fail_def no_room_def split: if_splits\<close>)
  next
    case (ok x w1)
    obtain w2 db2 where w1: "w1 = (w2, db2)" by (rule prod.exhaust)
    from ok(1) show ?thesis unfolding w1
      by (cases rule: tx_call_cases) (use ok(2) w1 in \<open>auto simp: one_row_Inr d ret_def\<close>)
  qed
  with d_iff show "w' = tick w" "db' = db"
    "r = Inr x \<Longrightarrow> \<exists>rid. direct_room_of (tables_view db) c p rid"
    "r = Inl e \<Longrightarrow> errors_Is e roomRepo_ErrRoomNotFound \<Longrightarrow> \<not> direct_room_of (tables_view db) c p rid"
    "r = Inl e \<Longrightarrow> \<not> errors_Is e roomRepo_ErrDirectRoomExists"
    by blast+
qed

lemma pg_checkDirect:
  assumes "tables_ok db" and "pgRoom_checkDirect t ty c p (w, db) = (r, (w', db'))"
  shows "room_db w' = room_db w \<and> db' = db \<and>
    (ty = RoomTypeDirect \<and> p \<noteq> uuid_Nil \<longrightarrow> r = Inr () \<longrightarrow> (\<forall>rid. \<not> direct_room_of (tables_view db) c p rid)) \<and>
    (\<forall>e. r = Inl e \<longrightarrow> errors_Is e roomRepo_ErrDirectRoomExists \<longrightarrow>
       (\<exists>rid. direct_room_of (tables_view db) c p rid))"
proof (cases "ty = RoomTypeDirect \<and> p \<noteq> uuid_Nil")
  case True
  with assms(2) have "tryE (pgRoom_getDirectRoomByUsersTx t c p)
      (\<lambda>e. if \<not> errors_Is e roomRepo_ErrRoomNotFound then fail (Wrap ''check existing direct room'' e)
           else ret ())
      (\<lambda>existing. fail (Sentinel roomRepo_ErrDirectRoomExists)) (w, db) = (r, (w', db'))"
    unfolding pgRoom_checkDirect_def by simp
  then show ?thesis
  proof (cases rule: tryE_cases)
    case (error e w1)
    obtain w2 db2 where w1: "w1 = (w2, db2)" by (rule prod.exhaust)
    note g = getDirectRoomByUsersTx [OF assms(1) error(1) [unfolded w1]]
    show ?thesis using g error(2) w1 by (auto simp: fail_def ret_def split: if_splits)
  next
    case (ok x w1)
    obtain w2 db2 where w1: "w1 = (w2, db2)" by (rule prod.exhaust)
    note g = getDirectRoomByUsersTx [OF assms(1) ok(1) [unfolded w1]]
    show ?thesis using g ok(2) w1 by (auto simp: fail_def ret_def)
  qed
next
  case False
  with assms(2) show ?thesis by (auto simp: pgRoom_checkDirect_def ret_def)
qed

lemma no_room_no_roles:
  assumes "tables_ok db" and "v_rooms (tables_view db) rid = None"
  shows "v_roles (tables_view db) rid u = None"
  using assms member_has_room [of db rid u] by (auto simp: find_room_None)

lemma insert_member_rejects: "sql_insert_member rid uid role t u db = Inl e \<Longrightarrow> \<exists>x. e = External x"
  by (auto simp: sql_insert_member_def Let_def split: if_splits)

text \<open>The inserts of \<open>CreateRoom\<close>: when they succeed the working copy holds the new room with its
  first members, and the committed database has not changed.\<close>

lemma insert_owner_effect:
  assumes ok: "tables_ok db" and room: "sql_insert_room name ty c t u db = Inr (room, db1)"
    and own: "sql_insert_member (room_ID room) c MemberRoleOwner t u2 db1 = Inr (m, db2)"
  shows "tables_ok db2 \<and> tables_view db2 =
    spec_create room ((\<lambda>_. None)(c := Some MemberRoleOwner)) (tables_view db)"
proof -
  note r = insert_room_effect [OF ok room]
  have free: "v_roles (tables_view db1) (room_ID room) v = None" for v
    using no_room_no_roles [OF ok r(2), of v] r(8) by simp
  then obtain m' where "m = Some m'"
    using own insert_member_None(2) [of "room_ID room" c MemberRoleOwner t u2 db1 db2] by fastforce
  note o = insert_member_Some [OF r(1) own [unfolded this]]
  have "v_roles (tables_view db) (room_ID room) = (\<lambda>_. None)"
    using no_room_no_roles [OF ok r(2)] by (simp add: fun_eq_iff del: tables_view_simps)
  with o(1,2) r(3) show ?thesis
    by (simp add: room_spec_defs del: tables_view_simps)
qed

lemma insert_participant_effect:
  assumes ok: "tables_ok db"
    and view: "tables_view db = spec_create room ((\<lambda>_. None)(c := Some MemberRoleOwner)) v"
    and ins: "sql_insert_member (room_ID room) p MemberRoleMember t u db = Inr (m, db')"
    and p: "p \<noteq> uuid_Nil"
  shows "tables_ok db' \<and> tables_view db' = spec_create room (initial_roles RoomTypeDirect c p) v"
proof (cases m)
  case None
  note n = insert_member_None [OF ins [unfolded None]]
  from n(2) view have "p = c"
    by (auto simp: spec_create_def simp del: tables_view_simps split: if_splits)
  with ok view n(1) show ?thesis by (simp add: initial_roles_def Let_def)
next
  case (Some a)
  note n = insert_member_Some [OF ok ins [unfolded Some]]
  from n(4) view have "p \<noteq> c"
    by (auto simp: spec_create_def simp del: tables_view_simps)
  with n(1,2) view p show ?thesis
    by (simp add: initial_roles_def Let_def room_spec_defs)
qed

lemma insert_room_rejects: "sql_insert_room name ty c t u db = Inl e \<Longrightarrow> \<exists>x. e = External x"
  by (auto simp: sql_insert_room_def Let_def varchar_def split: if_splits)

lemma wp_tx_call:
  assumes "\<And>x. E (External x) (tick w, db)"
    and "\<And>u e. s t u db = Inl e \<Longrightarrow> E e (tick w, db)"
    and "\<And>u a db'. s t u db = Inr (a, db') \<Longrightarrow> Q a (tick w, db')"
  shows "wp (tx_call t s) Q E (w, db)"
  by (rule wpI; clarify; erule tx_call_cases) (use assms in auto)

lemma pg_insertRoom:
  assumes ok: "tables_ok db"
  shows "wp (pgRoom_insertRoom t name ty c p)
    (\<lambda>room (w', db'). room_db w' = room_db w \<and> tables_ok db' \<and>
       v_rooms (tables_view db) (room_ID room) = None \<and> room_Type room = ty \<and>
       ty \<in> {RoomTypeDirect, RoomTypeGroup} \<and> room_CreatedBy room = c \<and>
       tables_view db' = spec_create room (initial_roles ty c p) (tables_view db))
    (\<lambda>e (w', db'). room_db w' = room_db w \<and> \<not> errors_Is e roomRepo_ErrDirectRoomExists) (w, db)"
proof -
  have no_err: "\<not> errors_Is e x" if "sql_insert_member a b q t u d = Inl e" for a b q u d e x
    using insert_member_rejects [OF that] by auto
  have no_err_room: "\<not> errors_Is e x" if "sql_insert_room name ty c t u d = Inl e" for u d e x
    using insert_room_rejects [OF that] by auto
  have roles: "initial_roles ty c p = (\<lambda>_. None)(c := Some MemberRoleOwner)"
    if "\<not> (ty = RoomTypeDirect \<and> p \<noteq> uuid_Nil)"
    using that by (auto simp: initial_roles_def Let_def)
  show ?thesis
    unfolding pgRoom_insertRoom_def wp_simps
  proof (rule wp_tx_call, goal_cases)
    case (3 u room db1)
    note r = insert_room_effect [OF ok 3]
    show ?case
    proof (rule wp_tx_call, goal_cases)
      case (3 u2 m db2)
      note own = insert_owner_effect [OF ok \<open>sql_insert_room _ _ _ _ _ _ = _\<close> 3]
      show ?case
      proof (cases "ty = RoomTypeDirect \<and> p \<noteq> uuid_Nil")
        case True
        have "tables_ok db3 \<and> tables_view db3 = spec_create room (initial_roles ty c p) (tables_view db)"
          if "sql_insert_member (room_ID room) p MemberRoleMember t u3 db2 = Inr (m3, db3)" for u3 m3 db3
          using insert_participant_effect [of db2 room c "tables_view db" p t u3 m3 db3] own True that
          by blast
        with True r(2,4,5,6) show ?thesis
          by (simp only: if_True simp_thms, intro wp_tx_call)
            (simp_all add: no_err del: tables_view_simps)
      next
        case False
        show ?thesis
          unfolding if_not_P [OF False] roles [OF False] wp_simps
          using own r(2,4,5,6) by (simp del: tables_view_simps)
      qed
    qed (auto dest: no_err)
  qed (auto dest: no_err_room)
qed

text \<open>Leaving the transaction: only the commit touches the committed database.\<close>

lemma wp_in_tx: "wp (body (now_in w)) (\<lambda>x (w', _). Q x w') (\<lambda>e (w', _). E e w') (w, get w) \<Longrightarrow>
    wp (in_tx get body) Q E w"
  by (auto simp: wp_def in_tx_def split: prod.splits sum.splits)

lemma wp_room_commit:
  assumes "\<And>w' x. room_db w' = room_db w \<Longrightarrow> E (External x) (w', db)"
    and "\<And>w' x. room_db w' = db \<Longrightarrow> E (External x) (w', db)"
    and "\<And>w'. room_db w' = db \<Longrightarrow> Q () (w', db)"
  shows "wp (tx_commit put_room_db) Q E (w, db)"
  using assms by (auto simp: wp_def tx_commit_def put_room_db_def split: fault.splits)

lemma wp_begin_tx:
  assumes "\<And>w' x. room_db w' = room_db w \<Longrightarrow> E (External x) w'"
    and "\<And>w'. room_db w' = room_db w \<Longrightarrow> Q () w'"
  shows "wp begin_tx Q E w"
  using assms by (auto simp: wp_def begin_tx_def ext_call_def split: fault.splits)

lemma pg_checkDirect_wp:
  assumes "tables_ok db"
  shows "wp (pgRoom_checkDirect t ty c p)
    (\<lambda>_ (w', db'). room_db w' = room_db w \<and> db' = db \<and>
       (ty = RoomTypeDirect \<and> p \<noteq> uuid_Nil \<longrightarrow> (\<forall>rid. \<not> direct_room_of (tables_view db) c p rid)))
    (\<lambda>e (w', db'). room_db w' = room_db w \<and> (errors_Is e roomRepo_ErrDirectRoomExists \<longrightarrow>
       (\<exists>rid. direct_room_of (tables_view db) c p rid))) (w, db)"
  by (rule wpI; clarify; drule pg_checkDirect [OF assms]; blast)

lemma insert_then_commit:
  assumes ok: "tables_ok (room_db w)"
    and no_direct: "ty = RoomTypeDirect \<and> p \<noteq> uuid_Nil \<Longrightarrow> \<forall>rid. \<not> direct_room_of (pg_view w) c p rid"
    and w1: "room_db w1 = room_db w"
  shows "wp (tryE (pgRoom_insertRoom t name ty c p) fail
      (\<lambda>room. tryE (tx_commit put_room_db) (\<lambda>e. fail (Wrap m e)) (\<lambda>_. ret room)))
    (\<lambda>room (w', _). pg_ok w' \<and> created ty c p (pg_view w) room (pg_view w'))
    (\<lambda>e (w', _). pg_ok w' \<and> \<not> errors_Is e roomRepo_ErrDirectRoomExists \<and>
       (pg_view w' = pg_view w \<or> (\<exists>room. created ty c p (pg_view w) room (pg_view w'))))
    (w1, room_db w)"
  unfolding wp_simps
proof (rule wp_mono [OF pg_insertRoom [OF ok]], goal_cases)
  case (1 room s)
  obtain w2 db2 where s: "s = (w2, db2)" by (rule prod.exhaust)
  from 1 have "room_db w2 = room_db w" "tables_ok db2" "created ty c p (pg_view w) room (tables_view db2)"
    using no_direct w1 unfolding s created_def pg_view_def by auto
  then show ?case
    unfolding s by (intro wp_room_commit) (auto simp: pg_ok_def pg_view_def ok)
qed (use ok w1 in \<open>auto simp: pg_ok_def pg_view_def\<close>)

lemma pg_CreateRoom:
  assumes "pg_ok w"
  shows "wp (pgRoom_CreateRoom name ty c p)
    (\<lambda>room w'. pg_ok w' \<and> created ty c p (pg_view w) room (pg_view w'))
    (\<lambda>e w'. pg_ok w' \<and> (if errors_Is e roomRepo_ErrDirectRoomExists
       then pg_view w' = pg_view w \<and> (\<exists>rid. direct_room_of (pg_view w) c p rid)
       else pg_view w' = pg_view w \<or> (\<exists>room. created ty c p (pg_view w) room (pg_view w')))) w"
  unfolding pgRoom_CreateRoom_def
  apply (simp only: wp_tryE)
  apply (rule wp_begin_tx)
   apply (use assms in \<open>simp add: pg_ok_def pg_view_def wp_fail\<close>)
  apply (rule wp_in_tx)
  apply (simp only: wp_tryE [of "pgRoom_checkDirect _ _ _ _"])
proof (rule wp_mono [OF pg_checkDirect_wp], goal_cases)
  case (1 w1)
  then show ?case using assms by (simp add: pg_ok_def)
next
  case (2 w1 x s)
  then have v: "pg_view w1 = pg_view w" "tables_ok (room_db w1)" using assms by (simp_all add: pg_view_def pg_ok_def)
  obtain w2 where s: "s = (w2, room_db w1)" "room_db w2 = room_db w1" using 2 by auto
  from 2 v show ?case
    unfolding s(1) by (intro wp_mono [OF insert_then_commit [OF v(2)]])
      (auto simp: pg_view_def [symmetric] s(2) split: prod.splits)
next
  case (3 w1 e s)
  then show ?case using assms by (auto simp: wp_fail pg_ok_def pg_view_def split: prod.splits)
qed

lemma calm_tx [kept_intros]:
  "kept (\<lambda>(w, _). calm w = b) (tx_call t s)"
  "kept (\<lambda>(w, _). calm w = b) (tx_commit put_room_db)"
  by (auto simp: kept_def tx_call_def tx_commit_def split: fault.splits sum.splits prod.splits)

lemma calm_begin_tx [kept_intros]: "kept (\<lambda>w. calm w = b) begin_tx"
  unfolding begin_tx_def by (rule kept_ext_call) (simp_all add: kept_def)

lemma kept_in_tx:
  assumes "\<And>t. kept (\<lambda>(w, _). I w) (body t)"
  shows "kept I (in_tx get body)"
proof -
  have "I (snd (in_tx get body w))" if "I w" for w
  proof -
    obtain r w' db where run: "body (now_in w) (w, get w) = (r, (w', db))" by (metis prod.exhaust)
    then show ?thesis using keptD [OF assms _ run] that by (simp add: in_tx_def)
  qed
  then show ?thesis by (simp add: kept_def)
qed

lemma pg_CreateRoom_calm: "kept (\<lambda>w. calm w = b) (pgRoom_CreateRoom name ty c p)"
  unfolding pgRoom_defs by (intro kept_intros kept_in_tx)

text \<open>The two list queries, in terms of the abstract state.\<close>

lemma members_listed:
  assumes ok: "tables_ok db" and ms: "ms = filter (\<lambda>m. rm_RoomID m = rid) (room_members db)"
  shows "distinct (List.map rm_UserID ms)" and "\<forall>m \<in> set ms. rm_RoomID m = rid"
    and "v_roles (tables_view db) rid u = Some role \<longleftrightarrow> (\<exists>m \<in> set ms. rm_UserID m = u \<and> rm_Role m = role)"
proof -
  have "distinct (List.map member_key ms)"
    using ok by (simp add: ms tables_ok_def distinct_map_filter)
  moreover have "List.map member_key ms = List.map (Pair rid) (List.map rm_UserID ms)"
    by (auto simp: ms member_key_def)
  ultimately show "distinct (List.map rm_UserID ms)" by (metis distinct_map)
  show "\<forall>m \<in> set ms. rm_RoomID m = rid" by (simp add: ms)
  show "v_roles (tables_view db) rid u = Some role \<longleftrightarrow> (\<exists>m \<in> set ms. rm_UserID m = u \<and> rm_Role m = role)"
    using find_row_iff [OF ok, of rid u] by (auto simp: ms)
qed

lemma user_rooms_listed:
  assumes ok: "tables_ok db"
    and rs: "rs = sort_key (\<lambda>r. - room_CreatedAt r)
      (filter (\<lambda>r. list_ex (is_row (room_ID r) uid) (room_members db)) (rooms db))"
  shows "sorted_wrt (\<lambda>a b. room_CreatedAt b \<le> room_CreatedAt a) rs" and "distinct (List.map room_ID rs)"
    and "x \<in> set rs \<longleftrightarrow>
      v_rooms (tables_view db) (room_ID x) = Some x \<and> v_roles (tables_view db) (room_ID x) uid \<noteq> None"
proof -
  have "sorted (List.map (\<lambda>r. - room_CreatedAt r) rs)" unfolding rs by (rule sorted_sort_key)
  then show "sorted_wrt (\<lambda>a b. room_CreatedAt b \<le> room_CreatedAt a) rs"
    by (simp add: sorted_wrt_map)
  have "mset (List.map room_ID rs) = mset (List.map room_ID
      (filter (\<lambda>r. list_ex (is_row (room_ID r) uid) (room_members db)) (rooms db)))"
    unfolding rs mset_map by simp
  then have "distinct (List.map room_ID rs) \<longleftrightarrow> distinct (List.map room_ID
      (filter (\<lambda>r. list_ex (is_row (room_ID r) uid) (room_members db)) (rooms db)))"
    by (rule mset_eq_imp_distinct_iff)
  then show "distinct (List.map room_ID rs)"
    using ok by (simp add: tables_ok_def distinct_map_filter)
  show "x \<in> set rs \<longleftrightarrow>
      v_rooms (tables_view db) (room_ID x) = Some x \<and> v_roles (tables_view db) (room_ID x) uid \<noteq> None"
    unfolding is_member_iff using find_room_iff [OF ok, of "room_ID x" x] by (auto simp: rs)
qed

interpretation pg: room_repository pgRoomRepository pg_view pg_ok calm
proof (unfold_locales, unfold pgRoomRepository_def RoomRepository.select_convs, goal_cases)
  case (4 w rid)
  then have "tables_ok (room_db w)" by (simp add: pg_ok_def)
  note l = members_listed [OF this]
  show ?case
  proof (rule wp_mono [OF pg_GetRoomMembers [OF 4]], goal_cases)
    case (1 ms w')
    then have "ms = filter (\<lambda>m. rm_RoomID m = rid) (room_members (room_db w))" by (elim conjE)
    from l [OF this] 1 show ?case unfolding pg_view_def by blast
  qed
next
  case (5 w uid)
  then have "tables_ok (room_db w)" by (simp add: pg_ok_def)
  note l = user_rooms_listed [OF this]
  show ?case
  proof (rule wp_mono [OF pg_GetUserRooms [OF 5]], goal_cases)
    case (1 rs w')
    then have "rs = sort_key (\<lambda>r. - room_CreatedAt r)
        (filter (\<lambda>r. list_ex (is_row (room_ID r) uid) (room_members (room_db w))) (rooms (room_db w)))"
      by (elim conjE)
    from l [OF this] 1 show ?case unfolding pg_view_def by blast
  qed
next
  case (6 w name ty c p)
  show ?case
    by (rule wp_mono [OF wp_kept [OF pg_CreateRoom_calm pg_CreateRoom [OF 6] refl]]) blast+
qed (rule pg_GetRoomByID pg_GetMemberRole pg_IsMember pg_UpdateRoom pg_DeleteRoom pg_AddMember
    pg_RemoveMember, assumption)+

text \<open>When no call fails, \<open>CreateRoom\<close> fails exactly for the reasons it should.\<close>

lemma calm_tx_call: "calm w \<Longrightarrow> tx_call t s (w, db) =
   (case s t (uuid_in w) db of Inl e \<Rightarrow> (Inl e, (tick w, db)) | Inr (a, db') \<Rightarrow> (Inr a, (tick w, db')))"
  by (simp add: tx_call_def)

lemma calm_checkDirect:
  assumes "calm w" "tables_ok db"
  shows "pgRoom_checkDirect t ty c p (w, db) =
    (if ty = RoomTypeDirect \<and> p \<noteq> uuid_Nil
     then (if \<exists>rid. direct_room_of (tables_view db) c p rid
           then Inl (Sentinel roomRepo_ErrDirectRoomExists) else Inr (), (tick w, db))
     else (Inr (), (w, db)))"
proof -
  obtain d where d: "\<And>u. sql_select_direct_room c p t u db = Inr (d, db)"
    and d_iff: "(d \<noteq> None) = (\<exists>rid. direct_room_of (tables_view db) c p rid)"
    using direct_room_find [OF assms(2), of c p] by (simp add: sql_select_direct_room_def)
  then show ?thesis using assms(1)
    by (cases d) (auto simp: pgRoom_checkDirect_def pgRoom_getDirectRoomByUsersTx_def calm_tx_call one_row_def
      tryE_def fail_def ret_def no_room_def)
qed

lemma insert_member_Inr:
  assumes "role \<in> {MemberRoleOwner, MemberRoleMember}" "rid \<in> room_ID ` set (rooms db)"
  shows "\<exists>m db'. sql_insert_member rid uid role t u db = Inr (m, db') \<and> rooms db' = rooms db"
  using assms by (auto simp: sql_insert_member_def Let_def room_consts)

lemma calm_insertRoom:
  assumes "calm w" "ty \<in> {RoomTypeDirect, RoomTypeGroup}" "fits 100 name"
    "\<forall>n. uuid_at (env w) n \<notin> room_ID ` set (rooms db)"
  shows "\<exists>r w' db'. pgRoom_insertRoom t name ty c p (w, db) = (Inr r, (w', db')) \<and> calm w'"
proof -
  obtain room db1 where 1: "sql_insert_room name ty c t (uuid_in w) db = Inr (room, db1)"
      "room_ID room \<in> room_ID ` set (rooms db1)"
    using assms(2-) by (auto simp: sql_insert_room_def Let_def varchar_short room_consts uuid_in_def)
  obtain m db2 where 2: "sql_insert_member (room_ID room) c MemberRoleOwner t (uuid_in (tick w)) db1 = Inr (m, db2)"
      "rooms db2 = rooms db1"
    using insert_member_Inr [of MemberRoleOwner "room_ID room" db1] 1 by blast
  obtain m' db3 where 3: "sql_insert_member (room_ID room) p MemberRoleMember t (uuid_in (tick (tick w))) db2 = Inr (m', db3)"
    using insert_member_Inr [of MemberRoleMember "room_ID room" db2 p t "uuid_in (tick (tick w))"] 1 2
    by auto
  show ?thesis using assms(1) 1 2 3
    by (auto simp: pgRoom_insertRoom_def tryE_def calm_tx_call ret_def)
qed

lemma calm_CreateRoom:
  assumes "pg_ok w" "calm w"
  shows "ty = RoomTypeDirect \<Longrightarrow> p \<noteq> uuid_Nil \<Longrightarrow> direct_room_of (pg_view w) c p rid \<Longrightarrow>
      \<exists>w'. pgRoom_CreateRoom name ty c p w = (Inl (Sentinel roomRepo_ErrDirectRoomExists), w')"
    and "ty \<in> {RoomTypeDirect, RoomTypeGroup} \<Longrightarrow> fits 100 name \<Longrightarrow>
      \<forall>n. uuid_at (env w) n \<notin> room_ID ` set (rooms (room_db w)) \<Longrightarrow>
      ty = RoomTypeDirect \<longrightarrow> (\<forall>rid. \<not> direct_room_of (pg_view w) c p rid) \<Longrightarrow>
      \<exists>r w'. pgRoom_CreateRoom name ty c p w = (Inr r, w')"
proof -
  have ok: "tables_ok (room_db w)" using assms by (simp add: pg_ok_def)
  have bg: "begin_tx w = (Inr (), tick w)" using assms by (simp add: begin_tx_def ext_call_calm)
  note check = calm_checkDirect [of "tick w" "room_db w", OF _ ok]
  show "ty = RoomTypeDirect \<Longrightarrow> p \<noteq> uuid_Nil \<Longrightarrow> direct_room_of (pg_view w) c p rid \<Longrightarrow>
      \<exists>w'. pgRoom_CreateRoom name ty c p w = (Inl (Sentinel roomRepo_ErrDirectRoomExists), w')"
    using assms by (auto simp: pgRoom_CreateRoom_def tryE_def bg in_tx_def check pg_view_def fail_def)
  assume *: "ty \<in> {RoomTypeDirect, RoomTypeGroup}" "fits 100 name"
      "\<forall>n. uuid_at (env w) n \<notin> room_ID ` set (rooms (room_db w))"
      "ty = RoomTypeDirect \<longrightarrow> (\<forall>rid. \<not> direct_room_of (pg_view w) c p rid)"
  obtain w1 where c: "pgRoom_checkDirect (now_in (tick w)) ty c p (tick w, room_db w) = (Inr (), (w1, room_db w))"
      "calm w1" "env w1 = env w"
    by (rule that [of "if ty = RoomTypeDirect \<and> p \<noteq> uuid_Nil then tick (tick w) else tick w"])
      (use assms(2) *(4) in \<open>auto simp: check pg_view_def\<close>)
  obtain r w2 db2 where i: "pgRoom_insertRoom (now_in (tick w)) name ty c p (w1, room_db w) = (Inr r, (w2, db2))" "calm w2"
    using calm_insertRoom [of w1 ty name "room_db w" "now_in (tick w)" c p] c *(1-3) by auto
  show "\<exists>r w'. pgRoom_CreateRoom name ty c p w = (Inr r, w')"
    using c i by (auto simp: pgRoom_CreateRoom_def tryE_def bg in_tx_def tx_commit_def ret_def)
qed

end
