(* ===== verification/RoomService.thy ===== *)
theory RoomService
  imports RoomRepo
begin

text \<open>
  \<open>services/room/internal/service\<close> and the NATS publisher of \<open>services/room/internal/nats\<close>.

  The service is a function of its repository and its publisher, both seen through their
  interfaces.  \<open>room_backend\<close> is what the service relies on: the contract of the repository and
  the one of the publisher, which neither changes the rooms nor, when nothing fails, loses an
  event.  The lemmas inside it show that each operation does what a policy over the abstract
  state (\<open>room_view\<close>) allows: \<open>delete_verdict\<close>, \<open>add_verdict\<close>, \<open>remove_verdict\<close>.  The locale is
  interpreted on Postgres and NATS at the end.

  \<open>room_step\<close> is the abstract machine of the rooms; every operation of the service stays on it,
  so its invariant \<open>rooms_inv\<close> holds after any sequence of requests.
\<close>

section \<open>Types and mapper\<close>

record sRoom =
  sroom_ID :: uuid
  sroom_Name :: string
  sroom_Type :: RoomType
  sroom_CreatedBy :: uuid
  sroom_CreatedAt :: time
  sroom_UpdatedAt :: time

record sRoomMember =
  srm_RoomID :: uuid
  srm_UserID :: uuid
  srm_Role :: MemberRole
  srm_JoinedAt :: time

definition toRoom :: "Room \<Rightarrow> sRoom" where
  "toRoom r = \<lparr>sroom_ID = room_ID r, sroom_Name = room_Name r, sroom_Type = room_Type r,
     sroom_CreatedBy = room_CreatedBy r, sroom_CreatedAt = room_CreatedAt r,
     sroom_UpdatedAt = room_UpdatedAt r\<rparr>"

definition toRoomMember :: "RoomMember \<Rightarrow> sRoomMember" where
  "toRoomMember m = \<lparr>srm_RoomID = rm_RoomID m, srm_UserID = rm_UserID m, srm_Role = rm_Role m,
     srm_JoinedAt = rm_JoinedAt m\<rparr>"

definition memberUserIDs :: "RoomMember list \<Rightarrow> uuid list" where
  "memberUserIDs members = List.map rm_UserID members"

section \<open>The service\<close>

record 'w RoomPublisher =
  pub_RoomCreated :: "uuid \<Rightarrow> uuid list \<Rightarrow> ('w, unit) op"
  pub_MembershipChanged :: "uuid \<Rightarrow> uuid \<Rightarrow> string \<Rightarrow> uuid list \<Rightarrow> ('w, unit) op"
  pub_RoomUpdated :: "uuid \<Rightarrow> string \<Rightarrow> uuid list \<Rightarrow> ('w, unit) op"
  pub_RoomDeleted :: "uuid \<Rightarrow> uuid list \<Rightarrow> ('w, unit) op"

record 'w roomService =
  roomRepo :: "'w RoomRepository"
  publisher :: "'w RoomPublisher"

record 'w RoomService =
  svc_CreateRoom :: "string \<Rightarrow> RoomType \<Rightarrow> uuid \<Rightarrow> uuid \<Rightarrow> ('w, sRoom) op"
  svc_GetRoom :: "uuid \<Rightarrow> ('w, sRoom) op"
  svc_UpdateRoom :: "uuid \<Rightarrow> uuid \<Rightarrow> string \<Rightarrow> ('w, sRoom) op"
  svc_DeleteRoom :: "uuid \<Rightarrow> uuid \<Rightarrow> ('w, unit) op"
  svc_AddMember :: "uuid \<Rightarrow> uuid \<Rightarrow> uuid \<Rightarrow> ('w, unit) op"
  svc_RemoveMember :: "uuid \<Rightarrow> uuid \<Rightarrow> uuid \<Rightarrow> ('w, unit) op"
  svc_GetRoomMembers :: "uuid \<Rightarrow> ('w, sRoomMember list) op"
  svc_IsMember :: "uuid \<Rightarrow> uuid \<Rightarrow> ('w, bool) op"
  svc_GetUserRooms :: "uuid \<Rightarrow> ('w, sRoom list) op"

definition roomService_CreateRoom ::
    "'w roomService \<Rightarrow> string \<Rightarrow> RoomType \<Rightarrow> uuid \<Rightarrow> uuid \<Rightarrow> ('w, sRoom) op" where
  "roomService_CreateRoom s name roomType createdBy participantID =
     (let repoType = roomType in
      if repoType = RoomTypeDirect \<and> participantID = uuid_Nil
      then fail (Sentinel roomSvc_ErrInvalidDirectRoom)
      else if repoType = RoomTypeDirect \<and> createdBy = participantID
      then fail (Sentinel roomSvc_ErrInvalidDirectRoom)
      else
        tryE (repo_CreateRoom (roomRepo s) name repoType createdBy participantID)
          (\<lambda>e. if errors_Is e roomRepo_ErrDirectRoomExists
               then fail (Sentinel roomSvc_ErrDirectRoomExists)
               else fail (Wrap ''create room'' e))
          (\<lambda>room. tryE (repo_GetRoomMembers (roomRepo s) (room_ID room))
             (\<lambda>_. ret (toRoom room))
             (\<lambda>members.
                attempt (pub_RoomCreated (publisher s) (room_ID room) (memberUserIDs members))
                  (ret (toRoom room)))))"

text \<open>The check at the head of \<open>GetRoom\<close>, \<open>UpdateRoom\<close>, \<open>DeleteRoom\<close>, \<open>AddMember\<close>, \<open>RemoveMember\<close>
  and \<open>GetRoomMembers\<close>.\<close>

abbreviation get_room :: "'w roomService \<Rightarrow> uuid \<Rightarrow> (Room \<Rightarrow> ('w, 'a) op) \<Rightarrow> ('w, 'a) op" where
  "get_room s roomID k \<equiv>
     tryE (repo_GetRoomByID (roomRepo s) roomID)
       (\<lambda>e. if errors_Is e roomRepo_ErrRoomNotFound then fail (Sentinel roomSvc_ErrRoomNotFound)
            else fail (Wrap ''get room'' e))
       k"

abbreviation get_role ::
    "'w roomService \<Rightarrow> uuid \<Rightarrow> uuid \<Rightarrow> sentinel \<Rightarrow> string \<Rightarrow> (MemberRole \<Rightarrow> ('w, 'a) op) \<Rightarrow> ('w, 'a) op" where
  "get_role s roomID userID missing msg k \<equiv>
     tryE (repo_GetMemberRole (roomRepo s) roomID userID)
       (\<lambda>e. if errors_Is e roomRepo_ErrMemberNotFound then fail (Sentinel missing)
            else fail (Wrap msg e))
       k"

definition roomService_GetRoom :: "'w roomService \<Rightarrow> uuid \<Rightarrow> ('w, sRoom) op" where
  "roomService_GetRoom s roomID = get_room s roomID (\<lambda>room. ret (toRoom room))"

definition roomService_UpdateRoom :: "'w roomService \<Rightarrow> uuid \<Rightarrow> uuid \<Rightarrow> string \<Rightarrow> ('w, sRoom) op" where
  "roomService_UpdateRoom s roomID requesterID name =
     get_room s roomID (\<lambda>_.
     get_role s roomID requesterID roomSvc_ErrNotMember ''get member role'' (\<lambda>role.
       if role \<noteq> MemberRoleOwner then fail (Sentinel roomSvc_ErrNotOwner)
       else
         tryE (repo_UpdateRoom (roomRepo s) roomID name)
           (\<lambda>e. if errors_Is e roomRepo_ErrRoomNotFound then fail (Sentinel roomSvc_ErrRoomNotFound)
                else fail (Wrap ''update room'' e))
           (\<lambda>updatedRoom. tryE (repo_GetRoomMembers (roomRepo s) roomID)
              (\<lambda>_. ret (toRoom updatedRoom))
              (\<lambda>members.
                 attempt (pub_RoomUpdated (publisher s) roomID (room_Name updatedRoom)
                     (memberUserIDs members))
                   (ret (toRoom updatedRoom))))))"

definition roomService_DeleteRoom :: "'w roomService \<Rightarrow> uuid \<Rightarrow> uuid \<Rightarrow> ('w, unit) op" where
  "roomService_DeleteRoom s roomID requesterID =
     get_room s roomID (\<lambda>_.
     get_role s roomID requesterID roomSvc_ErrNotMember ''get member role'' (\<lambda>role.
       if role \<noteq> MemberRoleOwner then fail (Sentinel roomSvc_ErrNotOwner)
       else
         (let delete =
            tryE (repo_DeleteRoom (roomRepo s) roomID) (\<lambda>e. fail (Wrap ''delete room'' e)) (\<lambda>_. ret ())
          in tryE (repo_GetRoomMembers (roomRepo s) roomID)
               (\<lambda>_. delete)
               (\<lambda>members.
                  attempt (pub_RoomDeleted (publisher s) roomID (memberUserIDs members)) delete))))"

definition roomService_AddMember :: "'w roomService \<Rightarrow> uuid \<Rightarrow> uuid \<Rightarrow> uuid \<Rightarrow> ('w, unit) op" where
  "roomService_AddMember s roomID userID requesterID =
     get_room s roomID (\<lambda>room.
       if room_Type room = RoomTypeDirect then fail (Sentinel roomSvc_ErrDirectRoomImmutable)
       else
         tryE (repo_IsMember (roomRepo s) roomID requesterID)
           (\<lambda>e. fail (Wrap ''check membership'' e))
           (\<lambda>isMember.
              if \<not> isMember then fail (Sentinel roomSvc_ErrNotMember)
              else
                tryE (repo_AddMember (roomRepo s) roomID userID MemberRoleMember)
                  (\<lambda>e. if errors_Is e roomRepo_ErrMemberAlreadyExists then ret ()
                       else fail (Wrap ''add member'' e))
                  (\<lambda>_. tryE (repo_GetRoomMembers (roomRepo s) roomID)
                     (\<lambda>_. ret ())
                     (\<lambda>members.
                        attempt (pub_MembershipChanged (publisher s) roomID userID ''added''
                            (memberUserIDs members))
                          (ret ())))))"

definition roomService_RemoveMember :: "'w roomService \<Rightarrow> uuid \<Rightarrow> uuid \<Rightarrow> uuid \<Rightarrow> ('w, unit) op" where
  "roomService_RemoveMember s roomID userID requesterID =
     get_room s roomID (\<lambda>room.
       if room_Type room = RoomTypeDirect then fail (Sentinel roomSvc_ErrDirectRoomImmutable)
       else
         get_role s roomID requesterID roomSvc_ErrNotMember ''get requester role'' (\<lambda>requesterRole.
           (let isSelfRemoval = (userID = requesterID);
                remove =
                  tryE (repo_RemoveMember (roomRepo s) roomID userID)
                    (\<lambda>e. fail (Wrap ''remove member'' e))
                    (\<lambda>_. tryE (repo_GetRoomMembers (roomRepo s) roomID)
                       (\<lambda>_. ret ())
                       (\<lambda>members.
                          attempt (pub_MembershipChanged (publisher s) roomID userID ''removed''
                              (memberUserIDs members))
                            (ret ())))
            in if \<not> isSelfRemoval \<and> requesterRole \<noteq> MemberRoleOwner
               then fail (Sentinel roomSvc_ErrNotOwner)
               else if isSelfRemoval \<and> requesterRole = MemberRoleOwner
               then fail (Sentinel roomSvc_ErrCannotRemoveOwner)
               else if \<not> isSelfRemoval
               then get_role s roomID userID roomSvc_ErrMemberNotFound ''get target member role''
                      (\<lambda>targetRole.
                         if targetRole = MemberRoleOwner
                         then fail (Sentinel roomSvc_ErrCannotRemoveOwner)
                         else remove)
               else remove)))"

definition roomService_GetRoomMembers :: "'w roomService \<Rightarrow> uuid \<Rightarrow> ('w, sRoomMember list) op" where
  "roomService_GetRoomMembers s roomID =
     get_room s roomID (\<lambda>_.
       tryE (repo_GetRoomMembers (roomRepo s) roomID)
         (\<lambda>e. fail (Wrap ''get room members'' e))
         (\<lambda>members. ret (List.map toRoomMember members)))"

definition roomService_IsMember :: "'w roomService \<Rightarrow> uuid \<Rightarrow> uuid \<Rightarrow> ('w, bool) op" where
  "roomService_IsMember s roomID userID =
     tryE (repo_IsMember (roomRepo s) roomID userID) (\<lambda>e. fail (Wrap ''check membership'' e)) ret"

definition roomService_GetUserRooms :: "'w roomService \<Rightarrow> uuid \<Rightarrow> ('w, sRoom list) op" where
  "roomService_GetUserRooms s userID =
     tryE (repo_GetUserRooms (roomRepo s) userID)
       (\<lambda>e. fail (Wrap ''get user rooms'' e))
       (\<lambda>rs. ret (List.map toRoom rs))"

definition NewRoomService :: "'w RoomRepository \<Rightarrow> 'w RoomPublisher \<Rightarrow> 'w RoomService" where
  "NewRoomService repo pub =
     (let s = \<lparr>roomRepo = repo, publisher = pub\<rparr>
      in \<lparr>svc_CreateRoom = roomService_CreateRoom s, svc_GetRoom = roomService_GetRoom s,
          svc_UpdateRoom = roomService_UpdateRoom s, svc_DeleteRoom = roomService_DeleteRoom s,
          svc_AddMember = roomService_AddMember s, svc_RemoveMember = roomService_RemoveMember s,
          svc_GetRoomMembers = roomService_GetRoomMembers s, svc_IsMember = roomService_IsMember s,
          svc_GetUserRooms = roomService_GetUserRooms s\<rparr>)"

lemmas roomService_defs = roomService_CreateRoom_def roomService_GetRoom_def
  roomService_UpdateRoom_def roomService_DeleteRoom_def roomService_AddMember_def
  roomService_RemoveMember_def roomService_GetRoomMembers_def roomService_IsMember_def
  roomService_GetUserRooms_def

section \<open>The NATS publisher\<close>

definition SubjectRoomCreated :: string where "SubjectRoomCreated = ''room.created''"
definition SubjectMembershipChange :: string where "SubjectMembershipChange = ''room.membership.changed''"
definition SubjectRoomUpdated :: string where "SubjectRoomUpdated = ''room.updated''"
definition SubjectRoomDeleted :: string where "SubjectRoomDeleted = ''room.deleted''"

text \<open>\<open>recipientIDStrs\<close>; \<open>json.Marshal\<close> of a map writes its keys in alphabetical order.\<close>

definition recipient_strs :: "uuid_lib \<Rightarrow> uuid list \<Rightarrow> json" where
  "recipient_strs U recipientIDs = JArr (List.map (\<lambda>u. JStr (uuid_String U u)) recipientIDs)"

definition js_publish_wrapped :: "string \<Rightarrow> json \<Rightarrow> ('z world_scheme, unit) op" where
  "js_publish_wrapped subject data =
     tryE (js_Publish subject data) (\<lambda>e. fail (Wrap ''publish to nats'' e)) (\<lambda>_. ret ())"

definition publisher_PublishRoomCreated ::
    "uuid_lib \<Rightarrow> uuid \<Rightarrow> uuid list \<Rightarrow> ('z world_scheme, unit) op" where
  "publisher_PublishRoomCreated U roomID recipientIDs =
     js_publish_wrapped SubjectRoomCreated
       (JObj [(''recipient_ids'', recipient_strs U recipientIDs),
              (''room_id'', JStr (uuid_String U roomID))])"

definition publisher_PublishMembershipChanged ::
    "uuid_lib \<Rightarrow> uuid \<Rightarrow> uuid \<Rightarrow> string \<Rightarrow> uuid list \<Rightarrow> ('z world_scheme, unit) op" where
  "publisher_PublishMembershipChanged U roomID userID action recipientIDs =
     js_publish_wrapped SubjectMembershipChange
       (JObj [(''action'', JStr action),
              (''recipient_ids'', recipient_strs U recipientIDs),
              (''room_id'', JStr (uuid_String U roomID)),
              (''user_id'', JStr (uuid_String U userID))])"

definition publisher_PublishRoomUpdated ::
    "uuid_lib \<Rightarrow> uuid \<Rightarrow> string \<Rightarrow> uuid list \<Rightarrow> ('z world_scheme, unit) op" where
  "publisher_PublishRoomUpdated U roomID name recipientIDs =
     js_publish_wrapped SubjectRoomUpdated
       (JObj [(''name'', JStr name),
              (''recipient_ids'', recipient_strs U recipientIDs),
              (''room_id'', JStr (uuid_String U roomID))])"

definition publisher_PublishRoomDeleted ::
    "uuid_lib \<Rightarrow> uuid \<Rightarrow> uuid list \<Rightarrow> ('z world_scheme, unit) op" where
  "publisher_PublishRoomDeleted U roomID recipientIDs =
     js_publish_wrapped SubjectRoomDeleted
       (JObj [(''recipient_ids'', recipient_strs U recipientIDs),
              (''room_id'', JStr (uuid_String U roomID))])"

definition natsRoomPublisher :: "uuid_lib \<Rightarrow> ('z world_scheme) RoomPublisher" where
  "natsRoomPublisher U =
     \<lparr>pub_RoomCreated = publisher_PublishRoomCreated U,
      pub_MembershipChanged = publisher_PublishMembershipChanged U,
      pub_RoomUpdated = publisher_PublishRoomUpdated U,
      pub_RoomDeleted = publisher_PublishRoomDeleted U\<rparr>"

section \<open>The policy over the abstract state\<close>

text \<open>The verdict on a request: the error it is refused with, or \<open>None\<close>.\<close>

definition owner_verdict :: "room_view \<Rightarrow> uuid \<Rightarrow> uuid \<Rightarrow> sentinel option" where
  "owner_verdict v rid requester =
     (if v_rooms v rid = None then Some roomSvc_ErrRoomNotFound
      else (case v_roles v rid requester of
        None \<Rightarrow> Some roomSvc_ErrNotMember
      | Some role \<Rightarrow> if role = MemberRoleOwner then None else Some roomSvc_ErrNotOwner))"

definition add_verdict :: "room_view \<Rightarrow> uuid \<Rightarrow> uuid \<Rightarrow> sentinel option" where
  "add_verdict v rid requester =
     (case v_rooms v rid of
        None \<Rightarrow> Some roomSvc_ErrRoomNotFound
      | Some room \<Rightarrow>
          if room_Type room = RoomTypeDirect then Some roomSvc_ErrDirectRoomImmutable
          else if v_roles v rid requester = None then Some roomSvc_ErrNotMember
          else None)"

definition remove_verdict :: "room_view \<Rightarrow> uuid \<Rightarrow> uuid \<Rightarrow> uuid \<Rightarrow> sentinel option" where
  "remove_verdict v rid uid requester =
     (case v_rooms v rid of
        None \<Rightarrow> Some roomSvc_ErrRoomNotFound
      | Some room \<Rightarrow>
          if room_Type room = RoomTypeDirect then Some roomSvc_ErrDirectRoomImmutable
          else (case v_roles v rid requester of
            None \<Rightarrow> Some roomSvc_ErrNotMember
          | Some role \<Rightarrow>
              if uid = requester
              then (if role = MemberRoleOwner then Some roomSvc_ErrCannotRemoveOwner else None)
              else if role \<noteq> MemberRoleOwner then Some roomSvc_ErrNotOwner
              else (case v_roles v rid uid of
                None \<Rightarrow> Some roomSvc_ErrMemberNotFound
              | Some target \<Rightarrow>
                  if target = MemberRoleOwner then Some roomSvc_ErrCannotRemoveOwner else None)))"

definition spec_add :: "uuid \<Rightarrow> uuid \<Rightarrow> room_view \<Rightarrow> room_view" where
  "spec_add rid uid v =
     (if v_roles v rid uid = None then spec_set_role rid uid (Some MemberRoleMember) v else v)"

section \<open>The abstract machine of the rooms\<close>

text \<open>\<open>room_step u v v'\<close>: one request of the user \<open>u\<close> takes the rooms from \<open>v\<close> to \<open>v'\<close>.\<close>

inductive room_step :: "uuid \<Rightarrow> room_view \<Rightarrow> room_view \<Rightarrow> bool" where
  create: "created ty u p v room v' \<Longrightarrow> ty = RoomTypeDirect \<longrightarrow> p \<noteq> uuid_Nil \<and> p \<noteq> u \<Longrightarrow> room_step u v v'"
| rename: "v_roles v rid u = Some MemberRoleOwner \<Longrightarrow> renamed rid name v y v' \<Longrightarrow> room_step u v v'"
| delete: "v_roles v rid u = Some MemberRoleOwner \<Longrightarrow> room_step u v (spec_delete rid v)"
| add: "v_rooms v rid = Some r \<Longrightarrow> room_Type r \<noteq> RoomTypeDirect \<Longrightarrow> v_roles v rid u \<noteq> None \<Longrightarrow>
    added rid x MemberRoleMember v v' \<Longrightarrow> room_step u v v'"
| leave: "v_rooms v rid = Some r \<Longrightarrow> room_Type r \<noteq> RoomTypeDirect \<Longrightarrow> v_roles v rid u = Some role \<Longrightarrow>
    role \<noteq> MemberRoleOwner \<Longrightarrow> room_step u v (spec_set_role rid u None v)"
| kick: "v_rooms v rid = Some r \<Longrightarrow> room_Type r \<noteq> RoomTypeDirect \<Longrightarrow>
    v_roles v rid u = Some MemberRoleOwner \<Longrightarrow> x \<noteq> u \<Longrightarrow> v_roles v rid x = Some role \<Longrightarrow>
    role \<noteq> MemberRoleOwner \<Longrightarrow> room_step u v (spec_set_role rid x None v)"

text \<open>The invariant of the rooms: a room is under its own id and has members only while it exists;
  its creator is its one owner; a direct room has exactly two members; and two users have at
  most one direct room.\<close>

definition room_inv :: "room_view \<Rightarrow> uuid \<Rightarrow> bool" where
  "room_inv v rid \<longleftrightarrow>
     (case v_rooms v rid of
        None \<Rightarrow> (\<forall>u. v_roles v rid u = None)
      | Some r \<Rightarrow>
          room_ID r = rid \<and>
          (\<forall>u. v_roles v rid u = Some MemberRoleOwner \<longleftrightarrow> u = room_CreatedBy r) \<and>
          (\<forall>u role. v_roles v rid u = Some role \<longrightarrow> role \<in> {MemberRoleOwner, MemberRoleMember}) \<and>
          (room_Type r = RoomTypeDirect \<longrightarrow>
             (\<exists>p. p \<noteq> room_CreatedBy r \<and> p \<noteq> uuid_Nil \<and>
                (\<forall>u. v_roles v rid u \<noteq> None \<longleftrightarrow> u = room_CreatedBy r \<or> u = p))))"

definition rooms_inv :: "room_view \<Rightarrow> bool" where
  "rooms_inv v \<longleftrightarrow> (\<forall>rid. room_inv v rid) \<and>
     (\<forall>a b r1 r2. a \<noteq> b \<longrightarrow> direct_room_of v a b r1 \<longrightarrow> direct_room_of v a b r2 \<longrightarrow> r1 = r2)"

lemma room_inv_cong: "v_rooms v' rid = v_rooms v rid \<Longrightarrow> v_roles v' rid = v_roles v rid \<Longrightarrow>
    room_inv v' rid = room_inv v rid"
  by (simp add: room_inv_def split: option.split)

lemma direct_room_of_cong: "v_rooms v' rid = v_rooms v rid \<Longrightarrow> v_roles v' rid = v_roles v rid \<Longrightarrow>
    direct_room_of v' a b rid = direct_room_of v a b rid"
  by (simp add: direct_room_of_def)

lemma direct_room_of_sym: "direct_room_of v a b rid = direct_room_of v b a rid"
  by (auto simp: direct_room_of_def)

text \<open>A step that touches one room keeps the invariant when the room itself is right afterwards and
  does not become a second direct room of a pair of users.\<close>

lemma rooms_inv_change:
  assumes inv: "rooms_inv v"
    and other: "\<And>r. r \<noteq> rid \<Longrightarrow> v_rooms v' r = v_rooms v r \<and> v_roles v' r = v_roles v r"
    and here: "room_inv v' rid"
    and direct: "\<And>a b. a \<noteq> b \<Longrightarrow> direct_room_of v' a b rid \<Longrightarrow>
      direct_room_of v a b rid \<or> (\<forall>r. \<not> direct_room_of v a b r)"
  shows "rooms_inv v'"
proof -
  have same: "direct_room_of v' a b r = direct_room_of v a b r" if "r \<noteq> rid" for a b r
    using other [OF that] direct_room_of_cong by blast
  have "room_inv v' r" for r
    using here inv other [of r] room_inv_cong [of v' r v] by (cases "r = rid") (auto simp: rooms_inv_def)
  moreover have "r1 = r2" if "a \<noteq> b" "direct_room_of v' a b r1" "direct_room_of v' a b r2" for a b r1 r2
    using that same direct [of a b] inv unfolding rooms_inv_def by metis
  ultimately show ?thesis by (simp add: rooms_inv_def)
qed

lemma set_role_inv:
  assumes inv: "rooms_inv v" and room: "v_rooms v rid = Some r" "room_Type r \<noteq> RoomTypeDirect"
    and old: "v_roles v rid u \<noteq> Some MemberRoleOwner" and new: "role \<in> {None, Some MemberRoleMember}"
  shows "rooms_inv (spec_set_role rid u role v)"
proof (rule rooms_inv_change [OF inv, of rid])
  have "room_inv v rid" using inv by (simp add: rooms_inv_def)
  with room old new show "room_inv (spec_set_role rid u role v) rid"
    by (auto simp: room_inv_def spec_set_role_def)
qed (use room in \<open>auto simp: spec_set_role_def direct_room_of_def\<close>)

lemma rename_inv:
  assumes inv: "rooms_inv v" and step: "renamed rid name v y v'"
  shows "rooms_inv v'"
proof (rule rooms_inv_change [OF inv, of rid])
  have "room_inv v rid" using inv by (simp add: rooms_inv_def)
  with step show "room_inv v' rid"
    by (auto simp: renamed_def spec_rename_def room_inv_def)
qed (use step in \<open>auto simp: renamed_def spec_rename_def direct_room_of_def\<close>)

lemma delete_inv: "rooms_inv v \<Longrightarrow> rooms_inv (spec_delete rid v)"
  by (rule rooms_inv_change [of v rid])
    (auto simp: spec_delete_def direct_room_of_def room_inv_def)

lemma create_inv:
  assumes inv: "rooms_inv v" and new: "created ty u p v room v'"
    and p: "ty = RoomTypeDirect \<longrightarrow> p \<noteq> uuid_Nil \<and> p \<noteq> u"
  shows "rooms_inv v'"
proof (rule rooms_inv_change [OF inv, of "room_ID room"])
  show "room_inv v' (room_ID room)"
    using new p by (auto simp: created_def spec_create_def room_inv_def initial_roles_def Let_def)
  show "direct_room_of v a b (room_ID room) \<or> (\<forall>r. \<not> direct_room_of v a b r)"
    if "a \<noteq> b" "direct_room_of v' a b (room_ID room)" for a b
  proof -
    from that new p have "ty = RoomTypeDirect" "{a, b} = {u, p}"
      by (auto simp: created_def spec_create_def direct_room_of_def initial_roles_def Let_def
          split: if_splits)
    moreover from this new p have "\<not> direct_room_of v u p r" for r
      by (simp add: created_def)
    ultimately show ?thesis by (metis doubleton_eq_iff direct_room_of_sym)
  qed
qed (use new in \<open>auto simp: created_def spec_create_def\<close>)

lemma room_step_inv:
  assumes "room_step u v v'" and "rooms_inv v"
  shows "rooms_inv v'"
  using assms(1)
proof (cases rule: room_step.cases)
  case (add rid r x)
  then have "v_roles v rid x \<noteq> Some MemberRoleOwner" by (simp add: added_def)
  with add set_role_inv [OF assms(2)] show ?thesis by (simp add: added_def)
next
  case (leave rid r role)
  then show ?thesis using set_role_inv [OF assms(2), of rid r u None] by simp
next
  case (kick rid r x role)
  then show ?thesis using set_role_inv [OF assms(2), of rid r x None] by simp
next
  case (create ty p room)
  then show ?thesis using create_inv [OF assms(2)] by simp
next
  case (rename rid name y)
  then show ?thesis using rename_inv [OF assms(2)] by simp
next
  case (delete rid)
  then show ?thesis using delete_inv [OF assms(2)] by simp
qed

section \<open>What the service relies on, and what it does\<close>

datatype room_event =
    RoomCreated uuid "uuid list"
  | MembershipChanged uuid uuid string "uuid list"
  | RoomUpdated uuid string "uuid list"
  | RoomDeleted uuid "uuid list"

definition pub_event :: "'w RoomPublisher \<Rightarrow> room_event \<Rightarrow> ('w, unit) op" where
  "pub_event pub ev =
     (case ev of
        RoomCreated rid ids \<Rightarrow> pub_RoomCreated pub rid ids
      | MembershipChanged rid uid action ids \<Rightarrow> pub_MembershipChanged pub rid uid action ids
      | RoomUpdated rid name ids \<Rightarrow> pub_RoomUpdated pub rid name ids
      | RoomDeleted rid ids \<Rightarrow> pub_RoomDeleted pub rid ids)"

lemma pub_event_simps [simp]:
  "pub_event pub (RoomCreated rid ids) = pub_RoomCreated pub rid ids"
  "pub_event pub (MembershipChanged rid uid action ids) = pub_MembershipChanged pub rid uid action ids"
  "pub_event pub (RoomUpdated rid name ids) = pub_RoomUpdated pub rid name ids"
  "pub_event pub (RoomDeleted rid ids) = pub_RoomDeleted pub rid ids"
  by (simp_all add: pub_event_def)

text \<open>The recipients of an event: the members of the room, each once.\<close>

definition members_of :: "room_view \<Rightarrow> uuid \<Rightarrow> uuid list \<Rightarrow> bool" where
  "members_of v rid ids \<longleftrightarrow> distinct ids \<and> set ids = {u. v_roles v rid u \<noteq> None}"

text \<open>\<open>log\<close> is what has been published so far, \<open>msg\<close> the form of an event on the bus.\<close>

locale room_backend = room_repository repo view invar reliable
  for repo :: "'w RoomRepository" and view :: "'w \<Rightarrow> room_view" and invar reliable :: "'w \<Rightarrow> bool" +
  fixes pub :: "'w RoomPublisher"
    and log :: "'w \<Rightarrow> 'm list"
    and msg :: "room_event \<Rightarrow> 'm"
  assumes publish: "invar w \<Longrightarrow> wp (pub_event pub ev)
      (\<lambda>_ w'. invar w' \<and> view w' = view w \<and> reliable w' = reliable w \<and> log w' = log w @ [msg ev])
      (\<lambda>_ w'. invar w' \<and> view w' = view w \<and> reliable w' = reliable w \<and> \<not> reliable w \<and>
         log w' \<in> {log w, log w @ [msg ev]}) w"
    and silent: "kept (\<lambda>w. log w = l) (repo_GetRoomByID repo rid)"
      "kept (\<lambda>w. log w = l) (repo_GetMemberRole repo rid uid)"
      "kept (\<lambda>w. log w = l) (repo_IsMember repo rid uid)"
      "kept (\<lambda>w. log w = l) (repo_GetRoomMembers repo rid)"
      "kept (\<lambda>w. log w = l) (repo_GetUserRooms repo uid)"
      "kept (\<lambda>w. log w = l) (repo_CreateRoom repo name ty c p)"
      "kept (\<lambda>w. log w = l) (repo_UpdateRoom repo rid name)"
      "kept (\<lambda>w. log w = l) (repo_DeleteRoom repo rid)"
      "kept (\<lambda>w. log w = l) (repo_AddMember repo rid uid role)"
      "kept (\<lambda>w. log w = l) (repo_RemoveMember repo rid uid)"
begin

abbreviation svc :: "'w roomService" where
  "svc \<equiv> \<lparr>roomRepo = repo, publisher = pub\<rparr>"

text \<open>Reading the members and telling them: the rooms stay, and when nothing fails exactly one
  event is sent, to exactly the members.\<close>

lemma tell_members:
  assumes w: "invar w"
    and k: "\<And>w'. invar w' \<Longrightarrow> view w' = view w \<Longrightarrow> reliable w' = reliable w \<Longrightarrow>
      log w' = log w \<and> \<not> reliable w \<or>
        (\<exists>ids. members_of (view w) rid ids \<and> log w' = log w @ [msg (ev ids)]) \<Longrightarrow> wp k Q E w'"
  shows "wp (tryE (repo_GetRoomMembers repo rid) (\<lambda>_. k)
      (\<lambda>ms. attempt (pub_event pub (ev (memberUserIDs ms))) k)) Q E w"
  unfolding wp_simps
proof (rule wp_mono [OF wp_kept [OF silent(4) GetRoomMembers [OF w] refl]], goal_cases)
  case (1 ms w1)
  then have w1: "invar w1" "view w1 = view w" "reliable w1 = reliable w" "log w1 = log w" by blast+
  have "members_of (view w) rid (memberUserIDs ms)"
    using 1 by (fastforce simp: members_of_def memberUserIDs_def)
  then show ?case
    by (intro wp_mono [OF publish [OF w1(1)]] k) (use w1 in auto)
next
  case (2 e w1)
  then show ?case by (intro k) auto
qed

text \<open>The contracts as rules for weakest preconditions.  \<open>same w w'\<close>: nothing visible happened.\<close>

abbreviation same :: "'w \<Rightarrow> 'w \<Rightarrow> bool" where
  "same w w' \<equiv> invar w' \<and> view w' = view w \<and> reliable w' = reliable w \<and> log w' = log w"

lemma wp_get_room:
  assumes "invar w"
    and "\<And>x w'. same w w' \<Longrightarrow> v_rooms (view w) rid = Some x \<Longrightarrow> wp (k x) Q E w'"
    and "\<And>w'. same w w' \<Longrightarrow> v_rooms (view w) rid = None \<Longrightarrow> E (Sentinel roomSvc_ErrRoomNotFound) w'"
    and "\<And>m e w'. same w w' \<Longrightarrow> \<not> reliable w \<Longrightarrow> E (Wrap m e) w'"
  shows "wp (get_room svc rid k) Q E w"
  unfolding wp_tryE roomService.select_convs
  by (rule wp_mono [OF wp_kept [OF silent(1) GetRoomByID [OF assms(1)] refl]])
    (auto simp: wp_simps intro!: assms(2-))

lemma wp_get_role:
  assumes "invar w"
    and "\<And>role w'. same w w' \<Longrightarrow> v_roles (view w) rid uid = Some role \<Longrightarrow> wp (k role) Q E w'"
    and "\<And>w'. same w w' \<Longrightarrow> v_roles (view w) rid uid = None \<Longrightarrow> E (Sentinel missing) w'"
    and "\<And>m e w'. same w w' \<Longrightarrow> \<not> reliable w \<Longrightarrow> E (Wrap m e) w'"
  shows "wp (get_role svc rid uid missing m k) Q E w"
  unfolding wp_tryE roomService.select_convs
  by (rule wp_mono [OF wp_kept [OF silent(2) GetMemberRole [OF assms(1)] refl]])
    (auto simp: wp_simps intro!: assms(2-))

lemma wp_is_member:
  assumes "invar w"
    and "\<And>w'. same w w' \<Longrightarrow> wp (k (v_roles (view w) rid uid \<noteq> None)) Q E w'"
    and "\<And>m e w'. same w w' \<Longrightarrow> \<not> reliable w \<Longrightarrow> E (Wrap m e) w'"
  shows "wp (tryE (repo_IsMember repo rid uid) (\<lambda>e. fail (Wrap m e)) k) Q E w"
  unfolding wp_tryE
proof (rule wp_mono [OF wp_kept [OF silent(3) IsMember [OF assms(1)] refl]], goal_cases)
  case (1 b w')
  then have "same w w'" "b = (v_roles (view w) rid uid \<noteq> None)" by blast+
  with assms(2) show ?case by simp
qed (use assms(3) in \<open>auto simp: wp_fail\<close>)

lemma wp_if: "(b \<Longrightarrow> wp m Q E w) \<Longrightarrow> (\<not> b \<Longrightarrow> wp n Q E w) \<Longrightarrow> wp (if b then m else n) Q E w"
  by simp

text \<open>The end of \<open>RemoveMember\<close>: the row goes, and the members that stay are told.\<close>

lemma remove_and_tell:
  assumes "invar w"
  shows "wp (tryE (repo_RemoveMember repo rid uid) (\<lambda>e. fail (Wrap m e))
      (\<lambda>_. tryE (repo_GetRoomMembers repo rid) (\<lambda>_. ret ())
         (\<lambda>members. attempt (pub_MembershipChanged pub rid uid ''removed'' (memberUserIDs members)) (ret ()))))
    (\<lambda>_ w'. invar w' \<and> reliable w' = reliable w \<and> view w' = spec_set_role rid uid None (view w) \<and>
       (reliable w \<longrightarrow> (\<exists>ids. members_of (view w') rid ids \<and>
          log w' = log w @ [msg (MembershipChanged rid uid ''removed'' ids)])))
    (\<lambda>e w'. invar w' \<and> reliable w' = reliable w \<and> log w' = log w \<and>
       view w' \<in> {view w, spec_set_role rid uid None (view w)} \<and> (\<exists>e'. e = Wrap m e') \<and>
       (reliable w \<longrightarrow> v_roles (view w) rid uid = None)) w"
  unfolding wp_tryE [of "repo_RemoveMember repo rid uid"]
proof (rule wp_mono [OF wp_kept [OF silent(10) RemoveMember [OF assms] refl]], goal_cases)
  case (1 x w1)
  then show ?case
    by (intro tell_members [of w1 rid "MembershipChanged rid uid ''removed''", unfolded pub_event_simps])
      (auto simp: wp_ret)
qed (auto simp: wp_fail)

text \<open>\<open>RemoveMember\<close> does what the policy says.\<close>

lemma RemoveMember_spec:
  assumes w: "invar w"
  shows "wp (roomService_RemoveMember svc rid uid requester)
    (\<lambda>_ w'. invar w' \<and> reliable w' = reliable w \<and> remove_verdict (view w) rid uid requester = None \<and>
       view w' = spec_set_role rid uid None (view w) \<and>
       (reliable w \<longrightarrow> (\<exists>ids. members_of (view w') rid ids \<and>
          log w' = log w @ [msg (MembershipChanged rid uid ''removed'' ids)])))
    (\<lambda>e w'. invar w' \<and> reliable w' = reliable w \<and> log w' = log w \<and>
       (view w' = view w \<or> remove_verdict (view w) rid uid requester = None \<and>
          view w' = spec_set_role rid uid None (view w)) \<and>
       (\<forall>s. e = Sentinel s \<longrightarrow> remove_verdict (view w) rid uid requester = Some s \<and> view w' = view w) \<and>
       (reliable w \<longrightarrow> (\<exists>s. e = Sentinel s))) w" (is "wp _ ?Q ?E w")
proof -
  have tail: "wp (tryE (repo_RemoveMember repo rid uid) (\<lambda>e. fail (Wrap ''remove member'' e))
      (\<lambda>_. tryE (repo_GetRoomMembers repo rid) (\<lambda>_. ret ())
         (\<lambda>members. attempt (pub_MembershipChanged pub rid uid ''removed'' (memberUserIDs members)) (ret ()))))
    ?Q ?E w'" if "same w w'" "remove_verdict (view w) rid uid requester = None"
      "v_roles (view w) rid uid \<noteq> None" for w'
    by (rule wp_mono [OF remove_and_tell]) (use that in auto)
  show ?thesis
    unfolding roomService_RemoveMember_def Let_def roomService.select_convs
    by (intro wp_get_room [unfolded roomService.select_convs] wp_get_role [unfolded roomService.select_convs]
        wp_if tail wp_fail [THEN iffD2] w)
      (auto simp: remove_verdict_def)
qed

lemma AddMember_spec:
  assumes w: "invar w"
  shows "wp (roomService_AddMember svc rid uid requester)
    (\<lambda>_ w'. invar w' \<and> reliable w' = reliable w \<and> add_verdict (view w) rid requester = None \<and>
       view w' = spec_add rid uid (view w) \<and>
       (reliable w \<longrightarrow>
          (if v_roles (view w) rid uid = None
           then \<exists>ids. members_of (view w') rid ids \<and>
             log w' = log w @ [msg (MembershipChanged rid uid ''added'' ids)]
           else log w' = log w)))
    (\<lambda>e w'. invar w' \<and> reliable w' = reliable w \<and> log w' = log w \<and>
       (view w' = view w \<or> add_verdict (view w) rid requester = None \<and>
          view w' = spec_add rid uid (view w)) \<and>
       (\<forall>s. e = Sentinel s \<longrightarrow> add_verdict (view w) rid requester = Some s \<and> view w' = view w) \<and>
       (reliable w \<longrightarrow> (\<exists>s. e = Sentinel s))) w" (is "wp _ ?Q ?E w")
proof -
  have tail: "wp (tryE (repo_AddMember repo rid uid MemberRoleMember)
      (\<lambda>e. if errors_Is e roomRepo_ErrMemberAlreadyExists then ret () else fail (Wrap ''add member'' e))
      (\<lambda>_. tryE (repo_GetRoomMembers repo rid) (\<lambda>_. ret ())
         (\<lambda>members. attempt (pub_MembershipChanged pub rid uid ''added'' (memberUserIDs members)) (ret ()))))
    ?Q ?E w1" if s: "same w w1" and ok: "add_verdict (view w) rid requester = None"
      and ex: "v_rooms (view w) rid \<noteq> None" for w1
    unfolding wp_tryE [of "repo_AddMember repo rid uid MemberRoleMember"]
  proof (rule wp_mono [OF wp_kept [OF silent(9) AddMember refl]], goal_cases)
    case (2 m w2)
    then have "invar w2" "view w2 = spec_add rid uid (view w)" "v_roles (view w) rid uid = None"
        "reliable w2 = reliable w" "log w2 = log w"
      using s by (auto simp: added_def spec_add_def)
    then show ?case using ok
      by (intro tell_members [of w2 rid "MembershipChanged rid uid ''added''", unfolded pub_event_simps])
        (auto simp: wp_ret)
  next
    case (3 e w2)
    then show ?case using s ok ex by (auto simp: wp_simps added_def spec_add_def)
  qed (use s in simp)
  show ?thesis
    unfolding roomService_AddMember_def Let_def roomService.select_convs
    by (intro wp_get_room [unfolded roomService.select_convs] wp_is_member
        wp_if tail wp_fail [THEN iffD2] w)
      (auto simp: add_verdict_def)
qed

lemma DeleteRoom_spec:
  assumes w: "invar w"
  shows "wp (roomService_DeleteRoom svc rid requester)
    (\<lambda>_ w'. invar w' \<and> reliable w' = reliable w \<and> owner_verdict (view w) rid requester = None \<and>
       view w' = spec_delete rid (view w) \<and>
       (reliable w \<longrightarrow> (\<exists>ids. members_of (view w) rid ids \<and> log w' = log w @ [msg (RoomDeleted rid ids)])))
    (\<lambda>e w'. invar w' \<and> reliable w' = reliable w \<and>
       (view w' = view w \<or> owner_verdict (view w) rid requester = None \<and>
          view w' = spec_delete rid (view w)) \<and>
       (\<forall>s. e = Sentinel s \<longrightarrow> owner_verdict (view w) rid requester = Some s \<and> view w' = view w \<and>
          log w' = log w) \<and>
       (reliable w \<longrightarrow> (\<exists>s. e = Sentinel s))) w" (is "wp _ ?Q ?E w")
proof -
  let ?del = "tryE (repo_DeleteRoom repo rid) (\<lambda>e. fail (Wrap ''delete room'' e)) (\<lambda>_. ret ())"
  have del: "wp ?del ?Q ?E w2"
    if "invar w2" "view w2 = view w" "reliable w2 = reliable w" "owner_verdict (view w) rid requester = None"
      "log w2 = log w \<and> \<not> reliable w \<or>
        (\<exists>ids. members_of (view w) rid ids \<and> log w2 = log w @ [msg (RoomDeleted rid ids)])" for w2
    unfolding wp_simps
    by (rule wp_mono [OF wp_kept [OF silent(8) DeleteRoom refl]])
      (use that in \<open>auto simp: owner_verdict_def split: if_splits\<close>)
  have tail: "wp (tryE (repo_GetRoomMembers repo rid) (\<lambda>_. ?del)
      (\<lambda>members. attempt (pub_RoomDeleted pub rid (memberUserIDs members)) ?del)) ?Q ?E w1"
    if "same w w1" "owner_verdict (view w) rid requester = None" for w1
    using that
    by (intro tell_members [of w1 rid "RoomDeleted rid", unfolded pub_event_simps] del) simp_all
  show ?thesis
    unfolding roomService_DeleteRoom_def Let_def roomService.select_convs
    by (intro wp_get_room [unfolded roomService.select_convs] wp_get_role [unfolded roomService.select_convs]
        wp_if tail wp_fail [THEN iffD2] w)
      (auto simp: owner_verdict_def)
qed

lemma UpdateRoom_spec:
  assumes w: "invar w"
  shows "wp (roomService_UpdateRoom svc rid requester name)
    (\<lambda>x w'. invar w' \<and> reliable w' = reliable w \<and> owner_verdict (view w) rid requester = None \<and>
       (\<exists>y. x = toRoom y \<and> renamed rid name (view w) y (view w') \<and>
          (reliable w \<longrightarrow> (\<exists>ids. members_of (view w) rid ids \<and>
             log w' = log w @ [msg (RoomUpdated rid (room_Name y) ids)]))))
    (\<lambda>e w'. invar w' \<and> reliable w' = reliable w \<and> log w' = log w \<and>
       (view w' = view w \<or> owner_verdict (view w) rid requester = None \<and>
          (\<exists>y. renamed rid name (view w) y (view w'))) \<and>
       (owner_verdict (view w) rid requester \<noteq> None \<and> reliable w \<longrightarrow>
          e = Sentinel (the (owner_verdict (view w) rid requester)))) w" (is "wp _ ?Q ?E w")
proof -
  have tail: "wp (tryE (repo_UpdateRoom repo rid name)
      (\<lambda>e. if errors_Is e roomRepo_ErrRoomNotFound then fail (Sentinel roomSvc_ErrRoomNotFound)
           else fail (Wrap ''update room'' e))
      (\<lambda>y. tryE (repo_GetRoomMembers repo rid) (\<lambda>_. ret (toRoom y))
         (\<lambda>members. attempt (pub_RoomUpdated pub rid (room_Name y) (memberUserIDs members)) (ret (toRoom y)))))
    ?Q ?E w1" if s: "same w w1" and ok: "owner_verdict (view w) rid requester = None" for w1
    unfolding wp_tryE [of "repo_UpdateRoom repo rid name"]
  proof (rule wp_mono [OF wp_kept [OF silent(7) UpdateRoom refl]], goal_cases)
    case (2 y w2)
    then have "invar w2" "reliable w2 = reliable w" "log w2 = log w" "renamed rid name (view w) y (view w2)"
      using s by auto
    moreover from this(4) have "members_of (view w2) rid ids = members_of (view w) rid ids" for ids
      by (auto simp: members_of_def renamed_def spec_rename_def)
    ultimately show ?case using ok
      by (intro tell_members [of w2 rid "RoomUpdated rid (room_Name y)", unfolded pub_event_simps])
        (auto simp: wp_ret)
  next
    case (3 e w2)
    then show ?case using s ok by (auto simp: wp_simps)
  qed (use s in simp)
  show ?thesis
    unfolding roomService_UpdateRoom_def Let_def roomService.select_convs
    by (intro wp_get_room [unfolded roomService.select_convs] wp_get_role [unfolded roomService.select_convs]
        wp_if tail wp_fail [THEN iffD2] w)
      (auto simp: owner_verdict_def)
qed

lemma CreateRoom_spec:
  assumes w: "invar w"
  shows "wp (roomService_CreateRoom svc name ty c p)
    (\<lambda>x w'. invar w' \<and> reliable w' = reliable w \<and> (ty = RoomTypeDirect \<longrightarrow> p \<noteq> uuid_Nil \<and> p \<noteq> c) \<and>
       (\<exists>room. x = toRoom room \<and> created ty c p (view w) room (view w') \<and>
          (reliable w \<longrightarrow> (\<exists>ids. members_of (view w') (room_ID room) ids \<and>
             log w' = log w @ [msg (RoomCreated (room_ID room) ids)]))))
    (\<lambda>e w'. invar w' \<and> reliable w' = reliable w \<and> log w' = log w \<and>
       (view w' = view w \<or> (ty = RoomTypeDirect \<longrightarrow> p \<noteq> uuid_Nil \<and> p \<noteq> c) \<and>
          (\<exists>room. created ty c p (view w) room (view w'))) \<and>
       (e = Sentinel roomSvc_ErrInvalidDirectRoom \<longleftrightarrow> ty = RoomTypeDirect \<and> (p = uuid_Nil \<or> p = c)) \<and>
       (e = Sentinel roomSvc_ErrDirectRoomExists \<longrightarrow> view w' = view w \<and>
          (\<exists>rid. direct_room_of (view w) c p rid))) w" (is "wp _ ?Q ?E w")
proof -
  have tail: "wp (tryE (repo_CreateRoom repo name ty c p)
      (\<lambda>e. if errors_Is e roomRepo_ErrDirectRoomExists then fail (Sentinel roomSvc_ErrDirectRoomExists)
           else fail (Wrap ''create room'' e))
      (\<lambda>room. tryE (repo_GetRoomMembers repo (room_ID room)) (\<lambda>_. ret (toRoom room))
         (\<lambda>members. attempt (pub_RoomCreated pub (room_ID room) (memberUserIDs members)) (ret (toRoom room)))))
    ?Q ?E w" if ok: "ty = RoomTypeDirect \<longrightarrow> p \<noteq> uuid_Nil \<and> p \<noteq> c"
    unfolding wp_tryE [of "repo_CreateRoom repo name ty c p"]
  proof (rule wp_mono [OF wp_kept [OF silent(6) CreateRoom [OF w] refl]], goal_cases)
    case (1 room w2)
    then show ?case using ok
      by (intro tell_members [of w2 "room_ID room" "RoomCreated (room_ID room)", unfolded pub_event_simps])
        (auto simp: wp_ret)
  next
    case (2 e w2)
    then show ?case using ok by (auto simp: wp_simps split: if_splits)
  qed
  show ?thesis
    unfolding roomService_CreateRoom_def Let_def roomService.select_convs
    by (intro wp_if tail wp_fail [THEN iffD2]) (use w in auto)
qed

lemma queries_spec:
  assumes w: "invar w"
  shows "wp (roomService_GetRoom svc rid)
      (\<lambda>x w'. same w w' \<and> (\<exists>r. v_rooms (view w) rid = Some r \<and> x = toRoom r))
      (\<lambda>e w'. same w w' \<and> (\<forall>s. e = Sentinel s \<longrightarrow> s = roomSvc_ErrRoomNotFound \<and> v_rooms (view w) rid = None) \<and>
         (reliable w \<longrightarrow> (\<exists>s. e = Sentinel s))) w"
    and "wp (roomService_IsMember svc rid uid)
      (\<lambda>b w'. same w w' \<and> b = (v_roles (view w) rid uid \<noteq> None))
      (\<lambda>e w'. same w w' \<and> \<not> reliable w) w"
    and "wp (roomService_GetRoomMembers svc rid)
      (\<lambda>ms w'. same w w' \<and> v_rooms (view w) rid \<noteq> None \<and> members_of (view w) rid (List.map srm_UserID ms))
      (\<lambda>e w'. same w w' \<and> (\<forall>s. e = Sentinel s \<longrightarrow> s = roomSvc_ErrRoomNotFound \<and> v_rooms (view w) rid = None) \<and>
         (reliable w \<longrightarrow> (\<exists>s. e = Sentinel s))) w"
    and "wp (roomService_GetUserRooms svc uid)
      (\<lambda>xs w'. same w w' \<and> sorted_wrt (\<lambda>a b. sroom_CreatedAt b \<le> sroom_CreatedAt a) xs \<and>
         (\<forall>x. x \<in> set xs \<longleftrightarrow> (\<exists>r. x = toRoom r \<and> v_rooms (view w) (room_ID r) = Some r \<and>
            v_roles (view w) (room_ID r) uid \<noteq> None)))
      (\<lambda>e w'. same w w' \<and> \<not> reliable w) w"
proof -
  show "wp (roomService_GetRoom svc rid)
      (\<lambda>x w'. same w w' \<and> (\<exists>r. v_rooms (view w) rid = Some r \<and> x = toRoom r))
      (\<lambda>e w'. same w w' \<and> (\<forall>s. e = Sentinel s \<longrightarrow> s = roomSvc_ErrRoomNotFound \<and> v_rooms (view w) rid = None) \<and>
         (reliable w \<longrightarrow> (\<exists>s. e = Sentinel s))) w"
    unfolding roomService_GetRoom_def by (intro wp_get_room w wp_ret [THEN iffD2]) auto
  show "wp (roomService_IsMember svc rid uid)
      (\<lambda>b w'. same w w' \<and> b = (v_roles (view w) rid uid \<noteq> None))
      (\<lambda>e w'. same w w' \<and> \<not> reliable w) w"
    unfolding roomService_IsMember_def roomService.select_convs
    by (intro wp_is_member w wp_ret [THEN iffD2]) auto
  have ms: "members_of (view w) rid (List.map srm_UserID (List.map toRoomMember ms))"
    if "distinct (List.map rm_UserID ms)" "\<forall>u role. v_roles (view w) rid u = Some role \<longleftrightarrow>
            (\<exists>m \<in> set ms. rm_UserID m = u \<and> rm_Role m = role)" for ms
  proof -
    have "List.map srm_UserID (List.map toRoomMember ms) = List.map rm_UserID ms"
      by (simp add: toRoomMember_def)
    then show ?thesis unfolding members_of_def using that by (fastforce simp del: map_map)
  qed
  show "wp (roomService_GetRoomMembers svc rid)
      (\<lambda>ms w'. same w w' \<and> v_rooms (view w) rid \<noteq> None \<and> members_of (view w) rid (List.map srm_UserID ms))
      (\<lambda>e w'. same w w' \<and> (\<forall>s. e = Sentinel s \<longrightarrow> s = roomSvc_ErrRoomNotFound \<and> v_rooms (view w) rid = None) \<and>
         (reliable w \<longrightarrow> (\<exists>s. e = Sentinel s))) w"
    unfolding roomService_GetRoomMembers_def roomService.select_convs
    by (intro wp_get_room [unfolded roomService.select_convs] w)
      (auto simp: wp_simps simp del: map_map intro!: wp_mono [OF wp_kept [OF silent(4) GetRoomMembers refl]] ms)
  show "wp (roomService_GetUserRooms svc uid)
      (\<lambda>xs w'. same w w' \<and> sorted_wrt (\<lambda>a b. sroom_CreatedAt b \<le> sroom_CreatedAt a) xs \<and>
         (\<forall>x. x \<in> set xs \<longleftrightarrow> (\<exists>r. x = toRoom r \<and> v_rooms (view w) (room_ID r) = Some r \<and>
            v_roles (view w) (room_ID r) uid \<noteq> None)))
      (\<lambda>e w'. same w w' \<and> \<not> reliable w) w"
    unfolding roomService_GetUserRooms_def roomService.select_convs wp_simps
    by (rule wp_mono [OF wp_kept [OF silent(5) GetUserRooms [OF w] refl]])
      (auto simp: sorted_wrt_map toRoom_def)
qed

end

section \<open>Requests\<close>

datatype room_request =
    CreateRoomReq string RoomType uuid uuid
  | GetRoomReq uuid
  | UpdateRoomReq uuid uuid string
  | DeleteRoomReq uuid uuid
  | AddMemberReq uuid uuid uuid
  | RemoveMemberReq uuid uuid uuid
  | GetRoomMembersReq uuid
  | IsMemberReq uuid uuid
  | GetUserRoomsReq uuid

definition serve :: "'w RoomService \<Rightarrow> room_request \<Rightarrow> 'w \<Rightarrow> 'w" where
  "serve s req w =
     (case req of
        CreateRoomReq name ty c p \<Rightarrow> snd (svc_CreateRoom s name ty c p w)
      | GetRoomReq rid \<Rightarrow> snd (svc_GetRoom s rid w)
      | UpdateRoomReq rid u name \<Rightarrow> snd (svc_UpdateRoom s rid u name w)
      | DeleteRoomReq rid u \<Rightarrow> snd (svc_DeleteRoom s rid u w)
      | AddMemberReq rid x u \<Rightarrow> snd (svc_AddMember s rid x u w)
      | RemoveMemberReq rid x u \<Rightarrow> snd (svc_RemoveMember s rid x u w)
      | GetRoomMembersReq rid \<Rightarrow> snd (svc_GetRoomMembers s rid w)
      | IsMemberReq rid u \<Rightarrow> snd (svc_IsMember s rid u w)
      | GetUserRoomsReq u \<Rightarrow> snd (svc_GetUserRooms s u w))"

text \<open>On whose behalf a request changes rooms (the reading ones change nothing).\<close>

fun requester :: "room_request \<Rightarrow> uuid" where
  "requester (CreateRoomReq _ _ c _) = c"
| "requester (UpdateRoomReq _ u _) = u"
| "requester (DeleteRoomReq _ u) = u"
| "requester (AddMemberReq _ _ u) = u"
| "requester (RemoveMemberReq _ _ u) = u"
| "requester _ = uuid_Nil"

lemma owner_verdict_None: "owner_verdict v rid u = None \<Longrightarrow> v_roles v rid u = Some MemberRoleOwner"
  by (auto simp: owner_verdict_def split: if_splits option.splits)

lemma add_allowed:
  assumes "add_verdict v rid u = None"
  shows "spec_add rid x v = v \<or> room_step u v (spec_add rid x v)"
proof (cases "v_roles v rid x = None")
  case True
  from assms obtain r where "v_rooms v rid = Some r" "room_Type r \<noteq> RoomTypeDirect" "v_roles v rid u \<noteq> None"
    by (auto simp: add_verdict_def split: if_splits option.splits)
  with True show ?thesis
    by (auto simp: spec_add_def added_def intro!: room_step.add [of v rid r u x])
next
  case False
  then show ?thesis unfolding spec_add_def if_not_P [OF False] by simp
qed

lemma remove_allowed:
  assumes "remove_verdict v rid x u = None"
  shows "room_step u v (spec_set_role rid x None v)"
proof -
  from assms obtain r role where r: "v_rooms v rid = Some r" "room_Type r \<noteq> RoomTypeDirect"
      "v_roles v rid u = Some role"
    by (auto simp: remove_verdict_def split: if_splits option.splits)
  show ?thesis
  proof (cases "x = u")
    case True
    with assms r have "role \<noteq> MemberRoleOwner" by (simp add: remove_verdict_def split: if_splits)
    with r True show ?thesis by (auto intro: room_step.leave)
  next
    case False
    with assms r obtain target where "role = MemberRoleOwner" "v_roles v rid x = Some target"
        "target \<noteq> MemberRoleOwner"
      by (auto simp: remove_verdict_def split: if_splits option.splits)
    with r False show ?thesis by (auto intro: room_step.kick)
  qed
qed

lemma wp_snd: "wp m Q E w \<Longrightarrow> (\<And>x w'. Q x w' \<Longrightarrow> P w') \<Longrightarrow> (\<And>e w'. E e w' \<Longrightarrow> P w') \<Longrightarrow> P (snd (m w))"
  by (auto simp: wp_def split: prod.splits sum.splits)

context room_backend
begin

text \<open>Every request keeps the representation and moves the rooms along \<open>room_step\<close>, or not at all.\<close>

lemma serve_step:
  assumes w: "invar w"
  shows "invar (serve (NewRoomService repo pub) req w) \<and>
    (view (serve (NewRoomService repo pub) req w) = view w \<or>
     room_step (requester req) (view w) (view (serve (NewRoomService repo pub) req w)))"
proof (cases req)
  case (CreateRoomReq name ty c p)
  show ?thesis unfolding serve_def CreateRoomReq NewRoomService_def Let_def
    by (simp, rule wp_snd [OF CreateRoom_spec [OF w]]) (auto intro: room_step.create)
next
  case (UpdateRoomReq rid u name)
  show ?thesis unfolding serve_def UpdateRoomReq NewRoomService_def Let_def
    by (simp, rule wp_snd [OF UpdateRoom_spec [OF w]]) (auto dest!: owner_verdict_None intro: room_step.rename)
next
  case (DeleteRoomReq rid u)
  show ?thesis unfolding serve_def DeleteRoomReq NewRoomService_def Let_def
    by (simp, rule wp_snd [OF DeleteRoom_spec [OF w]]) (auto dest!: owner_verdict_None intro: room_step.delete)
next
  case (AddMemberReq rid x u)
  show ?thesis unfolding serve_def AddMemberReq NewRoomService_def Let_def
    by (simp, rule wp_snd [OF AddMember_spec [OF w]]) (use add_allowed [of "view w" rid u x] in auto)
next
  case (RemoveMemberReq rid x u)
  show ?thesis unfolding serve_def RemoveMemberReq NewRoomService_def Let_def
    by (simp, rule wp_snd [OF RemoveMember_spec [OF w]]) (use remove_allowed [of "view w" rid x u] in auto)
next
  case (GetRoomReq rid)
  show ?thesis unfolding serve_def GetRoomReq NewRoomService_def Let_def
    by (simp, rule wp_snd [OF queries_spec(1) [OF w]]) auto
next
  case (IsMemberReq rid u)
  show ?thesis unfolding serve_def IsMemberReq NewRoomService_def Let_def
    by (simp, rule wp_snd [OF queries_spec(2) [OF w]]) auto
next
  case (GetRoomMembersReq rid)
  show ?thesis unfolding serve_def GetRoomMembersReq NewRoomService_def Let_def
    by (simp, rule wp_snd [OF queries_spec(3) [OF w]]) auto
next
  case (GetUserRoomsReq u)
  show ?thesis unfolding serve_def GetUserRoomsReq NewRoomService_def Let_def
    by (simp, rule wp_snd [OF queries_spec(4) [OF w]]) auto
qed

lemma serve_all:
  assumes "invar w" and "rooms_inv (view w)"
  shows "invar (fold (serve (NewRoomService repo pub)) reqs w) \<and>
    rooms_inv (view (fold (serve (NewRoomService repo pub)) reqs w))"
  using assms
proof (induction reqs arbitrary: w)
  case (Cons req reqs)
  from serve_step [OF Cons.prems(1), of req] Cons.prems(2)
  have "invar (serve (NewRoomService repo pub) req w)" "rooms_inv (view (serve (NewRoomService repo pub) req w))"
    by (auto dest: room_step_inv)
  from Cons.IH [OF this] show ?case by simp
qed simp

end

section \<open>Postgres and NATS provide the backend\<close>

fun room_event_msg :: "uuid_lib \<Rightarrow> room_event \<Rightarrow> string \<times> json" where
  "room_event_msg U (RoomCreated rid ids) =
     (SubjectRoomCreated, JObj [(''recipient_ids'', recipient_strs U ids), (''room_id'', JStr (uuid_String U rid))])"
| "room_event_msg U (MembershipChanged rid uid action ids) =
     (SubjectMembershipChange, JObj [(''action'', JStr action), (''recipient_ids'', recipient_strs U ids),
        (''room_id'', JStr (uuid_String U rid)), (''user_id'', JStr (uuid_String U uid))])"
| "room_event_msg U (RoomUpdated rid name ids) =
     (SubjectRoomUpdated, JObj [(''name'', JStr name), (''recipient_ids'', recipient_strs U ids),
        (''room_id'', JStr (uuid_String U rid))])"
| "room_event_msg U (RoomDeleted rid ids) =
     (SubjectRoomDeleted, JObj [(''recipient_ids'', recipient_strs U ids), (''room_id'', JStr (uuid_String U rid))])"

lemma pub_event_nats: "pub_event (natsRoomPublisher U) ev = (case room_event_msg U ev of (s, d) \<Rightarrow> js_publish_wrapped s d)"
  by (cases ev) (simp_all add: natsRoomPublisher_def publisher_PublishRoomCreated_def
      publisher_PublishMembershipChanged_def publisher_PublishRoomUpdated_def publisher_PublishRoomDeleted_def)

lemma publish_wp:
  "wp (js_publish_wrapped s d)
    (\<lambda>_ w'. room_db w' = room_db w \<and> calm w' = calm w \<and> published w' = published w @ [(s, d)])
    (\<lambda>_ w'. room_db w' = room_db w \<and> calm w' = calm w \<and> \<not> calm w \<and>
       published w' \<in> {published w, published w @ [(s, d)]}) w"
proof -
  have "calm (tick w\<lparr>published := p\<rparr>) = calm w" for p unfolding calm_def by (simp add: tick_def)
  moreover have "calm ((tick w)\<lparr>published := p\<rparr>) = calm w" for p unfolding calm_def by (simp add: tick_def)
  ultimately show ?thesis
    unfolding js_publish_wrapped_def wp_simps
    by (auto simp: wp_def js_Publish_def ext_call_def split: fault.splits)
qed

lemma published_room_pool [kept_intros]: "kept (\<lambda>w. published w = l) (room_pool s)"
proof -
  have "kept (\<lambda>w. published w = l) (ext_call (run_stmt room_db put_room_db t u s))" for t u
    by (rule kept_ext_call) (auto simp: kept_def run_stmt_def put_room_db_def split: sum.splits)
  then show ?thesis unfolding kept_def room_pool_def pool_call_def by blast
qed

lemma published_rows_Err [kept_intros]: "kept (\<lambda>w. published w = l) rows_Err"
  unfolding rows_Err_def by (rule kept_ext_call) (simp_all add: kept_def)

lemma published_rows_Scan [kept_intros]: "kept (\<lambda>w. published w = l) rows_Scan"
  unfolding rows_Scan_def by (rule kept_ext_call) (simp_all add: kept_def)

lemma published_begin_tx [kept_intros]: "kept (\<lambda>w. published w = l) begin_tx"
  unfolding begin_tx_def by (rule kept_ext_call) (simp_all add: kept_def)

lemma published_tx [kept_intros]:
  "kept (\<lambda>(w, _). published w = l) (tx_call t s)"
  "kept (\<lambda>(w, _). published w = l) (tx_commit put_room_db)"
  by (auto simp: kept_def tx_call_def tx_commit_def put_room_db_def split: fault.splits sum.splits prod.splits)

interpretation pgb: room_backend pgRoomRepository pg_view pg_ok calm "natsRoomPublisher U" published
  "room_event_msg U" for U
proof (unfold_locales, goal_cases)
  case (1 w ev)
  show ?case unfolding pub_event_nats
    by (cases "room_event_msg U ev") (simp, rule wp_mono [OF publish_wp],
      use 1 in \<open>auto simp: pg_view_def pg_ok_def\<close>)
qed (unfold pgRoomRepository_def RoomRepository.select_convs pgRoom_defs, (intro kept_intros kept_in_tx)+)

end
