(* ===== verification/RoomHandler.thy ===== *)
theory RoomHandler
  imports RoomService
begin

text \<open>
  \<open>services/room/internal/handler\<close>: the gRPC side of the room service, and the first half of
  the way a domain error takes to a client.

  A request is the record of its protobuf message.  The rules of \<open>room.proto\<close> (every id and the
  name of a new room have \<open>min_len = 1\<close>) are \<open>min_len_violations\<close>; the text protovalidate gives
  a violation is a parameter of the handler, as are the UUID library and the service.
\<close>

section \<open>Messages\<close>

type_synonym protoRoomType = int

definition ROOM_TYPE_UNSPECIFIED :: protoRoomType where "ROOM_TYPE_UNSPECIFIED = 0"
definition ROOM_TYPE_DIRECT :: protoRoomType where "ROOM_TYPE_DIRECT = 1"
definition ROOM_TYPE_GROUP :: protoRoomType where "ROOM_TYPE_GROUP = 2"

record protoRoom =
  pr_RoomId :: string
  pr_Name :: string
  pr_Type :: protoRoomType
  pr_CreatedBy :: string
  pr_CreatedAt :: time
  pr_UpdatedAt :: time

record CreateRoomRequest =
  crq_Name :: string
  crq_Type :: protoRoomType
  crq_CreatedBy :: string
  crq_ParticipantId :: string

record UpdateRoomRequest =
  urq_RoomId :: string
  urq_RequesterId :: string
  urq_Name :: "string option"

record DeleteRoomRequest =
  drq_RoomId :: string
  drq_RequesterId :: string

record AddMemberRequest =
  amq_RoomId :: string
  amq_UserId :: string
  amq_RequesterId :: string

record RemoveMemberRequest =
  rmq_RoomId :: string
  rmq_UserId :: string
  rmq_RequesterId :: string

section \<open>Mapper\<close>

definition roomTypeToProto :: "RoomType \<rightharpoonup> protoRoomType" where
  "roomTypeToProto = map_of [(RoomTypeDirect, ROOM_TYPE_DIRECT), (RoomTypeGroup, ROOM_TYPE_GROUP)]"

definition protoToRoomTypeMap :: "protoRoomType \<rightharpoonup> RoomType" where
  "protoToRoomTypeMap = map_of [(ROOM_TYPE_DIRECT, RoomTypeDirect), (ROOM_TYPE_GROUP, RoomTypeGroup)]"

definition roomToProto :: "uuid_lib \<Rightarrow> sRoom \<Rightarrow> protoRoom" where
  "roomToProto U room =
     \<lparr>pr_RoomId = uuid_String U (sroom_ID room), pr_Name = sroom_Name room,
      pr_Type = mapper_Enum roomTypeToProto (sroom_Type room) ROOM_TYPE_UNSPECIFIED,
      pr_CreatedBy = uuid_String U (sroom_CreatedBy room), pr_CreatedAt = sroom_CreatedAt room,
      pr_UpdatedAt = sroom_UpdatedAt room\<rparr>"

definition protoToRoomType :: "protoRoomType \<Rightarrow> RoomType option" where
  "protoToRoomType rt = mapper_EnumWithOk protoToRoomTypeMap rt"

section \<open>The handler\<close>

record 'w roomHandler =
  rh_svc :: "'w RoomService"
  rh_uuid :: uuid_lib
  rh_violations :: "string list \<Rightarrow> string"

text \<open>The fields of a message with \<open>min_len = 1\<close> that are empty.\<close>

definition min_len_violations :: "(string \<times> string) list \<Rightarrow> string list" where
  "min_len_violations kvs = List.map fst (filter (\<lambda>(_, v). v = []) kvs)"

definition validate :: "(string list \<Rightarrow> string) \<Rightarrow> string list \<Rightarrow> ('w, 'a) op \<Rightarrow> ('w, 'a) op" where
  "validate txt violations k =
     (if violations = [] then k else fail (Code_Error CodeInvalidArgument (txt violations)))"

definition parse_id :: "uuid_lib \<Rightarrow> string \<Rightarrow> string \<Rightarrow> (uuid \<Rightarrow> ('w, 'a) op) \<Rightarrow> ('w, 'a) op" where
  "parse_id U s msg k =
     (case uuid_Parse U s of
        None \<Rightarrow> fail (Code_Error CodeInvalidArgument msg)
      | Some u \<Rightarrow> k u)"

text \<open>\<open>sharederrors.CodeInternal.Wrap(err)\<close> for an error that is not \<open>nil\<close>.\<close>

definition CodeInternal_Wrap :: "error \<Rightarrow> error" where
  "CodeInternal_Wrap e = (case Code_Wrap CodeInternal (Some e) of Some e' \<Rightarrow> e' | None \<Rightarrow> e)"

definition roomHandler_CreateRoom :: "'w roomHandler \<Rightarrow> CreateRoomRequest \<Rightarrow> ('w, protoRoom) op" where
  "roomHandler_CreateRoom h req =
     validate (rh_violations h)
       (min_len_violations [(''name'', crq_Name req), (''created_by'', crq_CreatedBy req)])
     (parse_id (rh_uuid h) (crq_CreatedBy req) ''invalid created_by'' (\<lambda>createdBy.
     (case (if crq_ParticipantId req \<noteq> [] then uuid_Parse (rh_uuid h) (crq_ParticipantId req)
            else Some uuid_Nil) of
        None \<Rightarrow> fail (Code_Error CodeInvalidArgument ''invalid participant_id'')
      | Some participantID \<Rightarrow>
         (case protoToRoomType (crq_Type req) of
            None \<Rightarrow> fail (Code_Error CodeInvalidArgument ''invalid room type'')
          | Some roomType \<Rightarrow>
             tryE (svc_CreateRoom (rh_svc h) (crq_Name req) roomType createdBy participantID)
               (\<lambda>e. if errors_Is e roomSvc_ErrDirectRoomExists
                    then fail (Code_Error CodeAlreadyExists ''direct room already exists between these users'')
                    else fail (CodeInternal_Wrap e))
               (\<lambda>room. ret (roomToProto (rh_uuid h) room))))))"

definition roomHandler_GetRoom :: "'w roomHandler \<Rightarrow> string \<Rightarrow> ('w, protoRoom) op" where
  "roomHandler_GetRoom h roomId =
     validate (rh_violations h) (min_len_violations [(''room_id'', roomId)])
     (parse_id (rh_uuid h) roomId ''invalid room_id'' (\<lambda>roomID.
        tryE (svc_GetRoom (rh_svc h) roomID)
          (\<lambda>e. if errors_Is e roomSvc_ErrRoomNotFound
               then fail (Code_Error CodeNotFound ''room not found'')
               else fail (CodeInternal_Wrap e))
          (\<lambda>room. ret (roomToProto (rh_uuid h) room))))"

definition roomHandler_UpdateRoom :: "'w roomHandler \<Rightarrow> UpdateRoomRequest \<Rightarrow> ('w, protoRoom) op" where
  "roomHandler_UpdateRoom h req =
     validate (rh_violations h)
       (min_len_violations [(''room_id'', urq_RoomId req), (''requester_id'', urq_RequesterId req)])
     (parse_id (rh_uuid h) (urq_RoomId req) ''invalid room_id'' (\<lambda>roomID.
      parse_id (rh_uuid h) (urq_RequesterId req) ''invalid requester_id'' (\<lambda>requesterID.
        (case urq_Name req of
           None \<Rightarrow> fail (Code_Error CodeInvalidArgument ''name is required'')
         | Some name \<Rightarrow>
            if name = [] then fail (Code_Error CodeInvalidArgument ''name is required'')
            else
              tryE (svc_UpdateRoom (rh_svc h) roomID requesterID name)
                (\<lambda>e. if errors_Is e roomSvc_ErrRoomNotFound
                     then fail (Code_Error CodeNotFound ''room not found'')
                     else if errors_Is e roomSvc_ErrNotOwner
                     then fail (Code_Error CodePermissionDenied ''only owner can update room'')
                     else if errors_Is e roomSvc_ErrNotMember
                     then fail (Code_Error CodePermissionDenied ''must be a room member'')
                     else fail (CodeInternal_Wrap e))
                (\<lambda>room. ret (roomToProto (rh_uuid h) room))))))"

definition roomHandler_DeleteRoom :: "'w roomHandler \<Rightarrow> DeleteRoomRequest \<Rightarrow> ('w, unit) op" where
  "roomHandler_DeleteRoom h req =
     validate (rh_violations h)
       (min_len_violations [(''room_id'', drq_RoomId req), (''requester_id'', drq_RequesterId req)])
     (parse_id (rh_uuid h) (drq_RoomId req) ''invalid room_id'' (\<lambda>roomID.
      parse_id (rh_uuid h) (drq_RequesterId req) ''invalid requester_id'' (\<lambda>requesterID.
        tryE (svc_DeleteRoom (rh_svc h) roomID requesterID)
          (\<lambda>e. if errors_Is e roomSvc_ErrRoomNotFound
               then fail (Code_Error CodeNotFound ''room not found'')
               else if errors_Is e roomSvc_ErrNotOwner
               then fail (Code_Error CodePermissionDenied ''only owner can delete room'')
               else if errors_Is e roomSvc_ErrNotMember
               then fail (Code_Error CodePermissionDenied ''must be a room member'')
               else fail (CodeInternal_Wrap e))
          ret)))"

definition roomHandler_AddMember :: "'w roomHandler \<Rightarrow> AddMemberRequest \<Rightarrow> ('w, unit) op" where
  "roomHandler_AddMember h req =
     validate (rh_violations h)
       (min_len_violations [(''room_id'', amq_RoomId req), (''user_id'', amq_UserId req),
          (''requester_id'', amq_RequesterId req)])
     (parse_id (rh_uuid h) (amq_RoomId req) ''invalid room_id'' (\<lambda>roomID.
      parse_id (rh_uuid h) (amq_UserId req) ''invalid user_id'' (\<lambda>userID.
      parse_id (rh_uuid h) (amq_RequesterId req) ''invalid requester_id'' (\<lambda>requesterID.
        tryE (svc_AddMember (rh_svc h) roomID userID requesterID)
          (\<lambda>e. if errors_Is e roomSvc_ErrRoomNotFound
               then fail (Code_Error CodeNotFound ''room not found'')
               else if errors_Is e roomSvc_ErrNotMember
               then fail (Code_Error CodePermissionDenied ''must be a room member to add new members'')
               else fail (CodeInternal_Wrap e))
          ret))))"

definition roomHandler_RemoveMember :: "'w roomHandler \<Rightarrow> RemoveMemberRequest \<Rightarrow> ('w, unit) op" where
  "roomHandler_RemoveMember h req =
     validate (rh_violations h)
       (min_len_violations [(''room_id'', rmq_RoomId req), (''user_id'', rmq_UserId req),
          (''requester_id'', rmq_RequesterId req)])
     (parse_id (rh_uuid h) (rmq_RoomId req) ''invalid room_id'' (\<lambda>roomID.
      parse_id (rh_uuid h) (rmq_UserId req) ''invalid user_id'' (\<lambda>userID.
      parse_id (rh_uuid h) (rmq_RequesterId req) ''invalid requester_id'' (\<lambda>requesterID.
        tryE (svc_RemoveMember (rh_svc h) roomID userID requesterID)
          (\<lambda>e. if errors_Is e roomSvc_ErrRoomNotFound
               then fail (Code_Error CodeNotFound ''room not found'')
               else if errors_Is e roomSvc_ErrNotOwner
               then fail (Code_Error CodePermissionDenied ''only owner can remove members'')
               else if errors_Is e roomSvc_ErrNotMember
               then fail (Code_Error CodePermissionDenied ''must be a room member'')
               else if errors_Is e roomSvc_ErrMemberNotFound
               then fail (Code_Error CodeNotFound ''member not found'')
               else if errors_Is e roomSvc_ErrCannotRemoveOwner
               then fail (Code_Error CodePermissionDenied ''owner cannot remove themselves from the room'')
               else fail (CodeInternal_Wrap e))
          ret))))"

definition roomHandler_GetRoomMembers :: "'w roomHandler \<Rightarrow> string \<Rightarrow> ('w, string list) op" where
  "roomHandler_GetRoomMembers h roomId =
     validate (rh_violations h) (min_len_violations [(''room_id'', roomId)])
     (parse_id (rh_uuid h) roomId ''invalid room_id'' (\<lambda>roomID.
        tryE (svc_GetRoomMembers (rh_svc h) roomID)
          (\<lambda>e. if errors_Is e roomSvc_ErrRoomNotFound
               then fail (Code_Error CodeNotFound ''room not found'')
               else fail (CodeInternal_Wrap e))
          (\<lambda>members. ret (List.map (\<lambda>m. uuid_String (rh_uuid h) (srm_UserID m)) members))))"

definition roomHandler_IsMember :: "'w roomHandler \<Rightarrow> string \<Rightarrow> string \<Rightarrow> ('w, bool) op" where
  "roomHandler_IsMember h roomId userId =
     validate (rh_violations h) (min_len_violations [(''room_id'', roomId), (''user_id'', userId)])
     (parse_id (rh_uuid h) roomId ''invalid room_id'' (\<lambda>roomID.
      parse_id (rh_uuid h) userId ''invalid user_id'' (\<lambda>userID.
        tryE (svc_IsMember (rh_svc h) roomID userID) (\<lambda>e. fail (CodeInternal_Wrap e)) ret)))"

definition roomHandler_GetUserRooms :: "'w roomHandler \<Rightarrow> string \<Rightarrow> ('w, protoRoom list) op" where
  "roomHandler_GetUserRooms h userId =
     validate (rh_violations h) (min_len_violations [(''user_id'', userId)])
     (parse_id (rh_uuid h) userId ''invalid user_id'' (\<lambda>userID.
        tryE (svc_GetUserRooms (rh_svc h) userID)
          (\<lambda>e. fail (CodeInternal_Wrap e))
          (\<lambda>rs. ret (List.map (roomToProto (rh_uuid h)) rs))))"

text \<open>The wiring of \<open>services/room/cmd/main.go\<close>: the service over Postgres and NATS.\<close>

definition room_service :: "uuid_lib \<Rightarrow> ('z room_world_scheme) RoomService" where
  "room_service U = NewRoomService pgRoomRepository (natsRoomPublisher U)"

definition room_handler :: "uuid_lib \<Rightarrow> (string list \<Rightarrow> string) \<Rightarrow> ('z room_world_scheme) roomHandler" where
  "room_handler U txt = \<lparr>rh_svc = room_service U, rh_uuid = U, rh_violations = txt\<rparr>"

lemmas roomHandler_defs = roomHandler_CreateRoom_def roomHandler_GetRoom_def roomHandler_UpdateRoom_def
  roomHandler_DeleteRoom_def roomHandler_AddMember_def roomHandler_RemoveMember_def
  roomHandler_GetRoomMembers_def roomHandler_IsMember_def roomHandler_GetUserRooms_def

section \<open>The code a client sees\<close>

text \<open>\<open>answers c r\<close>: the result is the application error with code \<open>c\<close>.\<close>

definition answers :: "Code \<Rightarrow> error + 'a \<Rightarrow> bool" where
  "answers c r \<longleftrightarrow> (\<exists>m cause. r = Inl (StatusError c m cause))"

lemma answers_simps [simp]:
  "answers c (Inl (StatusError d m cause)) \<longleftrightarrow> c = d" "\<not> answers c (Inr x)"
  by (auto simp: answers_def)

lemma answers_Code_Error [simp]: "answers c (Inl (Code_Error d m)) \<longleftrightarrow> c = d"
  by (simp add: Code_Error_def)

lemma answers_Wrap [simp]: "answers c (Inl (CodeInternal_Wrap (Sentinel s))) \<longleftrightarrow> c = CodeInternal"
  by (simp add: CodeInternal_Wrap_def Code_Wrap_def)

text \<open>The code each handler gives to a verdict of the policy.\<close>

definition room_code :: "sentinel \<Rightarrow> Code" where
  "room_code s =
     (case s of
        roomSvc_ErrRoomNotFound \<Rightarrow> CodeNotFound
      | roomSvc_ErrMemberNotFound \<Rightarrow> CodeNotFound
      | roomSvc_ErrNotOwner \<Rightarrow> CodePermissionDenied
      | roomSvc_ErrNotMember \<Rightarrow> CodePermissionDenied
      | roomSvc_ErrCannotRemoveOwner \<Rightarrow> CodePermissionDenied
      | roomSvc_ErrDirectRoomExists \<Rightarrow> CodeAlreadyExists
      | _ \<Rightarrow> CodeInternal)"

lemma remove_verdict_range: "remove_verdict v rid uid u = Some s \<Longrightarrow> s \<in> {roomSvc_ErrRoomNotFound,
    roomSvc_ErrDirectRoomImmutable, roomSvc_ErrNotMember, roomSvc_ErrNotOwner,
    roomSvc_ErrCannotRemoveOwner, roomSvc_ErrMemberNotFound}"
  by (auto simp: remove_verdict_def split: if_splits option.splits)

lemma add_verdict_range: "add_verdict v rid u = Some s \<Longrightarrow> s \<in> {roomSvc_ErrRoomNotFound,
    roomSvc_ErrDirectRoomImmutable, roomSvc_ErrNotMember}"
  by (auto simp: add_verdict_def split: if_splits option.splits)

lemma owner_verdict_range: "owner_verdict v rid u = Some s \<Longrightarrow> s \<in> {roomSvc_ErrRoomNotFound,
    roomSvc_ErrNotMember, roomSvc_ErrNotOwner}"
  by (auto simp: owner_verdict_def split: if_splits option.splits)

text \<open>When nothing fails, the service answers exactly the verdict.\<close>

lemma wp_run: "wp m Q E w \<Longrightarrow> (\<exists>x w'. m w = (Inr x, w') \<and> Q x w') \<or> (\<exists>e w'. m w = (Inl e, w') \<and> E e w')"
  by (cases "m w"; cases "fst (m w)") (auto simp: wp_def)

definition unit_result :: "sentinel option \<Rightarrow> error + unit" where
  "unit_result v = (case v of None \<Rightarrow> Inr () | Some s \<Rightarrow> Inl (Sentinel s))"

lemma calm_RemoveMember:
  assumes "pg_ok w" "calm w"
  shows "\<exists>w'. svc_RemoveMember (room_service U) rid uid u w =
      (unit_result (remove_verdict (pg_view w) rid uid u), w') \<and> pg_ok w' \<and> calm w' \<and>
    (if remove_verdict (pg_view w) rid uid u = None
     then pg_view w' = spec_set_role rid uid None (pg_view w) \<and>
       (\<exists>ids. members_of (pg_view w') rid ids \<and>
         published w' = published w @ [room_event_msg U (MembershipChanged rid uid ''removed'' ids)])
     else pg_view w' = pg_view w \<and> published w' = published w)"
proof -
  have svc: "svc_RemoveMember (room_service U) =
      roomService_RemoveMember \<lparr>roomRepo = pgRoomRepository, publisher = natsRoomPublisher U\<rparr>"
    by (simp add: room_service_def NewRoomService_def Let_def)
  from wp_run [OF pgb.RemoveMember_spec [OF assms(1), of U rid uid u], folded svc] assms(2)
  show ?thesis by (auto simp: unit_result_def)
qed

lemma calm_AddMember:
  assumes "pg_ok w" "calm w"
  shows "\<exists>w'. svc_AddMember (room_service U) rid uid u w =
      (unit_result (add_verdict (pg_view w) rid u), w') \<and> pg_ok w' \<and> calm w' \<and>
    (if add_verdict (pg_view w) rid u = None
     then pg_view w' = spec_add rid uid (pg_view w) \<and>
       (if v_roles (pg_view w) rid uid = None
        then \<exists>ids. members_of (pg_view w') rid ids \<and>
          published w' = published w @ [room_event_msg U (MembershipChanged rid uid ''added'' ids)]
        else published w' = published w)
     else pg_view w' = pg_view w \<and> published w' = published w)"
proof -
  have svc: "svc_AddMember (room_service U) =
      roomService_AddMember \<lparr>roomRepo = pgRoomRepository, publisher = natsRoomPublisher U\<rparr>"
    by (simp add: room_service_def NewRoomService_def Let_def)
  from wp_run [OF pgb.AddMember_spec [OF assms(1), of U rid uid u], folded svc] assms(2)
  show ?thesis by (auto simp: unit_result_def)
qed

lemma calm_DeleteRoom:
  assumes "pg_ok w" "calm w"
  shows "\<exists>w'. svc_DeleteRoom (room_service U) rid u w =
      (unit_result (owner_verdict (pg_view w) rid u), w') \<and> pg_ok w' \<and> calm w' \<and>
    (if owner_verdict (pg_view w) rid u = None
     then pg_view w' = spec_delete rid (pg_view w) \<and>
       (\<exists>ids. members_of (pg_view w) rid ids \<and>
         published w' = published w @ [room_event_msg U (RoomDeleted rid ids)])
     else pg_view w' = pg_view w \<and> published w' = published w)"
proof -
  have svc: "svc_DeleteRoom (room_service U) =
      roomService_DeleteRoom \<lparr>roomRepo = pgRoomRepository, publisher = natsRoomPublisher U\<rparr>"
    by (simp add: room_service_def NewRoomService_def Let_def)
  from wp_run [OF pgb.DeleteRoom_spec [OF assms(1), of U rid u], folded svc] assms(2)
  show ?thesis by (auto simp: unit_result_def)
qed

section \<open>A small state\<close>

text \<open>For the concrete instances of the properties: a UUID library, an environment in which every
  call works, and a database with a group room (10) of the users 1, 2 and 3 and a direct room (11)
  of the users 1 and 2, both made by user 1.\<close>

definition sample_uuids :: uuid_lib where
  "sample_uuids = \<lparr>uuid_Parse = (\<lambda>s. Some (word_of_nat (length s - 1))),
     uuid_String = (\<lambda>u. replicate (Suc (unat u)) CHR ''u'')\<rparr>"

lemma sample_uuids_ok: "uuid_lib_ok sample_uuids"
  by (simp add: uuid_lib_ok_def sample_uuids_def)

definition calm_env :: environment where
  "calm_env = \<lparr>fault_at = (\<lambda>_. Works), clock_at = (\<lambda>n. 1000 + int n),
     uuid_at = (\<lambda>n. word_of_nat (100 + n mod 1000)), cancelled_at = (\<lambda>_. False)\<rparr>"

lemma calm_uuid_neq:
  assumes "unat k < 100"
  shows "word_of_nat (100 + n mod 1000) \<noteq> (k :: uuid)"
proof -
  have "unat (word_of_nat (100 + n mod 1000) :: uuid) = 100 + n mod 1000"
    by (subst unat_of_nat) (simp add: mod_less_divisor [THEN order_less_le_trans])
  with assms show ?thesis by auto
qed

definition sample_rooms :: room_tables where
  "sample_rooms =
     \<lparr>rooms = [\<lparr>room_ID = 10, room_Name = ''a'', room_Type = ''group'', room_CreatedBy = 1,
                room_CreatedAt = 5, room_UpdatedAt = 5\<rparr>,
               \<lparr>room_ID = 11, room_Name = ''b'', room_Type = ''direct'', room_CreatedBy = 1,
                room_CreatedAt = 6, room_UpdatedAt = 6\<rparr>],
      room_members = [\<lparr>rm_RoomID = 10, rm_UserID = 1, rm_Role = ''owner'', rm_JoinedAt = 5\<rparr>,
                \<lparr>rm_RoomID = 10, rm_UserID = 2, rm_Role = ''member'', rm_JoinedAt = 5\<rparr>,
                \<lparr>rm_RoomID = 10, rm_UserID = 3, rm_Role = ''member'', rm_JoinedAt = 5\<rparr>,
                \<lparr>rm_RoomID = 11, rm_UserID = 1, rm_Role = ''owner'', rm_JoinedAt = 6\<rparr>,
                \<lparr>rm_RoomID = 11, rm_UserID = 2, rm_Role = ''member'', rm_JoinedAt = 6\<rparr>]\<rparr>"

definition room_world_of :: "environment \<Rightarrow> room_tables \<Rightarrow> room_world" where
  "room_world_of E db = \<lparr>env = E, calls = 0, published = [], room_db = db\<rparr>"

definition no_rooms :: room_tables where
  "no_rooms = \<lparr>rooms = [], room_members = []\<rparr>"

abbreviation sample_room_world :: room_world where
  "sample_room_world \<equiv> room_world_of calm_env sample_rooms"

lemma sample_room_world_ok [simp]: "pg_ok sample_room_world" "calm sample_room_world"
  by (simp_all add: pg_ok_def room_world_of_def sample_rooms_def tables_ok_def member_key_def calm_def
      calm_env_def)

lemma sample_room_view:
  "pg_view sample_room_world = tables_view sample_rooms"
  by (simp add: pg_view_def room_world_of_def)

lemma sample_lookups:
  "v_rooms (tables_view sample_rooms) 10 = Some \<lparr>room_ID = 10, room_Name = ''a'', room_Type = ''group'',
     room_CreatedBy = 1, room_CreatedAt = 5, room_UpdatedAt = 5\<rparr>"
  "v_rooms (tables_view sample_rooms) 11 = Some \<lparr>room_ID = 11, room_Name = ''b'', room_Type = ''direct'',
     room_CreatedBy = 1, room_CreatedAt = 6, room_UpdatedAt = 6\<rparr>"
  "v_roles (tables_view sample_rooms) 10 1 = Some ''owner''"
  "v_roles (tables_view sample_rooms) 10 2 = Some ''member''"
  "v_roles (tables_view sample_rooms) 10 3 = Some ''member''"
  "v_roles (tables_view sample_rooms) 10 4 = None"
  "v_roles (tables_view sample_rooms) 11 1 = Some ''owner''"
  "v_roles (tables_view sample_rooms) 11 2 = Some ''member''"
  by (simp_all add: sample_rooms_def is_row_def)

section \<open>Properties\<close>

text \<open>A string of a request names an id: it is not empty and parses to it.\<close>

definition names_id :: "uuid_lib \<Rightarrow> string \<Rightarrow> uuid \<Rightarrow> bool" where
  "names_id U s u \<longleftrightarrow> s \<noteq> [] \<and> uuid_Parse U s = Some u"

text \<open>C2: Whatever the environment does to its external calls, one request to the room service
  over Postgres and NATS leaves a consistent database, and changes the rooms only as one step of
  the abstract machine made by the requester: only owners rename, delete and remove others, only
  members add members, and direct rooms keep their members.\<close>

theorem room_requests_refine_machine:
  assumes "pg_ok w"
  shows "pg_ok (serve (room_service U) req w) \<and>
    (pg_view (serve (room_service U) req w) = pg_view w \<or>
     room_step (requester req) (pg_view w) (pg_view (serve (room_service U) req w)))"
  unfolding room_service_def by (rule pgb.serve_step [OF assms])

theorem room_requests_refine_machine_witness:
  "pg_ok (serve (room_service sample_uuids) (RemoveMemberReq 10 2 1) sample_room_world) \<and>
    (pg_view (serve (room_service sample_uuids) (RemoveMemberReq 10 2 1) sample_room_world) =
       pg_view sample_room_world \<or>
     room_step 1 (pg_view sample_room_world)
       (pg_view (serve (room_service sample_uuids) (RemoveMemberReq 10 2 1) sample_room_world)))"
  using room_requests_refine_machine [of sample_room_world sample_uuids "RemoveMemberReq 10 2 1"] by simp

text \<open>C20: Starting from empty tables, after any sequence of requests and under any faults of the
  database and the bus, every room has exactly one owner, its creator; a direct room has exactly
  two members; and two users share at most one direct room.\<close>

theorem room_invariant_always:
  "rooms_inv (pg_view (fold (serve (room_service U)) reqs (room_world_of E no_rooms)))"
proof -
  have "pg_ok (room_world_of E no_rooms)" "rooms_inv (pg_view (room_world_of E no_rooms))"
    by (simp_all add: room_world_of_def no_rooms_def pg_ok_def tables_ok_def pg_view_def rooms_inv_def
        room_inv_def direct_room_of_def)
  from pgb.serve_all [OF this, of U reqs] show ?thesis by (simp add: room_service_def)
qed

text \<open>C28: When no external call fails, \<open>RemoveMember\<close> of the gRPC handler answers exactly what the
  policy says, with the code of its verdict; it removes the member exactly when the policy allows,
  and then publishes one event, to exactly the members that stay.\<close>

theorem remove_member_handler:
  assumes "pg_ok w" and "calm w"
    and "names_id U (rmq_RoomId req) rid" and "names_id U (rmq_UserId req) uid"
    and "names_id U (rmq_RequesterId req) u"
  shows "case roomHandler_RemoveMember (room_handler U txt) req w of (r, w') \<Rightarrow>
    (case remove_verdict (pg_view w) rid uid u of
       None \<Rightarrow> r = Inr () \<and> pg_view w' = spec_set_role rid uid None (pg_view w) \<and>
         (\<exists>ids. members_of (pg_view w') rid ids \<and>
           published w' = published w @ [room_event_msg U (MembershipChanged rid uid ''removed'' ids)])
     | Some s \<Rightarrow> answers (room_code s) r \<and> pg_view w' = pg_view w \<and> published w' = published w)"
proof -
  obtain w' where run: "svc_RemoveMember (room_service U) rid uid u w =
      (unit_result (remove_verdict (pg_view w) rid uid u), w')"
    and post: "if remove_verdict (pg_view w) rid uid u = None
     then pg_view w' = spec_set_role rid uid None (pg_view w) \<and>
       (\<exists>ids. members_of (pg_view w') rid ids \<and>
         published w' = published w @ [room_event_msg U (MembershipChanged rid uid ''removed'' ids)])
     else pg_view w' = pg_view w \<and> published w' = published w"
    using calm_RemoveMember [OF assms(1,2), of U rid uid u] by blast
  show ?thesis
  proof (cases "remove_verdict (pg_view w) rid uid u")
    case None
    then show ?thesis using assms(3-) run post
      by (auto simp: roomHandler_RemoveMember_def room_handler_def validate_def min_len_violations_def
          parse_id_def names_id_def tryE_def unit_result_def ret_def)
  next
    case (Some s)
    then show ?thesis using assms(3-) run post remove_verdict_range [OF Some]
      by (auto simp: roomHandler_RemoveMember_def room_handler_def validate_def min_len_violations_def
          parse_id_def names_id_def tryE_def unit_result_def fail_def room_code_def)
  qed
qed

theorem remove_member_handler_witness:
  "case roomHandler_RemoveMember (room_handler sample_uuids concat)
      \<lparr>rmq_RoomId = ''uuuuuuuuuuu'', rmq_UserId = ''uuu'', rmq_RequesterId = ''uuuu''\<rparr> sample_room_world
   of (r, w') \<Rightarrow> answers CodePermissionDenied r \<and> pg_view w' = pg_view sample_room_world"
proof -
  have "remove_verdict (pg_view sample_room_world) 10 2 3 = Some roomSvc_ErrNotOwner"
    unfolding sample_room_view by (simp add: remove_verdict_def sample_lookups room_consts del: tables_view_simps)
  then show ?thesis
    using remove_member_handler [of sample_room_world sample_uuids
        "\<lparr>rmq_RoomId = ''uuuuuuuuuuu'', rmq_UserId = ''uuu'', rmq_RequesterId = ''uuuu''\<rparr>" 10 2 3 concat]
    by (simp add: names_id_def sample_uuids_def room_code_def split: prod.splits)
qed

text \<open>C29: When no external call fails, \<open>AddMember\<close> of the gRPC handler answers what the policy
  says: any member of a group room may add, adding twice succeeds and changes nothing, and one
  event goes to exactly the members of the room.  A direct room cannot be extended, but the handler
  reports this as an internal error (\<open>room_code\<close> of \<open>ErrDirectRoomImmutable\<close>).  (\<open>docs/api.md\<close> answers
  409 to adding twice; ADR-011 and the code make it succeed.)\<close>

theorem add_member_handler:
  assumes "pg_ok w" and "calm w"
    and "names_id U (amq_RoomId req) rid" and "names_id U (amq_UserId req) uid"
    and "names_id U (amq_RequesterId req) u"
  shows "case roomHandler_AddMember (room_handler U txt) req w of (r, w') \<Rightarrow>
    (case add_verdict (pg_view w) rid u of
       None \<Rightarrow> r = Inr () \<and> pg_view w' = spec_add rid uid (pg_view w) \<and>
         (v_roles (pg_view w) rid uid = None \<longrightarrow> (\<exists>ids. members_of (pg_view w') rid ids \<and>
           published w' = published w @ [room_event_msg U (MembershipChanged rid uid ''added'' ids)])) \<and>
         (v_roles (pg_view w) rid uid \<noteq> None \<longrightarrow> published w' = published w)
     | Some s \<Rightarrow> answers (room_code s) r \<and> pg_view w' = pg_view w \<and> published w' = published w)"
proof -
  obtain w' where run: "svc_AddMember (room_service U) rid uid u w =
      (unit_result (add_verdict (pg_view w) rid u), w')"
    and post: "if add_verdict (pg_view w) rid u = None
     then pg_view w' = spec_add rid uid (pg_view w) \<and>
       (if v_roles (pg_view w) rid uid = None
        then \<exists>ids. members_of (pg_view w') rid ids \<and>
          published w' = published w @ [room_event_msg U (MembershipChanged rid uid ''added'' ids)]
        else published w' = published w)
     else pg_view w' = pg_view w \<and> published w' = published w"
    using calm_AddMember [OF assms(1,2), of U rid uid u] by blast
  show ?thesis
  proof (cases "add_verdict (pg_view w) rid u")
    case None
    then show ?thesis using assms(3-) run post
      by (auto simp: roomHandler_AddMember_def room_handler_def validate_def min_len_violations_def
          parse_id_def names_id_def tryE_def unit_result_def ret_def split: if_splits)
  next
    case (Some s)
    then show ?thesis using assms(3-) run post add_verdict_range [OF Some]
      by (auto simp: roomHandler_AddMember_def room_handler_def validate_def min_len_violations_def
          parse_id_def names_id_def tryE_def unit_result_def fail_def room_code_def)
  qed
qed

theorem add_member_handler_witness:
  "case roomHandler_AddMember (room_handler sample_uuids concat)
      \<lparr>amq_RoomId = ''uuuuuuuuuuuu'', amq_UserId = ''uuuu'', amq_RequesterId = ''uu''\<rparr> sample_room_world
   of (r, w') \<Rightarrow> answers CodeInternal r \<and> pg_view w' = pg_view sample_room_world"
proof -
  have "add_verdict (pg_view sample_room_world) 11 1 = Some roomSvc_ErrDirectRoomImmutable"
    unfolding sample_room_view by (simp add: add_verdict_def sample_lookups room_consts del: tables_view_simps)
  then show ?thesis
    using add_member_handler [of sample_room_world sample_uuids
        "\<lparr>amq_RoomId = ''uuuuuuuuuuuu'', amq_UserId = ''uuuu'', amq_RequesterId = ''uu''\<rparr>" 11 3 1 concat]
    by (simp add: names_id_def sample_uuids_def room_code_def split: prod.splits)
qed

text \<open>C30: When no external call fails, \<open>DeleteRoom\<close> of the gRPC handler deletes a room with all
  its members exactly when its owner asks, tells exactly the former members, and otherwise changes
  nothing and says why.\<close>

theorem delete_room_handler:
  assumes "pg_ok w" and "calm w"
    and "names_id U (drq_RoomId req) rid" and "names_id U (drq_RequesterId req) u"
  shows "case roomHandler_DeleteRoom (room_handler U txt) req w of (r, w') \<Rightarrow>
    (case owner_verdict (pg_view w) rid u of
       None \<Rightarrow> r = Inr () \<and> pg_view w' = spec_delete rid (pg_view w) \<and>
         (\<exists>ids. members_of (pg_view w) rid ids \<and>
           published w' = published w @ [room_event_msg U (RoomDeleted rid ids)])
     | Some s \<Rightarrow> answers (room_code s) r \<and> pg_view w' = pg_view w \<and> published w' = published w)"
proof -
  obtain w' where run: "svc_DeleteRoom (room_service U) rid u w =
      (unit_result (owner_verdict (pg_view w) rid u), w')"
    and post: "if owner_verdict (pg_view w) rid u = None
     then pg_view w' = spec_delete rid (pg_view w) \<and>
       (\<exists>ids. members_of (pg_view w) rid ids \<and>
         published w' = published w @ [room_event_msg U (RoomDeleted rid ids)])
     else pg_view w' = pg_view w \<and> published w' = published w"
    using calm_DeleteRoom [OF assms(1,2), of U rid u] by blast
  show ?thesis
  proof (cases "owner_verdict (pg_view w) rid u")
    case None
    then show ?thesis using assms(3-) run post
      by (auto simp: roomHandler_DeleteRoom_def room_handler_def validate_def min_len_violations_def
          parse_id_def names_id_def tryE_def unit_result_def ret_def)
  next
    case (Some s)
    then show ?thesis using assms(3-) run post owner_verdict_range [OF Some]
      by (auto simp: roomHandler_DeleteRoom_def room_handler_def validate_def min_len_violations_def
          parse_id_def names_id_def tryE_def unit_result_def fail_def room_code_def)
  qed
qed

theorem delete_room_handler_witness:
  "case roomHandler_DeleteRoom (room_handler sample_uuids concat)
      \<lparr>drq_RoomId = ''uuuuuuuuuuu'', drq_RequesterId = ''uu''\<rparr> sample_room_world
   of (r, w') \<Rightarrow> r = Inr () \<and> pg_view w' = spec_delete 10 (pg_view sample_room_world)"
proof -
  have "owner_verdict (pg_view sample_room_world) 10 1 = None"
    unfolding sample_room_view by (simp add: owner_verdict_def sample_lookups room_consts del: tables_view_simps)
  then show ?thesis
    using delete_room_handler [of sample_room_world sample_uuids
        "\<lparr>drq_RoomId = ''uuuuuuuuuuu'', drq_RequesterId = ''uu''\<rparr>" 10 1 concat]
    by (simp add: names_id_def sample_uuids_def split: prod.splits)
qed

lemma service_CreateRoom_eq: "svc_CreateRoom (room_service U) =
    roomService_CreateRoom \<lparr>roomRepo = pgRoomRepository, publisher = natsRoomPublisher U\<rparr>"
  by (simp add: room_service_def NewRoomService_def Let_def)

lemma fst_told: "fst (tryE m (\<lambda>_. ret y) (\<lambda>ms. attempt (k ms) (ret y)) v) = Inr y"
  by (auto simp: tryE_def attempt_def ret_def split: prod.splits sum.splits)

text \<open>C31: A direct room is made at most once per pair of users and never with oneself: when no
  external call fails, a second request for the same two users, from either side, is refused with
  \<open>ErrDirectRoomExists\<close>, one without a second user or with the creator as the second user with
  \<open>ErrInvalidDirectRoom\<close>, and neither changes anything.\<close>

theorem direct_room_once:
  assumes "pg_ok w" and "calm w"
    and "p = uuid_Nil \<or> p = c \<or> direct_room_of (pg_view w) c p rid \<or> direct_room_of (pg_view w) p c rid"
  shows "case svc_CreateRoom (room_service U) name RoomTypeDirect c p w of (r, w') \<Rightarrow>
    r = Inl (Sentinel (if p = uuid_Nil \<or> p = c then roomSvc_ErrInvalidDirectRoom
       else roomSvc_ErrDirectRoomExists)) \<and>
    pg_view w' = pg_view w \<and> published w' = published w"
proof -
  let ?m = "svc_CreateRoom (room_service U) name RoomTypeDirect c p"
  have spec: "wp ?m (\<lambda>x w'. p \<noteq> uuid_Nil \<and> p \<noteq> c \<and> (\<forall>rid. \<not> direct_room_of (pg_view w) c p rid))
      (\<lambda>e w'. e = Sentinel roomSvc_ErrDirectRoomExists \<longrightarrow> pg_view w' = pg_view w \<and> published w' = published w) w"
    unfolding service_CreateRoom_eq
    by (rule wp_mono [OF pgb.CreateRoom_spec [OF assms(1)]]) (auto simp: created_def)
  show ?thesis
  proof (cases "p = uuid_Nil \<or> p = c")
    case True
    then show ?thesis
      by (auto simp: service_CreateRoom_eq roomService_CreateRoom_def fail_def)
  next
    case False
    then have d: "direct_room_of (pg_view w) c p rid" using assms(3) direct_room_of_sym by blast
    obtain w1 where "pgRoom_CreateRoom name RoomTypeDirect c p w =
        (Inl (Sentinel roomRepo_ErrDirectRoomExists), w1)"
      using calm_CreateRoom(1) [OF assms(1,2) refl _ d] False by blast
    then have "?m w = (Inl (Sentinel roomSvc_ErrDirectRoomExists), w1)"
      using False by (auto simp: service_CreateRoom_eq roomService_CreateRoom_def pgRoomRepository_def
          tryE_def fail_def)
    with wpD [OF spec this] False show ?thesis by simp
  qed
qed

theorem direct_room_once_witness:
  "case svc_CreateRoom (room_service sample_uuids) ''x'' RoomTypeDirect 2 1 sample_room_world of (r, w') \<Rightarrow>
    r = Inl (Sentinel roomSvc_ErrDirectRoomExists) \<and> pg_view w' = pg_view sample_room_world"
proof -
  have "direct_room_of (pg_view sample_room_world) 2 1 11"
    unfolding sample_room_view
    by (simp add: direct_room_of_def sample_lookups room_consts del: tables_view_simps)
  then show ?thesis
    using direct_room_once [of sample_room_world 1 2 11 sample_uuids "''x''"] by (simp split: prod.splits)
qed

text \<open>\<open>CreateRoom\<close> of the service: whatever the environment does, a room it returns is a new
  one of the requested type with the requester as owner and, when direct, the other user as
  member.  When no external call fails it does return one for a valid request (a known type, a
  name of at most 100 characters without a NUL, no direct room of the pair yet, generated ids that are fresh).\<close>

theorem create_room_service:
  assumes "pg_ok w"
  shows "case svc_CreateRoom (room_service U) name ty c p w of (r, w') \<Rightarrow>
    (\<forall>x. r = Inr x \<longrightarrow> (\<exists>room. x = toRoom room \<and> created ty c p (pg_view w) room (pg_view w') \<and>
       v_roles (pg_view w') (room_ID room) = initial_roles ty c p)) \<and>
    (calm w \<and> ty \<in> {RoomTypeDirect, RoomTypeGroup} \<and> fits 100 name \<and>
       (\<forall>n. uuid_at (env w) n \<notin> room_ID ` set (rooms (room_db w))) \<and>
       (ty = RoomTypeDirect \<longrightarrow> p \<noteq> uuid_Nil \<and> p \<noteq> c \<and> (\<forall>rid. \<not> direct_room_of (pg_view w) c p rid))
     \<longrightarrow> (\<exists>x. r = Inr x))"
proof -
  let ?m = "svc_CreateRoom (room_service U) name ty c p"
  have spec: "wp ?m (\<lambda>x w'. \<exists>room. x = toRoom room \<and> created ty c p (pg_view w) room (pg_view w')) (\<lambda>_ _. True) w"
    unfolding service_CreateRoom_eq
    by (rule wp_mono [OF pgb.CreateRoom_spec [OF assms(1)]]) auto
  have total: "\<exists>x. r = Inr x" if run: "?m w = (r, w')" and calm: "calm w" and ty: "ty \<in> {RoomTypeDirect, RoomTypeGroup}"
      and len: "fits 100 name" and fresh: "\<forall>n. uuid_at (env w) n \<notin> room_ID ` set (rooms (room_db w))"
      and direct: "ty = RoomTypeDirect \<longrightarrow> p \<noteq> uuid_Nil \<and> p \<noteq> c \<and> (\<forall>rid. \<not> direct_room_of (pg_view w) c p rid)" for r w'
  proof -
    obtain room w1 where "pgRoom_CreateRoom name ty c p w = (Inr room, w1)"
      using calm_CreateRoom(2) [OF assms(1) calm ty len fresh] direct by blast
    then have "fst (?m w) = Inr (toRoom room)" using direct
      by (auto simp: service_CreateRoom_eq roomService_CreateRoom_def pgRoomRepository_def
          tryE_Inr fst_told)
    with run show ?thesis by simp
  qed
  show ?thesis
  proof (cases "?m w")
    case (Pair r w')
    have "created ty c p v room v' \<Longrightarrow> v_roles v' (room_ID room) = initial_roles ty c p" for room v v'
      by (simp add: created_def spec_create_def)
    with wpD [OF spec Pair] total [OF Pair] show ?thesis
      unfolding Pair prod.case by blast
  qed
qed

theorem create_room_service_witness:
  "case svc_CreateRoom (room_service sample_uuids) ''x'' RoomTypeDirect 2 3 sample_room_world of (r, w') \<Rightarrow>
    \<exists>x. r = Inr x"
proof -
  have "\<not> direct_room_of (pg_view sample_room_world) 2 3 rid" for rid
    unfolding sample_room_view
    by (auto simp: direct_room_of_def sample_rooms_def room_consts is_row_def split: if_splits)
  moreover have "\<forall>n. uuid_at (env sample_room_world) n \<notin> room_ID ` set (rooms (room_db sample_room_world))"
    using calm_uuid_neq [of 10] calm_uuid_neq [of 11]
    by (auto simp: room_world_of_def calm_env_def sample_rooms_def)
  ultimately show ?thesis
    using create_room_service [where w = sample_room_world and U = sample_uuids and name = "''x''"
        and ty = RoomTypeDirect and c = 2 and p = 3]
    by (auto simp: fits_def no_nul_def split: prod.splits)
qed

end
