(* ===== verification/MessageRepo.thy ===== *)
theory MessageRepo
  imports MessageContent RoomHandler "HOL-Library.Product_Lexorder"
begin

text \<open>
  \<open>services/message/internal/repository\<close>: the messages table and its four operations.

  The table is a list of rows.  The column \<open>content\<close> holds the JSON document \<open>marshalContent\<close>
  wrote; \<open>reply_to_id\<close> refers to a row (rows are never removed, only marked deleted).  A page is
  read newest first in the order of \<open>(created_at, id)\<close>, strictly before the cursor, with one row
  more than asked for to know whether another page follows.

  The lemmas show that following the cursors visits every message of the room that is not deleted
  exactly once, newest first, and that a page depends only on the messages older than its cursor.
  The world of the message service extends the one of the room service, which it calls.
\<close>

section \<open>Types\<close>

record rMessagePreview =
  rp_MessageID :: uuid
  rp_SenderID :: uuid
  rp_Type :: MessageType
  rp_TextPreview :: "string option"
  rp_FileName :: "string option"
  rp_MimeType :: "string option"

record rMessage =
  m_ID :: uuid
  m_RoomID :: uuid
  m_SenderID :: uuid
  m_Type :: MessageType
  m_Content :: "rContent option"
  m_ReplyTo :: "rMessagePreview option"
  m_DeletedAt :: "time option"
  m_EditedAt :: "time option"
  m_CreatedAt :: time
  m_UpdatedAt :: time

record CreateMessageInput =
  ci_RoomID :: uuid
  ci_SenderID :: uuid
  ci_Type :: MessageType
  ci_Content :: "rContent option"
  ci_ReplyToID :: "uuid option"

record MessageRow =
  mr_id :: uuid
  mr_room_id :: uuid
  mr_sender_id :: uuid
  mr_type :: string
  mr_content :: json
  mr_reply_to_id :: "uuid option"
  mr_deleted_at :: "time option"
  mr_edited_at :: "time option"
  mr_created_at :: time
  mr_updated_at :: time

type_synonym message_table = "MessageRow list"

record message_world = room_world +
  message_db :: message_table

record 'w MessageRepository =
  mrepo_CreateMessage :: "CreateMessageInput \<Rightarrow> ('w, rMessage) op"
  mrepo_GetMessagesByRoomID :: "uuid \<Rightarrow> uuid option \<Rightarrow> int \<Rightarrow> ('w, rMessage list \<times> uuid option) op"
  mrepo_GetMessageByID :: "uuid \<Rightarrow> ('w, rMessage) op"
  mrepo_SoftDeleteMessage :: "uuid \<Rightarrow> ('w, unit) op"

section \<open>The SQL statements\<close>

definition message_types :: "string list" where
  "message_types = [''text'', ''image'', ''video'', ''video_note'', ''voice'', ''audio'', ''file'',
     ''sticker'', ''video_sticker'', ''event'']"

definition sql_insert_message ::
    "uuid \<Rightarrow> uuid \<Rightarrow> string \<Rightarrow> json \<Rightarrow> uuid option \<Rightarrow> (message_table, uuid \<times> time \<times> time) stmt" where
  "sql_insert_message room sender ty content reply t u db =
     (if ty \<notin> set message_types then Inl (External (PgError ''22P02''))
      else if \<not> json_no_nul content then Inl (External (PgError ''22P05''))
      else if u \<in> mr_id ` set db then Inl (External (PgError ''23505''))
      else if (case reply of None \<Rightarrow> False | Some r \<Rightarrow> r \<notin> insert u (mr_id ` set db))
      then Inl (External (PgError ''23503''))
      else Inr ((u, t, t), db @
        [\<lparr>mr_id = u, mr_room_id = room, mr_sender_id = sender, mr_type = ty, mr_content = content,
          mr_reply_to_id = reply, mr_deleted_at = None, mr_edited_at = None, mr_created_at = t,
          mr_updated_at = t\<rparr>]))"

definition row_by_id :: "message_table \<Rightarrow> uuid \<Rightarrow> MessageRow option" where
  "row_by_id db i = find (\<lambda>r. mr_id r = i) db"

text \<open>\<open>LEFT JOIN messages rm ON rm.id = m.reply_to_id\<close>.\<close>

definition with_reply :: "message_table \<Rightarrow> MessageRow \<Rightarrow> MessageRow \<times> MessageRow option" where
  "with_reply db r = (r, Option.bind (mr_reply_to_id r) (row_by_id db))"

definition sql_message_exists :: "uuid \<Rightarrow> (message_table, bool) stmt" where
  "sql_message_exists i t u db = Inr (row_by_id db i \<noteq> None, db)"

definition mkey :: "MessageRow \<Rightarrow> time \<times> uuid" where
  "mkey r = (mr_created_at r, mr_id r)"

text \<open>\<open>WHERE m.room_id = $1 AND m.deleted_at IS NULL ... ORDER BY m.created_at DESC, m.id DESC\<close>.\<close>

definition live_in :: "uuid \<Rightarrow> MessageRow \<Rightarrow> bool" where
  "live_in room r \<longleftrightarrow> mr_room_id r = room \<and> mr_deleted_at r = None"

definition room_rows :: "uuid \<Rightarrow> message_table \<Rightarrow> MessageRow list" where
  "room_rows room db = rev (sort_key mkey (filter (live_in room) db))"

text \<open>A comparison with the key of a cursor that does not exist is \<open>NULL\<close>, which selects nothing.\<close>

definition before_cursor :: "message_table \<Rightarrow> uuid option \<Rightarrow> MessageRow \<Rightarrow> bool" where
  "before_cursor db cursor r =
     (case cursor of
        None \<Rightarrow> True
      | Some c \<Rightarrow> (case row_by_id db c of None \<Rightarrow> False | Some cr \<Rightarrow> mkey r < mkey cr))"

definition sql_select_page ::
    "uuid \<Rightarrow> uuid option \<Rightarrow> int \<Rightarrow> (message_table, (MessageRow \<times> MessageRow option) list) stmt" where
  "sql_select_page room cursor lim t u db =
     (if lim < 0 then Inl (External (PgError ''2201W''))
      else Inr (List.map (with_reply db)
                  (take (nat lim) (filter (before_cursor db cursor) (room_rows room db))), db))"

definition sql_select_message :: "uuid \<Rightarrow> (message_table, (MessageRow \<times> MessageRow option) option) stmt" where
  "sql_select_message i t u db = Inr (map_option (with_reply db) (row_by_id db i), db)"

definition sql_soft_delete :: "uuid \<Rightarrow> (message_table, nat) stmt" where
  "sql_soft_delete i t u db =
     Inr (length (filter (\<lambda>r. mr_id r = i \<and> mr_deleted_at r = None) db),
          List.map (\<lambda>r. if mr_id r = i \<and> mr_deleted_at r = None
                     then r\<lparr>mr_deleted_at := Some t, mr_updated_at := t\<rparr> else r) db)"

section \<open>The methods of \<open>pgMessageRepository\<close>\<close>

definition put_message_db :: "message_table \<Rightarrow> 'z message_world_scheme \<Rightarrow> 'z message_world_scheme" where
  "put_message_db db w = w\<lparr>message_db := db\<rparr>"

definition message_pool :: "(message_table, 'a) stmt \<Rightarrow> ('z message_world_scheme, 'a) op" where
  "message_pool s = pool_call message_db put_message_db s"

text \<open>The preview of the message a message replies to.  The joined columns are all \<open>NULL\<close> when there
  is none; otherwise id, sender, type and content are present (they are \<open>NOT NULL\<close>).  A content
  that cannot be read leaves the preview without details.\<close>

definition buildReplyPreview :: "MessageRow option \<Rightarrow> rMessagePreview option" where
  "buildReplyPreview rm =
     (case rm of
        None \<Rightarrow> None
      | Some r \<Rightarrow>
         (let preview = \<lparr>rp_MessageID = mr_id r, rp_SenderID = mr_sender_id r, rp_Type = mr_type r,
                         rp_TextPreview = None, rp_FileName = None, rp_MimeType = None\<rparr>
          in if mr_deleted_at r \<noteq> None then Some preview
             else Some (case unmarshalContent (mr_type r) (mr_content r) of
                 Inl e \<Rightarrow> preview
               | Inr (RText c) \<Rightarrow> preview\<lparr>rp_TextPreview := Some (tc_Text c)\<rparr>
               | Inr (RFile c) \<Rightarrow> preview\<lparr>rp_FileName := Some (fc_FileName c),
                                         rp_MimeType := Some (fc_MimeType c)\<rparr>
               | Inr (RMedia c) \<Rightarrow> preview\<lparr>rp_MimeType := Some (mc_MimeType c)\<rparr>
               | Inr (RVoice c) \<Rightarrow> preview\<lparr>rp_MimeType := Some (vc_MimeType c)\<rparr>
               | Inr (RVideoNote c) \<Rightarrow> preview\<lparr>rp_MimeType := Some (vn_MimeType c)\<rparr>
               | Inr (RSticker c) \<Rightarrow> preview\<lparr>rp_MimeType := Some (sc_MimeType c)\<rparr>
               | Inr (REvent c) \<Rightarrow> preview\<lparr>rp_TextPreview := Some (ec_Text c)\<rparr>)))"

definition row_message :: "MessageRow \<times> MessageRow option \<Rightarrow> error + rMessage" where
  "row_message rr =
     (case rr of (r, rm) \<Rightarrow>
       (case unmarshalContent (mr_type r) (mr_content r) of
          Inl e \<Rightarrow> Inl e
        | Inr content \<Rightarrow>
            Inr \<lparr>m_ID = mr_id r, m_RoomID = mr_room_id r, m_SenderID = mr_sender_id r,
                 m_Type = mr_type r, m_Content = Some content, m_ReplyTo = buildReplyPreview rm,
                 m_DeletedAt = mr_deleted_at r, m_EditedAt = mr_edited_at r,
                 m_CreatedAt = mr_created_at r, m_UpdatedAt = mr_updated_at r\<rparr>))"

fun row_messages :: "(MessageRow \<times> MessageRow option) list \<Rightarrow> error + rMessage list" where
  "row_messages [] = Inr []"
| "row_messages (r # rs) =
     (case row_message r of
        Inl e \<Rightarrow> Inl e
      | Inr m \<Rightarrow> (case row_messages rs of Inl e \<Rightarrow> Inl e | Inr ms \<Rightarrow> Inr (m # ms)))"

definition pgMessage_CreateMessage :: "CreateMessageInput \<Rightarrow> ('z message_world_scheme, rMessage) op" where
  "pgMessage_CreateMessage input =
     (case marshalContent (ci_Content input) of
        Inl e \<Rightarrow> fail (Wrap ''marshal content'' e)
      | Inr contentJSON \<Rightarrow>
          tryE (message_pool (sql_insert_message (ci_RoomID input) (ci_SenderID input) (ci_Type input)
                  contentJSON (ci_ReplyToID input)))
            (\<lambda>e. fail (Wrap ''create message'' e))
            (\<lambda>(i, createdAt, updatedAt).
               ret \<lparr>m_ID = i, m_RoomID = ci_RoomID input, m_SenderID = ci_SenderID input,
                    m_Type = ci_Type input, m_Content = ci_Content input, m_ReplyTo = None,
                    m_DeletedAt = None, m_EditedAt = None, m_CreatedAt = createdAt,
                    m_UpdatedAt = updatedAt\<rparr>))"

text \<open>The end of \<open>GetMessagesByRoomID\<close>: cutting off the extra row.  Go panics on the index
  \<open>limit - 1\<close> of a limit that is not positive.\<close>

definition index_panic :: error where
  "index_panic = Errorf ''panic: index out of range''"

definition cut_page :: "int \<Rightarrow> rMessage list \<Rightarrow> ('w, rMessage list \<times> uuid option) op" where
  "cut_page limit messages =
     (if limit < int (length messages)
      then (if limit \<le> 0 then fail index_panic
            else ret (take (nat limit) messages, Some (m_ID (messages ! (nat limit - 1)))))
      else ret (messages, None))"

definition read_page ::
    "uuid \<Rightarrow> uuid option \<Rightarrow> int \<Rightarrow> ('z message_world_scheme, rMessage list \<times> uuid option) op" where
  "read_page roomID cursor limit =
     tryE (message_pool (sql_select_page roomID cursor (limit + 1)))
       fail
       (\<lambda>rs. tryE rows_Scan fail
          (\<lambda>_. case row_messages rs of
             Inl e \<Rightarrow> fail e
           | Inr messages \<Rightarrow>
               tryE rows_Err (\<lambda>e. fail (Wrap ''iterate messages'' e)) (\<lambda>_. cut_page limit messages)))"

definition pgMessage_GetMessagesByRoomID ::
    "uuid \<Rightarrow> uuid option \<Rightarrow> int \<Rightarrow> ('z message_world_scheme, rMessage list \<times> uuid option) op" where
  "pgMessage_GetMessagesByRoomID roomID cursor limit =
     (case cursor of
        Some c \<Rightarrow>
          tryE (message_pool (sql_message_exists c))
            (\<lambda>e. fail (Wrap ''check cursor'' e))
            (\<lambda>cursorExists. if \<not> cursorExists then fail (Sentinel msgRepo_ErrInvalidCursor)
                            else read_page roomID cursor limit)
      | None \<Rightarrow> read_page roomID cursor limit)"

definition pgMessage_GetMessageByID :: "uuid \<Rightarrow> ('z message_world_scheme, rMessage) op" where
  "pgMessage_GetMessageByID messageID =
     tryE (message_pool (one_row (sql_select_message messageID)))
       (\<lambda>e. if errors_Is e pgx_ErrNoRows then fail (Sentinel msgRepo_ErrMessageNotFound) else fail e)
       (\<lambda>r. case row_message r of Inl e \<Rightarrow> fail e | Inr msg \<Rightarrow> ret msg)"

definition pgMessage_SoftDeleteMessage :: "uuid \<Rightarrow> ('z message_world_scheme, unit) op" where
  "pgMessage_SoftDeleteMessage messageID =
     tryE (message_pool (sql_soft_delete messageID))
       fail
       (\<lambda>n. if n = 0 then fail (Sentinel msgRepo_ErrMessageNotFound) else ret ())"

definition pgMessageRepository :: "('z message_world_scheme) MessageRepository" where
  "pgMessageRepository =
     \<lparr>mrepo_CreateMessage = pgMessage_CreateMessage,
      mrepo_GetMessagesByRoomID = pgMessage_GetMessagesByRoomID,
      mrepo_GetMessageByID = pgMessage_GetMessageByID,
      mrepo_SoftDeleteMessage = pgMessage_SoftDeleteMessage\<rparr>"

section \<open>The table\<close>

text \<open>Ids are unique, every content is one that \<open>marshalContent\<close> wrote under a type it belongs to,
  and replies refer to rows.\<close>

definition row_ok :: "message_table \<Rightarrow> MessageRow \<Rightarrow> bool" where
  "row_ok db r \<longleftrightarrow>
     (\<exists>c. mr_type r \<in> set (content_types c) \<and> marshalContent (Some c) = Inr (mr_content r)) \<and>
     (\<forall>i. mr_reply_to_id r = Some i \<longrightarrow> i \<in> mr_id ` set db)"

definition messages_ok :: "message_table \<Rightarrow> bool" where
  "messages_ok db \<longleftrightarrow> distinct (List.map mr_id db) \<and> (\<forall>r \<in> set db. row_ok db r)"

definition row_content :: "MessageRow \<Rightarrow> rContent option" where
  "row_content r = (case unmarshalContent (mr_type r) (mr_content r) of Inl _ \<Rightarrow> None | Inr c \<Rightarrow> Some c)"

definition message_of :: "MessageRow \<times> MessageRow option \<Rightarrow> rMessage" where
  "message_of rr = (case rr of (r, rm) \<Rightarrow>
     \<lparr>m_ID = mr_id r, m_RoomID = mr_room_id r, m_SenderID = mr_sender_id r,
      m_Type = mr_type r, m_Content = row_content r, m_ReplyTo = buildReplyPreview rm,
      m_DeletedAt = mr_deleted_at r, m_EditedAt = mr_edited_at r,
      m_CreatedAt = mr_created_at r, m_UpdatedAt = mr_updated_at r\<rparr>)"

lemma message_of_simps [simp]:
  "m_ID (message_of rr) = mr_id (fst rr)" "m_RoomID (message_of rr) = mr_room_id (fst rr)"
  "m_SenderID (message_of rr) = mr_sender_id (fst rr)" "m_Type (message_of rr) = mr_type (fst rr)"
  "m_Content (message_of rr) = row_content (fst rr)" "m_DeletedAt (message_of rr) = mr_deleted_at (fst rr)"
  "m_ReplyTo (message_of rr) = buildReplyPreview (snd rr)" "m_CreatedAt (message_of rr) = mr_created_at (fst rr)"
  by (simp_all add: message_of_def split: prod.splits)

lemma row_by_id_iff: "messages_ok db \<Longrightarrow> row_by_id db i = Some r \<longleftrightarrow> r \<in> set db \<and> mr_id r = i"
  by (simp add: row_by_id_def messages_ok_def find_key_Some_iff)

lemma row_by_id_None: "row_by_id db i = None \<longleftrightarrow> i \<notin> mr_id ` set db"
  unfolding row_by_id_def by (rule find_key_None_iff)

lemma row_content_stored:
  assumes "mr_type r \<in> set (content_types c)" and "marshalContent (Some c) = Inr (mr_content r)"
  shows "row_content r = Some c" and "unmarshalContent (mr_type r) (mr_content r) = Inr c"
  using unmarshal_marshal [OF assms] by (simp_all add: row_content_def)

lemma row_message_ok: "row_ok db r \<Longrightarrow> row_message (r, rm) = Inr (message_of (r, rm))"
  unfolding row_ok_def using row_content_stored
  by (fastforce simp: row_message_def message_of_def row_content_def)

lemma row_messages_ok: "\<forall>rr \<in> set rs. row_ok db (fst rr) \<Longrightarrow> row_messages rs = Inr (List.map message_of rs)"
proof (induction rs)
  case (Cons rr rs)
  then show ?case using row_message_ok [of db "fst rr" "snd rr"] by simp
qed simp

section \<open>Pages\<close>

text \<open>The rows of a room, newest first, strictly descending in \<open>(created_at, id)\<close>.\<close>

lemma room_rows_set: "set (room_rows room db) = {r \<in> set db. live_in room r}"
  by (auto simp: room_rows_def)

lemma room_rows_desc:
  assumes "distinct (List.map mr_id db)"
  shows "sorted_wrt (\<lambda>a b. mkey b < mkey a) (room_rows room db)"
proof -
  let ?xs = "sort_key mkey (filter (live_in room) db)"
  have "distinct (List.map mr_id ?xs)"
    using assms mset_eq_imp_distinct_iff [of "List.map mr_id ?xs" "List.map mr_id (filter (live_in room) db)"]
    by (simp add: distinct_map_filter)
  then have "distinct (List.map mkey ?xs)"
    by (auto simp: distinct_map inj_on_def mkey_def)
  then have "sorted_wrt (<) (List.map mkey ?xs)"
    by (simp add: strict_sorted_iff)
  then show ?thesis unfolding room_rows_def by (simp add: sorted_wrt_rev sorted_wrt_map)
qed

text \<open>In such a list, the rows before the cursor are those after its position.\<close>

lemma filter_before_nth:
  assumes "sorted_wrt (\<lambda>a b. mkey b < mkey a) xs" and "k < length xs"
  shows "filter (\<lambda>r. mkey r < mkey (xs ! k)) xs = drop (Suc k) xs"
proof -
  have "xs = take (Suc k) xs @ drop (Suc k) xs" by simp
  moreover have "filter (\<lambda>r. mkey r < mkey (xs ! k)) (take (Suc k) xs) = []"
  proof -
    have "\<not> mkey (xs ! j) < mkey (xs ! k)" if "j \<le> k" for j
      using sorted_wrt_nth_less [OF assms(1), of j k] that assms(2)
      by (cases "j = k") (auto simp: less_imp_le not_less order.strict_implies_order)
    then show ?thesis using assms(2) by (auto simp: filter_empty_conv in_set_conv_nth)
  qed
  moreover have "filter (\<lambda>r. mkey r < mkey (xs ! k)) (drop (Suc k) xs) = drop (Suc k) xs"
  proof -
    have "mkey (drop (Suc k) xs ! j) < mkey (xs ! k)" if "j < length (drop (Suc k) xs)" for j
      using sorted_wrt_nth_less [OF assms(1), of k "Suc k + j"] that by simp
    then show ?thesis by (auto simp: filter_id_conv in_set_conv_nth)
  qed
  ultimately show ?thesis by (metis append_Nil filter_append)
qed

lemma before_cursor_row:
  assumes "messages_ok db" and "r \<in> set db"
  shows "before_cursor db (Some (mr_id r)) = (\<lambda>x. mkey x < mkey r)"
  using row_by_id_iff [OF assms(1), of "mr_id r" r] assms(2) by (simp add: before_cursor_def fun_eq_iff)

section \<open>What the operations do\<close>

lemma message_world_simps [simp]:
  "message_db (tick w) = message_db w" "message_db (put_message_db db w) = db"
  "room_db (put_message_db db w) = room_db w" "published (put_message_db db w) = published w"
  "calm (put_message_db db w) = calm w" "env (put_message_db db w) = env w"
  unfolding calm_def by (simp_all add: tick_def put_message_db_def)

lemmas wp_message_pool = wp_pool_call [where get = message_db and put = put_message_db, folded message_pool_def]

text \<open>The first \<open>n\<close> of a list of rows, as messages, with the cursor of the next page.\<close>

definition page_result :: "message_table \<Rightarrow> nat \<Rightarrow> MessageRow list \<Rightarrow> rMessage list \<times> uuid option" where
  "page_result db n rs =
     (List.map (message_of \<circ> with_reply db) (take n rs),
      if n < length rs then Some (mr_id (rs ! (n - 1))) else None)"

text \<open>Nothing but the count of calls changes.\<close>

definition only_ticks :: "'z world_scheme \<Rightarrow> 'z world_scheme \<Rightarrow> bool" where
  "only_ticks w w' \<longleftrightarrow> (\<exists>n. w' = w\<lparr>calls := n\<rparr>)"

lemma only_ticks_refl [simp]: "only_ticks w w"
  unfolding only_ticks_def by (rule exI [of _ "calls w"]) simp

lemma only_ticks_tick [simp]: "only_ticks w (tick w') = only_ticks w w'"
  unfolding only_ticks_def tick_def by (cases w; cases w') auto

lemma only_ticksD:
  "only_ticks w w' \<Longrightarrow> calm w' = calm w" "only_ticks w w' \<Longrightarrow> env w' = env w"
  "only_ticks w w' \<Longrightarrow> published w' = published w"
  unfolding only_ticks_def calm_def by auto

lemma only_ticks_dbs:
  "only_ticks w w' \<Longrightarrow> message_db w' = message_db w" "only_ticks w w' \<Longrightarrow> room_db w' = room_db w"
  unfolding only_ticks_def by auto

lemma only_ticks_put [simp]: "only_ticks w w1 \<Longrightarrow> only_ticks w (put_message_db (message_db w) (tick w1))"
  unfolding only_ticks_def put_message_db_def tick_def by (cases w) auto

lemma fst_with_reply [simp]: "fst (with_reply db r) = r"
  by (simp add: with_reply_def)

lemma cut_page_spec:
  assumes "n \<ge> 1" and "only_ticks w w1"
  shows "wp (cut_page (int n) (List.map (message_of \<circ> with_reply db) (take (Suc n) rs)))
    (\<lambda>x w'. only_ticks w w' \<and> x = page_result db n rs) (\<lambda>_ _. False) w1"
proof (cases "n < length rs")
  case True
  with assms show ?thesis
    by (auto simp: cut_page_def wp_simps page_result_def take_map min_def)
next
  case False
  with assms show ?thesis
    by (simp add: cut_page_def wp_simps page_result_def)
qed

lemma read_page_spec:
  assumes ok: "messages_ok (message_db w)" and limit: "limit \<ge> 1" and w1: "only_ticks w w1"
  shows "wp (read_page room cursor limit)
    (\<lambda>x w'. only_ticks w w' \<and> x = page_result (message_db w) (nat limit)
       (filter (before_cursor (message_db w) cursor) (room_rows room (message_db w))))
    (\<lambda>e w'. only_ticks w w' \<and> \<not> calm w \<and> (\<forall>s. \<not> errors_Is e s)) w1"
proof -
  let ?db = "message_db w" and ?rs = "filter (before_cursor (message_db w) cursor) (room_rows room (message_db w))"
  obtain n where n: "limit = int n" "n \<ge> 1" using limit nonneg_int_cases [of limit] by auto
  note same = only_ticks_dbs(1) [OF w1] only_ticksD(1) [OF w1]
  have rows: "row_messages (List.map (with_reply ?db) (take n ?rs)) =
      Inr (List.map (message_of \<circ> with_reply ?db) (take n ?rs))" for n
  proof -
    have "row_ok ?db r" if "r \<in> set (take n ?rs)" for r
      using in_set_takeD [OF that] ok by (auto simp: messages_ok_def room_rows_set)
    then show ?thesis
      using row_messages_ok [of "List.map (with_reply ?db) (take n ?rs)" ?db] by simp
  qed
  show ?thesis
    unfolding read_page_def wp_simps
  proof (rule wp_message_pool, goal_cases)
    case (5 t u a db)
    then have a: "a = List.map (with_reply ?db) (take (Suc n) ?rs)" "db = ?db"
      using n same by (auto simp: sql_select_page_def nat_add_distrib)
    show ?case
      unfolding rows_Scan_def rows_Err_def a rows sum.case wp_simps unfolding n(1)
      by (intro wp_idle_call wp_mono [OF cut_page_spec [OF n(2)]])
        (use w1 same in auto)
  qed (use w1 same limit in \<open>auto simp: sql_select_page_def\<close>)
qed

lemma pgMessage_page:
  assumes ok: "messages_ok (message_db w)" and limit: "limit \<ge> 1"
  shows "wp (pgMessage_GetMessagesByRoomID room cursor limit)
    (\<lambda>x w'. only_ticks w w' \<and> x = page_result (message_db w) (nat limit)
       (filter (before_cursor (message_db w) cursor) (room_rows room (message_db w))) \<and>
       (\<forall>c. cursor = Some c \<longrightarrow> row_by_id (message_db w) c \<noteq> None))
    (\<lambda>e w'. only_ticks w w' \<and> (\<forall>s. errors_Is e s \<longrightarrow> s = msgRepo_ErrInvalidCursor) \<and>
       (calm w \<longrightarrow> e = Sentinel msgRepo_ErrInvalidCursor \<and>
       (\<exists>c. cursor = Some c \<and> row_by_id (message_db w) c = None))) w"
proof (cases cursor)
  case None
  show ?thesis unfolding pgMessage_GetMessagesByRoomID_def None option.case
    by (rule wp_mono [OF read_page_spec [OF ok limit only_ticks_refl]]) auto
next
  case (Some c)
  have put: "only_ticks w (put_message_db (message_db w) (tick w))" by simp
  show ?thesis
    unfolding pgMessage_GetMessagesByRoomID_def Some option.case wp_simps
  proof (rule wp_message_pool, goal_cases)
    case (5 t u a db)
    then have a: "a = (row_by_id (message_db w) c \<noteq> None)" "db = message_db w"
      by (auto simp: sql_message_exists_def)
    show ?case unfolding a
      by (auto simp: wp_simps put intro!: wp_mono [OF read_page_spec [OF ok limit put]])
  qed (auto simp: sql_message_exists_def put)
qed

text \<open>Following the cursors: \<open>crawl\<close> asks for a page, and with its cursor for the next one, until
  there is none.  \<open>None\<close> is an error, or fuel that did not last.\<close>

fun crawl :: "nat \<Rightarrow> uuid \<Rightarrow> int \<Rightarrow> uuid option \<Rightarrow> 'z message_world_scheme \<Rightarrow> rMessage list option" where
  "crawl 0 room limit cursor w = None"
| "crawl (Suc fuel) room limit cursor w =
     (case pgMessage_GetMessagesByRoomID room cursor limit w of
        (Inl e, _) \<Rightarrow> None
      | (Inr (ms, None), _) \<Rightarrow> Some ms
      | (Inr (ms, Some c), w') \<Rightarrow>
          (case crawl fuel room limit (Some c) w' of None \<Rightarrow> None | Some others \<Rightarrow> Some (ms @ others)))"

lemma page_run:
  assumes "messages_ok (message_db w)" "limit \<ge> 1" "calm w"
    and "\<forall>c. cursor = Some c \<longrightarrow> row_by_id (message_db w) c \<noteq> None"
  shows "\<exists>w'. pgMessage_GetMessagesByRoomID room cursor limit w = (Inr (page_result (message_db w) (nat limit)
       (filter (before_cursor (message_db w) cursor) (room_rows room (message_db w)))), w') \<and> only_ticks w w'"
  using wp_run [OF pgMessage_page [OF assms(1,2), where room = room and cursor = cursor]] assms(3,4) by auto

lemma crawl_from:
  assumes "messages_ok (message_db w)" "limit \<ge> 1" "calm w"
    and "\<forall>c. cursor = Some c \<longrightarrow> row_by_id (message_db w) c \<noteq> None"
    and "filter (before_cursor (message_db w) cursor) (room_rows room (message_db w)) = drop k (room_rows room (message_db w))"
    and "length (room_rows room (message_db w)) - k < fuel"
  shows "crawl fuel room limit cursor w =
    Some (List.map (message_of \<circ> with_reply (message_db w)) (drop k (room_rows room (message_db w))))"
  using assms
proof (induction fuel arbitrary: cursor w k)
  case (Suc fuel)
  let ?db = "message_db w" let ?rows = "room_rows room (message_db w)" let ?n = "nat limit"
  obtain w' where run: "pgMessage_GetMessagesByRoomID room cursor limit w =
      (Inr (page_result ?db ?n (drop k ?rows)), w')" and w': "only_ticks w w'"
    using page_run [OF Suc.prems(1-4), of room] Suc.prems(5) by auto
  show ?case
  proof (cases "?n < length (drop k ?rows)")
    case False
    then show ?thesis using run by (simp add: page_result_def)
  next
    case True
    define r where "r = ?rows ! (k + (?n - 1))"
    have n: "?n \<ge> 1" and k: "k + (?n - 1) < length ?rows" using True Suc.prems(2) by auto
    have r: "r \<in> set ?db" "drop k ?rows ! (?n - 1) = r"
      using nth_mem [OF k] room_rows_set [of room ?db] True k unfolding r_def by auto
    have "filter (before_cursor ?db (Some (mr_id r))) ?rows = drop (Suc (k + (?n - 1))) ?rows"
      unfolding before_cursor_row [OF Suc.prems(1) r(1)] unfolding r_def
      using Suc.prems(1) k by (intro filter_before_nth room_rows_desc) (simp_all add: messages_ok_def)
    moreover have "Suc (k + (?n - 1)) = k + ?n" using n by simp
    ultimately have "filter (before_cursor ?db (Some (mr_id r))) ?rows = drop (k + ?n) ?rows" by (simp only:)
    moreover have "row_by_id ?db (mr_id r) \<noteq> None" using r(1) by (auto simp: row_by_id_None)
    ultimately have "crawl fuel room limit (Some (mr_id r)) w' =
        Some (List.map (message_of \<circ> with_reply ?db) (drop (k + ?n) ?rows))"
      using Suc.IH [of w' "Some (mr_id r)" "k + ?n"] Suc.prems True n only_ticks_dbs(1) [OF w'] only_ticksD(1) [OF w']
      by auto
    moreover have "take ?n (drop k ?rows) @ drop (k + ?n) ?rows = drop k ?rows"
      by (metis add.commute append_take_drop_id drop_drop)
    ultimately show ?thesis using run True r(2)
      by (simp add: page_result_def flip: map_append)
  qed
qed simp

section \<open>What the repository promises\<close>

text \<open>The abstract state is the message stored under an id.\<close>

type_synonym message_view = "uuid \<Rightarrow> MessageRow option"

definition seen :: "message_view \<Rightarrow> MessageRow \<Rightarrow> rMessage" where
  "seen v r = message_of (r, Option.bind (mr_reply_to_id r) v)"

definition stored :: "CreateMessageInput \<Rightarrow> message_view \<Rightarrow> rMessage \<Rightarrow> message_view \<Rightarrow> bool" where
  "stored input v m v' \<longleftrightarrow>
     (\<exists>r. v (mr_id r) = None \<and> v' = v(mr_id r := Some r) \<and> mr_room_id r = ci_RoomID input \<and>
        mr_sender_id r = ci_SenderID input \<and> mr_type r = ci_Type input \<and>
        row_content r = ci_Content input \<and> mr_reply_to_id r = ci_ReplyToID input \<and>
        mr_deleted_at r = None \<and> m = message_of (r, None))"

definition soft_deleted :: "uuid \<Rightarrow> message_view \<Rightarrow> message_view \<Rightarrow> bool" where
  "soft_deleted i v v' \<longleftrightarrow>
     (\<exists>r t. v i = Some r \<and> mr_deleted_at r = None \<and>
        v' = v(i := Some (r\<lparr>mr_deleted_at := Some t, mr_updated_at := t\<rparr>)))"

definition older_than :: "message_view \<Rightarrow> uuid option \<Rightarrow> MessageRow \<Rightarrow> bool" where
  "older_than v cursor r =
     (case cursor of
        None \<Rightarrow> True
      | Some c \<Rightarrow> (case v c of None \<Rightarrow> False | Some cr \<Rightarrow> mkey r < mkey cr))"

text \<open>A page: of the messages of the room that are not deleted and older than the cursor, the \<open>n\<close>
  newest, newest first; and a next cursor, the last of them, exactly when some are left.\<close>

definition page_of :: "message_view \<Rightarrow> uuid \<Rightarrow> uuid option \<Rightarrow> nat \<Rightarrow> rMessage list \<times> uuid option \<Rightarrow> bool" where
  "page_of v room cursor n page \<longleftrightarrow>
     (\<exists>rs. sorted_wrt (\<lambda>a b. mkey b < mkey a) rs \<and>
        set rs = {r. v (mr_id r) = Some r \<and> live_in room r \<and> older_than v cursor r} \<and>
        page = (List.map (seen v) (take n rs),
                if n < length rs then Some (mr_id (rs ! (n - 1))) else None))"

text \<open>A content without NUL characters.\<close>

definition storable :: "rContent \<Rightarrow> bool" where
  "storable c = (case marshalContent (Some c) of Inl e \<Rightarrow> False | Inr j \<Rightarrow> json_no_nul j)"

locale message_repository =
  fixes mrepo :: "'w MessageRepository"
    and mview :: "'w \<Rightarrow> message_view"
    and invar :: "'w \<Rightarrow> bool"
    and reliable :: "'w \<Rightarrow> bool"
    and new_ids :: "uuid set"
  assumes CreateMessage: "invar w \<Longrightarrow> ci_Content input = Some c \<Longrightarrow> ci_Type input \<in> set (content_types c) \<Longrightarrow>
      wp (mrepo_CreateMessage mrepo input)
      (\<lambda>m w'. invar w' \<and> reliable w' = reliable w \<and> stored input (mview w) m (mview w'))
      (\<lambda>e w'. invar w' \<and> reliable w' = reliable w \<and>
         (\<forall>s. \<not> errors_Is e s) \<and>
         \<not> (reliable w \<and> storable c \<and> new_ids \<inter> dom (mview w) = {} \<and> (\<forall>i. ci_ReplyToID input = Some i \<longrightarrow> mview w i \<noteq> None)) \<and>
         (mview w' = mview w \<or> (\<exists>m. stored input (mview w) m (mview w')))) w"
    and GetMessageByID: "invar w \<Longrightarrow> wp (mrepo_GetMessageByID mrepo i)
      (\<lambda>m w'. invar w' \<and> reliable w' = reliable w \<and> mview w' = mview w \<and>
         (\<exists>r. mview w i = Some r \<and> mr_id r = i \<and> m = seen (mview w) r))
      (\<lambda>e w'. invar w' \<and> reliable w' = reliable w \<and> mview w' = mview w \<and>
         (\<forall>s. errors_Is e s \<longrightarrow> s = msgRepo_ErrMessageNotFound \<and> mview w i = None) \<and>
         (reliable w \<longrightarrow> errors_Is e msgRepo_ErrMessageNotFound)) w"
    and SoftDeleteMessage: "invar w \<Longrightarrow> wp (mrepo_SoftDeleteMessage mrepo i)
      (\<lambda>_ w'. invar w' \<and> reliable w' = reliable w \<and> soft_deleted i (mview w) (mview w'))
      (\<lambda>e w'. invar w' \<and> reliable w' = reliable w \<and>
         (\<forall>s. errors_Is e s \<longrightarrow> s = msgRepo_ErrMessageNotFound \<and> mview w' = mview w) \<and>
         (mview w' = mview w \<or> soft_deleted i (mview w) (mview w')) \<and>
         (reliable w \<longrightarrow> e = Sentinel msgRepo_ErrMessageNotFound \<and> mview w' = mview w \<and>
            (\<forall>r. mview w i = Some r \<longrightarrow> mr_deleted_at r \<noteq> None))) w"
    and GetMessagesByRoomID: "invar w \<Longrightarrow> limit \<ge> 1 \<Longrightarrow>
      wp (mrepo_GetMessagesByRoomID mrepo room cursor limit)
      (\<lambda>page w'. invar w' \<and> reliable w' = reliable w \<and> mview w' = mview w \<and>
         page_of (mview w) room cursor (nat limit) page \<and> (\<forall>c. cursor = Some c \<longrightarrow> mview w c \<noteq> None))
      (\<lambda>e w'. invar w' \<and> reliable w' = reliable w \<and> mview w' = mview w \<and>
         (\<forall>s. errors_Is e s \<longrightarrow> s = msgRepo_ErrInvalidCursor) \<and>
         (reliable w \<longrightarrow> e = Sentinel msgRepo_ErrInvalidCursor \<and>
            (\<exists>c. cursor = Some c \<and> mview w c = None))) w"

section \<open>Postgres keeps the promises\<close>

definition pg_messages :: "'z message_world_scheme \<Rightarrow> message_view" where
  "pg_messages w = row_by_id (message_db w)"

definition pg_messages_ok :: "'z message_world_scheme \<Rightarrow> bool" where
  "pg_messages_ok w = messages_ok (message_db w)"

lemma content_types_known: "ty \<in> set (content_types c) \<Longrightarrow> ty \<in> set message_types"
  by (cases c) (auto simp: content_types_def message_types_def message_type_defs)

lemma insert_message_effect:
  assumes ok: "messages_ok db" and ty: "ty \<in> set (content_types c)" and j: "marshalContent (Some c) = Inr j"
    and ins: "sql_insert_message room sender ty j reply t u db = Inr ((i, t1, t2), db')"
  obtains r where "db' = db @ [r]" "mr_id r = i" "t1 = mr_created_at r" "t2 = mr_updated_at r"
    "row_by_id db i = None" "row_by_id db' = (row_by_id db)(i := Some r)" "messages_ok db'"
    "mr_room_id r = room" "mr_sender_id r = sender" "mr_type r = ty" "mr_reply_to_id r = reply"
    "mr_deleted_at r = None" "mr_edited_at r = None" "row_content r = Some c"
proof -
  define r where "r = \<lparr>mr_id = u, mr_room_id = room, mr_sender_id = sender, mr_type = ty, mr_content = j,
          mr_reply_to_id = reply, mr_deleted_at = None, mr_edited_at = None, mr_created_at = t,
          mr_updated_at = t\<rparr>"
  from ins have i: "u \<notin> mr_id ` set db" "i = u" "t1 = t" "t2 = t" "db' = db @ [r]"
      "\<forall>k. reply = Some k \<longrightarrow> k \<in> insert u (mr_id ` set db)"
    by (auto simp: sql_insert_message_def r_def split: if_splits option.splits)
  have "row_by_id db' = (row_by_id db)(i := Some r)"
    using i find_snoc_fresh [of mr_id r db] by (auto simp: row_by_id_def r_def fun_eq_iff)
  moreover have "messages_ok db'"
    using ok i ty j by (fastforce simp: messages_ok_def row_ok_def r_def)
  moreover have "row_content r = Some c"
    by (rule row_content_stored) (use ty j in \<open>simp_all add: r_def\<close>)
  ultimately show thesis
    using that [of r] i by (simp add: r_def row_by_id_None)
qed

lemma insert_message_error: "sql_insert_message room sender ty j reply t u db = Inl e \<Longrightarrow> \<not> errors_Is e s"
  by (auto simp: sql_insert_message_def split: if_splits option.splits)

text \<open>An insert that works is refused only for a bad type, an id that is taken, or a reply to nothing.\<close>

lemma insert_message_works:
  assumes "sql_insert_message room sender ty j reply t u db = Inl e" and "ty \<in> set message_types"
    and "json_no_nul j" and "row_by_id db u = None" and "\<forall>i. reply = Some i \<longrightarrow> row_by_id db i \<noteq> None"
  shows False
  using assms by (auto simp: sql_insert_message_def row_by_id_None split: if_splits option.splits)

lemma pg_CreateMessage:
  assumes ok: "pg_messages_ok w" and c: "ci_Content input = Some c" "ci_Type input \<in> set (content_types c)"
  shows "wp (pgMessage_CreateMessage input)
      (\<lambda>m w'. pg_messages_ok w' \<and> calm w' = calm w \<and> env w' = env w \<and> stored input (pg_messages w) m (pg_messages w'))
      (\<lambda>e w'. pg_messages_ok w' \<and> calm w' = calm w \<and> env w' = env w \<and>
         (\<forall>s. \<not> errors_Is e s) \<and>
         \<not> (calm w \<and> storable c \<and> range (uuid_at (env w)) \<inter> dom (pg_messages w) = {} \<and>
            (\<forall>i. ci_ReplyToID input = Some i \<longrightarrow> pg_messages w i \<noteq> None)) \<and>
         (pg_messages w' = pg_messages w \<or> (\<exists>m. stored input (pg_messages w) m (pg_messages w')))) w"
proof -
  obtain j where j: "marshalContent (Some c) = Inr j" using marshal_total by blast
  have eff: "messages_ok db \<and> stored input (pg_messages w)
        \<lparr>m_ID = i, m_RoomID = ci_RoomID input, m_SenderID = ci_SenderID input,
         m_Type = ci_Type input, m_Content = ci_Content input, m_ReplyTo = None,
         m_DeletedAt = None, m_EditedAt = None, m_CreatedAt = t1, m_UpdatedAt = t2\<rparr> (row_by_id db)"
    if "sql_insert_message (ci_RoomID input) (ci_SenderID input) (ci_Type input) j (ci_ReplyToID input)
          t u (message_db w) = Inr ((i, t1, t2), db)" for t u i t1 t2 db
  proof -
    from insert_message_effect [OF ok [unfolded pg_messages_ok_def] c(2) j that] obtain r where
      "mr_id r = i" "t1 = mr_created_at r" "t2 = mr_updated_at r"
      "row_by_id (message_db w) i = None" "row_by_id db = (row_by_id (message_db w))(i := Some r)" "messages_ok db"
      "mr_room_id r = ci_RoomID input" "mr_sender_id r = ci_SenderID input" "mr_type r = ci_Type input"
      "mr_reply_to_id r = ci_ReplyToID input" "mr_deleted_at r = None" "mr_edited_at r = None"
      "row_content r = Some c" by metis
    then show ?thesis using c(1)
      by (auto simp: stored_def pg_messages_def message_of_def buildReplyPreview_def intro!: exI [of _ r])
  qed
  have works: "\<exists>i. ci_ReplyToID input = Some i \<and> row_by_id (message_db w) i = None"
    if st: "storable c" and ins: "sql_insert_message (ci_RoomID input) (ci_SenderID input) (ci_Type input) j (ci_ReplyToID input)
          t (uuid_in w) (message_db w) = Inl e"
      and fresh: "range (uuid_at (env w)) \<inter> dom (row_by_id (message_db w)) = {}" for t e
  proof -
    have "row_by_id (message_db w) (uuid_in w) = None" using fresh by (auto simp: uuid_in_def)
    moreover have "json_no_nul j" using st j by (simp add: storable_def)
    ultimately show ?thesis using insert_message_works [OF ins content_types_known [OF c(2)]] by metis
  qed
  show ?thesis
    unfolding pgMessage_CreateMessage_def c(1) j sum.case wp_simps
    by (rule wp_message_pool; (clarify dest!: eff)?)
      (use ok c(1) in \<open>auto simp: wp_simps pg_messages_ok_def pg_messages_def dest: insert_message_error intro: works\<close>)
qed

lemma pg_GetMessageByID:
  assumes ok: "pg_messages_ok w"
  shows "wp (pgMessage_GetMessageByID i)
      (\<lambda>m w'. pg_messages_ok w' \<and> calm w' = calm w \<and> env w' = env w \<and> pg_messages w' = pg_messages w \<and>
         (\<exists>r. pg_messages w i = Some r \<and> mr_id r = i \<and> m = seen (pg_messages w) r))
      (\<lambda>e w'. pg_messages_ok w' \<and> calm w' = calm w \<and> env w' = env w \<and> pg_messages w' = pg_messages w \<and>
         (\<forall>s. errors_Is e s \<longrightarrow> s = msgRepo_ErrMessageNotFound \<and> pg_messages w i = None) \<and>
         (calm w \<longrightarrow> errors_Is e msgRepo_ErrMessageNotFound)) w"
proof -
  have found: "row_message (with_reply (message_db w) r) = Inr (seen (pg_messages w) r) \<and> mr_id r = i"
    if "row_by_id (message_db w) i = Some r" for r
  proof -
    have "r \<in> set (message_db w)" "mr_id r = i"
      using ok that row_by_id_iff [of "message_db w" i r] by (auto simp: pg_messages_ok_def)
    moreover from this(1) have "row_ok (message_db w) r" using ok by (simp add: pg_messages_ok_def messages_ok_def)
    ultimately show ?thesis using row_message_ok by (simp add: with_reply_def seen_def pg_messages_def)
  qed
  show ?thesis
    unfolding pgMessage_GetMessageByID_def wp_simps
    by (rule wp_message_pool) (use ok found in \<open>auto simp: one_row_def sql_select_message_def
        pg_messages_ok_def pg_messages_def wp_simps split: option.splits\<close>)
qed

lemma soft_delete_effect:
  assumes ok: "messages_ok db" and del: "sql_soft_delete i t u db = Inr (n, db')"
  shows "messages_ok db'"
    and "n = 0 \<Longrightarrow> db' = db \<and> (\<forall>r. row_by_id db i = Some r \<longrightarrow> mr_deleted_at r \<noteq> None)"
    and "n \<noteq> 0 \<Longrightarrow> soft_deleted i (row_by_id db) (row_by_id db')"
proof -
  define f :: "MessageRow \<Rightarrow> MessageRow" where "f = (\<lambda>r. if mr_id r = i \<and> mr_deleted_at r = None
                     then r\<lparr>mr_deleted_at := Some t, mr_updated_at := t\<rparr> else r)"
  have d: "db' = List.map f db" "n = length (filter (\<lambda>r. mr_id r = i \<and> mr_deleted_at r = None) db)"
    using del by (auto simp: sql_soft_delete_def f_def)
  have f: "mr_id (f r) = mr_id r" "mr_type (f r) = mr_type r" "mr_content (f r) = mr_content r"
    "mr_reply_to_id (f r) = mr_reply_to_id r" for r by (simp_all add: f_def)
  have "List.map mr_id db' = List.map mr_id db" by (simp add: d(1) f)
  moreover from this have "mr_id ` set db' = mr_id ` set db" by (metis set_map)
  ultimately show "messages_ok db'"
    using ok unfolding messages_ok_def row_ok_def by (auto simp: d(1) f simp del: map_map)
  have find: "row_by_id db' k = map_option f (row_by_id db k)" for k
    unfolding row_by_id_def d(1) by (rule find_map_pred) (simp add: f)
  show "n = 0 \<Longrightarrow> db' = db \<and> (\<forall>r. row_by_id db i = Some r \<longrightarrow> mr_deleted_at r \<noteq> None)"
    using row_by_id_iff [OF ok, of i]
    by (auto simp: d f_def filter_empty_conv intro!: map_idI)
  show "n \<noteq> 0 \<Longrightarrow> soft_deleted i (row_by_id db) (row_by_id db')"
  proof -
    assume "n \<noteq> 0"
    then obtain r where r: "row_by_id db i = Some r" "mr_deleted_at r = None"
      using row_by_id_iff [OF ok] by (auto simp: d filter_empty_conv)
    have "row_by_id db' = (row_by_id db)(i := Some (f r))"
    proof
      fix k
      show "row_by_id db' k = ((row_by_id db)(i := Some (f r))) k"
      proof (cases "k = i")
        case True
        then show ?thesis using r(1) by (simp add: find)
      next
        case False
        have "f x = x" if "row_by_id db k = Some x" for x
        proof -
          have "mr_id x = k" using that row_by_id_iff [OF ok] by blast
          with False show ?thesis unfolding f_def by simp
        qed
        then have "map_option f (row_by_id db k) = row_by_id db k" by (cases "row_by_id db k") simp_all
        with False show ?thesis by (simp add: find)
      qed
    qed
    moreover have "f r = r\<lparr>mr_deleted_at := Some t, mr_updated_at := t\<rparr>"
    proof -
      have "mr_id r = i" using r(1) row_by_id_iff [OF ok] by blast
      with r(2) show ?thesis unfolding f_def by simp
    qed
    ultimately have "row_by_id db' = (row_by_id db)(i := Some (r\<lparr>mr_deleted_at := Some t, mr_updated_at := t\<rparr>))"
      by presburger
    with r show ?thesis unfolding soft_deleted_def by blast
  qed
qed

lemma pg_SoftDeleteMessage:
  assumes ok: "pg_messages_ok w"
  shows "wp (pgMessage_SoftDeleteMessage i)
      (\<lambda>_ w'. pg_messages_ok w' \<and> calm w' = calm w \<and> env w' = env w \<and> soft_deleted i (pg_messages w) (pg_messages w'))
      (\<lambda>e w'. pg_messages_ok w' \<and> calm w' = calm w \<and> env w' = env w \<and>
         (\<forall>s. errors_Is e s \<longrightarrow> s = msgRepo_ErrMessageNotFound \<and> pg_messages w' = pg_messages w) \<and>
         (pg_messages w' = pg_messages w \<or> soft_deleted i (pg_messages w) (pg_messages w')) \<and>
         (calm w \<longrightarrow> e = Sentinel msgRepo_ErrMessageNotFound \<and> pg_messages w' = pg_messages w \<and>
            (\<forall>r. pg_messages w i = Some r \<longrightarrow> mr_deleted_at r \<noteq> None))) w"
proof -
  have eff: "messages_ok db \<and> (if n = 0 then db = message_db w \<and> (\<forall>r. pg_messages w i = Some r \<longrightarrow> mr_deleted_at r \<noteq> None)
      else soft_deleted i (pg_messages w) (row_by_id db))"
    if "sql_soft_delete i t u (message_db w) = Inr (n, db)" for t u n db
    using soft_delete_effect [OF ok [unfolded pg_messages_ok_def] that] by (simp add: pg_messages_def)
  show ?thesis
    unfolding pgMessage_SoftDeleteMessage_def wp_simps
    by (rule wp_message_pool; (drule eff)?)
      (use ok in \<open>auto simp: wp_simps pg_messages_ok_def pg_messages_def sql_soft_delete_def split: if_splits\<close>)
qed

lemma pg_GetMessagesByRoomID:
  assumes ok: "pg_messages_ok w" and limit: "limit \<ge> 1"
  shows "wp (pgMessage_GetMessagesByRoomID room cursor limit)
      (\<lambda>page w'. pg_messages_ok w' \<and> calm w' = calm w \<and> env w' = env w \<and> pg_messages w' = pg_messages w \<and>
         page_of (pg_messages w) room cursor (nat limit) page \<and>
         (\<forall>c. cursor = Some c \<longrightarrow> pg_messages w c \<noteq> None))
      (\<lambda>e w'. pg_messages_ok w' \<and> calm w' = calm w \<and> env w' = env w \<and> pg_messages w' = pg_messages w \<and>
         (\<forall>s. errors_Is e s \<longrightarrow> s = msgRepo_ErrInvalidCursor) \<and>
         (calm w \<longrightarrow> e = Sentinel msgRepo_ErrInvalidCursor \<and>
            (\<exists>c. cursor = Some c \<and> pg_messages w c = None))) w"
proof -
  let ?db = "message_db w"
  have db: "messages_ok ?db" using ok by (simp add: pg_messages_ok_def)
  let ?rs = "filter (before_cursor ?db cursor) (room_rows room ?db)"
  have "sorted_wrt (\<lambda>a b. mkey b < mkey a) ?rs"
    using room_rows_desc [of ?db room] db by (simp add: messages_ok_def sorted_wrt_filter)
  moreover have "before_cursor ?db cursor = older_than (pg_messages w) cursor"
    by (simp add: before_cursor_def older_than_def pg_messages_def fun_eq_iff)
  moreover have "set ?rs = {r. pg_messages w (mr_id r) = Some r \<and> live_in room r \<and> before_cursor ?db cursor r}"
    using row_by_id_iff [OF db] by (auto simp: room_rows_set pg_messages_def)
  ultimately have "page_of (pg_messages w) room cursor (nat limit) (page_result ?db (nat limit) ?rs)"
    unfolding page_of_def
    by (intro exI [of _ ?rs])
      (auto simp: page_result_def seen_def with_reply_def pg_messages_def)
  then show ?thesis
    by (intro wp_mono [OF pgMessage_page [OF db limit]])
      (use ok in \<open>auto simp: pg_messages_ok_def pg_messages_def dest: only_ticksD only_ticks_dbs\<close>)
qed

text \<open>Calls are reliable in a calm world whose environment is \<open>E\<close>.\<close>

definition calm_in :: "environment \<Rightarrow> 'z world_scheme \<Rightarrow> bool" where
  "calm_in E w \<longleftrightarrow> calm w \<and> env w = E"

interpretation pgm: message_repository pgMessageRepository pg_messages pg_messages_ok "calm_in E" "range (uuid_at E)"
  for E
proof (unfold_locales, unfold pgMessageRepository_def MessageRepository.select_convs, goal_cases)
  case (1 w input c)
  show ?case by (rule wp_mono [OF pg_CreateMessage [OF 1]]) (auto simp: calm_in_def)
next
  case (2 w i)
  show ?case by (rule wp_mono [OF pg_GetMessageByID [OF 2]]) (auto simp: calm_in_def)
next
  case (3 w i)
  show ?case by (rule wp_mono [OF pg_SoftDeleteMessage [OF 3]]) (auto simp: calm_in_def)
next
  case (4 w limit room cursor)
  show ?case by (rule wp_mono [OF pg_GetMessagesByRoomID [OF 4]]) (auto simp: calm_in_def)
qed

end
