(* ===== verification/RoomClient.thy ===== *)
theory RoomClient
  imports MessageRepo
begin

text \<open>
  \<open>services/message/internal/client/room.go\<close>: the message service asks the room service for
  memberships over gRPC, with retries.

  \<open>withRetry\<close> is the loop of the code over the configured delays.  A sleep between attempts takes
  one step of the environment, so the context may be cancelled during it.  \<open>room_client\<close> is what
  the message service relies on: an answer is the truth about the rooms, asking changes nothing,
  and when nothing fails an answer comes.  It is interpreted on the client over the handler, the
  service and the tables of the room service.
\<close>

section \<open>The client\<close>

record 'w RoomClient =
  rc_IsMember :: "uuid \<Rightarrow> uuid \<Rightarrow> ('w, bool) op"
  rc_GetRoomMembers :: "uuid \<Rightarrow> ('w, uuid list) op"

definition retryable :: "grpc_lib \<Rightarrow> error \<Rightarrow> bool" where
  "retryable L e = (case status_FromError L e of
      None \<Rightarrow> False | Some c \<Rightarrow> c = Unavailable \<or> c = DeadlineExceeded)"

text \<open>The loop over the delays left; \<open>last\<close> is the error so far.\<close>

fun retry_loop :: "grpc_lib \<Rightarrow> time list \<Rightarrow> ('z world_scheme, 'a) op \<Rightarrow> error \<Rightarrow> ('z world_scheme, 'a) op" where
  "retry_loop L [] fn lasterr w = (Inl lasterr, w)"
| "retry_loop L (delay # delays) fn lasterr w =
     (if ctx_done w then (Inl (Sentinel ctx_Err), w)
      else case fn w of
        (Inr x, w') \<Rightarrow> (Inr x, w')
      | (Inl e, w') \<Rightarrow>
          if \<not> retryable L e then (Inl e, w')
          else if delays \<noteq> []
          then (if ctx_done w' then (Inl (Sentinel ctx_Err), w')
                else retry_loop L delays fn e (tick w'))
          else (Inl e, w'))"

definition withRetry :: "grpc_lib \<Rightarrow> time list \<Rightarrow> ('z world_scheme, 'a) op \<Rightarrow> ('z world_scheme, 'a) op" where
  "withRetry L delays fn = (if delays = [] then fn else retry_loop L delays fn (Errorf []))"

fun parse_user_ids :: "uuid_lib \<Rightarrow> string list \<Rightarrow> error + uuid list" where
  "parse_user_ids U [] = Inr []"
| "parse_user_ids U (s # ss) =
     (case uuid_Parse U s of
        None \<Rightarrow> Inl (Errorf ''parse user ID'')
      | Some u \<Rightarrow> (case parse_user_ids U ss of Inl e \<Rightarrow> Inl e | Inr us \<Rightarrow> Inr (u # us)))"

definition roomClient_IsMember ::
    "grpc_lib \<Rightarrow> uuid_lib \<Rightarrow> time list \<Rightarrow> ('z world_scheme) roomHandler \<Rightarrow> uuid \<Rightarrow> uuid \<Rightarrow> ('z world_scheme, bool) op" where
  "roomClient_IsMember L U retryDelays client roomID userID =
     withRetry L retryDelays
       (tryE (grpc_call L (roomHandler_IsMember client (uuid_String U roomID) (uuid_String U userID))) fail ret)"

definition roomClient_GetRoomMembers ::
    "grpc_lib \<Rightarrow> uuid_lib \<Rightarrow> time list \<Rightarrow> ('z world_scheme) roomHandler \<Rightarrow> uuid \<Rightarrow> ('z world_scheme, uuid list) op" where
  "roomClient_GetRoomMembers L U retryDelays client roomID =
     withRetry L retryDelays
       (tryE (grpc_call L (roomHandler_GetRoomMembers client (uuid_String U roomID)))
          fail
          (\<lambda>userIds. case parse_user_ids U userIds of Inl e \<Rightarrow> fail e | Inr ids \<Rightarrow> ret ids))"

definition NewRoomClient ::
    "grpc_lib \<Rightarrow> uuid_lib \<Rightarrow> time list \<Rightarrow> ('z world_scheme) roomHandler \<Rightarrow> ('z world_scheme) RoomClient" where
  "NewRoomClient L U retryDelays client =
     \<lparr>rc_IsMember = roomClient_IsMember L U retryDelays client,
      rc_GetRoomMembers = roomClient_GetRoomMembers L U retryDelays client\<rparr>"

section \<open>Retrying\<close>

text \<open>A call with a contract that holds again after each failed attempt has it under retries; the
  only error retrying adds is that of the context.\<close>

lemma wp_retry_loop:
  assumes step: "\<And>w. I w \<Longrightarrow> wp fn Q (\<lambda>e w'. I w' \<and> E e w') w"
    and tick: "\<And>w. I w \<Longrightarrow> I (tick w)"
    and ctx: "\<And>w. I w \<Longrightarrow> ctx_done w \<Longrightarrow> E (Sentinel ctx_Err) w"
    and I: "I w" and ds: "delays \<noteq> []"
  shows "wp (retry_loop L delays fn e0) Q (\<lambda>e w'. I w' \<and> E e w') w"
  using I ds
proof (induction delays arbitrary: w e0)
  case (Cons d ds)
  show ?case
  proof (cases "ctx_done w")
    case True
    then show ?thesis using ctx [OF Cons.prems(1)] Cons.prems(1) by (simp add: wp_def)
  next
    case False
    note run = wp_run [OF step [OF Cons.prems(1)]]
    then consider x w' where "fn w = (Inr x, w')" "Q x w'"
      | e w' where "fn w = (Inl e, w')" "I w'" "E e w'" by blast
    then show ?thesis
    proof cases
      case 1
      then show ?thesis using False by (simp add: wp_def)
    next
      case 2
      show ?thesis
      proof (cases "retryable L e \<and> ds \<noteq> [] \<and> \<not> ctx_done w'")
        case True
        then have "retry_loop L (d # ds) fn e0 w = retry_loop L ds fn e (tick w')"
          using 2(1) False by simp
        with Cons.IH [OF tick [OF 2(2)], of e] True show ?thesis by (simp add: wp_def)
      next
        case stop: False
        then show ?thesis using 2 False ctx [OF 2(2)] by (auto simp: wp_def)
      qed
    qed
  qed
qed simp

lemma wp_withRetry:
  assumes "\<And>w. I w \<Longrightarrow> wp fn Q (\<lambda>e w'. I w' \<and> E e w') w"
    and "\<And>w. I w \<Longrightarrow> I (tick w)"
    and "\<And>w. I w \<Longrightarrow> ctx_done w \<Longrightarrow> E (Sentinel ctx_Err) w"
    and "I w"
  shows "wp (withRetry L delays fn) Q (\<lambda>e w'. I w' \<and> E e w') w"
  unfolding withRetry_def using assms(1) [OF assms(4)]
    wp_retry_loop [where I = I and E = E, OF assms] by simp

text \<open>There are at most as many attempts as delays, so retrying ends and costs a bounded number of
  calls; with \<open>k\<close> calls per attempt, \<open>k + 1\<close> per delay.\<close>

lemma retry_loop_bound:
  assumes "\<And>w. calls (snd (fn w)) \<le> calls w + k"
  shows "calls (snd (retry_loop L delays fn e w)) \<le> calls w + length delays * (k + 1)"
proof (induction delays arbitrary: e w)
  case (Cons d ds)
  show ?case
  proof (cases "fn w")
    case (Pair r w')
    then have b: "calls w' \<le> calls w + k" using assms [of w] by simp
    show ?thesis
    proof (cases r)
      case (Inl e')
      have "calls (snd (retry_loop L ds fn e' (tick w'))) \<le> Suc (calls w') + length ds * (k + 1)"
        using Cons.IH [of e' "tick w'"] by simp
      then show ?thesis using b Pair Inl by simp
    qed (use b Pair in simp)
  qed
qed simp

lemma wp_calm_loop: "calm w \<Longrightarrow> fn w = (Inr x, w') \<Longrightarrow> withRetry L delays fn w = (Inr x, w')"
  by (cases delays) (auto simp: withRetry_def ctx_done_def)

lemma parse_user_ids_strings: "uuid_lib_ok U \<Longrightarrow> parse_user_ids U (List.map (uuid_String U) us) = Inr us"
  by (induction us) (simp_all add: uuid_lib_ok_def)

section \<open>What the message service relies on\<close>

locale room_client =
  fixes cl :: "'w RoomClient"
    and rview :: "'w \<Rightarrow> room_view"
    and invar :: "'w \<Rightarrow> bool"
    and reliable :: "'w \<Rightarrow> bool"
  assumes IsMember: "invar w \<Longrightarrow> wp (rc_IsMember cl rid uid)
      (\<lambda>b w'. invar w' \<and> rview w' = rview w \<and> reliable w' = reliable w \<and>
         b = (v_roles (rview w) rid uid \<noteq> None))
      (\<lambda>e w'. invar w' \<and> rview w' = rview w \<and> reliable w' = reliable w \<and> \<not> reliable w \<and>
         (\<forall>s. errors_Is e s \<longrightarrow> s = ctx_Err)) w"
    and GetRoomMembers: "invar w \<Longrightarrow> wp (rc_GetRoomMembers cl rid)
      (\<lambda>ids w'. invar w' \<and> rview w' = rview w \<and> reliable w' = reliable w \<and>
         v_rooms (rview w) rid \<noteq> None \<and> members_of (rview w) rid ids)
      (\<lambda>e w'. invar w' \<and> rview w' = rview w \<and> reliable w' = reliable w \<and>
         (reliable w \<longrightarrow> v_rooms (rview w) rid = None)) w"

section \<open>The client over the room service\<close>

text \<open>The state relation of a call that only reads the rooms.\<close>

definition rooms_same :: "'z message_world_scheme \<Rightarrow> 'z message_world_scheme \<Rightarrow> bool" where
  "rooms_same w w' \<longleftrightarrow> pg_ok w' \<and> pg_view w' = pg_view w \<and> calm w' = calm w \<and> env w' = env w \<and>
     published w' = published w \<and> message_db w' = message_db w"

lemma rooms_same_tick [simp]: "rooms_same w (tick w') = rooms_same w w'"
  by (simp add: rooms_same_def pg_ok_def pg_view_def)

lemma rooms_same_refl: "pg_ok w \<Longrightarrow> rooms_same w w"
  by (simp add: rooms_same_def)

lemma rooms_same_calm: "rooms_same w w' \<Longrightarrow> calm w' = calm w"
  by (simp add: rooms_same_def)

lemma rooms_same_ctx: "rooms_same w w' \<Longrightarrow> ctx_done w' \<Longrightarrow> \<not> calm w"
  unfolding rooms_same_def ctx_done_def calm_def by metis

lemma message_db_room_pool [kept_intros]:
  "kept (\<lambda>w. message_db w = d \<and> env w = E) (room_pool s :: ('z message_world_scheme, 'a) op)"
proof -
  have "kept (\<lambda>w. message_db w = d \<and> env w = E) (ext_call (run_stmt room_db put_room_db t u s) :: ('z message_world_scheme, 'a) op)" for t u
    by (rule kept_ext_call) (auto simp: kept_def run_stmt_def put_room_db_def split: sum.splits)
  then show ?thesis unfolding kept_def room_pool_def pool_call_def by blast
qed

lemma message_db_rows [kept_intros]:
  "kept (\<lambda>w. message_db w = d \<and> env w = E) (rows_Err :: ('z message_world_scheme, unit) op)"
  "kept (\<lambda>w. message_db w = d \<and> env w = E) (rows_Scan :: ('z message_world_scheme, unit) op)"
  unfolding rows_Err_def rows_Scan_def by (rule kept_ext_call; simp add: kept_def)+

lemma handler_IsMember:
  fixes w :: "'z message_world_scheme"
  assumes "uuid_lib_ok U" and "pg_ok w"
  shows "wp (roomHandler_IsMember (room_handler U txt) (uuid_String U rid) (uuid_String U uid))
    (\<lambda>b w'. rooms_same w w' \<and> b = (v_roles (pg_view w) rid uid \<noteq> None))
    (\<lambda>e w'. rooms_same w w' \<and> \<not> calm w) w"
proof -
  have "kept (\<lambda>w. message_db w = d \<and> env w = E) (roomService_IsMember \<lparr>roomRepo = pgRoomRepository,
      publisher = natsRoomPublisher U\<rparr> rid uid :: ('z message_world_scheme, bool) op)" for d E
    unfolding roomService_IsMember_def roomService.select_convs pgRoomRepository_def
      RoomRepository.select_convs pgRoom_IsMember_def by (intro kept_intros)
  note q = wp_kept [OF this pgb.queries_spec(2) [OF assms(2), of U rid uid] conjI [OF refl refl]]
  have ids: "uuid_String U u \<noteq> []" "uuid_Parse U (uuid_String U u) = Some u" for u
    using assms(1) by (simp_all add: uuid_lib_ok_def)
  show ?thesis
    unfolding roomHandler_IsMember_def room_handler_def room_service_def NewRoomService_def Let_def
    by (simp add: validate_def min_len_violations_def parse_id_def ids wp_simps)
      (rule wp_mono [OF q]; auto simp: rooms_same_def wp_simps)
qed

lemma handler_GetRoomMembers:
  fixes w :: "'z message_world_scheme"
  assumes "uuid_lib_ok U" and "pg_ok w"
  shows "wp (roomHandler_GetRoomMembers (room_handler U txt) (uuid_String U rid))
    (\<lambda>ss w'. rooms_same w w' \<and> v_rooms (pg_view w) rid \<noteq> None \<and>
       (\<exists>ids. ss = List.map (uuid_String U) ids \<and> members_of (pg_view w) rid ids))
    (\<lambda>e w'. rooms_same w w' \<and> (calm w \<longrightarrow> v_rooms (pg_view w) rid = None)) w"
proof -
  have "kept (\<lambda>w. message_db w = d \<and> env w = E) (roomService_GetRoomMembers \<lparr>roomRepo = pgRoomRepository,
      publisher = natsRoomPublisher U\<rparr> rid :: ('z message_world_scheme, sRoomMember list) op)" for d E
    unfolding roomService_GetRoomMembers_def roomService.select_convs pgRoomRepository_def
      RoomRepository.select_convs pgRoom_GetRoomMembers_def pgRoom_GetRoomByID_def by (intro kept_intros)
  note q = wp_kept [OF this pgb.queries_spec(3) [OF assms(2), of U rid] conjI [OF refl refl]]
  have ids: "uuid_String U u \<noteq> []" "uuid_Parse U (uuid_String U u) = Some u" for u
    using assms(1) by (simp_all add: uuid_lib_ok_def)
  show ?thesis
    unfolding roomHandler_GetRoomMembers_def room_handler_def room_service_def NewRoomService_def Let_def
    by (simp add: validate_def min_len_violations_def parse_id_def ids wp_simps)
      (rule wp_mono [OF q]; force simp: rooms_same_def wp_simps split: if_splits)
qed

text \<open>The invariant of the client carries the standing facts about the libraries.\<close>

definition client_ok :: "uuid_lib \<Rightarrow> 'z message_world_scheme \<Rightarrow> bool" where
  "client_ok U w \<longleftrightarrow> pg_ok w \<and> uuid_lib_ok U"

lemma client_IsMember:
  fixes w :: "'z message_world_scheme"
  assumes "client_ok U w"
  shows "wp (roomClient_IsMember L U delays (room_handler U txt) rid uid)
    (\<lambda>b w'. rooms_same w w' \<and> b = (v_roles (pg_view w) rid uid \<noteq> None))
    (\<lambda>e w'. rooms_same w w' \<and> \<not> calm w \<and> (\<forall>s. errors_Is e s \<longrightarrow> s = ctx_Err)) w"
  unfolding roomClient_IsMember_def
proof (rule wp_withRetry [where I = "rooms_same w"])
  fix w1 assume "rooms_same w w1"
  then have w1: "pg_ok (tick w1)" "pg_view (tick w1) = pg_view w" "calm w1 = calm w"
      "\<And>w'. rooms_same (tick w1) w' = rooms_same w w'" "rooms_same w w1"
    by (auto simp: rooms_same_def pg_ok_def pg_view_def)
  show "wp (tryE (grpc_call L (roomHandler_IsMember (room_handler U txt) (uuid_String U rid) (uuid_String U uid))) fail ret)
    (\<lambda>b w'. rooms_same w w' \<and> b = (v_roles (pg_view w) rid uid \<noteq> None))
    (\<lambda>e w'. rooms_same w w' \<and> \<not> calm w \<and> (\<forall>s. errors_Is e s \<longrightarrow> s = ctx_Err)) w1"
    unfolding wp_simps
    by (rule wp_grpc_call, rule wp_mono [OF handler_IsMember [OF _ w1(1)]])
      (use w1 assms in \<open>auto simp: client_ok_def rpc_status_def\<close>)
qed (use assms rooms_same_ctx in \<open>auto simp: client_ok_def rooms_same_refl\<close>)

lemma client_GetRoomMembers:
  fixes w :: "'z message_world_scheme"
  assumes "client_ok U w"
  shows "wp (roomClient_GetRoomMembers L U delays (room_handler U txt) rid)
    (\<lambda>ids w'. rooms_same w w' \<and> v_rooms (pg_view w) rid \<noteq> None \<and> members_of (pg_view w) rid ids)
    (\<lambda>e w'. rooms_same w w' \<and> (calm w \<longrightarrow> v_rooms (pg_view w) rid = None)) w"
  unfolding roomClient_GetRoomMembers_def
proof (rule wp_withRetry [where I = "rooms_same w"])
  fix w1 assume "rooms_same w w1"
  then have w1: "pg_ok (tick w1)" "pg_view (tick w1) = pg_view w" "calm w1 = calm w"
      "\<And>w'. rooms_same (tick w1) w' = rooms_same w w'" "rooms_same w w1"
    by (auto simp: rooms_same_def pg_ok_def pg_view_def)
  have "uuid_lib_ok U" using assms by (simp add: client_ok_def)
  then show "wp (tryE (grpc_call L (roomHandler_GetRoomMembers (room_handler U txt) (uuid_String U rid))) fail
        (\<lambda>userIds. case parse_user_ids U userIds of Inl e \<Rightarrow> fail e | Inr ids \<Rightarrow> ret ids))
    (\<lambda>ids w'. rooms_same w w' \<and> v_rooms (pg_view w) rid \<noteq> None \<and> members_of (pg_view w) rid ids)
    (\<lambda>e w'. rooms_same w w' \<and> (calm w \<longrightarrow> v_rooms (pg_view w) rid = None)) w1"
    unfolding wp_simps
    by (intro wp_grpc_call wp_mono [OF handler_GetRoomMembers [OF _ w1(1)]])
      (use w1 in \<open>auto simp: parse_user_ids_strings wp_simps\<close>)
qed (use assms rooms_same_ctx in \<open>auto simp: client_ok_def rooms_same_refl\<close>)

interpretation rcl: room_client "NewRoomClient L U delays (room_handler U errtxt)" pg_view "client_ok U" calm
  for L U delays errtxt
proof (unfold_locales, unfold NewRoomClient_def RoomClient.select_convs, goal_cases)
  case (1 w rid uid)
  then show ?case
    by (intro wp_mono [OF client_IsMember [OF 1]]) (auto simp: rooms_same_def client_ok_def)
next
  case (2 w rid)
  then show ?case
    by (intro wp_mono [OF client_GetRoomMembers [OF 2]]) (auto simp: rooms_same_def client_ok_def)
qed

end
