(* ===== verification/MessageService.thy ===== *)
theory MessageService
  imports RoomClient
begin

text \<open>
  \<open>services/message/internal/service/message.go\<close> and \<open>internal/nats/publisher.go\<close>: who may read,
  send and delete messages, and the event that is published for a new one.

  \<open>message_backend\<close> joins what the service relies on: the repository's promises, the room client's,
  a publisher, and that each of them leaves the state of the others alone.  Its lemmas describe the
  four operations for every behaviour of the environment.  \<open>message_step\<close> is the abstract machine
  of one room history, and \<open>history\<close> what it keeps: a message never changes after it was stored,
  except that it may be marked deleted, once and for ever.
\<close>

section \<open>Types and mappers\<close>

record sMessagePreview =
  sp_MessageID :: uuid
  sp_SenderID :: uuid
  sp_Type :: MessageType
  sp_TextPreview :: "string option"
  sp_FileName :: "string option"
  sp_MimeType :: "string option"

record sMessage =
  sm_ID :: uuid
  sm_RoomID :: uuid
  sm_SenderID :: uuid
  sm_Type :: MessageType
  sm_Content :: "sContent option"
  sm_ReplyTo :: "sMessagePreview option"
  sm_DeletedAt :: "time option"
  sm_EditedAt :: "time option"
  sm_CreatedAt :: time
  sm_UpdatedAt :: time

record SendMessageInput =
  si_RoomID :: uuid
  si_SenderID :: uuid
  si_Type :: MessageType
  si_Content :: "sContent option"
  si_ReplyToID :: "uuid option"

definition toPreview :: "rMessagePreview \<Rightarrow> sMessagePreview" where
  "toPreview p =
     \<lparr>sp_MessageID = rp_MessageID p, sp_SenderID = rp_SenderID p, sp_Type = rp_Type p,
      sp_TextPreview = rp_TextPreview p, sp_FileName = rp_FileName p, sp_MimeType = rp_MimeType p\<rparr>"

definition toMessage :: "rMessage \<Rightarrow> sMessage" where
  "toMessage m =
     \<lparr>sm_ID = m_ID m, sm_RoomID = m_RoomID m, sm_SenderID = m_SenderID m, sm_Type = m_Type m,
      sm_Content = toContent (m_Content m), sm_ReplyTo = map_option toPreview (m_ReplyTo m),
      sm_DeletedAt = m_DeletedAt m, sm_EditedAt = m_EditedAt m, sm_CreatedAt = m_CreatedAt m,
      sm_UpdatedAt = m_UpdatedAt m\<rparr>"

lemma toMessage_simps [simp]:
  "sm_ID (toMessage m) = m_ID m" "sm_RoomID (toMessage m) = m_RoomID m" "sm_SenderID (toMessage m) = m_SenderID m"
  "sm_Type (toMessage m) = m_Type m" "sm_Content (toMessage m) = toContent (m_Content m)"
  "sm_DeletedAt (toMessage m) = m_DeletedAt m" "sm_CreatedAt (toMessage m) = m_CreatedAt m"
  by (simp_all add: toMessage_def)

section \<open>The service\<close>

record 'w MessagePublisher =
  mpub_MessageCreated :: "sMessage \<Rightarrow> uuid list \<Rightarrow> ('w, unit) op"

record 'w messageService =
  ms_repo :: "'w MessageRepository"
  ms_roomClient :: "'w RoomClient"
  ms_publisher :: "'w MessagePublisher"

text \<open>The check every operation makes of its requester.\<close>

definition with_membership :: "'w messageService \<Rightarrow> uuid \<Rightarrow> uuid \<Rightarrow> ('w, 'a) op \<Rightarrow> ('w, 'a) op" where
  "with_membership s roomID userID k =
     tryE (rc_IsMember (ms_roomClient s) roomID userID)
       (\<lambda>e. fail (Wrap ''check room membership'' e))
       (\<lambda>isMember. if \<not> isMember then fail (Sentinel msgSvc_ErrNotMember) else k)"

definition check_reply_target :: "'w messageService \<Rightarrow> SendMessageInput \<Rightarrow> ('w, unit) op" where
  "check_reply_target s input =
     (case si_ReplyToID input of
        None \<Rightarrow> ret ()
      | Some replyToID \<Rightarrow>
          tryE (mrepo_GetMessageByID (ms_repo s) replyToID)
            (\<lambda>e. if errors_Is e msgRepo_ErrMessageNotFound then fail (Sentinel msgSvc_ErrInvalidReplyTarget)
                 else fail (Wrap ''get reply target message'' e))
            (\<lambda>original. if m_DeletedAt original \<noteq> None then fail (Sentinel msgSvc_ErrInvalidReplyTarget)
                        else if m_RoomID original \<noteq> si_RoomID input
                        then fail (Sentinel msgSvc_ErrInvalidReplyTarget)
                        else ret ()))"

definition toCreateInput :: "SendMessageInput \<Rightarrow> CreateMessageInput" where
  "toCreateInput input =
     \<lparr>ci_RoomID = si_RoomID input, ci_SenderID = si_SenderID input, ci_Type = si_Type input,
      ci_Content = toRepoContent (si_Content input), ci_ReplyToID = si_ReplyToID input\<rparr>"

definition messageService_SendMessage :: "'w messageService \<Rightarrow> SendMessageInput \<Rightarrow> ('w, sMessage) op" where
  "messageService_SendMessage s input =
     with_membership s (si_RoomID input) (si_SenderID input)
     (tryE (check_reply_target s input) fail (\<lambda>_.
      tryE (mrepo_CreateMessage (ms_repo s) (toCreateInput input))
        (\<lambda>e. fail (Wrap ''create message'' e))
        (\<lambda>msg.
           (let domainMsg = toMessage msg
            in tryE (rc_GetRoomMembers (ms_roomClient s) (si_RoomID input))
                 (\<lambda>_. ret domainMsg)
                 (\<lambda>recipientIDs.
                    attempt (mpub_MessageCreated (ms_publisher s) domainMsg recipientIDs)
                      (ret domainMsg))))))"

definition messageService_GetMessages ::
    "'w messageService \<Rightarrow> uuid \<Rightarrow> uuid \<Rightarrow> uuid option \<Rightarrow> int \<Rightarrow> ('w, sMessage list \<times> uuid option) op" where
  "messageService_GetMessages s roomID requesterID cursor limit =
     with_membership s roomID requesterID
     (tryE (mrepo_GetMessagesByRoomID (ms_repo s) roomID cursor limit)
        (\<lambda>e. fail (Wrap ''get messages'' e))
        (\<lambda>(repoMsgs, nextCursor). ret (List.map toMessage repoMsgs, nextCursor)))"

definition messageService_GetMessageByID :: "'w messageService \<Rightarrow> uuid \<Rightarrow> uuid \<Rightarrow> ('w, sMessage) op" where
  "messageService_GetMessageByID s messageID requesterID =
     tryE (mrepo_GetMessageByID (ms_repo s) messageID)
       (\<lambda>e. if errors_Is e msgRepo_ErrMessageNotFound then fail (Sentinel msgSvc_ErrMessageNotFound)
            else fail (Wrap ''get message'' e))
       (\<lambda>msg. with_membership s (m_RoomID msg) requesterID (ret (toMessage msg)))"

definition messageService_DeleteMessage :: "'w messageService \<Rightarrow> uuid \<Rightarrow> uuid \<Rightarrow> ('w, unit) op" where
  "messageService_DeleteMessage s messageID requesterID =
     tryE (mrepo_GetMessageByID (ms_repo s) messageID)
       (\<lambda>e. if errors_Is e msgRepo_ErrMessageNotFound then fail (Sentinel msgSvc_ErrMessageNotFound)
            else fail (Wrap ''get message'' e))
       (\<lambda>msg. with_membership s (m_RoomID msg) requesterID
          (if m_SenderID msg \<noteq> requesterID then fail (Sentinel msgSvc_ErrNotOwner)
           else mrepo_SoftDeleteMessage (ms_repo s) messageID))"

record 'w MessageService =
  msvc_SendMessage :: "SendMessageInput \<Rightarrow> ('w, sMessage) op"
  msvc_GetMessages :: "uuid \<Rightarrow> uuid \<Rightarrow> uuid option \<Rightarrow> int \<Rightarrow> ('w, sMessage list \<times> uuid option) op"
  msvc_GetMessageByID :: "uuid \<Rightarrow> uuid \<Rightarrow> ('w, sMessage) op"
  msvc_DeleteMessage :: "uuid \<Rightarrow> uuid \<Rightarrow> ('w, unit) op"

definition NewMessageService ::
    "'w MessageRepository \<Rightarrow> 'w RoomClient \<Rightarrow> 'w MessagePublisher \<Rightarrow> 'w MessageService" where
  "NewMessageService repo roomClient pub =
     (let s = \<lparr>ms_repo = repo, ms_roomClient = roomClient, ms_publisher = pub\<rparr>
      in \<lparr>msvc_SendMessage = messageService_SendMessage s,
          msvc_GetMessages = messageService_GetMessages s,
          msvc_GetMessageByID = messageService_GetMessageByID s,
          msvc_DeleteMessage = messageService_DeleteMessage s\<rparr>)"

section \<open>The publisher\<close>

text \<open>\<open>Time.Format(time.RFC3339)\<close> of a time in UTC between the years 0 and 9999.\<close>

definition two_digits :: "int \<Rightarrow> string" where
  "two_digits k = [char_of (48 + k div 10 mod 10), char_of (48 + k mod 10)]"

text \<open>Year, month and day of a day counted from 1970-01-01, by counting from 1 March of the year 0.\<close>

definition civil_of_days :: "int \<Rightarrow> int \<times> int \<times> int" where
  "civil_of_days days =
     (let z = days + 719468; era = z div 146097; doe = z mod 146097;
          yoe = (doe - doe div 1460 + doe div 36524 - doe div 146096) div 365;
          doy = doe - (365 * yoe + yoe div 4 - yoe div 100);
          mp = (5 * doy + 2) div 153;
          d = doy - (153 * mp + 2) div 5 + 1;
          m = (if mp < 10 then mp + 3 else mp - 9)
      in (yoe + era * 400 + (if m \<le> 2 then 1 else 0), m, d))"

definition format_RFC3339 :: "time \<Rightarrow> string" where
  "format_RFC3339 t =
     (let s = t div 1000000; (y, m, d) = civil_of_days (s div 86400); r = s mod 86400
      in two_digits (y div 100) @ two_digits y @ ''-'' @ two_digits m @ ''-'' @ two_digits d @ ''T'' @
         two_digits (r div 3600) @ '':'' @ two_digits (r div 60 mod 60) @ '':'' @ two_digits (r mod 60) @ ''Z'')"

definition SubjectMessageCreated :: string where
  "SubjectMessageCreated = ''message.created''"

definition message_created_payload :: "uuid_lib \<Rightarrow> sMessage \<Rightarrow> uuid list \<Rightarrow> json" where
  "message_created_payload U msg recipientIDs =
     JObj [(''created_at'', JStr (format_RFC3339 (sm_CreatedAt msg))),
           (''message_id'', JStr (uuid_String U (sm_ID msg))),
           (''recipient_ids'', recipient_strs U recipientIDs),
           (''room_id'', JStr (uuid_String U (sm_RoomID msg))),
           (''sender_id'', JStr (uuid_String U (sm_SenderID msg))),
           (''type'', JStr (sm_Type msg))]"

definition publisher_PublishMessageCreated :: "uuid_lib \<Rightarrow> sMessage \<Rightarrow> uuid list \<Rightarrow> ('z world_scheme, unit) op" where
  "publisher_PublishMessageCreated U msg recipientIDs =
     js_Publish SubjectMessageCreated (message_created_payload U msg recipientIDs)"

definition natsMessagePublisher :: "uuid_lib \<Rightarrow> ('z world_scheme) MessagePublisher" where
  "natsMessagePublisher U = \<lparr>mpub_MessageCreated = publisher_PublishMessageCreated U\<rparr>"

section \<open>The abstract machine\<close>

text \<open>A message may be replied to while it is in the same room and not deleted.\<close>

definition reply_ok :: "message_view \<Rightarrow> uuid \<Rightarrow> uuid option \<Rightarrow> bool" where
  "reply_ok v room reply =
     (case reply of
        None \<Rightarrow> True
      | Some i \<Rightarrow> (case v i of None \<Rightarrow> False | Some r \<Rightarrow> mr_deleted_at r = None \<and> mr_room_id r = room))"

text \<open>What stays of it when the message is deleted.\<close>

definition reply_in :: "message_view \<Rightarrow> uuid \<Rightarrow> uuid option \<Rightarrow> bool" where
  "reply_in v room reply \<longleftrightarrow> (\<forall>i. reply = Some i \<longrightarrow> (\<exists>r. v i = Some r \<and> mr_room_id r = room))"

lemma reply_ok_in: "reply_ok v room reply \<Longrightarrow> reply_in v room reply"
  by (auto simp: reply_ok_def reply_in_def split: option.splits)

text \<open>The verdict on a request: the error it is refused with, or \<open>None\<close>.\<close>

definition is_member :: "room_view \<Rightarrow> uuid \<Rightarrow> uuid \<Rightarrow> bool" where
  "is_member rv room u \<longleftrightarrow> v_roles rv room u \<noteq> None"

definition send_policy :: "room_view \<Rightarrow> message_view \<Rightarrow> SendMessageInput \<Rightarrow> sentinel option" where
  "send_policy rv v input =
     (if \<not> is_member rv (si_RoomID input) (si_SenderID input) then Some msgSvc_ErrNotMember
      else if \<not> reply_ok v (si_RoomID input) (si_ReplyToID input) then Some msgSvc_ErrInvalidReplyTarget
      else None)"

definition lookup_policy :: "room_view \<Rightarrow> message_view \<Rightarrow> uuid \<Rightarrow> uuid \<Rightarrow> sentinel option" where
  "lookup_policy rv v i u =
     (case v i of
        None \<Rightarrow> Some msgSvc_ErrMessageNotFound
      | Some r \<Rightarrow> if is_member rv (mr_room_id r) u then None else Some msgSvc_ErrNotMember)"

text \<open>Deleting a message that is deleted already is the repository's error, which the service passes
  on as it is.\<close>

definition delete_policy :: "room_view \<Rightarrow> message_view \<Rightarrow> uuid \<Rightarrow> uuid \<Rightarrow> sentinel option" where
  "delete_policy rv v i u =
     (case v i of
        None \<Rightarrow> Some msgSvc_ErrMessageNotFound
      | Some r \<Rightarrow>
          if \<not> is_member rv (mr_room_id r) u then Some msgSvc_ErrNotMember
          else if mr_sender_id r \<noteq> u then Some msgSvc_ErrNotOwner
          else if mr_deleted_at r \<noteq> None then Some msgRepo_ErrMessageNotFound
          else None)"

text \<open>A content that belongs to its type.\<close>

definition sendable :: "SendMessageInput \<Rightarrow> bool" where
  "sendable input \<longleftrightarrow>
     (case toRepoContent (si_Content input) of None \<Rightarrow> False | Some c \<Rightarrow> si_Type input \<in> set (content_types c))"

definition input_storable :: "SendMessageInput \<Rightarrow> bool" where
  "input_storable input = (case toRepoContent (si_Content input) of None \<Rightarrow> False | Some c \<Rightarrow> storable c)"

text \<open>One step of a requester \<open>u\<close> when the rooms are \<open>rv\<close>: a member sends, or a member deletes a
  message of their own.\<close>

inductive message_step :: "room_view \<Rightarrow> uuid \<Rightarrow> message_view \<Rightarrow> message_view \<Rightarrow> bool" for rv u where
  sends: "v_roles rv (ci_RoomID input) u \<noteq> None \<Longrightarrow> ci_SenderID input = u \<Longrightarrow>
    reply_ok v (ci_RoomID input) (ci_ReplyToID input) \<Longrightarrow> stored input v m v' \<Longrightarrow> message_step rv u v v'"
| deletes: "v i = Some r \<Longrightarrow> v_roles rv (mr_room_id r) u \<noteq> None \<Longrightarrow> mr_sender_id r = u \<Longrightarrow>
    soft_deleted i v v' \<Longrightarrow> message_step rv u v v'"

text \<open>What a history keeps: every message stays as it was stored, except that one that is not deleted
  may be marked so.\<close>

definition kept_message :: "MessageRow \<Rightarrow> MessageRow \<Rightarrow> bool" where
  "kept_message r r' \<longleftrightarrow>
     r' = r \<or> mr_deleted_at r = None \<and> (\<exists>t. r' = r\<lparr>mr_deleted_at := Some t, mr_updated_at := t\<rparr>)"

definition history :: "message_view \<Rightarrow> message_view \<Rightarrow> bool" where
  "history v v' \<longleftrightarrow> (\<forall>i r. v i = Some r \<longrightarrow> (\<exists>r'. v' i = Some r' \<and> kept_message r r'))"

text \<open>Replies stay inside a room.\<close>

definition replies_inside :: "message_view \<Rightarrow> bool" where
  "replies_inside v \<longleftrightarrow>
     (\<forall>r i. v (mr_id r) = Some r \<and> mr_reply_to_id r = Some i \<longrightarrow>
        (\<exists>o'. v i = Some o' \<and> mr_room_id o' = mr_room_id r))"

definition ids_match :: "message_view \<Rightarrow> bool" where
  "ids_match v \<longleftrightarrow> (\<forall>i r. v i = Some r \<longrightarrow> mr_id r = i)"

lemma history_refl: "history v v"
  by (auto simp: history_def kept_message_def)

lemma kept_message_trans: "kept_message a b \<Longrightarrow> kept_message b c \<Longrightarrow> kept_message a c"
  by (auto simp: kept_message_def)

lemma history_trans: "history a b \<Longrightarrow> history b c \<Longrightarrow> history a c"
  unfolding history_def by (meson kept_message_trans)

lemma kept_message_facts:
  "kept_message r r' \<Longrightarrow> mr_id r' = mr_id r" "kept_message r r' \<Longrightarrow> mr_room_id r' = mr_room_id r"
  "kept_message r r' \<Longrightarrow> mr_reply_to_id r' = mr_reply_to_id r"
  by (auto simp: kept_message_def)

lemma kept_message_mark:
  "mr_deleted_at r = None \<Longrightarrow> kept_message r (r\<lparr>mr_deleted_at := Some t, mr_updated_at := t\<rparr>)"
  unfolding kept_message_def by blast

lemma stored_history: "stored input v m v' \<Longrightarrow> history v v'"
  by (auto simp: history_def kept_message_def stored_def)

lemma soft_deleted_history: "soft_deleted i v v' \<Longrightarrow> history v v'"
  unfolding history_def soft_deleted_def
  by (metis fun_upd_apply kept_message_def kept_message_mark option.sel)

lemma message_step_history: "message_step rv u v v' \<Longrightarrow> history v v'"
  by (induction rule: message_step.induct) (blast intro: stored_history soft_deleted_history)+

lemma stored_invs:
  assumes "stored input v m v'" and "reply_in v (ci_RoomID input) (ci_ReplyToID input)"
    and "ids_match v" and "replies_inside v"
  shows "ids_match v' \<and> replies_inside v'"
proof -
  from assms(1) obtain r where r: "v (mr_id r) = None" "v' = v(mr_id r := Some r)"
      "mr_room_id r = ci_RoomID input" "mr_reply_to_id r = ci_ReplyToID input"
    by (auto simp: stored_def)
  have "\<exists>o'. v' i = Some o' \<and> mr_room_id o' = mr_room_id q" if q: "v' (mr_id q) = Some q" "mr_reply_to_id q = Some i" for q i
  proof -
    have "\<exists>o'. v i = Some o' \<and> mr_room_id o' = mr_room_id q"
    proof (cases "mr_id q = mr_id r")
      case True
      with q(1) r(2) have "q = r" by (metis fun_upd_same option.sel)
      then have "ci_ReplyToID input = Some i" "ci_RoomID input = mr_room_id q" using q(2) r(3,4) by metis+
      with assms(2) show ?thesis by (simp add: reply_in_def)
    next
      case False
      with q r(2) have "v (mr_id q) = Some q" by simp
      with q(2) assms(4) show ?thesis unfolding replies_inside_def by blast
    qed
    then obtain o' where o': "v i = Some o'" "mr_room_id o' = mr_room_id q" by blast
    then have "v' i = Some o'" using r(1,2) by (metis fun_upd_other option.distinct(1))
    with o'(2) show ?thesis by blast
  qed
  moreover have "ids_match v'" using assms(3) r(2) by (simp add: ids_match_def)
  ultimately show ?thesis unfolding replies_inside_def by blast
qed

lemma soft_deleted_invs:
  assumes "soft_deleted i v v'" and "ids_match v" and "replies_inside v"
  shows "ids_match v' \<and> replies_inside v'"
proof -
  from assms(1) obtain r t where r: "v i = Some r" "v' = v(i := Some (r\<lparr>mr_deleted_at := Some t, mr_updated_at := t\<rparr>))"
    by (auto simp: soft_deleted_def)
  have i: "mr_id r = i" using r(1) assms(2) by (simp add: ids_match_def)
  have "\<exists>o'. v' k = Some o' \<and> mr_room_id o' = mr_room_id q" if q: "v' (mr_id q) = Some q" "mr_reply_to_id q = Some k" for q k
  proof -
    obtain q' where "v (mr_id q') = Some q'" "mr_reply_to_id q' = Some k" "mr_room_id q' = mr_room_id q"
      using q r i by (cases "mr_id q = i") auto
    then obtain o' where o': "v k = Some o'" "mr_room_id o' = mr_room_id q"
      using assms(3) unfolding replies_inside_def by force
    then show ?thesis using r by (cases "k = i") auto
  qed
  moreover have "ids_match v'" using assms(2) r i by (simp add: ids_match_def)
  ultimately show ?thesis unfolding replies_inside_def by blast
qed

lemma message_step_invs:
  "message_step rv u v v' \<Longrightarrow> ids_match v \<Longrightarrow> replies_inside v \<Longrightarrow> ids_match v' \<and> replies_inside v'"
  by (induction rule: message_step.induct) (blast dest: stored_invs [OF _ reply_ok_in] soft_deleted_invs)+

section \<open>What the service relies on\<close>

definition same_on :: "('w \<Rightarrow> 'a) \<Rightarrow> ('w \<Rightarrow> 'b) \<Rightarrow> 'w \<Rightarrow> 'w \<Rightarrow> bool" where
  "same_on f g w w' \<longleftrightarrow> f w' = f w \<and> g w' = g w"

lemma wp_frame:
  assumes "same_on f g w (snd (m w))" and "wp m Q E w"
  shows "wp m (\<lambda>x w'. f w' = f w \<and> g w' = g w \<and> Q x w') (\<lambda>e w'. f w' = f w \<and> g w' = g w \<and> E e w') w"
  using assms by (auto simp: same_on_def wp_def split: prod.splits sum.splits)

locale message_backend =
  message_repository mrepo mview invar reliable new_ids + room_client cl rview invar reliable
  for mrepo :: "'w MessageRepository" and cl :: "'w RoomClient" and mview :: "'w \<Rightarrow> message_view"
    and rview :: "'w \<Rightarrow> room_view" and invar reliable :: "'w \<Rightarrow> bool" and new_ids +
  fixes mpub :: "'w MessagePublisher"
    and log :: "'w \<Rightarrow> 'm list"
    and event :: "sMessage \<Rightarrow> uuid list \<Rightarrow> 'm"
  assumes publish_message: "invar w \<Longrightarrow> wp (mpub_MessageCreated mpub m ids)
      (\<lambda>_ w'. invar w' \<and> mview w' = mview w \<and> rview w' = rview w \<and> reliable w' = reliable w \<and>
         log w' = log w @ [event m ids])
      (\<lambda>_ w'. invar w' \<and> mview w' = mview w \<and> rview w' = rview w \<and> reliable w' = reliable w \<and>
         \<not> reliable w \<and> log w' \<in> {log w, log w @ [event m ids]}) w"
    and members_exist: "invar w \<Longrightarrow> v_roles (rview w) r u \<noteq> None \<Longrightarrow> v_rooms (rview w) r \<noteq> None"
    and repo_frame: "kept (\<lambda>w. rview w = v \<and> log w = l) (mrepo_CreateMessage mrepo input)"
      "kept (\<lambda>w. rview w = v \<and> log w = l) (mrepo_GetMessagesByRoomID mrepo room cursor limit)"
      "kept (\<lambda>w. rview w = v \<and> log w = l) (mrepo_GetMessageByID mrepo i)"
      "kept (\<lambda>w. rview w = v \<and> log w = l) (mrepo_SoftDeleteMessage mrepo i)"
    and client_frame: "invar w \<Longrightarrow> same_on mview log w (snd (rc_IsMember cl room u w))"
      "invar w \<Longrightarrow> same_on mview log w (snd (rc_GetRoomMembers cl room w))"
begin

abbreviation svc :: "'w messageService" where
  "svc \<equiv> \<lparr>ms_repo = mrepo, ms_roomClient = cl, ms_publisher = mpub\<rparr>"

text \<open>Nothing the service cares about changed.\<close>

definition unchanged :: "'w \<Rightarrow> 'w \<Rightarrow> bool" where
  "unchanged w w' \<longleftrightarrow> invar w' \<and> mview w' = mview w \<and> rview w' = rview w \<and> reliable w' = reliable w \<and> log w' = log w"

abbreviation member :: "'w \<Rightarrow> uuid \<Rightarrow> uuid \<Rightarrow> bool" where
  "member w \<equiv> is_member (rview w)"

lemma unchanged_refl: "invar w \<Longrightarrow> unchanged w w"
  by (simp add: unchanged_def)

lemma with_membership_wp:
  assumes w: "unchanged w w1"
    and k: "\<And>w'. unchanged w w' \<Longrightarrow> member w room u \<Longrightarrow> wp k Q E w'"
    and no: "\<And>w'. unchanged w w' \<Longrightarrow> \<not> member w room u \<Longrightarrow> E (Sentinel msgSvc_ErrNotMember) w'"
    and err: "\<And>e w'. unchanged w w' \<Longrightarrow> \<not> reliable w \<Longrightarrow> (\<And>s. errors_Is e s \<Longrightarrow> s = ctx_Err) \<Longrightarrow> E e w'"
  shows "wp (with_membership svc room u k) Q E w1"
proof -
  have inv: "invar w1" using w by (simp add: unchanged_def)
  show ?thesis unfolding with_membership_def wp_simps messageService.select_convs
  proof (rule wp_mono [OF wp_frame [OF client_frame(1) [OF inv] IsMember [OF inv]]], goal_cases)
    case (1 b w')
    then have "unchanged w w'" "b = member w room u" using w by (simp_all add: unchanged_def is_member_def)
    then show ?case using k no by (cases b) (simp_all add: wp_simps)
  next
    case (2 e w')
    then have "unchanged w w'" "\<not> reliable w" "\<And>s. errors_Is e s \<Longrightarrow> s = ctx_Err"
      using w by (simp_all add: unchanged_def)
    then show ?case by (intro err) simp_all
  qed
qed

lemma get_message_wp:
  assumes w: "unchanged w w1"
    and found: "\<And>r w'. unchanged w w' \<Longrightarrow> mview w i = Some r \<Longrightarrow> mr_id r = i \<Longrightarrow> Q (seen (mview w) r) w'"
    and err: "\<And>e w'. unchanged w w' \<Longrightarrow> (reliable w \<Longrightarrow> errors_Is e msgRepo_ErrMessageNotFound) \<Longrightarrow>
      (\<And>s. errors_Is e s \<Longrightarrow> s = msgRepo_ErrMessageNotFound \<and> mview w i = None) \<Longrightarrow> E e w'"
  shows "wp (mrepo_GetMessageByID mrepo i) Q E w1"
proof -
  have inv: "invar w1" using w by (simp add: unchanged_def)
  show ?thesis
  proof (rule wp_mono [OF wp_kept [OF repo_frame(3) GetMessageByID [OF inv] conjI [OF refl refl]]], goal_cases)
    case (1 m w')
    then have w': "unchanged w w'" using w by (simp add: unchanged_def)
    from 1 w obtain r where "mview w i = Some r" "mr_id r = i" "m = seen (mview w) r"
      by (auto simp: unchanged_def)
    with found [OF w'] show ?case by simp
  next
    case (2 e w')
    then have w': "unchanged w w'" using w by (simp add: unchanged_def)
    show ?case by (rule err [OF w']) (use 2 w in \<open>auto simp: unchanged_def\<close>)
  qed
qed

lemma seen_simps [simp]:
  "m_ID (seen v r) = mr_id r" "m_RoomID (seen v r) = mr_room_id r" "m_SenderID (seen v r) = mr_sender_id r"
  "m_DeletedAt (seen v r) = mr_deleted_at r" "m_Content (seen v r) = row_content r" "m_Type (seen v r) = mr_type r"
  by (simp_all add: seen_def)

text \<open>Reading: the message, exactly for the members of its room.\<close>

abbreviation lookup_verdict :: "'w \<Rightarrow> uuid \<Rightarrow> uuid \<Rightarrow> sentinel option" where
  "lookup_verdict w \<equiv> lookup_policy (rview w) (mview w)"

lemma GetMessageByID_spec:
  assumes "invar w"
  shows "wp (messageService_GetMessageByID svc i u)
    (\<lambda>m w'. unchanged w w' \<and> lookup_verdict w i u = None \<and>
       (\<exists>r. mview w i = Some r \<and> m = toMessage (seen (mview w) r)))
    (\<lambda>e w'. unchanged w w' \<and> (\<forall>s. errors_Is e s \<longrightarrow> s = ctx_Err \<or> lookup_verdict w i u = Some s) \<and>
       (reliable w \<longrightarrow> (\<exists>s. e = Sentinel s \<and> lookup_verdict w i u = Some s))) w"
  unfolding messageService_GetMessageByID_def wp_simps messageService.select_convs
proof (rule get_message_wp [OF unchanged_refl [OF assms]], goal_cases)
  case (1 r w')
  then show ?case
    by (intro with_membership_wp [of w]) (auto simp: wp_simps lookup_policy_def)
next
  case (2 e w')
  then show ?case by (auto simp: wp_simps lookup_policy_def)
qed

lemma GetMessages_spec:
  assumes "invar w" and "limit \<ge> 1"
  shows "wp (messageService_GetMessages svc room u cursor limit)
    (\<lambda>page w'. unchanged w w' \<and> member w room u \<and>
       (\<exists>ms next. page = (List.map toMessage ms, next) \<and> page_of (mview w) room cursor (nat limit) (ms, next)) \<and>
       (\<forall>c. cursor = Some c \<longrightarrow> mview w c \<noteq> None))
    (\<lambda>e w'. unchanged w w' \<and> (errors_Is e msgSvc_ErrNotMember \<longrightarrow> \<not> member w room u) \<and>
       (reliable w \<longrightarrow> e = Sentinel msgSvc_ErrNotMember \<or> member w room u \<and>
          e = Wrap ''get messages'' (Sentinel msgRepo_ErrInvalidCursor) \<and> (\<exists>c. cursor = Some c \<and> mview w c = None))) w"
  unfolding messageService_GetMessages_def
proof (rule with_membership_wp [OF unchanged_refl [OF assms(1)]], goal_cases)
  case (1 w1)
  then have w1: "invar w1" "mview w1 = mview w" "reliable w1 = reliable w" by (simp_all add: unchanged_def)
  show ?case unfolding wp_simps messageService.select_convs
    by (rule wp_mono [OF wp_kept [OF repo_frame(2) GetMessagesByRoomID [OF w1(1) assms(2)]]])
      (use 1 w1 in \<open>auto simp: wp_simps unchanged_def\<close>)
qed auto

text \<open>Deleting.\<close>

abbreviation delete_verdict :: "'w \<Rightarrow> uuid \<Rightarrow> uuid \<Rightarrow> sentinel option" where
  "delete_verdict w \<equiv> delete_policy (rview w) (mview w)"

lemma DeleteMessage_spec:
  assumes "invar w"
  shows "wp (messageService_DeleteMessage svc i u)
    (\<lambda>_ w'. invar w' \<and> rview w' = rview w \<and> reliable w' = reliable w \<and> log w' = log w \<and>
       delete_verdict w i u = None \<and> soft_deleted i (mview w) (mview w'))
    (\<lambda>e w'. invar w' \<and> rview w' = rview w \<and> reliable w' = reliable w \<and> log w' = log w \<and>
       (mview w' = mview w \<or> soft_deleted i (mview w) (mview w') \<and> delete_verdict w i u = None) \<and>
       (reliable w \<longrightarrow> mview w' = mview w \<and> (\<exists>s. e = Sentinel s \<and> delete_verdict w i u = Some s))) w"
  unfolding messageService_DeleteMessage_def wp_simps messageService.select_convs
proof (rule get_message_wp [OF unchanged_refl [OF assms]], goal_cases)
  case (1 r w')
  note r = this
  show ?case
  proof (rule with_membership_wp [OF r(1)], goal_cases)
    case (1 w1)
    then have w1: "invar w1" "mview w1 = mview w" "reliable w1 = reliable w" by (simp_all add: unchanged_def)
    show ?case
    proof (cases "mr_sender_id r = u")
      case True
      then show ?thesis unfolding wp_simps
        by (simp, intro wp_mono [OF wp_kept [OF repo_frame(4) SoftDeleteMessage [OF w1(1)]]])
          (use 1 r w1 in \<open>auto simp: unchanged_def delete_policy_def soft_deleted_def\<close>)
    next
      case False
      then show ?thesis using 1 r by (simp add: wp_simps unchanged_def delete_policy_def)
    qed
  qed (use r in \<open>auto simp: unchanged_def delete_policy_def\<close>)
next
  case (2 e w')
  then show ?case by (auto simp: wp_simps delete_policy_def unchanged_def)
qed

text \<open>Sending.\<close>

abbreviation send_verdict :: "'w \<Rightarrow> SendMessageInput \<Rightarrow> sentinel option" where
  "send_verdict w \<equiv> send_policy (rview w) (mview w)"

lemma check_reply_wp:
  assumes w: "unchanged w w1"
    and ok: "\<And>w'. unchanged w w' \<Longrightarrow> reply_ok (mview w) (si_RoomID input) (si_ReplyToID input) \<Longrightarrow> Q () w'"
    and no: "\<And>w'. unchanged w w' \<Longrightarrow> \<not> reply_ok (mview w) (si_RoomID input) (si_ReplyToID input) \<Longrightarrow>
      E (Sentinel msgSvc_ErrInvalidReplyTarget) w'"
    and err: "\<And>e w'. unchanged w w' \<Longrightarrow> \<not> reliable w \<Longrightarrow> (\<And>s. \<not> errors_Is e s) \<Longrightarrow> E e w'"
  shows "wp (check_reply_target svc input) Q E w1"
proof (cases "si_ReplyToID input")
  case None
  then show ?thesis using ok [OF w] by (simp add: check_reply_target_def wp_simps reply_ok_def)
next
  case (Some i)
  show ?thesis
    unfolding check_reply_target_def Some option.case wp_simps messageService.select_convs
  proof (rule get_message_wp [OF w], goal_cases)
    case (1 r w')
    then show ?case using ok [OF 1(1)] no [OF 1(1)] Some by (auto simp: wp_simps reply_ok_def)
  next
    case (2 e w')
    have "mview w i = None" if "errors_Is e msgRepo_ErrMessageNotFound" using 2(3) that by blast
    moreover have "\<not> reliable w \<and> (\<forall>s. \<not> errors_Is (Wrap x e) s)" if "\<not> errors_Is e msgRepo_ErrMessageNotFound" for x
      using 2(2,3) that by fastforce
    ultimately show ?case using no [OF 2(1)] err [OF 2(1)] Some
      by (auto simp: wp_simps reply_ok_def)
  qed
qed

text \<open>After the message is stored, the outcome no longer depends on the room service or the bus.\<close>

lemma announce_wp:
  assumes w1: "invar w1" "rview w1 = rview w" "reliable w1 = reliable w" "log w1 = log w"
    and mem: "v_roles (rview w) room u \<noteq> None"
    and k: "\<And>w'. invar w' \<Longrightarrow> mview w' = mview w1 \<Longrightarrow> rview w' = rview w \<Longrightarrow> reliable w' = reliable w \<Longrightarrow>
      log w' = log w \<and> \<not> reliable w \<or> (\<exists>ids. members_of (rview w) room ids \<and> log w' = log w @ [event m ids]) \<Longrightarrow>
      Q m w'"
  shows "wp (tryE (rc_GetRoomMembers cl room) (\<lambda>_. ret m) (\<lambda>ids. attempt (mpub_MessageCreated mpub m ids) (ret m))) Q E w1"
  unfolding wp_simps
proof (rule wp_mono [OF wp_frame [OF client_frame(2) [OF w1(1)] GetRoomMembers [OF w1(1)]]], goal_cases)
  case (1 ids w2)
  then have w2: "invar w2" "mview w2 = mview w1" "rview w2 = rview w" "reliable w2 = reliable w" "log w2 = log w"
      "members_of (rview w) room ids" using w1 by auto
  show ?case
    by (rule wp_mono [OF publish_message [OF w2(1)]]; rule k) (use w2 in auto)
next
  case (2 e w2)
  then show ?case using members_exist [OF w1(1), of room u] w1 mem by (intro k) auto
qed

lemma SendMessage_spec:
  assumes "invar w" and "sendable input"
  shows "wp (messageService_SendMessage svc input)
    (\<lambda>x w'. invar w' \<and> rview w' = rview w \<and> reliable w' = reliable w \<and> send_verdict w input = None \<and>
       (\<exists>m. x = toMessage m \<and> stored (toCreateInput input) (mview w) m (mview w')) \<and>
       (log w' = log w \<and> \<not> reliable w \<or>
        (\<exists>ids. members_of (rview w) (si_RoomID input) ids \<and> log w' = log w @ [event x ids])))
    (\<lambda>e w'. invar w' \<and> rview w' = rview w \<and> reliable w' = reliable w \<and> log w' = log w \<and>
       (mview w' = mview w \<or> send_verdict w input = None \<and> (\<exists>m. stored (toCreateInput input) (mview w) m (mview w'))) \<and>
       (\<forall>s. errors_Is e s \<longrightarrow> mview w' = mview w \<and> (s = ctx_Err \<or> send_verdict w input = Some s)) \<and>
       (reliable w \<longrightarrow> (\<exists>s. e = Sentinel s \<and> send_verdict w input = Some s) \<or>
          send_verdict w input = None \<and> \<not> (input_storable input \<and> new_ids \<inter> dom (mview w) = {}))) w"
  unfolding messageService_SendMessage_def
proof (rule with_membership_wp [OF unchanged_refl [OF assms(1)]], goal_cases)
  case (1 w1)
  note mem = 1(2)
  show ?case unfolding wp_tryE wp_fail
  proof (rule check_reply_wp [OF 1(1)], goal_cases)
    case (1 w2)
    then have w2: "invar w2" "mview w2 = mview w" "rview w2 = rview w" "reliable w2 = reliable w" "log w2 = log w"
      by (simp_all add: unchanged_def)
    have none: "send_verdict w input = None" using mem 1(2) by (simp add: send_policy_def)
    obtain c where c: "ci_Content (toCreateInput input) = Some c" "ci_Type (toCreateInput input) \<in> set (content_types c)"
      using assms(2) by (auto simp: sendable_def toCreateInput_def split: option.splits)
    show ?case unfolding messageService.select_convs
    proof (rule wp_mono [OF wp_kept [OF repo_frame(1) CreateMessage [OF w2(1) c] conjI [OF refl refl]]], goal_cases)
      case (1 m w3)
      then show ?case unfolding Let_def
        by (intro announce_wp [where w = w and u = "si_SenderID input"])
          (use w2 mem none in \<open>auto simp: is_member_def\<close>)
    next
      case (2 e w3)
      have "mview w i \<noteq> None" if "si_ReplyToID input = Some i" for i
        using 1(2) that by (auto simp: reply_ok_def split: option.splits)
      with 2 show ?case using w2 none c(1)
        by (auto simp: toCreateInput_def input_storable_def split: option.splits)
    qed
  qed (use mem in \<open>auto simp: unchanged_def send_policy_def\<close>)
qed (auto simp: unchanged_def send_policy_def)

end

section \<open>Requests\<close>

datatype message_request =
    SendReq SendMessageInput
  | GetMessagesReq uuid uuid "uuid option" int
  | GetMessageReq uuid uuid
  | DeleteReq uuid uuid

fun serve_message :: "'w MessageService \<Rightarrow> message_request \<Rightarrow> 'w \<Rightarrow> 'w" where
  "serve_message s (SendReq input) w = snd (msvc_SendMessage s input w)"
| "serve_message s (GetMessagesReq room u cursor limit) w = snd (msvc_GetMessages s room u cursor limit w)"
| "serve_message s (GetMessageReq i u) w = snd (msvc_GetMessageByID s i u w)"
| "serve_message s (DeleteReq i u) w = snd (msvc_DeleteMessage s i u w)"

fun message_requester :: "message_request \<Rightarrow> uuid" where
  "message_requester (SendReq input) = si_SenderID input"
| "message_requester (GetMessagesReq room u cursor limit) = u"
| "message_requester (GetMessageReq i u) = u"
| "message_requester (DeleteReq i u) = u"

text \<open>What the handler makes sure of before it calls the service.\<close>

fun message_request_ok :: "message_request \<Rightarrow> bool" where
  "message_request_ok (SendReq input) \<longleftrightarrow> sendable input"
| "message_request_ok (GetMessagesReq room u cursor limit) \<longleftrightarrow> limit \<ge> 1"
| "message_request_ok _ \<longleftrightarrow> True"

lemma snd_wp:
  assumes "wp m Q E w" and "\<And>x w'. Q x w' \<Longrightarrow> R w'" and "\<And>e w'. E e w' \<Longrightarrow> R w'"
  shows "R (snd (m w))"
  using wp_run [OF assms(1)] assms(2,3) by auto

context message_backend begin

lemma serve_message_step:
  assumes w: "invar w" and ok: "message_request_ok req"
  defines "w' \<equiv> serve_message (NewMessageService mrepo cl mpub) req w"
  shows "invar w' \<and> rview w' = rview w \<and>
    (mview w' = mview w \<or> message_step (rview w) (message_requester req) (mview w) (mview w'))"
proof (cases req)
  case (SendReq input)
  have step: "message_step (rview w) (si_SenderID input) (mview w) v'"
    if "send_verdict w input = None" "stored (toCreateInput input) (mview w) m v'" for m v'
  proof (rule message_step.sends [OF _ _ _ that(2)])
    show "v_roles (rview w) (ci_RoomID (toCreateInput input)) (si_SenderID input) \<noteq> None"
      using that(1) by (simp add: send_policy_def is_member_def toCreateInput_def split: if_splits)
    show "reply_ok (mview w) (ci_RoomID (toCreateInput input)) (ci_ReplyToID (toCreateInput input))"
      using that(1) by (simp add: send_policy_def toCreateInput_def split: if_splits)
  qed (simp add: toCreateInput_def)
  have "sendable input" using ok SendReq by simp
  then show ?thesis unfolding w'_def SendReq NewMessageService_def Let_def
    by (simp, rule snd_wp [OF SendMessage_spec [OF w]]) (blast intro: step)+
next
  case (GetMessagesReq room u cursor limit)
  then have limit: "limit \<ge> 1" using ok by simp
  show ?thesis unfolding w'_def GetMessagesReq NewMessageService_def Let_def
    by (simp, rule snd_wp [OF GetMessages_spec [OF w limit]]) (auto simp: unchanged_def)
next
  case (GetMessageReq i u)
  show ?thesis unfolding w'_def GetMessageReq NewMessageService_def Let_def
    by (simp, rule snd_wp [OF GetMessageByID_spec [OF w]]) (auto simp: unchanged_def)
next
  case (DeleteReq i u)
  have step: "message_step (rview w) u (mview w) v'"
    if "delete_verdict w i u = None" "soft_deleted i (mview w) v'" for v'
    using that by (auto simp: delete_policy_def is_member_def intro: message_step.deletes split: option.splits if_splits)
  show ?thesis unfolding w'_def DeleteReq NewMessageService_def Let_def
    by (simp, rule snd_wp [OF DeleteMessage_spec [OF w]]) (blast intro: step)+
qed

end

section \<open>Postgres, NATS and the room service provide the backend\<close>

definition backend_ok :: "uuid_lib \<Rightarrow> 'z message_world_scheme \<Rightarrow> bool" where
  "backend_ok U w \<longleftrightarrow> client_ok U w \<and> pg_messages_ok w"

definition message_event :: "uuid_lib \<Rightarrow> sMessage \<Rightarrow> uuid list \<Rightarrow> string \<times> json" where
  "message_event U msg ids = (SubjectMessageCreated, message_created_payload U msg ids)"

lemma backend_ok_dbs: "backend_ok U w \<longleftrightarrow> tables_ok (room_db w) \<and> uuid_lib_ok U \<and> messages_ok (message_db w)"
  by (auto simp: backend_ok_def client_ok_def pg_ok_def pg_messages_ok_def)

text \<open>The statements of the message service leave the rooms and the bus alone.\<close>

definition rooms_and_bus :: "room_tables \<Rightarrow> (string \<times> json) list \<Rightarrow> 'z message_world_scheme \<Rightarrow> bool" where
  "rooms_and_bus d l w \<longleftrightarrow> room_db w = d \<and> published w = l"

lemma kept_message_pool [kept_intros]: "kept (rooms_and_bus d l) (message_pool s)"
proof -
  have "kept (rooms_and_bus d l) (ext_call (run_stmt message_db put_message_db t u s))" for t u
    by (rule kept_ext_call) (auto simp: rooms_and_bus_def kept_def run_stmt_def put_message_db_def split: sum.splits)
  then show ?thesis unfolding kept_def message_pool_def pool_call_def by blast
qed

lemma kept_rows [kept_intros]: "kept (rooms_and_bus d l) rows_Err" "kept (rooms_and_bus d l) rows_Scan"
  unfolding rows_Err_def rows_Scan_def by (rule kept_ext_call; simp add: kept_def rooms_and_bus_def)+

lemma kept_sum [kept_intros]:
  "(\<And>e. kept I (f e)) \<Longrightarrow> (\<And>x. kept I (k x)) \<Longrightarrow> kept I (case v of Inl e \<Rightarrow> f e | Inr x \<Rightarrow> k x)"
  by (cases v) auto

lemma kept_pair [kept_intros]: "(\<And>x y. kept I (f x y)) \<Longrightarrow> kept I (case p of (x, y) \<Rightarrow> f x y)"
  by (cases p) auto

lemma pg_frame:
  "kept (rooms_and_bus d l) (pgMessage_CreateMessage input)"
  "kept (rooms_and_bus d l) (pgMessage_GetMessagesByRoomID room cursor limit)"
  "kept (rooms_and_bus d l) (pgMessage_GetMessageByID i)"
  "kept (rooms_and_bus d l) (pgMessage_SoftDeleteMessage i)"
  unfolding pgMessage_CreateMessage_def pgMessage_GetMessagesByRoomID_def pgMessage_GetMessageByID_def
    pgMessage_SoftDeleteMessage_def read_page_def cut_page_def
  by (intro kept_intros)+

text \<open>A contract over the message table holds with the invariant of both services.\<close>

lemma with_rooms:
  assumes "kept (rooms_and_bus (room_db w) (published w)) m" and "backend_ok U w"
    and "wp m (\<lambda>x w'. pg_messages_ok w' \<and> Q x w') (\<lambda>e w'. pg_messages_ok w' \<and> E e w') w"
  shows "wp m (\<lambda>x w'. backend_ok U w' \<and> Q x w') (\<lambda>e w'. backend_ok U w' \<and> E e w') w"
  by (rule wp_mono [OF wp_kept [OF assms(1,3)]])
    (use assms(2) in \<open>auto simp: rooms_and_bus_def backend_ok_def client_ok_def pg_ok_def\<close>)

lemma with_messages:
  assumes "rooms_same w w'" and "backend_ok U w"
  shows "backend_ok U w' \<and> pg_view w' = pg_view w \<and> calm_in E w' = calm_in E w \<and> pg_messages w' = pg_messages w \<and>
    published w' = published w"
  using assms by (auto simp: rooms_same_def backend_ok_def client_ok_def pg_messages_ok_def pg_messages_def calm_in_def)

lemmas pg = pgm.CreateMessage pgm.GetMessageByID pgm.SoftDeleteMessage pgm.GetMessagesByRoomID
lemmas pgm_contracts = pg [unfolded pgMessageRepository_def MessageRepository.select_convs]

lemma publish_message_wp:
  "wp (publisher_PublishMessageCreated U m ids :: ('z message_world_scheme, unit) op)
    (\<lambda>_ w'. room_db w' = room_db w \<and> message_db w' = message_db w \<and> calm_in E w' = calm_in E w \<and>
       published w' = published w @ [message_event U m ids])
    (\<lambda>_ w'. room_db w' = room_db w \<and> message_db w' = message_db w \<and> calm_in E w' = calm_in E w \<and> \<not> calm_in E w \<and>
       published w' \<in> {published w, published w @ [message_event U m ids]}) w"
  unfolding publisher_PublishMessageCreated_def message_event_def
  by (rule wp_js_Publish) (simp_all add: calm_in_def)

lemma client_frame_pg:
  fixes w :: "'z message_world_scheme"
  assumes "client_ok U w"
  shows "same_on pg_messages published w (snd (roomClient_IsMember L U delays (room_handler U errtxt) room u w))"
    and "same_on pg_messages published w (snd (roomClient_GetRoomMembers L U delays (room_handler U errtxt) room w))"
proof -
  have same: "same_on pg_messages published w w'" if "rooms_same w w'" for w'
    using that unfolding same_on_def rooms_same_def pg_messages_def by metis
  show "same_on pg_messages published w (snd (roomClient_IsMember L U delays (room_handler U errtxt) room u w))"
    by (rule snd_wp [where R = "same_on pg_messages published w", OF client_IsMember [OF assms]]) (blast intro: same)+
  show "same_on pg_messages published w (snd (roomClient_GetRoomMembers L U delays (room_handler U errtxt) room w))"
    by (rule snd_wp [where R = "same_on pg_messages published w", OF client_GetRoomMembers [OF assms]]) (blast intro: same)+
qed

lemma frame_view:
  fixes m :: "('z message_world_scheme, 'a) op"
  assumes "\<And>d l. kept (rooms_and_bus d l) m"
  shows "kept (\<lambda>w. pg_view w = v \<and> published w = l) m"
  using assms unfolding kept_def rooms_and_bus_def pg_view_def by metis

lemma pg_members_exist:
  assumes "pg_ok w" and "v_roles (pg_view w) r u \<noteq> None"
  shows "v_rooms (pg_view w) r \<noteq> None"
proof -
  obtain m where "find (is_row r u) (room_members (room_db w)) = Some m"
    using assms(2) by (auto simp: pg_view_def)
  then have "m \<in> set (room_members (room_db w))" "rm_RoomID m = r"
    by (auto dest!: find_SomeD simp: is_row_def)
  then have "r \<in> room_ID ` set (rooms (room_db w))"
    using assms(1) by (auto simp: pg_ok_def tables_ok_def list_all_iff)
  then show ?thesis using find_key_None_iff [of room_ID r "rooms (room_db w)"] by (auto simp: pg_view_def)
qed

interpretation mb: message_backend pgMessageRepository "NewRoomClient L U delays (room_handler U errtxt)"
  pg_messages pg_view "backend_ok U" "calm_in E" "range (uuid_at E)" "natsMessagePublisher U" published "message_event U"
  for L U delays errtxt E
proof (unfold_locales, unfold pgMessageRepository_def MessageRepository.select_convs NewRoomClient_def
    RoomClient.select_convs natsMessagePublisher_def MessagePublisher.select_convs, goal_cases)
  case (1 w input c)
  then show ?case
    by (intro with_rooms pg_frame pgm_contracts(1)) (simp_all add: backend_ok_def)
next
  case (2 w i)
  then show ?case
    by (intro with_rooms pg_frame pgm_contracts(2)) (simp_all add: backend_ok_def)
next
  case (3 w i)
  then show ?case
    by (intro with_rooms pg_frame pgm_contracts(3)) (simp_all add: backend_ok_def)
next
  case (4 w limit room cursor)
  then show ?case
    by (intro with_rooms pg_frame pgm_contracts(4)) (simp_all add: backend_ok_def)
next
  case (5 w room u)
  then have "client_ok U w" by (simp add: backend_ok_def)
  from client_IsMember [OF this] show ?case
    by (rule wp_mono) (use with_messages [OF _ 5] in \<open>auto simp: calm_in_def\<close>)
next
  case (6 w room)
  then have "client_ok U w" by (simp add: backend_ok_def)
  from client_GetRoomMembers [OF this] show ?case
    by (rule wp_mono) (use with_messages [OF _ 6] in \<open>auto simp: calm_in_def\<close>)
next
  case (7 w m ids)
  then show ?case
    by (intro wp_mono [OF publish_message_wp])
      (auto simp: backend_ok_dbs pg_messages_def pg_view_def)
next
  case (8 w r u)
  then show ?case by (intro pg_members_exist) (simp_all add: backend_ok_def client_ok_def)
next
  case (13 w room u)
  then show ?case by (intro client_frame_pg) (simp add: backend_ok_def)
next
  case (14 w room)
  then show ?case by (intro client_frame_pg) (simp add: backend_ok_def)
qed (intro frame_view pg_frame)+

end
