(* ===== verification/MessageHandler.thy ===== *)
theory MessageHandler
  imports MessageService
begin

text \<open>
  \<open>services/message/internal/handler\<close>: the gRPC side of the message service.

  A request is the record of its protobuf message, with the rules of \<open>message.proto\<close> as a list of
  the fields that break one; \<open>content\<close> is the \<open>oneof\<close> of seven kinds of content, \<open>nil\<close> when none was
  sent.  The structs of the protobuf package have the fields of the service's, so the records of
  \<open>MessageContent\<close> stand for both.  A string is a list of characters, so its \<open>max_len\<close> counts them.

  The properties say what each request answers and does: what is sent is what members read, who
  may not is refused, and no request changes a message except to mark it deleted.
\<close>

section \<open>Messages\<close>

type_synonym protoMessageType = int

definition MESSAGE_TYPE_UNSPECIFIED :: protoMessageType where "MESSAGE_TYPE_UNSPECIFIED = 0"
definition MESSAGE_TYPE_TEXT :: protoMessageType where "MESSAGE_TYPE_TEXT = 1"
definition MESSAGE_TYPE_IMAGE :: protoMessageType where "MESSAGE_TYPE_IMAGE = 2"
definition MESSAGE_TYPE_VIDEO :: protoMessageType where "MESSAGE_TYPE_VIDEO = 3"
definition MESSAGE_TYPE_VIDEO_NOTE :: protoMessageType where "MESSAGE_TYPE_VIDEO_NOTE = 4"
definition MESSAGE_TYPE_VOICE :: protoMessageType where "MESSAGE_TYPE_VOICE = 5"
definition MESSAGE_TYPE_AUDIO :: protoMessageType where "MESSAGE_TYPE_AUDIO = 6"
definition MESSAGE_TYPE_FILE :: protoMessageType where "MESSAGE_TYPE_FILE = 7"
definition MESSAGE_TYPE_STICKER :: protoMessageType where "MESSAGE_TYPE_STICKER = 8"
definition MESSAGE_TYPE_VIDEO_STICKER :: protoMessageType where "MESSAGE_TYPE_VIDEO_STICKER = 9"
definition MESSAGE_TYPE_EVENT :: protoMessageType where "MESSAGE_TYPE_EVENT = 10"

lemmas proto_type_defs = MESSAGE_TYPE_UNSPECIFIED_def MESSAGE_TYPE_TEXT_def MESSAGE_TYPE_IMAGE_def
  MESSAGE_TYPE_VIDEO_def MESSAGE_TYPE_VIDEO_NOTE_def MESSAGE_TYPE_VOICE_def MESSAGE_TYPE_AUDIO_def
  MESSAGE_TYPE_FILE_def MESSAGE_TYPE_STICKER_def MESSAGE_TYPE_VIDEO_STICKER_def MESSAGE_TYPE_EVENT_def

datatype sendContent =
    SendText TextContent | SendMedia MediaContent | SendFile FileContent | SendVoice VoiceContent
  | SendVideoNote VideoNoteContent | SendSticker StickerContent | SendAudio FileContent

datatype protoContent =
    PText TextContent | PMedia MediaContent | PFile FileContent | PVoice VoiceContent
  | PVideoNote VideoNoteContent | PSticker StickerContent | PEvent EventContent

record protoPreview =
  pp_MessageId :: string
  pp_SenderId :: string
  pp_Type :: protoMessageType
  pp_TextPreview :: "string option"
  pp_FileName :: "string option"
  pp_MimeType :: "string option"

record protoMessage =
  pm_MessageId :: string
  pm_RoomId :: string
  pm_SenderId :: string
  pm_Type :: protoMessageType
  pm_IsDeleted :: bool
  pm_EditedAt :: "time option"
  pm_CreatedAt :: time
  pm_UpdatedAt :: time
  pm_ReplyTo :: "protoPreview option"
  pm_Content :: "protoContent option"

record SendMessageRequest =
  smq_RoomId :: string
  smq_SenderId :: string
  smq_ReplyToId :: "string option"
  smq_Type :: protoMessageType
  smq_Content :: "sendContent option"

record GetMessagesRequest =
  gmq_RoomId :: string
  gmq_RequesterId :: string
  gmq_Cursor :: "string option"
  gmq_Limit :: "32 word"

section \<open>Mapper\<close>

definition messageTypeToProto :: "MessageType \<rightharpoonup> protoMessageType" where
  "messageTypeToProto = map_of
     [(MessageTypeText, MESSAGE_TYPE_TEXT), (MessageTypeImage, MESSAGE_TYPE_IMAGE),
      (MessageTypeVideo, MESSAGE_TYPE_VIDEO), (MessageTypeVideoNote, MESSAGE_TYPE_VIDEO_NOTE),
      (MessageTypeVoice, MESSAGE_TYPE_VOICE), (MessageTypeAudio, MESSAGE_TYPE_AUDIO),
      (MessageTypeFile, MESSAGE_TYPE_FILE), (MessageTypeSticker, MESSAGE_TYPE_STICKER),
      (MessageTypeVideoSticker, MESSAGE_TYPE_VIDEO_STICKER), (MessageTypeEvent, MESSAGE_TYPE_EVENT)]"

definition protoToMessageTypeMap :: "protoMessageType \<rightharpoonup> MessageType" where
  "protoToMessageTypeMap = map_of
     [(MESSAGE_TYPE_TEXT, MessageTypeText), (MESSAGE_TYPE_IMAGE, MessageTypeImage),
      (MESSAGE_TYPE_VIDEO, MessageTypeVideo), (MESSAGE_TYPE_VIDEO_NOTE, MessageTypeVideoNote),
      (MESSAGE_TYPE_VOICE, MessageTypeVoice), (MESSAGE_TYPE_AUDIO, MessageTypeAudio),
      (MESSAGE_TYPE_FILE, MessageTypeFile), (MESSAGE_TYPE_STICKER, MessageTypeSticker),
      (MESSAGE_TYPE_VIDEO_STICKER, MessageTypeVideoSticker), (MESSAGE_TYPE_EVENT, MessageTypeEvent)]"

definition protoToMessageType :: "protoMessageType \<Rightarrow> MessageType option" where
  "protoToMessageType t = mapper_EnumWithOk protoToMessageTypeMap t"

definition previewToProto :: "uuid_lib \<Rightarrow> sMessagePreview \<Rightarrow> protoPreview" where
  "previewToProto U preview =
     \<lparr>pp_MessageId = uuid_String U (sp_MessageID preview), pp_SenderId = uuid_String U (sp_SenderID preview),
      pp_Type = mapper_Enum messageTypeToProto (sp_Type preview) MESSAGE_TYPE_UNSPECIFIED,
      pp_TextPreview = sp_TextPreview preview, pp_FileName = sp_FileName preview,
      pp_MimeType = sp_MimeType preview\<rparr>"

fun contentToProto :: "sContent option \<Rightarrow> protoContent option" where
  "contentToProto None = None"
| "contentToProto (Some (SText c)) = Some (PText \<lparr>tc_Text = tc_Text c\<rparr>)"
| "contentToProto (Some (SMedia c)) = Some (PMedia
     \<lparr>mc_FileID = mc_FileID c, mc_MimeType = mc_MimeType c, mc_FileSize = mc_FileSize c,
      mc_Width = mc_Width c, mc_Height = mc_Height c, mc_ThumbnailID = mc_ThumbnailID c,
      mc_DurationSec = mc_DurationSec c\<rparr>)"
| "contentToProto (Some (SFile c)) = Some (PFile
     \<lparr>fc_FileID = fc_FileID c, fc_MimeType = fc_MimeType c, fc_FileSize = fc_FileSize c,
      fc_FileName = fc_FileName c, fc_DurationSec = fc_DurationSec c\<rparr>)"
| "contentToProto (Some (SVoice c)) = Some (PVoice
     \<lparr>vc_FileID = vc_FileID c, vc_MimeType = vc_MimeType c, vc_FileSize = vc_FileSize c,
      vc_DurationSec = vc_DurationSec c, vc_Waveform = vc_Waveform c\<rparr>)"
| "contentToProto (Some (SVideoNote c)) = Some (PVideoNote
     \<lparr>vn_FileID = vn_FileID c, vn_MimeType = vn_MimeType c, vn_FileSize = vn_FileSize c,
      vn_DurationSec = vn_DurationSec c, vn_Width = vn_Width c, vn_Height = vn_Height c,
      vn_ThumbnailID = vn_ThumbnailID c\<rparr>)"
| "contentToProto (Some (SSticker c)) = Some (PSticker
     \<lparr>sc_FileID = sc_FileID c, sc_MimeType = sc_MimeType c, sc_Emoji = sc_Emoji c,
      sc_SetName = sc_SetName c\<rparr>)"
| "contentToProto (Some (SEvent c)) = Some (PEvent \<lparr>ec_Text = ec_Text c\<rparr>)"

definition messageToProto :: "uuid_lib \<Rightarrow> sMessage \<Rightarrow> protoMessage" where
  "messageToProto U msg =
     \<lparr>pm_MessageId = uuid_String U (sm_ID msg), pm_RoomId = uuid_String U (sm_RoomID msg),
      pm_SenderId = uuid_String U (sm_SenderID msg),
      pm_Type = mapper_Enum messageTypeToProto (sm_Type msg) MESSAGE_TYPE_UNSPECIFIED,
      pm_IsDeleted = (sm_DeletedAt msg \<noteq> None),
      pm_EditedAt = sm_EditedAt msg,
      pm_CreatedAt = sm_CreatedAt msg, pm_UpdatedAt = sm_UpdatedAt msg,
      pm_ReplyTo = map_option (previewToProto U) (sm_ReplyTo msg),
      pm_Content = (if sm_DeletedAt msg \<noteq> None then None else contentToProto (sm_Content msg))\<rparr>"

section \<open>Validation\<close>

definition len_violations :: "string \<Rightarrow> string \<Rightarrow> string list" where
  "len_violations name v = (if v = [] then [name] else [])"

definition gt0_violations :: "string \<Rightarrow> ('l::len) word \<Rightarrow> string list" where
  "gt0_violations name i = (if 0 < sint i then [] else [name])"

definition file_violations :: "FileContent \<Rightarrow> string list" where
  "file_violations c = len_violations ''file_id'' (fc_FileID c) @ len_violations ''mime_type'' (fc_MimeType c) @
     gt0_violations ''file_size'' (fc_FileSize c) @ len_violations ''file_name'' (fc_FileName c)"

fun content_violations :: "sendContent option \<Rightarrow> string list" where
  "content_violations None = []"
| "content_violations (Some (SendText c)) =
     (if 1 \<le> length (tc_Text c) \<and> length (tc_Text c) \<le> 4096 then [] else [''text''])"
| "content_violations (Some (SendMedia c)) =
     len_violations ''file_id'' (mc_FileID c) @ len_violations ''mime_type'' (mc_MimeType c) @
     gt0_violations ''file_size'' (mc_FileSize c) @ gt0_violations ''width'' (mc_Width c) @
     gt0_violations ''height'' (mc_Height c)"
| "content_violations (Some (SendFile c)) = file_violations c"
| "content_violations (Some (SendVoice c)) =
     len_violations ''file_id'' (vc_FileID c) @ len_violations ''mime_type'' (vc_MimeType c) @
     gt0_violations ''file_size'' (vc_FileSize c) @ gt0_violations ''duration_sec'' (vc_DurationSec c)"
| "content_violations (Some (SendVideoNote c)) =
     len_violations ''file_id'' (vn_FileID c) @ len_violations ''mime_type'' (vn_MimeType c) @
     gt0_violations ''file_size'' (vn_FileSize c) @ gt0_violations ''duration_sec'' (vn_DurationSec c) @
     gt0_violations ''width'' (vn_Width c) @ gt0_violations ''height'' (vn_Height c)"
| "content_violations (Some (SendSticker c)) =
     len_violations ''file_id'' (sc_FileID c) @ len_violations ''mime_type'' (sc_MimeType c)"
| "content_violations (Some (SendAudio c)) = file_violations c"

definition send_violations :: "SendMessageRequest \<Rightarrow> string list" where
  "send_violations req =
     len_violations ''room_id'' (smq_RoomId req) @ len_violations ''sender_id'' (smq_SenderId req) @
     (if 1 \<le> smq_Type req \<and> smq_Type req \<le> 10 then [] else [''type'']) @
     content_violations (smq_Content req)"

definition get_messages_violations :: "GetMessagesRequest \<Rightarrow> string list" where
  "get_messages_violations req =
     len_violations ''room_id'' (gmq_RoomId req) @ len_violations ''requester_id'' (gmq_RequesterId req) @
     (if 1 \<le> sint (gmq_Limit req) \<and> sint (gmq_Limit req) \<le> 100 then [] else [''limit''])"

section \<open>The handler\<close>

record 'w messageHandler =
  mh_svc :: "'w MessageService"
  mh_uuid :: uuid_lib
  mh_violations :: "string list \<Rightarrow> string"

text \<open>The type switch of \<open>SendMessage\<close> over the content: the message type and the content of the
  input, or the message of the error.\<close>

fun content_of_request :: "protoMessageType \<Rightarrow> sendContent option \<Rightarrow> string + MessageType \<times> sContent" where
  "content_of_request ty None = Inl ''empty content''"
| "content_of_request ty (Some (SendText c)) =
     (if ty \<noteq> MESSAGE_TYPE_TEXT then Inl ''type must be TEXT for text content''
      else Inr (MessageTypeText, SText \<lparr>tc_Text = tc_Text c\<rparr>))"
| "content_of_request ty (Some (SendMedia media)) =
     (let msgType = protoToMessageType ty
      in if msgType \<noteq> Some MessageTypeImage \<and> msgType \<noteq> Some MessageTypeVideo
         then Inl ''type must be IMAGE or VIDEO for media content''
         else Inr (the msgType, SMedia
           \<lparr>mc_FileID = mc_FileID media, mc_MimeType = mc_MimeType media, mc_FileSize = mc_FileSize media,
            mc_Width = mc_Width media, mc_Height = mc_Height media, mc_ThumbnailID = mc_ThumbnailID media,
            mc_DurationSec = mc_DurationSec media\<rparr>))"
| "content_of_request ty (Some (SendFile file)) =
     (if ty \<noteq> MESSAGE_TYPE_FILE then Inl ''type must be FILE for file content''
      else Inr (MessageTypeFile, SFile
        \<lparr>fc_FileID = fc_FileID file, fc_MimeType = fc_MimeType file, fc_FileSize = fc_FileSize file,
         fc_FileName = fc_FileName file, fc_DurationSec = fc_DurationSec file\<rparr>))"
| "content_of_request ty (Some (SendVoice voice)) =
     (if ty \<noteq> MESSAGE_TYPE_VOICE then Inl ''type must be VOICE for voice content''
      else Inr (MessageTypeVoice, SVoice
        \<lparr>vc_FileID = vc_FileID voice, vc_MimeType = vc_MimeType voice, vc_FileSize = vc_FileSize voice,
         vc_DurationSec = vc_DurationSec voice, vc_Waveform = vc_Waveform voice\<rparr>))"
| "content_of_request ty (Some (SendVideoNote vn)) =
     (if ty \<noteq> MESSAGE_TYPE_VIDEO_NOTE then Inl ''type must be VIDEO_NOTE for video note content''
      else Inr (MessageTypeVideoNote, SVideoNote
        \<lparr>vn_FileID = vn_FileID vn, vn_MimeType = vn_MimeType vn, vn_FileSize = vn_FileSize vn,
         vn_DurationSec = vn_DurationSec vn, vn_Width = vn_Width vn, vn_Height = vn_Height vn,
         vn_ThumbnailID = vn_ThumbnailID vn\<rparr>))"
| "content_of_request ty (Some (SendSticker sticker)) =
     (if ty \<noteq> MESSAGE_TYPE_STICKER then Inl ''type must be STICKER for sticker content''
      else Inr (MessageTypeSticker, SSticker
        \<lparr>sc_FileID = sc_FileID sticker, sc_MimeType = sc_MimeType sticker, sc_Emoji = sc_Emoji sticker,
         sc_SetName = sc_SetName sticker\<rparr>))"
| "content_of_request ty (Some (SendAudio audio)) =
     (if ty \<noteq> MESSAGE_TYPE_AUDIO then Inl ''type must be AUDIO for audio content''
      else Inr (MessageTypeAudio, SFile
        \<lparr>fc_FileID = fc_FileID audio, fc_MimeType = fc_MimeType audio, fc_FileSize = fc_FileSize audio,
         fc_FileName = fc_FileName audio, fc_DurationSec = fc_DurationSec audio\<rparr>))"

text \<open>An id that may be left out or empty.\<close>

definition parse_optional_id ::
    "uuid_lib \<Rightarrow> string option \<Rightarrow> string \<Rightarrow> (uuid option \<Rightarrow> ('w, 'a) op) \<Rightarrow> ('w, 'a) op" where
  "parse_optional_id U s msg k =
     (case s of
        None \<Rightarrow> k None
      | Some str \<Rightarrow> if str = [] then k None else parse_id U str msg (\<lambda>u. k (Some u)))"

definition messageHandler_SendMessage :: "'w messageHandler \<Rightarrow> SendMessageRequest \<Rightarrow> ('w, protoMessage) op" where
  "messageHandler_SendMessage h req =
     validate (mh_violations h) (send_violations req)
     (parse_id (mh_uuid h) (smq_RoomId req) ''invalid room_id'' (\<lambda>roomID.
      parse_id (mh_uuid h) (smq_SenderId req) ''invalid sender_id'' (\<lambda>senderID.
      parse_optional_id (mh_uuid h) (smq_ReplyToId req) ''invalid reply_to_id'' (\<lambda>replyToID.
        (case content_of_request (smq_Type req) (smq_Content req) of
           Inl msg \<Rightarrow> fail (Code_Error CodeInvalidArgument msg)
         | Inr (msgType, content) \<Rightarrow>
             tryE (msvc_SendMessage (mh_svc h)
                 \<lparr>si_RoomID = roomID, si_SenderID = senderID, si_Type = msgType, si_Content = Some content,
                  si_ReplyToID = replyToID\<rparr>)
               (\<lambda>e. if errors_Is e msgSvc_ErrNotMember
                    then fail (Code_Error CodePermissionDenied ''must be a room member'')
                    else if errors_Is e msgSvc_ErrInvalidReplyTarget
                    then fail (Code_Error CodeInvalidArgument
                      ''reply target not found or belongs to a different room'')
                    else fail (CodeInternal_Wrap e))
               (\<lambda>msg. ret (messageToProto (mh_uuid h) msg)))))))"

definition messageHandler_GetMessages ::
    "'w messageHandler \<Rightarrow> GetMessagesRequest \<Rightarrow> ('w, protoMessage list \<times> string option) op" where
  "messageHandler_GetMessages h req =
     validate (mh_violations h) (get_messages_violations req)
     (parse_id (mh_uuid h) (gmq_RoomId req) ''invalid room_id'' (\<lambda>roomID.
      parse_id (mh_uuid h) (gmq_RequesterId req) ''invalid requester_id'' (\<lambda>requesterID.
      parse_optional_id (mh_uuid h) (gmq_Cursor req) ''invalid cursor'' (\<lambda>cursor.
        tryE (msvc_GetMessages (mh_svc h) roomID requesterID cursor (sint (gmq_Limit req)))
          (\<lambda>e. if errors_Is e msgSvc_ErrNotMember
               then fail (Code_Error CodePermissionDenied ''must be a room member'')
               else fail (CodeInternal_Wrap e))
          (\<lambda>(messages, nextCursor).
             ret (List.map (messageToProto (mh_uuid h)) messages,
                  map_option (uuid_String (mh_uuid h)) nextCursor))))))"

definition messageHandler_GetMessageById ::
    "'w messageHandler \<Rightarrow> string \<Rightarrow> string \<Rightarrow> ('w, protoMessage) op" where
  "messageHandler_GetMessageById h messageId requesterId =
     validate (mh_violations h) (len_violations ''message_id'' messageId @ len_violations ''requester_id'' requesterId)
     (parse_id (mh_uuid h) messageId ''invalid message_id'' (\<lambda>messageID.
      parse_id (mh_uuid h) requesterId ''invalid requester_id'' (\<lambda>requesterID.
        tryE (msvc_GetMessageByID (mh_svc h) messageID requesterID)
          (\<lambda>e. if errors_Is e msgSvc_ErrMessageNotFound
               then fail (Code_Error CodeNotFound ''message not found'')
               else if errors_Is e msgSvc_ErrNotMember
               then fail (Code_Error CodePermissionDenied ''must be a room member'')
               else fail (CodeInternal_Wrap e))
          (\<lambda>msg. ret (messageToProto (mh_uuid h) msg)))))"

definition messageHandler_DeleteMessage :: "'w messageHandler \<Rightarrow> string \<Rightarrow> string \<Rightarrow> ('w, unit) op" where
  "messageHandler_DeleteMessage h messageId requesterId =
     validate (mh_violations h) (len_violations ''message_id'' messageId @ len_violations ''requester_id'' requesterId)
     (parse_id (mh_uuid h) messageId ''invalid message_id'' (\<lambda>messageID.
      parse_id (mh_uuid h) requesterId ''invalid requester_id'' (\<lambda>requesterID.
        tryE (msvc_DeleteMessage (mh_svc h) messageID requesterID)
          (\<lambda>e. if errors_Is e msgSvc_ErrMessageNotFound
               then fail (Code_Error CodeNotFound ''message not found'')
               else if errors_Is e msgSvc_ErrNotOwner
               then fail (Code_Error CodePermissionDenied ''only sender can delete message'')
               else fail (CodeInternal_Wrap e))
          ret)))"

text \<open>The wiring of \<open>services/message/cmd/main.go\<close>, with the room service behind the client.\<close>

definition message_service :: "grpc_lib \<Rightarrow> uuid_lib \<Rightarrow> time list \<Rightarrow> (string list \<Rightarrow> string)
    \<Rightarrow> ('z message_world_scheme) MessageService" where
  "message_service L U delays errtxt =
     NewMessageService pgMessageRepository (NewRoomClient L U delays (room_handler U errtxt)) (natsMessagePublisher U)"

definition message_handler :: "grpc_lib \<Rightarrow> uuid_lib \<Rightarrow> time list \<Rightarrow> (string list \<Rightarrow> string)
    \<Rightarrow> ('z message_world_scheme) messageHandler" where
  "message_handler L U delays errtxt =
     \<lparr>mh_svc = message_service L U delays errtxt, mh_uuid = U, mh_violations = errtxt\<rparr>"

section \<open>Lemmas\<close>

lemma type_maps: "protoToMessageType p = Some t \<longleftrightarrow> messageTypeToProto t = Some p"
  by (auto simp: protoToMessageType_def mapper_EnumWithOk_def protoToMessageTypeMap_def messageTypeToProto_def
      proto_type_defs message_type_defs split: if_splits)

text \<open>The content a sent one comes back as.\<close>

fun proto_of_send :: "sendContent \<Rightarrow> protoContent" where
  "proto_of_send (SendText c) = PText c"
| "proto_of_send (SendMedia c) = PMedia c"
| "proto_of_send (SendFile c) = PFile c"
| "proto_of_send (SendVoice c) = PVoice c"
| "proto_of_send (SendVideoNote c) = PVideoNote c"
| "proto_of_send (SendSticker c) = PSticker c"
| "proto_of_send (SendAudio c) = PFile c"

lemma content_of_request_Inr:
  assumes "content_of_request ty c = Inr (t, x)"
  obtains sent r where "c = Some sent" "toRepoContent (Some x) = Some r" "t \<in> set (content_types r)"
    "contentToProto (Some x) = Some (proto_of_send sent)" "messageTypeToProto t = Some ty"
  using assms type_maps
  by (cases "(ty, c)" rule: content_of_request.cases)
    (auto simp: content_types_def messageTypeToProto_def Let_def protoToMessageType_def
      mapper_EnumWithOk_def protoToMessageTypeMap_def proto_type_defs message_type_defs split: if_splits)

lemma request_sendable:
  "content_of_request ty c = Inr (t, x) \<Longrightarrow>
    sendable \<lparr>si_RoomID = a, si_SenderID = b, si_Type = t, si_Content = Some x, si_ReplyToID = i\<rparr>"
  by (erule content_of_request_Inr) (simp add: sendable_def)

text \<open>The input a valid request stands for.\<close>

definition names_optional :: "uuid_lib \<Rightarrow> string option \<Rightarrow> uuid option \<Rightarrow> bool" where
  "names_optional U s i \<longleftrightarrow>
     (case s of
        None \<Rightarrow> i = None
      | Some str \<Rightarrow> if str = [] then i = None else (\<exists>u. i = Some u \<and> uuid_Parse U str = Some u))"

definition names_input :: "uuid_lib \<Rightarrow> SendMessageRequest \<Rightarrow> SendMessageInput \<Rightarrow> bool" where
  "names_input U req input \<longleftrightarrow>
     send_violations req = [] \<and> uuid_Parse U (smq_RoomId req) = Some (si_RoomID input) \<and>
     uuid_Parse U (smq_SenderId req) = Some (si_SenderID input) \<and>
     names_optional U (smq_ReplyToId req) (si_ReplyToID input) \<and>
     (\<exists>c. si_Content input = Some c \<and> content_of_request (smq_Type req) (smq_Content req) = Inr (si_Type input, c))"

lemma parse_optional_named: "names_optional U s i \<Longrightarrow> parse_optional_id U s msg k = k i"
  by (auto simp: names_optional_def parse_optional_id_def parse_id_def split: option.splits if_splits)

lemma names_input_sendable: "names_input U req input \<Longrightarrow> sendable input"
  using request_sendable by (cases input) (fastforce simp: names_input_def)

lemma message_service_eqs:
  "msvc_SendMessage (message_service L U delays errtxt) = messageService_SendMessage (mb.svc L U delays errtxt)"
  "msvc_GetMessages (message_service L U delays errtxt) = messageService_GetMessages (mb.svc L U delays errtxt)"
  "msvc_GetMessageByID (message_service L U delays errtxt) = messageService_GetMessageByID (mb.svc L U delays errtxt)"
  "msvc_DeleteMessage (message_service L U delays errtxt) = messageService_DeleteMessage (mb.svc L U delays errtxt)"
  by (simp_all add: message_service_def NewMessageService_def Let_def)

lemma send_run:
  assumes "names_input U req input"
  shows "messageHandler_SendMessage (message_handler L U delays errtxt) req =
    tryE (messageService_SendMessage (mb.svc L U delays errtxt) input)
      (\<lambda>e. if errors_Is e msgSvc_ErrNotMember
           then fail (Code_Error CodePermissionDenied ''must be a room member'')
           else if errors_Is e msgSvc_ErrInvalidReplyTarget
           then fail (Code_Error CodeInvalidArgument ''reply target not found or belongs to a different room'')
           else fail (CodeInternal_Wrap e))
      (\<lambda>msg. ret (messageToProto U msg))"
  using assms
  by (cases input) (auto simp: names_input_def messageHandler_SendMessage_def message_handler_def validate_def parse_id_def
      parse_optional_named message_service_eqs)

lemma lookup_run:
  assumes "names_id U si i" and "names_id U su u"
  shows "messageHandler_GetMessageById (message_handler L U delays errtxt) si su =
    tryE (messageService_GetMessageByID (mb.svc L U delays errtxt) i u)
      (\<lambda>e. if errors_Is e msgSvc_ErrMessageNotFound
           then fail (Code_Error CodeNotFound ''message not found'')
           else if errors_Is e msgSvc_ErrNotMember
           then fail (Code_Error CodePermissionDenied ''must be a room member'')
           else fail (CodeInternal_Wrap e))
      (\<lambda>msg. ret (messageToProto U msg))"
    and "messageHandler_DeleteMessage (message_handler L U delays errtxt) si su =
    tryE (messageService_DeleteMessage (mb.svc L U delays errtxt) i u)
      (\<lambda>e. if errors_Is e msgSvc_ErrMessageNotFound
           then fail (Code_Error CodeNotFound ''message not found'')
           else if errors_Is e msgSvc_ErrNotOwner
           then fail (Code_Error CodePermissionDenied ''only sender can delete message'')
           else fail (CodeInternal_Wrap e))
      ret"
  using assms
  by (simp_all add: messageHandler_GetMessageById_def messageHandler_DeleteMessage_def message_handler_def
      validate_def len_violations_def parse_id_def names_id_def message_service_eqs)

text \<open>The requests whose strings name ids, with a limit between 1 and 100.\<close>

definition names_page :: "uuid_lib \<Rightarrow> GetMessagesRequest \<Rightarrow> uuid \<Rightarrow> uuid \<Rightarrow> uuid option \<Rightarrow> nat \<Rightarrow> bool" where
  "names_page U req room u cursor n \<longleftrightarrow>
     names_id U (gmq_RoomId req) room \<and> names_id U (gmq_RequesterId req) u \<and>
     names_optional U (gmq_Cursor req) cursor \<and> sint (gmq_Limit req) = int n \<and> 1 \<le> n \<and> n \<le> 100"

lemma page_request_run:
  assumes "names_page U req room u cursor n"
  shows "messageHandler_GetMessages (message_handler L U delays errtxt) req =
    tryE (messageService_GetMessages (mb.svc L U delays errtxt) room u cursor (int n))
      (\<lambda>e. if errors_Is e msgSvc_ErrNotMember
           then fail (Code_Error CodePermissionDenied ''must be a room member'')
           else fail (CodeInternal_Wrap e))
      (\<lambda>(messages, nextCursor). ret (List.map (messageToProto U) messages, map_option (uuid_String U) nextCursor))"
  using assms
  by (auto simp: names_page_def messageHandler_GetMessages_def message_handler_def validate_def
      get_messages_violations_def len_violations_def parse_id_def names_id_def parse_optional_named message_service_eqs)

text \<open>Codes of the verdicts.  \<open>DeleteMessage\<close> knows only two of them.\<close>

definition send_code :: "sentinel \<Rightarrow> Code" where
  "send_code s = (if s = msgSvc_ErrNotMember then CodePermissionDenied else CodeInvalidArgument)"

definition lookup_code :: "sentinel \<Rightarrow> Code" where
  "lookup_code s = (if s = msgSvc_ErrMessageNotFound then CodeNotFound else CodePermissionDenied)"

definition delete_code :: "sentinel \<Rightarrow> Code" where
  "delete_code s =
     (case s of
        msgSvc_ErrMessageNotFound \<Rightarrow> CodeNotFound
      | msgSvc_ErrNotOwner \<Rightarrow> CodePermissionDenied
      | _ \<Rightarrow> CodeInternal)"

lemma calm_in_env: "calm w \<Longrightarrow> calm_in (env w) w"
  by (simp add: calm_in_def)

lemma calm_send:
  assumes "backend_ok U w" and "calm w" and "sendable input" and st: "input_storable input"
    and fresh: "range (uuid_at (env w)) \<inter> dom (pg_messages w) = {}"
  obtains (ok) m ids w' where "messageService_SendMessage (mb.svc L U delays errtxt) input w = (Inr (toMessage m), w')"
      "send_policy (pg_view w) (pg_messages w) input = None"
      "stored (toCreateInput input) (pg_messages w) m (pg_messages w')" "backend_ok U w'" "calm w'"
      "pg_view w' = pg_view w" "members_of (pg_view w) (si_RoomID input) ids"
      "published w' = published w @ [message_event U (toMessage m) ids]"
    | (refused) s w' where "messageService_SendMessage (mb.svc L U delays errtxt) input w = (Inl (Sentinel s), w')"
      "send_policy (pg_view w) (pg_messages w) input = Some s"
      "pg_messages w' = pg_messages w" "published w' = published w"
proof -
  let ?m = "messageService_SendMessage (mb.svc L U delays errtxt) input w"
  note spec = mb.SendMessage_spec [where E = "env w", OF assms(1,3), of L delays errtxt]
  obtain r w' where run: "?m = (r, w')" by (cases ?m)
  show thesis
  proof (cases r)
    case (Inr x)
    then show thesis using wpD [OF spec run] calm_in_env [OF assms(2)] run
      by (auto simp: calm_in_def intro: ok)
  next
    case (Inl e)
    then obtain s where "e = Sentinel s" "send_policy (pg_view w) (pg_messages w) input = Some s"
        "pg_messages w' = pg_messages w" "published w' = published w"
      using wpD [OF spec run] calm_in_env [OF assms(2)] st fresh by auto
    then show thesis using run Inl by (auto intro: refused)
  qed
qed

lemma send_policy_range: "send_policy rv v input = Some s \<Longrightarrow> s \<in> {msgSvc_ErrNotMember, msgSvc_ErrInvalidReplyTarget}"
  by (auto simp: send_policy_def split: if_splits)

lemma calm_delete:
  assumes "backend_ok U w" and "calm w"
  shows "\<exists>w'. messageService_DeleteMessage (mb.svc L U delays errtxt) i u w =
      (unit_result (delete_policy (pg_view w) (pg_messages w) i u), w') \<and> published w' = published w \<and>
    (if delete_policy (pg_view w) (pg_messages w) i u = None
     then soft_deleted i (pg_messages w) (pg_messages w') else pg_messages w' = pg_messages w)"
  using wp_run [OF mb.DeleteMessage_spec [where E = "env w", OF assms(1), of L delays errtxt i u]] calm_in_env [OF assms(2)]
  by (auto simp: unit_result_def)

lemma calm_lookup:
  assumes "backend_ok U w" and "calm w"
  shows "case lookup_policy (pg_view w) (pg_messages w) i u of
      None \<Rightarrow> \<exists>r w'. pg_messages w i = Some r \<and> messageService_GetMessageByID (mb.svc L U delays errtxt) i u w =
        (Inr (toMessage (seen (pg_messages w) r)), w')
    | Some s \<Rightarrow> \<exists>w'. messageService_GetMessageByID (mb.svc L U delays errtxt) i u w = (Inl (Sentinel s), w')"
proof -
  have "lookup_policy (pg_view w) (pg_messages w) i u \<noteq> Some ctx_Err"
    by (simp add: lookup_policy_def split: option.splits)
  then show ?thesis
    using wp_run [OF mb.GetMessageByID_spec [where E = "env w", OF assms(1), of L delays errtxt i u]] calm_in_env [OF assms(2)]
    by (auto split: option.splits)
qed

lemma sorted_wrt_distinct: "sorted_wrt R xs \<Longrightarrow> (\<And>x. \<not> R x x) \<Longrightarrow> distinct xs"
  by (induction xs) auto

section \<open>A small state\<close>

text \<open>The rooms of \<open>sample_rooms\<close>, with two messages of user 2 in the group room: 50, and 51, which
  answers it and is deleted.\<close>

definition sample_messages :: message_table where
  "sample_messages =
     [\<lparr>mr_id = 50, mr_room_id = 10, mr_sender_id = 2, mr_type = ''text'',
       mr_content = JObj [(''Text'', JStr ''hi'')], mr_reply_to_id = None, mr_deleted_at = None,
       mr_edited_at = None, mr_created_at = 20, mr_updated_at = 20\<rparr>,
      \<lparr>mr_id = 51, mr_room_id = 10, mr_sender_id = 2, mr_type = ''text'',
       mr_content = JObj [(''Text'', JStr ''gone'')], mr_reply_to_id = Some 50, mr_deleted_at = Some 22,
       mr_edited_at = None, mr_created_at = 21, mr_updated_at = 22\<rparr>]"

definition sample_chat :: message_world where
  "sample_chat = \<lparr>env = calm_env, calls = 0, published = [], room_db = sample_rooms, message_db = sample_messages\<rparr>"

lemma sample_messages_ok: "messages_ok sample_messages"
proof -
  have "\<exists>c. ''text'' \<in> set (content_types c) \<and> marshalContent (Some c) = Inr (JObj [(''Text'', JStr s)])" for s
    by (rule exI [of _ "RText \<lparr>tc_Text = s\<rparr>"]) (simp add: content_types_def message_type_defs)
  then show ?thesis by (simp add: messages_ok_def row_ok_def sample_messages_def)
qed

lemma sample_chat_ok [simp]: "backend_ok sample_uuids sample_chat" "calm sample_chat"
  by (simp_all add: backend_ok_dbs sample_chat_def sample_messages_ok sample_uuids_ok sample_rooms_def
      tables_ok_def member_key_def calm_def calm_env_def)

lemma sample_chat_views:
  "pg_view sample_chat = tables_view sample_rooms" "pg_messages sample_chat = row_by_id sample_messages"
  "env sample_chat = calm_env"
  by (simp_all add: pg_view_def pg_messages_def sample_chat_def)

lemma sample_members:
  "is_member (tables_view sample_rooms) 10 1" "is_member (tables_view sample_rooms) 10 2"
  "\<not> is_member (tables_view sample_rooms) 10 4"
  by (simp_all add: is_member_def sample_lookups del: tables_view_simps)

lemma sample_fresh: "range (uuid_at (env sample_chat)) \<inter> dom (pg_messages sample_chat) = {}"
  using calm_uuid_neq [of 50] calm_uuid_neq [of 51]
  by (auto simp: sample_chat_views row_by_id_def sample_messages_def calm_env_def split: if_splits)

definition sample_grpc :: grpc_lib where
  "sample_grpc = \<lparr>status_FromError = (\<lambda>e. case e of GRPCStatus c _ \<Rightarrow> Some c
     | StatusError c _ _ \<Rightarrow> Some (GRPCStatus_of c) | _ \<Rightarrow> None), transport_code = (\<lambda>_. Unavailable)\<rparr>"

definition sample_send :: SendMessageRequest where
  "sample_send = \<lparr>smq_RoomId = ''uuuuuuuuuuu'', smq_SenderId = ''uu'', smq_ReplyToId = None,
     smq_Type = MESSAGE_TYPE_TEXT, smq_Content = Some (SendText \<lparr>tc_Text = ''hello''\<rparr>)\<rparr>"

definition sample_input :: SendMessageInput where
  "sample_input = \<lparr>si_RoomID = 10, si_SenderID = 1, si_Type = MessageTypeText,
     si_Content = Some (SText \<lparr>tc_Text = ''hello''\<rparr>), si_ReplyToID = None\<rparr>"

lemma sample_names: "names_input sample_uuids sample_send sample_input"
  by (simp add: names_input_def sample_send_def sample_input_def send_violations_def len_violations_def
      sample_uuids_def names_optional_def MESSAGE_TYPE_TEXT_def)

lemma sample_storable: "input_storable sample_input"
  by (simp add: input_storable_def sample_input_def storable_def no_nul_def)

section \<open>Properties\<close>

text \<open>C15: When no external call fails and the generated ids are fresh, \<open>SendMessage\<close> of the gRPC
  handler stores a message without NUL characters (Postgres stores none, and answers an error)
  exactly when the sender is a member of the room and the message
  replied to, if any, is a live one of that room; it answers with it, and publishes one event to
  exactly the members.  Otherwise it changes nothing and answers with the code of the verdict:
  \<open>PERMISSION_DENIED\<close> also when the room does not exist, \<open>INVALID_ARGUMENT\<close> when the message replied to does not
  (\<open>docs/api.md\<close> has 404 for both, \<open>services/message/docs/api.md\<close> agrees with the code).\<close>

theorem send_message_handler:
  assumes "backend_ok U w" and "calm w" and "names_input U req input" and "input_storable input"
    and "range (uuid_at (env w)) \<inter> dom (pg_messages w) = {}"
  shows "case messageHandler_SendMessage (message_handler L U delays errtxt) req w of (r, w') \<Rightarrow>
    (case send_policy (pg_view w) (pg_messages w) input of
       None \<Rightarrow> \<exists>m ids. r = Inr (messageToProto U (toMessage m)) \<and>
         stored (toCreateInput input) (pg_messages w) m (pg_messages w') \<and>
         members_of (pg_view w) (si_RoomID input) ids \<and>
         published w' = published w @ [message_event U (toMessage m) ids]
     | Some s \<Rightarrow> answers (send_code s) r \<and> pg_messages w' = pg_messages w \<and> published w' = published w)"
proof (cases rule: calm_send [OF assms(1,2) names_input_sendable [OF assms(3)] assms(4,5), of L delays errtxt])
  case (1 m ids w')
  then show ?thesis unfolding send_run [OF assms(3)] by (auto simp: tryE_def ret_def)
next
  case (2 s w')
  from send_policy_range [OF 2(2)] 2 show ?thesis
    unfolding send_run [OF assms(3)] by (auto simp: tryE_def fail_def send_code_def)
qed

theorem send_message_handler_witness:
  "\<exists>m. fst (messageHandler_SendMessage (message_handler sample_grpc sample_uuids [] concat) sample_send sample_chat) =
      Inr (messageToProto sample_uuids (toMessage m))"
proof -
  have "send_policy (pg_view sample_chat) (pg_messages sample_chat) sample_input = None"
    by (simp add: send_policy_def sample_chat_views sample_input_def sample_members reply_ok_def)
  then show ?thesis
    using send_message_handler [OF sample_chat_ok sample_names sample_storable sample_fresh, of sample_grpc "[]" concat]
    by (auto split: prod.splits)
qed

text \<open>C18: What is sent is what members read.  After \<open>SendMessage\<close> answered a message, when no external
  call fails, \<open>GetMessageById\<close> answers every member of the room the same message: its id, sender,
  type and content are those sent, it is not deleted, and it shows a preview of the message it
  replies to exactly when one was named (the answer of \<open>SendMessage\<close> itself never does).\<close>

theorem send_then_get:
  assumes "backend_ok U w" and "calm w" and "names_input U req input" and "input_storable input"
    and "range (uuid_at (env w)) \<inter> dom (pg_messages w) = {}"
    and "send_policy (pg_view w) (pg_messages w) input = None"
    and "is_member (pg_view w) (si_RoomID input) u"
  shows "case messageHandler_SendMessage (message_handler L U delays errtxt) req w of (r, w1) \<Rightarrow>
    \<exists>pm pv. r = Inr pm \<and> pm_ReplyTo pm = None \<and>
      fst (messageHandler_GetMessageById (message_handler L U delays errtxt) (pm_MessageId pm) (uuid_String U u) w1) =
        Inr (pm\<lparr>pm_ReplyTo := pv\<rparr>) \<and>
      pm_SenderId pm = uuid_String U (si_SenderID input) \<and> pm_RoomId pm = uuid_String U (si_RoomID input) \<and>
      pm_Type pm = smq_Type req \<and> pm_Content pm = map_option proto_of_send (smq_Content req) \<and>
      \<not> pm_IsDeleted pm \<and> (pv = None \<longleftrightarrow> si_ReplyToID input = None)"
proof (cases rule: calm_send [OF assms(1,2) names_input_sendable [OF assms(3)] assms(4,5), of L delays errtxt])
  case (1 m ids w1)
  obtain r where r: "pg_messages w1 = (pg_messages w)(mr_id r := Some r)" "mr_room_id r = si_RoomID input"
      "mr_sender_id r = si_SenderID input" "mr_type r = si_Type input"
      "row_content r = toRepoContent (si_Content input)" "mr_reply_to_id r = si_ReplyToID input"
      "mr_deleted_at r = None" "m = message_of (r, None)" "pg_messages w (mr_id r) = None"
    using 1(3) by (auto simp: stored_def toCreateInput_def)
  let ?msg = "seen (pg_messages w1) r"
  have "lookup_policy (pg_view w1) (pg_messages w1) (mr_id r) u = None"
    using assms(7) r 1(6) by (simp add: lookup_policy_def)
  with calm_lookup [OF 1(4,5), where i = "mr_id r" and u = u and L = L and delays = delays and errtxt = errtxt] r(1)
  have look: "fst (messageService_GetMessageByID (mb.svc L U delays errtxt) (mr_id r) u w1) = Inr (toMessage ?msg)"
    by auto
  have U: "names_id U (uuid_String U v) v" for v
    using assms(1) by (simp add: names_id_def backend_ok_dbs uuid_lib_ok_def)
  obtain sent where sent: "smq_Content req = Some sent"
      "contentToProto (si_Content input) = Some (proto_of_send sent)" "messageTypeToProto (si_Type input) = Some (smq_Type req)"
    using assms(3) by (auto simp: names_input_def elim: content_of_request_Inr)
  have reply: "m_ReplyTo ?msg = None \<longleftrightarrow> si_ReplyToID input = None"
    using assms(6) r
    by (auto simp: seen_def buildReplyPreview_def send_policy_def reply_ok_def Let_def
        split: option.splits if_splits)
  have same: "messageToProto U (toMessage ?msg) =
      (messageToProto U (toMessage m))\<lparr>pm_ReplyTo := map_option (previewToProto U) (map_option toPreview (m_ReplyTo ?msg))\<rparr>"
    using r(8) by (simp add: messageToProto_def toMessage_def seen_def message_of_def)
  have get: "fst (messageHandler_GetMessageById (message_handler L U delays errtxt)
        (uuid_String U (mr_id r)) (uuid_String U u) w1) = Inr (messageToProto U (toMessage ?msg))"
    using look unfolding lookup_run [OF U U] by (auto simp: tryE_def ret_def split: prod.splits sum.splits)
  show ?thesis
    unfolding send_run [OF assms(3)] tryE_def 1(1) prod.case sum.case ret_def
    using get r(2-8) sent reply unfolding same
    by (auto simp: messageToProto_def toMessage_def message_of_def mapper_Enum_def buildReplyPreview_def)
next
  case (2 s w')
  with assms(6) show ?thesis by simp
qed

theorem send_then_get_witness:
  "case messageHandler_SendMessage (message_handler sample_grpc sample_uuids [] concat) sample_send sample_chat of (r, w1) \<Rightarrow>
    \<exists>pm. r = Inr pm \<and> pm_Content pm = Some (PText \<lparr>tc_Text = ''hello''\<rparr>)"
proof -
  have "send_policy (pg_view sample_chat) (pg_messages sample_chat) sample_input = None"
    by (simp add: send_policy_def sample_chat_views sample_input_def sample_members reply_ok_def)
  moreover have "is_member (pg_view sample_chat) (si_RoomID sample_input) 2"
    by (simp add: sample_chat_views sample_input_def sample_members)
  ultimately show ?thesis
    using send_then_get [OF sample_chat_ok sample_names sample_storable sample_fresh, where u = 2 and L = sample_grpc and delays = "[]" and errtxt = concat]
    by (auto simp: sample_send_def)
qed

text \<open>C27: When no external call fails, \<open>DeleteMessage\<close> of the gRPC handler marks a message deleted
  exactly when its sender, still a member of the room, asks and it is not deleted yet.  A stranger
  to the room, and a sender who deletes twice, get an internal error (\<open>delete_code\<close>): the handler
  does not know \<open>service.ErrNotMember\<close>, and the service passes on the sentinel of the repository,
  which is not the one the handler compares with.  (\<open>services/message/docs/api.md\<close> says that membership is not
  checked; ADR-012 and the code say that a sender who left may not delete.)\<close>

theorem delete_message_handler:
  assumes "backend_ok U w" and "calm w" and "names_id U messageId i" and "names_id U requesterId u"
  shows "case messageHandler_DeleteMessage (message_handler L U delays errtxt) messageId requesterId w of (r, w') \<Rightarrow>
    published w' = published w \<and>
    (case delete_policy (pg_view w) (pg_messages w) i u of
       None \<Rightarrow> r = Inr () \<and> soft_deleted i (pg_messages w) (pg_messages w')
     | Some s \<Rightarrow> answers (delete_code s) r \<and> pg_messages w' = pg_messages w)"
proof -
  obtain w' where "messageService_DeleteMessage (mb.svc L U delays errtxt) i u w =
      (unit_result (delete_policy (pg_view w) (pg_messages w) i u), w')" "published w' = published w"
    "if delete_policy (pg_view w) (pg_messages w) i u = None
     then soft_deleted i (pg_messages w) (pg_messages w') else pg_messages w' = pg_messages w"
    using calm_delete [OF assms(1,2), of L delays errtxt i u] by blast
  moreover have "s \<in> {msgSvc_ErrMessageNotFound, msgSvc_ErrNotMember, msgSvc_ErrNotOwner, msgRepo_ErrMessageNotFound}"
    if "delete_policy (pg_view w) (pg_messages w) i u = Some s" for s
    using that by (auto simp: delete_policy_def split: option.splits if_splits)
  ultimately show ?thesis
    unfolding lookup_run(2) [OF assms(3,4)]
    by (cases "delete_policy (pg_view w) (pg_messages w) i u")
      (auto simp: tryE_def ret_def fail_def unit_result_def delete_code_def)
qed

theorem delete_message_handler_witness:
  "answers CodeInternal (fst (messageHandler_DeleteMessage (message_handler sample_grpc sample_uuids [] concat)
      (replicate 52 CHR ''u'') ''uuu'' sample_chat))"
proof -
  have "delete_policy (pg_view sample_chat) (pg_messages sample_chat) 51 2 = Some msgRepo_ErrMessageNotFound"
    by (simp add: delete_policy_def sample_chat_views row_by_id_def sample_messages_def sample_members)
  moreover have "names_id sample_uuids (replicate 52 CHR ''u'') 51" "names_id sample_uuids ''uuu'' 2"
    by (simp_all add: names_id_def sample_uuids_def)
  ultimately show ?thesis
    using delete_message_handler [OF sample_chat_ok, of "replicate 52 CHR ''u''" 51 "''uuu''" 2 sample_grpc "[]" concat]
    by (auto simp: delete_code_def split: prod.splits)
qed

text \<open>C25: Whatever the environment does, \<open>GetMessageById\<close> of the gRPC handler answers a message only
  to a member of its room, answers the message as it is stored, never the content of a deleted
  one, and changes no message.\<close>

theorem get_message_handler:
  assumes "backend_ok U w" and "names_id U messageId i" and "names_id U requesterId u"
  shows "case messageHandler_GetMessageById (message_handler L U delays errtxt) messageId requesterId w of (r, w') \<Rightarrow>
    pg_messages w' = pg_messages w \<and>
    (\<forall>pm. r = Inr pm \<longrightarrow>
       (\<exists>row. pg_messages w i = Some row \<and> is_member (pg_view w) (mr_room_id row) u \<and>
          pm = messageToProto U (toMessage (seen (pg_messages w) row)) \<and>
          (mr_deleted_at row \<noteq> None \<longrightarrow> pm_IsDeleted pm \<and> pm_Content pm = None))) \<and>
    (calm w \<longrightarrow> (case lookup_policy (pg_view w) (pg_messages w) i u of
       None \<Rightarrow> \<exists>pm. r = Inr pm | Some s \<Rightarrow> answers (lookup_code s) r))"
proof -
  let ?m = "messageService_GetMessageByID (mb.svc L U delays errtxt) i u"
  note spec = mb.GetMessageByID_spec [where E = "env w", OF assms(1), of L delays errtxt i u]
  have same: "pg_messages w' = pg_messages w" if "mb.unchanged U (env w) w w'" for w'
    using that by (simp add: mb.unchanged_def)
  have range: "s \<in> {msgSvc_ErrMessageNotFound, msgSvc_ErrNotMember}"
    if "lookup_policy (pg_view w) (pg_messages w) i u = Some s" for s
    using that by (auto simp: lookup_policy_def split: option.splits if_splits)
  obtain r w' where run: "?m w = (r, w')" by (cases "?m w")
  show ?thesis
  proof (cases r)
    case (Inr msg)
    with wpD [OF spec run] same show ?thesis
      unfolding lookup_run(1) [OF assms(2,3)]
      by (auto simp: tryE_def ret_def run lookup_policy_def messageToProto_def split: option.splits if_splits)
  next
    case (Inl e)
    with wpD [OF spec run] same range calm_in_env [of w] show ?thesis
      unfolding lookup_run(1) [OF assms(2,3)]
      by (auto simp: tryE_def fail_def run lookup_code_def split: option.splits)
  qed
qed

theorem get_message_handler_witness:
  "\<exists>pm. fst (messageHandler_GetMessageById (message_handler sample_grpc sample_uuids [] concat)
      (replicate 52 CHR ''u'') ''uu'' sample_chat) = Inr pm \<and> pm_IsDeleted pm \<and> pm_Content pm = None"
proof -
  have "lookup_policy (pg_view sample_chat) (pg_messages sample_chat) 51 1 = None"
    by (simp add: lookup_policy_def sample_chat_views row_by_id_def sample_messages_def sample_members)
  moreover have "\<exists>r. pg_messages sample_chat 51 = Some r \<and> mr_deleted_at r \<noteq> None"
    by (simp add: sample_chat_views row_by_id_def sample_messages_def)
  moreover have "names_id sample_uuids (replicate 52 CHR ''u'') 51" "names_id sample_uuids ''uu'' 1"
    by (simp_all add: names_id_def sample_uuids_def)
  ultimately show ?thesis
    using get_message_handler [OF sample_chat_ok(1), of "replicate 52 CHR ''u''" 51 "''uu''" 1 sample_grpc "[]" concat]
    by (auto split: prod.splits)
qed

text \<open>C26: Whatever the environment does, a page that \<open>GetMessages\<close> of the gRPC handler answers is one
  a member asked for, and holds the newest messages of the room that are not deleted and older
  than the cursor, newest first, at most as many as the limit; the next cursor is there exactly
  when more are left; and a cursor, when one is given, names a message.  When no external call fails, a user
  who is no member is \<open>PERMISSION_DENIED\<close>, a member whose cursor names no message is answered \<open>INTERNAL\<close>, and
  every other member gets a page.  (\<open>docs/api.md\<close> says that pages show deleted messages without content; the code
  leaves them out, as \<open>services/message/docs/api.md\<close> says.)\<close>

theorem get_messages_handler:
  assumes "backend_ok U w" and "names_page U req room u cursor n"
  shows "case messageHandler_GetMessages (message_handler L U delays errtxt) req w of (r, w') \<Rightarrow>
    pg_messages w' = pg_messages w \<and>
    (\<forall>pms next. r = Inr (pms, next) \<longrightarrow> is_member (pg_view w) room u \<and>
       (\<exists>ms c. page_of (pg_messages w) room cursor n (ms, c) \<and>
          pms = List.map (messageToProto U \<circ> toMessage) ms \<and> next = map_option (uuid_String U) c) \<and>
       (\<forall>c. cursor = Some c \<longrightarrow> pg_messages w c \<noteq> None)) \<and>
    (calm w \<longrightarrow>
       (if \<not> is_member (pg_view w) room u then answers CodePermissionDenied r
        else if \<exists>c. cursor = Some c \<and> pg_messages w c = None then answers CodeInternal r
        else \<exists>p. r = Inr p))"
proof -
  let ?m = "messageService_GetMessages (mb.svc L U delays errtxt) room u cursor (int n)"
  have n: "1 \<le> int n" using assms(2) by (simp add: names_page_def)
  note spec = mb.GetMessages_spec [where E = "env w", OF assms(1) n, of L delays errtxt room u cursor]
  have same: "pg_messages w' = pg_messages w" if "mb.unchanged U (env w) w w'" for w'
    using that by (simp add: mb.unchanged_def)
  obtain r w' where run: "?m w = (r, w')" by (cases "?m w")
  show ?thesis
  proof (cases r)
    case (Inr page)
    then obtain ms c where page: "page = (List.map toMessage ms, c)" "is_member (pg_view w) room u"
        "page_of (pg_messages w) room cursor n (ms, c)" "pg_messages w' = pg_messages w"
        "\<forall>c. cursor = Some c \<longrightarrow> pg_messages w c \<noteq> None"
      using wpD [OF spec run] same by auto
    then show ?thesis
      unfolding page_request_run [OF assms(2)] using Inr run
      by (auto simp: tryE_def ret_def)
  next
    case (Inl e)
    with wpD [OF spec run] same calm_in_env [of w] show ?thesis
      unfolding page_request_run [OF assms(2)]
      by (auto simp: tryE_def fail_def run CodeInternal_Wrap_def Code_Wrap_def)
  qed
qed

theorem get_messages_handler_witness:
  "answers CodePermissionDenied (fst (messageHandler_GetMessages (message_handler sample_grpc sample_uuids [] concat)
      \<lparr>gmq_RoomId = ''uuuuuuuuuuu'', gmq_RequesterId = ''uuuuu'', gmq_Cursor = None, gmq_Limit = 20\<rparr> sample_chat))"
proof -
  have "names_page sample_uuids \<lparr>gmq_RoomId = ''uuuuuuuuuuu'', gmq_RequesterId = ''uuuuu'', gmq_Cursor = None,
      gmq_Limit = 20\<rparr> 10 4 None 20"
    by (simp add: names_page_def names_id_def sample_uuids_def names_optional_def)
  from get_messages_handler [OF sample_chat_ok(1) this, of sample_grpc "[]" concat] show ?thesis
    by (auto simp: sample_chat_views sample_members split: prod.splits)
qed

text \<open>C11: Reading page after page, each with the cursor of the last, visits every message of the room
  that is not deleted exactly once, newest first, and ends: with more fuel than there are messages
  the crawl does not run out of it.\<close>

theorem pages_visit_all:
  assumes "messages_ok (message_db w)" and "limit \<ge> 1" and "calm w" and "length (message_db w) < fuel"
  shows "\<exists>rs. crawl fuel room limit None w = Some (List.map (seen (pg_messages w)) rs) \<and>
    sorted_wrt (\<lambda>a b. mkey b < mkey a) rs \<and> distinct rs \<and>
    set rs = {r \<in> set (message_db w). live_in room r}"
proof -
  let ?rs = "room_rows room (message_db w)"
  have "length ?rs \<le> length (message_db w)" by (simp add: room_rows_def)
  then have "crawl fuel room limit None w = Some (List.map (message_of \<circ> with_reply (message_db w)) (drop 0 ?rs))"
    using assms by (intro crawl_from) (auto simp: before_cursor_def)
  moreover have "message_of \<circ> with_reply (message_db w) = seen (pg_messages w)"
    by (simp add: fun_eq_iff with_reply_def seen_def pg_messages_def)
  moreover have desc: "sorted_wrt (\<lambda>a b. mkey b < mkey a) ?rs"
    using assms(1) by (intro room_rows_desc) (simp add: messages_ok_def)
  moreover have "distinct ?rs"
    using desc by (rule sorted_wrt_distinct) simp
  ultimately show ?thesis using room_rows_set [of room "message_db w"] by auto
qed

theorem pages_visit_all_witness:
  "\<exists>rs. crawl 3 10 1 None sample_chat = Some (List.map (seen (pg_messages sample_chat)) rs) \<and>
    set rs = {r \<in> set sample_messages. live_in 10 r}"
proof -
  have "messages_ok (message_db sample_chat)" "length (message_db sample_chat) < 3" "message_db sample_chat = sample_messages"
    using sample_messages_ok by (simp_all add: sample_chat_def) (simp add: sample_messages_def)
  then show ?thesis
    using pages_visit_all [of sample_chat 1 3 10] by auto
qed

text \<open>C37: The content of a message survives the table: whatever \<open>marshalContent\<close> writes for a content
  that belongs to the message's type, \<open>unmarshalContent\<close> reads back, and it always writes something.\<close>

theorem content_round_trip:
  assumes "ty \<in> set (content_types c)"
  shows "case marshalContent (Some c) of Inl e \<Rightarrow> False | Inr j \<Rightarrow> unmarshalContent ty j = Inr c"
  using marshal_total [of c] unmarshal_marshal [OF assms] by auto

theorem content_round_trip_witness:
  "unmarshalContent MessageTypeVoice (case marshalContent (Some (RVoice \<lparr>vc_FileID = ''f'', vc_MimeType = ''m'',
      vc_FileSize = 7, vc_DurationSec = 3, vc_Waveform = Some [1, 2, 255]\<rparr>)) of Inr j \<Rightarrow> j) =
    Inr (RVoice \<lparr>vc_FileID = ''f'', vc_MimeType = ''m'', vc_FileSize = 7, vc_DurationSec = 3,
      vc_Waveform = Some [1, 2, 255]\<rparr>)"
  using content_round_trip [of MessageTypeVoice "RVoice \<lparr>vc_FileID = ''f'', vc_MimeType = ''m'',
      vc_FileSize = 7, vc_DurationSec = 3, vc_Waveform = Some [1, 2, 255]\<rparr>"]
  by (simp add: content_types_def split: sum.splits)

text \<open>Asking the room service ends: with \<open>n\<close> configured delays and an attempt of at most \<open>k\<close>
  external calls, \<open>withRetry\<close> makes at most \<open>n * (k + 1)\<close> external calls and waits (or the \<open>k\<close> of
  the one attempt when no delays are configured), and an error that cannot be retried is reported
  after the first attempt.\<close>

theorem withRetry_bound:
  assumes "\<And>w. calls (snd (fn w)) \<le> calls w + k"
  shows "calls (snd (withRetry L delays fn w)) \<le> calls w + max 1 (length delays) * (k + 1) \<and>
    (\<forall>e w1. fn w = (Inl e, w1) \<and> \<not> retryable L e \<and> \<not> ctx_done w \<longrightarrow> withRetry L delays fn w = (Inl e, w1))"
proof -
  have "calls (snd (withRetry L delays fn w)) \<le> calls w + max 1 (length delays) * (k + 1)"
  proof (cases "delays = []")
    case True
    then show ?thesis using assms [of w] by (simp add: withRetry_def)
  next
    case False
    then have "max 1 (length delays) = length delays" by (cases delays) auto
    then show ?thesis
      using retry_loop_bound [where fn = fn, OF assms, of L delays "Errorf []" w] False by (simp add: withRetry_def)
  qed
  then show ?thesis by (cases delays) (auto simp: withRetry_def)
qed

theorem withRetry_bound_witness:
  "calls (snd (withRetry sample_grpc [1, 2, 3] (\<lambda>w. (Inl (Errorf []), tick w) :: (error + unit) \<times> message_world) sample_chat)) \<le> 6"
proof -
  have "calls (snd (withRetry sample_grpc [1, 2, 3] (\<lambda>w. (Inl (Errorf []), tick w) :: (error + unit) \<times> message_world) sample_chat)) \<le>
      calls sample_chat + max 1 (length [1, 2, 3 :: time]) * (1 + 1)"
    using withRetry_bound [of "\<lambda>w. (Inl (Errorf []), tick w) :: (error + unit) \<times> message_world" 1 sample_grpc "[1, 2, 3]" sample_chat]
    by simp
  then show ?thesis by (simp add: sample_chat_def)
qed

end
