(* ===== verification/Chat.thy ===== *)
theory Chat
  imports MessageHandler
begin

text \<open>
  The room service and the message service in one world: a sequence of requests to either, each
  served under any behaviour of the environment.  The message service asks the room service; the
  room service leaves the messages alone, so what each service promises holds for the whole.
\<close>

section \<open>Rooms and messages together\<close>

text \<open>The room service does not touch the messages or the environment.\<close>

definition messages_and_env :: "message_table \<Rightarrow> environment \<Rightarrow> 'z message_world_scheme \<Rightarrow> bool" where
  "messages_and_env d E w \<longleftrightarrow> message_db w = d \<and> env w = E"

lemma kept_env_calls [kept_intros]:
  "kept (messages_and_env d E) (room_pool s)"
  "kept (messages_and_env d E) rows_Err" "kept (messages_and_env d E) rows_Scan"
  "kept (messages_and_env d E) begin_tx" "kept (messages_and_env d E) (js_Publish sub data)"
proof -
  have "kept (messages_and_env d E) (ext_call (run_stmt room_db put_room_db t u s))" for t u
    by (rule kept_ext_call) (auto simp: messages_and_env_def kept_def run_stmt_def put_room_db_def split: sum.splits)
  then show "kept (messages_and_env d E) (room_pool s)"
    unfolding kept_def room_pool_def pool_call_def by blast
  show "kept (messages_and_env d E) rows_Err" "kept (messages_and_env d E) rows_Scan" "kept (messages_and_env d E) begin_tx"
    unfolding rows_Err_def rows_Scan_def begin_tx_def
    by (rule kept_ext_call; simp add: kept_def messages_and_env_def)+
  show "kept (messages_and_env d E) (js_Publish sub data)"
    by (rule kept_js_Publish) (simp_all add: messages_and_env_def)
qed

lemma kept_env_tx [kept_intros]:
  "kept (\<lambda>(w, _). messages_and_env d E w) (tx_call t s)"
  "kept (\<lambda>(w, _). messages_and_env d E w) (tx_commit put_room_db)"
  by (auto simp: kept_def tx_call_def tx_commit_def messages_and_env_def put_room_db_def
      split: fault.splits sum.splits prod.splits)

lemma frame_roomService:
  "kept (messages_and_env d E) (\<lambda>w. ((Inr () :: error + unit), serve (room_service U) req w))"
proof -
  have "kept (messages_and_env d E) (svc_CreateRoom (room_service U) name ty c p)"
      "kept (messages_and_env d E) (svc_GetRoom (room_service U) rid)"
      "kept (messages_and_env d E) (svc_UpdateRoom (room_service U) rid u name)"
      "kept (messages_and_env d E) (svc_DeleteRoom (room_service U) rid u)"
      "kept (messages_and_env d E) (svc_AddMember (room_service U) rid x u)"
      "kept (messages_and_env d E) (svc_RemoveMember (room_service U) rid x u)"
      "kept (messages_and_env d E) (svc_GetRoomMembers (room_service U) rid)"
      "kept (messages_and_env d E) (svc_IsMember (room_service U) rid u)"
      "kept (messages_and_env d E) (svc_GetUserRooms (room_service U) u)" for name ty c p rid u x
    unfolding room_service_def NewRoomService_def Let_def RoomService.select_convs roomService_defs
      roomService.select_convs pgRoomRepository_def RoomRepository.select_convs pgRoom_defs
      natsRoomPublisher_def RoomPublisher.select_convs publisher_PublishRoomCreated_def
      publisher_PublishMembershipChanged_def publisher_PublishRoomUpdated_def publisher_PublishRoomDeleted_def
      js_publish_wrapped_def
    by (intro kept_intros kept_in_tx)+
  then show ?thesis
    by (cases req) (simp_all add: kept_def serve_def)
qed

lemma serve_room_frame:
  "message_db (serve (room_service U) req w) = message_db w \<and> env (serve (room_service U) req w) = env w"
  using frame_roomService [of "message_db w" "env w" U req] unfolding kept_def messages_and_env_def snd_conv by blast

section \<open>Sequences of requests\<close>

datatype chat_request = RoomRequest room_request | MessageRequest message_request

fun chat_request_ok :: "chat_request \<Rightarrow> bool" where
  "chat_request_ok (RoomRequest req) = True"
| "chat_request_ok (MessageRequest req) = message_request_ok req"

definition serve_chat :: "grpc_lib \<Rightarrow> uuid_lib \<Rightarrow> time list \<Rightarrow> (string list \<Rightarrow> string) \<Rightarrow> chat_request
    \<Rightarrow> 'z message_world_scheme \<Rightarrow> 'z message_world_scheme" where
  "serve_chat L U delays errtxt req w =
     (case req of
        RoomRequest r \<Rightarrow> serve (room_service U) r w
      | MessageRequest r \<Rightarrow> serve_message (message_service L U delays errtxt) r w)"

text \<open>The facts that hold in every state.\<close>

definition chat_inv :: "uuid_lib \<Rightarrow> 'z message_world_scheme \<Rightarrow> bool" where
  "chat_inv U w \<longleftrightarrow> backend_ok U w \<and> rooms_inv (pg_view w) \<and> ids_match (pg_messages w) \<and>
     replies_inside (pg_messages w)"

lemma serve_chat_step:
  assumes w: "chat_inv U w" and ok: "chat_request_ok req" and w'_def: "w' = serve_chat L U delays errtxt req w"
  shows "chat_inv U w' \<and> history (pg_messages w) (pg_messages w')"
proof (cases req)
  case (RoomRequest r)
  have ok: "pg_ok w" and inv: "rooms_inv (pg_view w)"
    using w by (auto simp: chat_inv_def backend_ok_def client_ok_def)
  have w': "w' = serve (NewRoomService pgRoomRepository (natsRoomPublisher U)) r w"
    by (simp add: w'_def serve_chat_def RoomRequest room_service_def)
  have "pg_ok w'" and "rooms_inv (pg_view w')"
    using pgb.serve_step [OF ok, of U r] inv unfolding w' by (auto dest: room_step_inv)
  moreover have "pg_messages w' = pg_messages w" "pg_messages_ok w' = pg_messages_ok w"
    using serve_room_frame [of U r w] unfolding w' room_service_def pg_messages_def pg_messages_ok_def by simp_all
  ultimately show ?thesis using w history_refl
    by (simp add: chat_inv_def backend_ok_def client_ok_def)
next
  case (MessageRequest r)
  have w': "w' = serve_message (NewMessageService pgMessageRepository (NewRoomClient L U delays (room_handler U errtxt))
      (natsMessagePublisher U)) r w"
    by (simp add: w'_def serve_chat_def MessageRequest message_service_def)
  have ok: "message_request_ok r" and inv: "backend_ok U w" using ok w MessageRequest by (auto simp: chat_inv_def)
  note step = mb.serve_message_step [OF inv ok, of L delays errtxt, folded w']
  then have "history (pg_messages w) (pg_messages w')"
    using history_refl message_step_history by metis
  moreover have "ids_match (pg_messages w') \<and> replies_inside (pg_messages w')"
    using step w message_step_invs unfolding chat_inv_def by metis
  ultimately show ?thesis using step w by (simp add: chat_inv_def)
qed

lemma serve_chat_all:
  assumes "chat_inv U w" and "\<forall>req \<in> set reqs. chat_request_ok req"
  shows "chat_inv U (fold (serve_chat L U delays errtxt) reqs w) \<and>
    history (pg_messages w) (pg_messages (fold (serve_chat L U delays errtxt) reqs w))"
  using assms
proof (induction reqs arbitrary: w)
  case (Cons req reqs)
  from serve_chat_step [OF Cons.prems(1), of req _ L delays errtxt] Cons.prems(2)
  have one: "chat_inv U (serve_chat L U delays errtxt req w)"
    "history (pg_messages w) (pg_messages (serve_chat L U delays errtxt req w))" by auto
  from Cons.IH [OF one(1)] Cons.prems(2) show ?case using history_trans [OF one(2)] by simp
qed (simp add: history_refl)

definition chat_world_of :: "environment \<Rightarrow> room_tables \<Rightarrow> message_table \<Rightarrow> message_world" where
  "chat_world_of E rdb mdb = \<lparr>env = E, calls = 0, published = [], room_db = rdb, message_db = mdb\<rparr>"

lemma chat_start: "uuid_lib_ok U \<Longrightarrow> chat_inv U (chat_world_of E no_rooms [])"
  by (simp add: chat_inv_def backend_ok_dbs chat_world_of_def no_rooms_def tables_ok_def messages_ok_def
      pg_view_def rooms_inv_def room_inv_def direct_room_of_def pg_messages_def row_by_id_def ids_match_def
      replies_inside_def)

text \<open>The state after some requests to a fresh installation.\<close>

definition chat_after :: "grpc_lib \<Rightarrow> uuid_lib \<Rightarrow> time list \<Rightarrow> (string list \<Rightarrow> string) \<Rightarrow> environment
    \<Rightarrow> chat_request list \<Rightarrow> message_world" where
  "chat_after L U delays errtxt E reqs = fold (serve_chat L U delays errtxt) reqs (chat_world_of E no_rooms [])"

end
