(* ===== verification/Interleaving.thy ===== *)
theory Interleaving
  imports Chat
begin

text \<open>
  Requests that run at the same time.  The other theories serve one request after the other; here other
  requests act between the statements of one.

  Every method of a repository is one statement, or one transaction that Postgres makes serial, so
  what others do happens between the calls of the repository and of the publisher: \<open>interrupted view I repo\<close>
  is the repository \<open>repo\<close> where the effect \<open>I\<close> of others comes before every call, and the service is the one
  of the code over this repository.  Beside the world runs a trace with one entry for every call, its turn:
  the rooms before others acted, the rooms the call found, the rooms it left.  So what others did and
  what the request did are told apart: \<open>chain\<close> says that the trace has no gaps and that others did only what
  the relation given allows them, \<open>once\<close> that exactly one call had the effect of the request.
  \<open>I\<close> is any function that changes the rooms as requests do (the rely); the theorem says that a request, too,
  changes the rooms at most once, in such a way (the guarantee).
\<close>

section \<open>Turns\<close>

definition others_first :: "('w \<Rightarrow> 'w) \<Rightarrow> ('w, 'a) op \<Rightarrow> ('w, 'a) op" where
  "others_first I m w = m (I w)"

lemma wp_others_first [wp_simps]: "wp (others_first I m) Q E w \<longleftrightarrow> wp m Q E (I w)"
  by (simp add: wp_def others_first_def)

text \<open>The turn of a call: what was there before others acted, what the call found, and what it left.\<close>

type_synonym 'v turn = "'v \<times> 'v \<times> 'v"

definition in_turn :: "('w \<Rightarrow> 'v) \<Rightarrow> ('w \<Rightarrow> 'w) \<Rightarrow> ('w, 'a) op \<Rightarrow> ('w \<times> 'v turn list, 'a) op" where
  "in_turn view I m s =
     (case s of (w, ts) \<Rightarrow> (case others_first I m w of (r, w') \<Rightarrow> (r, (w', ts @ [(view w, view (I w), view w')]))))"

definition next_turn :: "('w \<Rightarrow> 'v) \<Rightarrow> ('w \<Rightarrow> 'w) \<Rightarrow> 'w \<times> 'v turn list \<Rightarrow> 'w \<Rightarrow> 'w \<times> 'v turn list" where
  "next_turn view I s w' = (w', snd s @ [(view (fst s), view (I (fst s)), view w')])"

lemma next_turn_simps [simp]:
  "fst (next_turn view I s w') = w'" "snd (next_turn view I s w') = snd s @ [(view (fst s), view (I (fst s)), view w')]"
  by (simp_all add: next_turn_def)

lemma wp_in_turn [wp_simps]:
  "wp (in_turn view I m) Q E s \<longleftrightarrow>
    wp m (\<lambda>x w'. Q x (next_turn view I s w')) (\<lambda>e w'. E e (next_turn view I s w')) (I (fst s))"
  by (simp add: wp_def in_turn_def others_first_def next_turn_def split: prod.splits sum.splits)

text \<open>A trace from \<open>v\<close> to \<open>v'\<close> without gaps, in which others only act along \<open>R\<close>.\<close>

fun chain :: "('v \<Rightarrow> 'v \<Rightarrow> bool) \<Rightarrow> 'v \<Rightarrow> 'v turn list \<Rightarrow> 'v \<Rightarrow> bool" where
  "chain R v [] v' \<longleftrightarrow> v' = v"
| "chain R v ((found, now, left) # ts) v' \<longleftrightarrow> found = v \<and> R found now \<and> chain R left ts v'"

text \<open>Turns in which the call changed nothing, and traces with one turn in which it may have.\<close>

definition idle :: "'v turn list \<Rightarrow> bool" where
  "idle ts \<longleftrightarrow> (\<forall>(found, now, left) \<in> set ts. left = now)"

definition once :: "('v turn list \<Rightarrow> 'v \<Rightarrow> 'v \<Rightarrow> bool) \<Rightarrow> 'v turn list \<Rightarrow> bool" where
  "once P ts \<longleftrightarrow>
     (\<exists>earlier found now left later. ts = earlier @ (found, now, left) # later \<and> idle earlier \<and> idle later \<and> P earlier now left)"

text \<open>An answer that is no error means that the request had its effect, once.  An error of the service itself (a
  sentinel) means that it had none; after any other error it had none, or its effect, once.\<close>

definition outcome :: "('v turn list \<Rightarrow> 'v \<Rightarrow> 'v \<Rightarrow> bool) \<Rightarrow> error + 'a \<Rightarrow> 'v turn list \<Rightarrow> bool" where
  "outcome P r ts \<longleftrightarrow>
     (case r of
        Inr _ \<Rightarrow> once P ts
      | Inl e \<Rightarrow> idle ts \<or> (\<forall>s. e \<noteq> Sentinel s) \<and> once P ts)"

lemma chain_snoc: "chain R v (ts @ [(b, d, a)]) v' \<longleftrightarrow> chain R v ts b \<and> R b d \<and> v' = a"
  by (induction R v ts b rule: chain.induct) auto

lemma idle_simps [simp]: "idle []" "idle (ts @ [(b, d, a)]) \<longleftrightarrow> idle ts \<and> a = d"
  by (auto simp: idle_def)

lemma once_later: "once P ts \<Longrightarrow> once P (ts @ [(b, d, d)])"
  unfolding once_def
proof (elim exE conjE)
  fix earlier b' d' a' later
  assume "ts = earlier @ (b', d', a') # later" "idle earlier" "idle later" "P earlier d' a'"
  then show "\<exists>earlier b' d' a' later'. ts @ [(b, d, d)] = earlier @ (b', d', a') # later' \<and> idle earlier \<and> idle later' \<and> P earlier d' a'"
    by (intro exI [of _ earlier] exI [of _ b'] exI [of _ d'] exI [of _ a'] exI [of _ "later @ [(b, d, d)]"]) simp
qed

lemma once_now: "idle ts \<Longrightarrow> P ts d a \<Longrightarrow> once P (ts @ [(b, d, a)])"
  unfolding once_def by (intro exI [of _ ts] exI [of _ b] exI [of _ d] exI [of _ a] exI [of _ "[]"]) simp

lemma outcome_idle: "idle ts \<Longrightarrow> outcome P (Inl e) ts"
  by (simp add: outcome_def)

lemma outcome_once: "once P ts \<Longrightarrow> \<forall>s. e \<noteq> Sentinel s \<Longrightarrow> outcome P (Inl e) ts"
  by (simp add: outcome_def)

lemma outcome_turns:
  assumes "outcome P r ts" and "(b, d, a) \<in> set ts"
  shows "a = d \<or> (\<exists>earlier. P earlier d a)"
  using assms by (auto simp: outcome_def once_def idle_def split: sum.splits)

lemma chain_steps:
  assumes "chain R\<^sup>*\<^sup>* v ts v'" and "\<forall>(b, d, a) \<in> set ts. R\<^sup>*\<^sup>* d a"
  shows "R\<^sup>*\<^sup>* v v'"
  using assms
proof (induction "R\<^sup>*\<^sup>*" v ts v' rule: chain.induct)
  case (2 v b d a ts v')
  then have "R\<^sup>*\<^sup>* v d" "R\<^sup>*\<^sup>* d a" "R\<^sup>*\<^sup>* a v'" by auto
  then show ?case by (meson rtranclp_trans)
qed simp

section \<open>What others do\<close>

text \<open>A change of the rooms for \<open>u\<close>: a step of the abstract machine, or the addition of a member that was
  allowed when it was checked.\<close>

inductive room_change :: "uuid \<Rightarrow> room_view \<Rightarrow> room_view \<Rightarrow> bool" for u where
  step: "room_step u v v' \<Longrightarrow> room_change u v v'"
| late_add: "v_rooms v rid = Some r \<Longrightarrow> room_Type r \<noteq> RoomTypeDirect \<Longrightarrow> added rid x MemberRoleMember v v' \<Longrightarrow>
    room_change u v v'"

text \<open>Others change the rooms in this way, and do not make a room under one of the ids \<open>K\<close>: ids of rooms
  are random, so no new room has an id that is in use somewhere.\<close>

definition rely :: "uuid set \<Rightarrow> room_view \<Rightarrow> room_view \<Rightarrow> bool" where
  "rely K v v' \<longleftrightarrow> (\<exists>u. room_change u v v') \<and> (\<forall>rid \<in> K. v_rooms v rid = None \<longrightarrow> v_rooms v' rid = None)"

abbreviation relies :: "uuid set \<Rightarrow> room_view \<Rightarrow> room_view \<Rightarrow> bool" where
  "relies K \<equiv> (rely K)\<^sup>*\<^sup>*"

definition interrupted :: "('w \<Rightarrow> 'v) \<Rightarrow> ('w \<Rightarrow> 'w) \<Rightarrow> 'w RoomRepository \<Rightarrow> ('w \<times> 'v turn list) RoomRepository" where
  "interrupted view I repo =
     \<lparr>repo_CreateRoom = (\<lambda>name ty c p. in_turn view I (repo_CreateRoom repo name ty c p)),
      repo_GetRoomByID = (\<lambda>rid. in_turn view I (repo_GetRoomByID repo rid)),
      repo_UpdateRoom = (\<lambda>rid name. in_turn view I (repo_UpdateRoom repo rid name)),
      repo_DeleteRoom = (\<lambda>rid. in_turn view I (repo_DeleteRoom repo rid)),
      repo_AddMember = (\<lambda>rid uid role. in_turn view I (repo_AddMember repo rid uid role)),
      repo_RemoveMember = (\<lambda>rid uid. in_turn view I (repo_RemoveMember repo rid uid)),
      repo_GetRoomMembers = (\<lambda>rid. in_turn view I (repo_GetRoomMembers repo rid)),
      repo_IsMember = (\<lambda>rid uid. in_turn view I (repo_IsMember repo rid uid)),
      repo_GetMemberRole = (\<lambda>rid uid. in_turn view I (repo_GetMemberRole repo rid uid)),
      repo_GetDirectRoomByUsers = (\<lambda>a b. in_turn view I (repo_GetDirectRoomByUsers repo a b)),
      repo_GetUserRooms = (\<lambda>uid. in_turn view I (repo_GetUserRooms repo uid))\<rparr>"

definition interrupted_publisher :: "('w \<Rightarrow> 'v) \<Rightarrow> ('w \<Rightarrow> 'w) \<Rightarrow> 'w RoomPublisher \<Rightarrow> ('w \<times> 'v turn list) RoomPublisher" where
  "interrupted_publisher view I pub =
     \<lparr>pub_RoomCreated = (\<lambda>rid ids. in_turn view I (pub_RoomCreated pub rid ids)),
      pub_MembershipChanged = (\<lambda>rid uid action ids. in_turn view I (pub_MembershipChanged pub rid uid action ids)),
      pub_RoomUpdated = (\<lambda>rid name ids. in_turn view I (pub_RoomUpdated pub rid name ids)),
      pub_RoomDeleted = (\<lambda>rid ids. in_turn view I (pub_RoomDeleted pub rid ids))\<rparr>"

lemma interrupted_event: "pub_event (interrupted_publisher view I pub) ev = in_turn view I (pub_event pub ev)"
  by (cases ev) (simp_all add: interrupted_publisher_def)

section \<open>What one request does among others\<close>

text \<open>What a request is for.\<close>

fun intended :: "room_request \<Rightarrow> room_view \<Rightarrow> room_view \<Rightarrow> bool" where
  "intended (CreateRoomReq name ty c p) v v' \<longleftrightarrow> (\<exists>room. created ty c p v room v')"
| "intended (UpdateRoomReq rid u name) v v' \<longleftrightarrow> (\<exists>y. renamed rid name v y v')"
| "intended (DeleteRoomReq rid u) v v' \<longleftrightarrow> v' = spec_delete rid v"
| "intended (AddMemberReq rid x u) v v' \<longleftrightarrow> v' = spec_add rid x v"
| "intended (RemoveMemberReq rid x u) v v' \<longleftrightarrow> v' = spec_set_role rid x None v"
| "intended _ v v' \<longleftrightarrow> v' = v"

text \<open>What the state \<open>v\<close>, in which the request takes effect, must allow.  Only the addition of a member is
  allowed by what an earlier call of the request found: that its user was a member.\<close>

fun allowed :: "room_request \<Rightarrow> room_view turn list \<Rightarrow> room_view \<Rightarrow> bool" where
  "allowed (CreateRoomReq name ty c p) earlier v \<longleftrightarrow> (ty = RoomTypeDirect \<longrightarrow> p \<noteq> uuid_Nil \<and> p \<noteq> c)"
| "allowed (UpdateRoomReq rid u name) earlier v \<longleftrightarrow> v_roles v rid u = Some MemberRoleOwner"
| "allowed (DeleteRoomReq rid u) earlier v \<longleftrightarrow> v_roles v rid u = Some MemberRoleOwner"
| "allowed (AddMemberReq rid x u) earlier v \<longleftrightarrow>
     (\<exists>r. v_rooms v rid = Some r \<and> room_Type r \<noteq> RoomTypeDirect) \<and>
     (\<exists>(found, now, left) \<in> set earlier. v_roles now rid u \<noteq> None)"
| "allowed (RemoveMemberReq rid x u) earlier v \<longleftrightarrow>
     (\<exists>r. v_rooms v rid = Some r \<and> room_Type r \<noteq> RoomTypeDirect) \<and>
     (\<exists>role. v_roles v rid x = Some role \<and> role \<noteq> MemberRoleOwner) \<and>
     (x = u \<or> v_roles v rid u = Some MemberRoleOwner)"
| "allowed _ earlier v \<longleftrightarrow> True"

definition acts :: "room_request \<Rightarrow> room_view turn list \<Rightarrow> room_view \<Rightarrow> room_view \<Rightarrow> bool" where
  "acts req earlier v v' \<longleftrightarrow> allowed req earlier v \<and> intended req v v'"

text \<open>The room a request changes.\<close>

fun target_rooms :: "room_request \<Rightarrow> uuid set" where
  "target_rooms (UpdateRoomReq rid _ _) = {rid}"
| "target_rooms (DeleteRoomReq rid _) = {rid}"
| "target_rooms (AddMemberReq rid _ _) = {rid}"
| "target_rooms (RemoveMemberReq rid _ _) = {rid}"
| "target_rooms _ = {}"

text \<open>The answer to a request, without what it answers.\<close>

definition answered :: "('w, 'a) op \<Rightarrow> ('w, unit) op" where
  "answered m = tryE m fail (\<lambda>_. ret ())"

definition run_request :: "'w RoomService \<Rightarrow> room_request \<Rightarrow> ('w, unit) op" where
  "run_request s req =
     (case req of
        CreateRoomReq name ty c p \<Rightarrow> answered (svc_CreateRoom s name ty c p)
      | GetRoomReq rid \<Rightarrow> answered (svc_GetRoom s rid)
      | UpdateRoomReq rid u name \<Rightarrow> answered (svc_UpdateRoom s rid u name)
      | DeleteRoomReq rid u \<Rightarrow> answered (svc_DeleteRoom s rid u)
      | AddMemberReq rid x u \<Rightarrow> answered (svc_AddMember s rid x u)
      | RemoveMemberReq rid x u \<Rightarrow> answered (svc_RemoveMember s rid x u)
      | GetRoomMembersReq rid \<Rightarrow> answered (svc_GetRoomMembers s rid)
      | IsMemberReq rid u \<Rightarrow> answered (svc_IsMember s rid u)
      | GetUserRoomsReq u \<Rightarrow> answered (svc_GetUserRooms s u))"

lemma run_request_serve: "snd (run_request s req w) = serve s req w"
  by (cases req) (simp_all add: run_request_def serve_def answered_def tryE_def fail_def ret_def split: prod.splits sum.splits)

lemma wp_answered: "wp (answered m) (\<lambda>_. Q) E w \<longleftrightarrow> wp m (\<lambda>_. Q) E w"
  by (auto simp: answered_def wp_def tryE_def fail_def ret_def split: prod.splits sum.splits)

section \<open>Stability\<close>

lemma room_change_inv: "room_change u v v' \<Longrightarrow> rooms_inv v \<Longrightarrow> rooms_inv v'"
proof (induction rule: room_change.induct)
  case (late_add v rid r x v')
  then have "v_roles v rid x \<noteq> Some MemberRoleOwner" by (simp add: added_def)
  with late_add show ?case using set_role_inv [of v rid r x "Some MemberRoleMember"] by (simp add: added_def)
qed (rule room_step_inv)

lemma relies_inv:
  assumes "relies K v v'" and "rooms_inv v"
  shows "rooms_inv v'"
  using assms by (induction rule: rtranclp_induct) (auto simp: rely_def intro: room_change_inv)

text \<open>A room keeps its type and its creator as long as it is there.\<close>

definition same_room :: "Room \<Rightarrow> uuid \<Rightarrow> room_view \<Rightarrow> bool" where
  "same_room r rid v \<longleftrightarrow>
     (\<forall>r'. v_rooms v rid = Some r' \<longrightarrow> room_Type r' = room_Type r \<and> room_CreatedBy r' = room_CreatedBy r)"

lemma room_step_same:
  assumes "room_step u v v'" and "v_rooms v rid = Some r" and "v_rooms v' rid = Some r'"
  shows "room_Type r' = room_Type r \<and> room_CreatedBy r' = room_CreatedBy r"
  using assms
  by (cases rule: room_step.cases)
    (auto simp: created_def renamed_def added_def room_spec_defs split: if_splits)

lemma room_change_same:
  assumes "room_change u v v'" and "v_rooms v rid = Some r" and "v_rooms v' rid = Some r'"
  shows "room_Type r' = room_Type r \<and> room_CreatedBy r' = room_CreatedBy r"
  using assms by (cases rule: room_change.cases) (auto dest: room_step_same simp: added_def spec_set_role_def)

lemma same_room_stable:
  assumes "relies K v v'" and "rid \<in> K" and "same_room r rid v"
  shows "same_room r rid v'"
  using assms(1,3)
proof (induction rule: rtranclp_induct)
  case (step v1 v2)
  then have same: "same_room r rid v1" and "rely K v1 v2" by simp_all
  then obtain u where u: "room_change u v1 v2" "v_rooms v1 rid = None \<longrightarrow> v_rooms v2 rid = None"
    using assms(2) by (auto simp: rely_def)
  show ?case
    unfolding same_room_def
  proof (intro allI impI)
    fix r2 assume r2: "v_rooms v2 rid = Some r2"
    then obtain r1 where r1: "v_rooms v1 rid = Some r1" using u(2) by (cases "v_rooms v1 rid") auto
    show "room_Type r2 = room_Type r \<and> room_CreatedBy r2 = room_CreatedBy r"
      using room_change_same [OF u(1) r1 r2] same r1 by (simp add: same_room_def)
  qed
qed

text \<open>Under the invariant the roles say who made the room.\<close>

lemma role_room:
  assumes "rooms_inv v" and "v_roles v rid u = Some role"
  obtains r where "v_rooms v rid = Some r" "role = MemberRoleOwner \<longleftrightarrow> u = room_CreatedBy r"
proof (cases "v_rooms v rid")
  case None
  have "room_inv v rid" using assms(1) by (simp add: rooms_inv_def)
  with None assms(2) show thesis by (simp add: room_inv_def)
next
  case (Some r)
  have "room_inv v rid" using assms(1) by (simp add: rooms_inv_def)
  then have "v_roles v rid u = Some MemberRoleOwner \<longleftrightarrow> u = room_CreatedBy r" using Some by (simp add: room_inv_def)
  with Some assms(2) that show thesis by simp
qed

lemma owner_role:
  assumes "rooms_inv v" and "v_rooms v rid = Some r"
  shows "v_roles v rid (room_CreatedBy r) = Some MemberRoleOwner"
proof -
  have "room_inv v rid" using assms(1) by (simp add: rooms_inv_def)
  with assms(2) show ?thesis by (simp add: room_inv_def)
qed

lemma delete_gone:
  assumes "rooms_inv v" and "v_rooms v rid = None"
  shows "spec_delete rid v = v"
proof -
  have "room_inv v rid" using assms(1) by (simp add: rooms_inv_def)
  then have "v_roles v rid = (\<lambda>_. None)" using assms(2) by (simp add: room_inv_def fun_eq_iff)
  with assms(2) show ?thesis by (simp add: spec_delete_def fun_upd_idem)
qed

lemma remove_gone: "v_roles v rid u = None \<Longrightarrow> spec_set_role rid u None v = v"
  by (simp add: spec_set_role_def fun_upd_idem)


text \<open>The effect of a request is a change that others may make, too.\<close>

lemma acts_change:
  assumes "acts req earlier v v'"
  shows "v' = v \<or> room_change (requester req) v v'"
proof (cases req)
  case (CreateRoomReq name ty c p)
  then show ?thesis using assms by (auto simp: acts_def intro: room_change.step room_step.create)
next
  case (UpdateRoomReq rid u name)
  then show ?thesis using assms by (auto simp: acts_def intro: room_change.step room_step.rename)
next
  case (DeleteRoomReq rid u)
  then show ?thesis using assms by (auto simp: acts_def intro: room_change.step room_step.delete)
next
  case (AddMemberReq rid x u)
  then obtain r where r: "v_rooms v rid = Some r" "room_Type r \<noteq> RoomTypeDirect" "v' = spec_add rid x v"
    using assms by (auto simp: acts_def)
  show ?thesis
  proof (cases "v_roles v rid x")
    case None
    then have "added rid x MemberRoleMember v v'" using r by (simp add: added_def spec_add_def)
    then show ?thesis using r room_change.late_add by blast
  qed (use r in \<open>simp add: spec_add_def\<close>)
next
  case (RemoveMemberReq rid x u)
  then obtain r role where r: "v_rooms v rid = Some r" "room_Type r \<noteq> RoomTypeDirect" "v' = spec_set_role rid x None v"
      "v_roles v rid x = Some role" "role \<noteq> MemberRoleOwner" "x = u \<or> v_roles v rid u = Some MemberRoleOwner"
    using assms by (auto simp: acts_def)
  then have "room_step u v v'" by (metis room_step.leave room_step.kick)
  then show ?thesis using RemoveMemberReq by (auto intro: room_change.step)
qed (use assms in \<open>auto simp: acts_def\<close>)

lemma acts_inv: "acts req earlier v v' \<Longrightarrow> rooms_inv v \<Longrightarrow> rooms_inv v'"
  using acts_change room_change_inv by blast

section \<open>Every request, among others\<close>

lemma role_creator:
  assumes "rooms_inv v" and "same_room r rid v" and "v_roles v rid u = Some role"
  shows "role = MemberRoleOwner \<longleftrightarrow> u = room_CreatedBy r"
  using role_room [OF assms(1,3)] assms(2) by (metis same_room_def)

lemma owner_now:
  assumes "rooms_inv v" and "same_room r rid v" and "u = room_CreatedBy r" and "v_rooms v rid \<noteq> None"
  shows "v_roles v rid u = Some MemberRoleOwner"
proof -
  obtain r' where r': "v_rooms v rid = Some r'" using assms(4) by auto
  with assms(2,3) have "u = room_CreatedBy r'" by (simp add: same_room_def)
  with owner_role [OF assms(1) r'] show ?thesis by simp
qed

text \<open>What the calls of a request have seen still holds where it takes effect.\<close>

lemma member_room:
  assumes "rooms_inv v" and "same_room r rid v" and "room_Type r \<noteq> RoomTypeDirect" and "v_roles v rid x \<noteq> None"
  obtains r' where "v_rooms v rid = Some r'" "room_Type r' \<noteq> RoomTypeDirect"
proof -
  obtain role where "v_roles v rid x = Some role" using assms(4) by auto
  from role_room [OF assms(1) this] obtain r' where "v_rooms v rid = Some r'" by metis
  with assms(2,3) that show thesis by (simp add: same_room_def)
qed

lemma removal_allowed:
  assumes "rooms_inv v" and "same_room r rid v" and "room_Type r \<noteq> RoomTypeDirect"
    and "x \<noteq> room_CreatedBy r" and "x = u \<or> u = room_CreatedBy r" and x: "v_roles v rid x \<noteq> None"
  shows "allowed (RemoveMemberReq rid x u) earlier v"
proof -
  obtain r' where r': "v_rooms v rid = Some r'" "room_Type r' \<noteq> RoomTypeDirect"
    using member_room [OF assms(1-3) x] .
  obtain role where role: "v_roles v rid x = Some role" using x by auto
  then have "role \<noteq> MemberRoleOwner" using role_creator [OF assms(1,2) role] assms(4) by simp
  moreover have "x = u \<or> v_roles v rid u = Some MemberRoleOwner"
    using assms(5) owner_now [OF assms(1,2)] r'(1) by auto
  ultimately show ?thesis using r' role by simp
qed

lemma addition_allowed:
  assumes "rooms_inv v" and "same_room r rid v" and "room_Type r \<noteq> RoomTypeDirect"
    and "\<exists>(found, now, left) \<in> set earlier. v_roles now rid u \<noteq> None"
    and "v_rooms v rid \<noteq> None \<or> v_roles v rid x \<noteq> None"
  shows "allowed (AddMemberReq rid x u) earlier v"
proof -
  have "\<exists>r'. v_rooms v rid = Some r' \<and> room_Type r' \<noteq> RoomTypeDirect"
  proof (cases "v_roles v rid x = None")
    case True
    then obtain r' where "v_rooms v rid = Some r'" using assms(5) by auto
    then show ?thesis using assms(2,3) by (simp add: same_room_def)
  next
    case False
    from member_room [OF assms(1-3) False] show ?thesis by metis
  qed
  with assms(4) show ?thesis by simp
qed

context room_backend
begin

abbreviation disturbs :: "uuid set \<Rightarrow> ('w \<Rightarrow> 'w) \<Rightarrow> bool" where
  "disturbs K I \<equiv> \<forall>w. invar w \<and> rooms_inv (view w) \<longrightarrow> invar (I w) \<and> relies K (view w) (view (I w))"

abbreviation isvc :: "('w \<Rightarrow> 'w) \<Rightarrow> ('w \<times> room_view turn list) roomService" where
  "isvc I \<equiv> \<lparr>roomRepo = interrupted view I repo, publisher = interrupted_publisher view I pub\<rparr>"

abbreviation next_of :: "('w \<Rightarrow> 'w) \<Rightarrow> 'w \<times> room_view turn list \<Rightarrow> 'w \<Rightarrow> 'w \<times> room_view turn list" where
  "next_of \<equiv> next_turn view"

text \<open>The request began in \<open>v\<close> and is now at \<open>s\<close>: so far it changed nothing (\<open>before\<close>), it has had its effect
  (\<open>past\<close>), or it has failed with the error \<open>e\<close>.\<close>

definition linked :: "uuid set \<Rightarrow> room_view \<Rightarrow> 'w \<times> room_view turn list \<Rightarrow> bool" where
  "linked K v s \<longleftrightarrow> invar (fst s) \<and> rooms_inv (view (fst s)) \<and> chain (relies K) v (snd s) (view (fst s))"

definition before :: "uuid set \<Rightarrow> room_view \<Rightarrow> 'w \<times> room_view turn list \<Rightarrow> bool" where
  "before K v s \<longleftrightarrow> linked K v s \<and> idle (snd s)"

definition past :: "uuid set \<Rightarrow> room_view \<Rightarrow> room_request \<Rightarrow> 'w \<times> room_view turn list \<Rightarrow> bool" where
  "past K v req s \<longleftrightarrow> linked K v s \<and> once (acts req) (snd s)"

definition failed :: "uuid set \<Rightarrow> room_view \<Rightarrow> room_request \<Rightarrow> error \<Rightarrow> 'w \<times> room_view turn list \<Rightarrow> bool" where
  "failed K v req e s \<longleftrightarrow> linked K v s \<and> outcome (acts req) (Inl e :: error + unit) (snd s)"

lemma before_failed: "before K v s \<Longrightarrow> failed K v req e s"
  by (simp add: before_def failed_def outcome_idle)

lemma past_failed: "past K v req s \<Longrightarrow> \<forall>x. e \<noteq> Sentinel x \<Longrightarrow> failed K v req e s"
  by (simp add: past_def failed_def outcome_once)

lemma linked_now:
  assumes "disturbs K I" and "linked K v s"
  shows "invar (I (fst s)) \<and> rooms_inv (view (I (fst s))) \<and> relies K (view (fst s)) (view (I (fst s)))"
proof -
  have "invar (fst s)" "rooms_inv (view (fst s))" using assms(2) by (simp_all add: linked_def)
  then have "invar (I (fst s))" "relies K (view (fst s)) (view (I (fst s)))" using assms(1) by simp_all
  with relies_inv \<open>rooms_inv (view (fst s))\<close> show ?thesis by blast
qed

lemma linked_next:
  assumes "disturbs K I" and "linked K v s" and "invar w'" and "rooms_inv (view w')"
  shows "linked K v (next_of I s w')"
  using assms linked_now [OF assms(1,2)] by (simp add: linked_def chain_snoc)

lemma before_now: "disturbs K I \<Longrightarrow> before K v s \<Longrightarrow> invar (I (fst s)) \<and> rooms_inv (view (I (fst s)))"
  using linked_now [of I K v s] by (simp add: before_def)

lemma before_next:
  assumes "disturbs K I" and "before K v s" and "invar w'" and "view w' = view (I (fst s))"
  shows "before K v (next_of I s w')"
proof -
  have l: "linked K v s" using assms(2) by (simp add: before_def)
  then have "rooms_inv (view w')" using linked_now [OF assms(1)] assms(4) by simp
  then have "linked K v (next_of I s w')" by (rule linked_next [OF assms(1) l assms(3)])
  then show ?thesis using assms(2,4) by (simp add: before_def)
qed

lemma past_next:
  assumes "disturbs K I" and "past K v req s" and "invar w'" and "view w' = view (I (fst s))"
  shows "past K v req (next_of I s w')"
proof -
  have l: "linked K v s" using assms(2) by (simp add: past_def)
  then have "rooms_inv (view w')" using linked_now [OF assms(1)] assms(4) by simp
  then have "linked K v (next_of I s w')" by (rule linked_next [OF assms(1) l assms(3)])
  then show ?thesis using assms(2,4) by (simp add: past_def once_later)
qed

lemma past_now: "disturbs K I \<Longrightarrow> past K v req s \<Longrightarrow> invar (I (fst s))"
  using linked_now [of I K v s] by (simp add: past_def)

text \<open>The call with the effect.\<close>

lemma effect_next:
  assumes "disturbs K I" and "before K v s" and "invar w'"
    and "allowed req (snd s) (view (I (fst s)))" and "intended req (view (I (fst s))) (view w')"
  shows "past K v req (next_of I s w')"
proof -
  have a: "acts req (snd s) (view (I (fst s))) (view w')" using assms(4,5) by (simp add: acts_def)
  have "rooms_inv (view w')" using acts_inv [OF a] before_now [OF assms(1,2)] by simp
  with assms a show ?thesis by (simp add: past_def before_def linked_next once_now)
qed

lemma interrupted_sel:
  "repo_CreateRoom (interrupted view I r) = (\<lambda>name ty c p. in_turn view I (repo_CreateRoom r name ty c p))"
  "repo_GetRoomByID (interrupted view I r) = (\<lambda>rid. in_turn view I (repo_GetRoomByID r rid))"
  "repo_UpdateRoom (interrupted view I r) = (\<lambda>rid name. in_turn view I (repo_UpdateRoom r rid name))"
  "repo_DeleteRoom (interrupted view I r) = (\<lambda>rid. in_turn view I (repo_DeleteRoom r rid))"
  "repo_AddMember (interrupted view I r) = (\<lambda>rid uid role. in_turn view I (repo_AddMember r rid uid role))"
  "repo_RemoveMember (interrupted view I r) = (\<lambda>rid uid. in_turn view I (repo_RemoveMember r rid uid))"
  "repo_GetRoomMembers (interrupted view I r) = (\<lambda>rid. in_turn view I (repo_GetRoomMembers r rid))"
  "repo_IsMember (interrupted view I r) = (\<lambda>rid uid. in_turn view I (repo_IsMember r rid uid))"
  "repo_GetMemberRole (interrupted view I r) = (\<lambda>rid uid. in_turn view I (repo_GetMemberRole r rid uid))"
  "repo_GetUserRooms (interrupted view I r) = (\<lambda>uid. in_turn view I (repo_GetUserRooms r uid))"
  by (simp_all add: interrupted_def)

text \<open>The room was \<open>r\<close> when it was read; \<open>asked\<close>: and \<open>u\<close> was a member of it at an earlier call.\<close>

definition seen_room :: "uuid set \<Rightarrow> room_view \<Rightarrow> Room \<Rightarrow> uuid \<Rightarrow> 'w \<times> room_view turn list \<Rightarrow> bool" where
  "seen_room K v r rid s \<longleftrightarrow> before K v s \<and> same_room r rid (view (fst s))"

definition asked :: "uuid \<Rightarrow> uuid \<Rightarrow> 'w \<times> room_view turn list \<Rightarrow> bool" where
  "asked rid u s \<longleftrightarrow> (\<exists>(found, now, left) \<in> set (snd s). v_roles now rid u \<noteq> None)"

lemma seen_before: "seen_room K v r rid s \<Longrightarrow> before K v s"
  by (simp add: seen_room_def)

lemma seen_now:
  assumes "disturbs K I" and "rid \<in> K" and "seen_room K v r rid s"
  shows "invar (I (fst s)) \<and> rooms_inv (view (I (fst s))) \<and> same_room r rid (view (I (fst s)))"
proof -
  have "linked K v s" "same_room r rid (view (fst s))" using assms(3) by (simp_all add: seen_room_def before_def)
  with linked_now [OF assms(1)] same_room_stable [OF _ assms(2)] show ?thesis by blast
qed

lemma seen_next:
  assumes "disturbs K I" and "rid \<in> K" and "seen_room K v r rid s" and "invar w'" and "view w' = view (I (fst s))"
  shows "seen_room K v r rid (next_of I s w')"
  using assms(4,5) before_next [OF assms(1) seen_before [OF assms(3)]] seen_now [OF assms(1-3)] by (simp add: seen_room_def)

lemma wp_room_before:
  assumes I: "disturbs K I" and s: "before K v s"
    and k: "\<And>r s'. seen_room K v r rid s' \<Longrightarrow> wp (k r) Q E s'"
    and err: "\<And>e s'. before K v s' \<Longrightarrow> E e s'"
  shows "wp (get_room (isvc I) rid k) Q E s"
  unfolding roomService.select_convs interrupted_sel wp_simps
  by (rule wp_mono [OF GetRoomByID])
    (use before_now [OF I s] before_next [OF I s] in \<open>auto simp: wp_simps seen_room_def same_room_def intro!: k err\<close>)

lemma wp_role_before:
  assumes I: "disturbs K I" and rid: "rid \<in> K" and s: "seen_room K v r rid s"
    and k: "\<And>role s'. seen_room K v r rid s' \<Longrightarrow> role = MemberRoleOwner \<longleftrightarrow> uid = room_CreatedBy r \<Longrightarrow> wp (k role) Q E s'"
    and err: "\<And>e s'. before K v s' \<Longrightarrow> E e s'"
  shows "wp (get_role (isvc I) rid uid missing m k) Q E s"
proof -
  note now = seen_now [OF I rid s]
  have k': "wp (k role) Q E (next_of I s w')"
    if "invar w'" "view w' = view (I (fst s))" "v_roles (view (I (fst s))) rid uid = Some role" for role w'
    using k [OF seen_next [OF I rid s that(1,2)], of role] role_creator [of "view (I (fst s))" r rid uid role] that now by simp
  show ?thesis
    unfolding roomService.select_convs interrupted_sel wp_simps
    by (rule wp_mono [OF GetMemberRole])
      (use now before_next [OF I seen_before [OF s]] in \<open>auto simp: wp_simps intro!: k' err\<close>)
qed

lemma wp_member_before:
  assumes I: "disturbs K I" and rid: "rid \<in> K" and s: "seen_room K v r rid s"
    and k: "\<And>b s'. seen_room K v r rid s' \<Longrightarrow> (b \<Longrightarrow> asked rid uid s') \<Longrightarrow> wp (k b) Q E s'"
    and err: "\<And>e s'. before K v s' \<Longrightarrow> E e s'"
  shows "wp (tryE (repo_IsMember (interrupted view I repo) rid uid) (\<lambda>e. fail (Wrap m e)) k) Q E s"
proof -
  note now = seen_now [OF I rid s]
  have k': "wp (k b) Q E (next_of I s w')"
    if "invar w'" "view w' = view (I (fst s))" "b = (v_roles (view (I (fst s))) rid uid \<noteq> None)" for b w'
    by (rule k [OF seen_next [OF I rid s that(1,2)]]) (use that(3) in \<open>auto simp: asked_def\<close>)
  show ?thesis
    unfolding interrupted_sel wp_simps
    by (rule wp_mono [OF IsMember])
      (use now before_next [OF I seen_before [OF s]] in \<open>auto simp: wp_simps intro!: k' err\<close>)
qed

text \<open>Telling the members changes nothing more.\<close>

abbreviation tell :: "('w \<Rightarrow> 'w) \<Rightarrow> uuid \<Rightarrow> (uuid list \<Rightarrow> room_event) \<Rightarrow> ('w \<times> room_view turn list, 'a) op
    \<Rightarrow> ('w \<times> room_view turn list, 'a) op" where
  "tell I rid ev k \<equiv> tryE (repo_GetRoomMembers (interrupted view I repo) rid) (\<lambda>_. k)
     (\<lambda>ms. attempt (pub_event (interrupted_publisher view I pub) (ev (memberUserIDs ms))) k)"

lemma wp_tell:
  assumes now: "\<And>s. P s \<Longrightarrow> invar (I (fst s))"
    and idle: "\<And>s w'. P s \<Longrightarrow> invar w' \<Longrightarrow> view w' = view (I (fst s)) \<Longrightarrow> P (next_of I s w')"
    and s: "P s" and k: "\<And>s'. P s' \<Longrightarrow> wp k Q E s'"
  shows "wp (tell I rid ev k) Q E s"
proof -
  have announce: "wp (attempt (pub_event (interrupted_publisher view I pub) e) k) Q E s'" if "P s'" for e s'
    unfolding interrupted_event wp_simps
    by (rule wp_mono [OF publish [OF now [OF that]]]) (auto intro!: k idle [OF that])
  show ?thesis
    unfolding interrupted_sel wp_tryE wp_in_turn
    by (rule wp_mono [OF GetRoomMembers [OF now [OF s]]]) (auto intro!: announce k idle [OF s])
qed

lemma wp_tell_past:
  assumes I: "disturbs K I" and "past K v req s" and "\<And>s'. past K v req s' \<Longrightarrow> wp k Q E s'"
  shows "wp (tell I rid ev k) Q E s"
  by (rule wp_tell [where P = "past K v req", OF past_now [OF I] past_next [OF I] assms(2,3)])

lemma wp_tell_seen:
  assumes I: "disturbs K I" and rid: "rid \<in> K" and "seen_room K v r rid s" and "\<And>s'. seen_room K v r rid s' \<Longrightarrow> wp k Q E s'"
  shows "wp (tell I rid ev k) Q E s"
  by (rule wp_tell [where P = "seen_room K v r rid", OF _ seen_next [OF I rid] assms(3,4)]) (use seen_now [OF I rid] in blast)

abbreviation serves :: "('w \<Rightarrow> 'w) \<Rightarrow> uuid set \<Rightarrow> room_request \<Rightarrow> ('w \<times> room_view turn list, 'a) op \<Rightarrow> bool" where
  "serves I K req m \<equiv> \<forall>v s. before K v s \<longrightarrow> wp m (\<lambda>_. past K v req) (failed K v req) s"

lemma RemoveMember_among:
  assumes I: "disturbs K I" and rid: "rid \<in> K"
  shows "serves I K (RemoveMemberReq rid x u) (roomService_RemoveMember (isvc I) rid x u)"
proof (intro allI impI)
  fix v s assume s: "before K v s"
  let ?req = "RemoveMemberReq rid x u"
  have remove: "wp (tryE (repo_RemoveMember (interrupted view I repo) rid x) (\<lambda>e. fail (Wrap ''remove member'' e))
      (\<lambda>_. tell I rid (MembershipChanged rid x ''removed'') (ret ()))) (\<lambda>_. past K v ?req) (failed K v ?req) s1"
    if seen: "seen_room K v r rid s1" and ty: "room_Type r \<noteq> RoomTypeDirect" and x: "x \<noteq> room_CreatedBy r"
      and u: "x = u \<or> u = room_CreatedBy r" for r s1
  proof -
    note now = seen_now [OF I rid seen]
    have effect: "past K v ?req (next_of I s1 w')" if "invar w'" "v_roles (view (I (fst s1))) rid x \<noteq> None"
        "view w' = spec_set_role rid x None (view (I (fst s1)))" for w'
      using that now removal_allowed [OF _ _ ty x u]
      by (intro effect_next [OF I seen_before [OF seen]]) simp_all
    have none: "before K v (next_of I s1 w')" if "invar w'" "view w' = view (I (fst s1))" for w'
      by (rule before_next [OF I seen_before [OF seen] that])
    show ?thesis
      unfolding wp_tryE [of "repo_RemoveMember (interrupted view I repo) rid x"] unfolding interrupted_sel(6) wp_in_turn
    proof (rule wp_mono [OF RemoveMember], goal_cases)
      case (2 y w')
      then show ?case by (intro wp_tell_past [OF I effect]) (simp_all add: wp_ret)
    next
      case (3 e w')
      then show ?case using effect [of w'] none [of w'] remove_gone [of "view (I (fst s1))" rid x]
        by (cases "v_roles (view (I (fst s1))) rid x = None") (auto simp: wp_fail intro: before_failed past_failed)
    qed (use now in simp)
  qed
  show "wp (roomService_RemoveMember (isvc I) rid x u) (\<lambda>_. past K v ?req) (failed K v ?req) s"
    unfolding roomService_RemoveMember_def Let_def roomService.select_convs
    by (intro wp_room_before [OF I s, unfolded roomService.select_convs] wp_role_before [OF I rid, unfolded roomService.select_convs]
        wp_if remove [unfolded pub_event_simps] wp_fail [THEN iffD2] before_failed; (erule seen_before)?; auto)
qed

lemma AddMember_among:
  assumes I: "disturbs K I" and rid: "rid \<in> K"
  shows "serves I K (AddMemberReq rid x u) (roomService_AddMember (isvc I) rid x u)"
proof (intro allI impI)
  fix v s assume s: "before K v s"
  let ?req = "AddMemberReq rid x u"
  have add: "wp (tryE (repo_AddMember (interrupted view I repo) rid x MemberRoleMember)
      (\<lambda>e. if errors_Is e roomRepo_ErrMemberAlreadyExists then ret () else fail (Wrap ''add member'' e))
      (\<lambda>_. tell I rid (MembershipChanged rid x ''added'') (ret ()))) (\<lambda>_. past K v ?req) (failed K v ?req) s1"
    if seen: "seen_room K v r rid s1" and ty: "room_Type r \<noteq> RoomTypeDirect" and u: "asked rid u s1" for r s1
  proof -
    note now = seen_now [OF I rid seen]
    have ok: "allowed ?req (snd s1) (view (I (fst s1)))"
      if "v_rooms (view (I (fst s1))) rid \<noteq> None \<or> v_roles (view (I (fst s1))) rid x \<noteq> None"
      using addition_allowed [of "view (I (fst s1))" r rid "snd s1" u x] now ty u that by (simp add: asked_def)
    have effect: "past K v ?req (next_of I s1 w')" if "invar w'" "added rid x MemberRoleMember (view (I (fst s1))) (view w')" for w'
      using ok that by (intro effect_next [OF I seen_before [OF seen]]) (simp_all add: added_def spec_add_def)
    have member: "past K v ?req (next_of I s1 w')"
      if "invar w'" "view w' = view (I (fst s1))" "v_roles (view (I (fst s1))) rid x \<noteq> None" for w'
      using ok that by (intro effect_next [OF I seen_before [OF seen]]) (auto simp: spec_add_def)
    have none: "before K v (next_of I s1 w')" if "invar w'" "view w' = view (I (fst s1))" for w'
      by (rule before_next [OF I seen_before [OF seen] that])
    show ?thesis
      unfolding wp_tryE [of "repo_AddMember (interrupted view I repo) rid x MemberRoleMember"] unfolding interrupted_sel(5) wp_in_turn
    proof (rule wp_mono [OF AddMember], goal_cases)
      case (2 y w')
      then show ?case by (intro wp_tell_past [OF I effect]) (simp_all add: wp_ret)
    next
      case (3 e w')
      then show ?case using effect [of w'] member [of w'] none [of w'] by (auto simp: wp_simps intro: before_failed past_failed)
    qed (use now in simp)
  qed
  show "wp (roomService_AddMember (isvc I) rid x u) (\<lambda>_. past K v ?req) (failed K v ?req) s"
    unfolding roomService_AddMember_def Let_def roomService.select_convs
    by (intro wp_room_before [OF I s, unfolded roomService.select_convs] wp_member_before [OF I rid]
        wp_if add [unfolded pub_event_simps] wp_fail [THEN iffD2] before_failed; (erule seen_before)?; auto)
qed

lemma DeleteRoom_among:
  assumes I: "disturbs K I" and rid: "rid \<in> K"
  shows "serves I K (DeleteRoomReq rid u) (roomService_DeleteRoom (isvc I) rid u)"
proof (intro allI impI)
  fix v s assume s: "before K v s"
  let ?req = "DeleteRoomReq rid u"
  let ?del = "tryE (repo_DeleteRoom (interrupted view I repo) rid) (\<lambda>e. fail (Wrap ''delete room'' e)) (\<lambda>_. ret ())"
  have del: "wp ?del (\<lambda>_. past K v ?req) (failed K v ?req) s1"
    if seen: "seen_room K v r rid s1" and u: "u = room_CreatedBy r" for r s1
  proof -
    note now = seen_now [OF I rid seen]
    have effect: "past K v ?req (next_of I s1 w')"
      if "invar w'" "v_rooms (view (I (fst s1))) rid \<noteq> None" "view w' = spec_delete rid (view (I (fst s1)))" for w'
      using that now owner_now [OF _ _ u] by (intro effect_next [OF I seen_before [OF seen]]) simp_all
    have none: "before K v (next_of I s1 w')" if "invar w'" "view w' = view (I (fst s1))" for w'
      by (rule before_next [OF I seen_before [OF seen] that])
    show ?thesis
      unfolding wp_simps interrupted_sel
    proof (rule wp_mono [OF DeleteRoom], goal_cases)
      case (3 e w')
      then show ?case using effect [of w'] none [of w'] delete_gone [of "view (I (fst s1))" rid] now
        by (cases "v_rooms (view (I (fst s1))) rid = None") (auto intro: before_failed past_failed)
    qed (use now effect in auto)
  qed
  have tail: "wp (tell I rid (RoomDeleted rid) ?del) (\<lambda>_. past K v ?req) (failed K v ?req) s1"
    if seen: "seen_room K v r rid s1" and u: "u = room_CreatedBy r" for r s1
    by (rule wp_tell_seen [OF I rid seen]) (rule del [OF _ u])
  show "wp (roomService_DeleteRoom (isvc I) rid u) (\<lambda>_. past K v ?req) (failed K v ?req) s"
    unfolding roomService_DeleteRoom_def Let_def roomService.select_convs
    by (intro wp_room_before [OF I s, unfolded roomService.select_convs] wp_role_before [OF I rid, unfolded roomService.select_convs]
        wp_if tail [unfolded pub_event_simps] wp_fail [THEN iffD2] before_failed; (erule seen_before)?; auto)
qed

lemma UpdateRoom_among:
  assumes I: "disturbs K I" and rid: "rid \<in> K"
  shows "serves I K (UpdateRoomReq rid u name) (roomService_UpdateRoom (isvc I) rid u name)"
proof (intro allI impI)
  fix v s assume s: "before K v s"
  let ?req = "UpdateRoomReq rid u name"
  have update: "wp (tryE (repo_UpdateRoom (interrupted view I repo) rid name)
      (\<lambda>e. if errors_Is e roomRepo_ErrRoomNotFound then fail (Sentinel roomSvc_ErrRoomNotFound)
           else fail (Wrap ''update room'' e))
      (\<lambda>y. tell I rid (RoomUpdated rid (room_Name y)) (ret (toRoom y)))) (\<lambda>_. past K v ?req) (failed K v ?req) s1"
    if seen: "seen_room K v r rid s1" and u: "u = room_CreatedBy r" for r s1
  proof -
    note now = seen_now [OF I rid seen]
    have effect: "past K v ?req (next_of I s1 w')" if "invar w'" "renamed rid name (view (I (fst s1))) y (view w')" for w' y
    proof (rule effect_next [OF I seen_before [OF seen] that(1)])
      have "v_rooms (view (I (fst s1))) rid \<noteq> None" using that(2) by (auto simp: renamed_def)
      then show "allowed ?req (snd s1) (view (I (fst s1)))" using now owner_now [OF _ _ u] by simp
    qed (use that(2) in auto)
    have none: "before K v (next_of I s1 w')" if "invar w'" "view w' = view (I (fst s1))" for w'
      by (rule before_next [OF I seen_before [OF seen] that])
    show ?thesis
      unfolding wp_tryE [of "repo_UpdateRoom (interrupted view I repo) rid name"] unfolding interrupted_sel(3) wp_in_turn
    proof (rule wp_mono [OF UpdateRoom], goal_cases)
      case (2 y w')
      then show ?case by (intro wp_tell_past [OF I effect]) (auto simp: wp_ret)
    next
      case (3 e w')
      then show ?case using effect [of w'] none [of w'] by (auto simp: wp_simps intro: before_failed past_failed)
    qed (use now in simp)
  qed
  show "wp (roomService_UpdateRoom (isvc I) rid u name) (\<lambda>_. past K v ?req) (failed K v ?req) s"
    unfolding roomService_UpdateRoom_def Let_def roomService.select_convs
    by (intro wp_room_before [OF I s, unfolded roomService.select_convs] wp_role_before [OF I rid, unfolded roomService.select_convs]
        wp_if update [unfolded pub_event_simps] wp_fail [THEN iffD2] before_failed; (erule seen_before)?; auto)
qed

lemma CreateRoom_among:
  assumes I: "disturbs K I"
  shows "serves I K (CreateRoomReq name ty c p) (roomService_CreateRoom (isvc I) name ty c p)"
proof (intro allI impI)
  fix v s assume s: "before K v s"
  let ?req = "CreateRoomReq name ty c p"
  have create: "wp (tryE (repo_CreateRoom (interrupted view I repo) name ty c p)
      (\<lambda>e. if errors_Is e roomRepo_ErrDirectRoomExists then fail (Sentinel roomSvc_ErrDirectRoomExists)
           else fail (Wrap ''create room'' e))
      (\<lambda>room. tell I (room_ID room) (RoomCreated (room_ID room)) (ret (toRoom room))))
    (\<lambda>_. past K v ?req) (failed K v ?req) s" if ok: "ty = RoomTypeDirect \<longrightarrow> p \<noteq> uuid_Nil \<and> p \<noteq> c"
  proof -
    note now = before_now [OF I s]
    have effect: "past K v ?req (next_of I s w')" if "invar w'" "created ty c p (view (I (fst s))) room (view w')" for w' room
      by (rule effect_next [OF I s that(1)]) (use ok that(2) in auto)
    have none: "before K v (next_of I s w')" if "invar w'" "view w' = view (I (fst s))" for w'
      by (rule before_next [OF I s that])
    show ?thesis
      unfolding wp_tryE [of "repo_CreateRoom (interrupted view I repo) name ty c p"] unfolding interrupted_sel(1) wp_in_turn
    proof (rule wp_mono [OF CreateRoom], goal_cases)
      case (2 room w')
      then show ?case by (intro wp_tell_past [OF I effect]) (auto simp: wp_ret)
    next
      case (3 e w')
      then show ?case using effect [of w'] none [of w']
        by (auto simp: wp_simps intro: before_failed past_failed split: if_splits)
    qed (use now in simp)
  qed
  show "wp (roomService_CreateRoom (isvc I) name ty c p) (\<lambda>_. past K v ?req) (failed K v ?req) s"
    unfolding roomService_CreateRoom_def Let_def roomService.select_convs
    by (intro wp_if create [unfolded pub_event_simps] wp_fail [THEN iffD2] before_failed s) auto
qed

text \<open>A request that only reads has its effect, none, in any turn, and it makes one.\<close>

lemma reads_once:
  assumes "\<And>earlier w. acts req earlier w w" and "idle ts" and "ts \<noteq> []"
  shows "once (acts req) ts"
proof -
  obtain ts' b d a where ts: "ts = ts' @ [(b, d, a)]" using assms(3) by (cases ts rule: rev_cases) auto
  with assms(2) show ?thesis using once_now [of ts' "acts req" d a b] assms(1) by simp
qed

lemma reading_next:
  assumes "\<And>earlier w. acts req earlier w w" and "disturbs K I" and "before K v s" and "invar w'" and "view w' = view (I (fst s))"
  shows "past K v req (next_of I s w')"
proof -
  have b: "before K v (next_of I s w')" by (rule before_next [OF assms(2-5)])
  then have "once (acts req) (snd (next_of I s w'))" by (intro reads_once [OF assms(1)]) (simp_all add: before_def)
  with b show ?thesis by (simp add: before_def past_def)
qed

lemma reads_among:
  assumes I: "disturbs K I"
  shows "serves I K (GetRoomReq rid) (roomService_GetRoom (isvc I) rid)"
    and "serves I K (GetRoomMembersReq rid) (roomService_GetRoomMembers (isvc I) rid)"
    and "serves I K (IsMemberReq rid u) (roomService_IsMember (isvc I) rid u)"
    and "serves I K (GetUserRoomsReq u) (roomService_GetUserRooms (isvc I) u)"
proof -
  have reads: "acts (GetRoomReq rid) earlier w w" "acts (GetRoomMembersReq rid) earlier w w"
    "acts (IsMemberReq rid u) earlier w w" "acts (GetUserRoomsReq u) earlier w w" for earlier w
    by (simp_all add: acts_def)
  note now = before_now [OF I] and none = before_failed [OF before_next [OF I]]
  show "serves I K (GetRoomReq rid) (roomService_GetRoom (isvc I) rid)"
    unfolding roomService_GetRoom_def roomService.select_convs interrupted_sel wp_simps
  proof (intro allI impI)
    fix v s assume s: "before K v s"
    show "wp (repo_GetRoomByID repo rid) (\<lambda>x w'. past K v (GetRoomReq rid) (next_of I s w'))
        (\<lambda>e w'. if errors_Is e roomRepo_ErrRoomNotFound then failed K v (GetRoomReq rid) (Sentinel roomSvc_ErrRoomNotFound) (next_of I s w')
           else failed K v (GetRoomReq rid) (Wrap ''get room'' e) (next_of I s w')) (I (fst s))"
      by (rule wp_mono [OF GetRoomByID]) (use now [OF s] none [OF s] reading_next [OF reads(1) I s] in auto)
  qed
  show "serves I K (GetRoomMembersReq rid) (roomService_GetRoomMembers (isvc I) rid)"
  proof (intro allI impI)
    fix v s assume s: "before K v s"
    have members: "wp (tryE (repo_GetRoomMembers (interrupted view I repo) rid) (\<lambda>e. fail (Wrap ''get room members'' e))
        (\<lambda>members. ret (List.map toRoomMember members))) (\<lambda>_. past K v (GetRoomMembersReq rid)) (failed K v (GetRoomMembersReq rid)) s1"
      if s1: "seen_room K v r rid s1" for r s1
      unfolding interrupted_sel wp_simps
      by (rule wp_mono [OF GetRoomMembers])
        (use now [OF seen_before [OF s1]] none [OF seen_before [OF s1]] reading_next [OF reads(2) I seen_before [OF s1]] in auto)
    show "wp (roomService_GetRoomMembers (isvc I) rid) (\<lambda>_. past K v (GetRoomMembersReq rid)) (failed K v (GetRoomMembersReq rid)) s"
      unfolding roomService_GetRoomMembers_def roomService.select_convs
      by (intro wp_room_before [OF I s, unfolded roomService.select_convs] members before_failed)
  qed
  show "serves I K (IsMemberReq rid u) (roomService_IsMember (isvc I) rid u)"
    unfolding roomService_IsMember_def roomService.select_convs interrupted_sel wp_simps
  proof (intro allI impI)
    fix v s assume s: "before K v s"
    show "wp (repo_IsMember repo rid u) (\<lambda>x w'. past K v (IsMemberReq rid u) (next_of I s w'))
        (\<lambda>e w'. failed K v (IsMemberReq rid u) (Wrap ''check membership'' e) (next_of I s w')) (I (fst s))"
      by (rule wp_mono [OF IsMember]) (use now [OF s] none [OF s] reading_next [OF reads(3) I s] in auto)
  qed
  show "serves I K (GetUserRoomsReq u) (roomService_GetUserRooms (isvc I) u)"
    unfolding roomService_GetUserRooms_def roomService.select_convs interrupted_sel wp_simps
  proof (intro allI impI)
    fix v s assume s: "before K v s"
    show "wp (repo_GetUserRooms repo u) (\<lambda>x w'. past K v (GetUserRoomsReq u) (next_of I s w'))
        (\<lambda>e w'. failed K v (GetUserRoomsReq u) (Wrap ''get user rooms'' e) (next_of I s w')) (I (fst s))"
      by (rule wp_mono [OF GetUserRooms]) (use now [OF s] none [OF s] reading_next [OF reads(4) I s] in auto)
  qed
qed

lemma run_request_among:
  assumes I: "disturbs K I" and "target_rooms req \<subseteq> K" and "invar w" and "rooms_inv (view w)"
  shows "wp (run_request (NewRoomService (interrupted view I repo) (interrupted_publisher view I pub)) req)
    (\<lambda>_. past K (view w) req) (failed K (view w) req) (w, [])"
proof -
  have w: "before K (view w) (w, [])" using assms(3,4) by (simp add: before_def linked_def)
  note among = CreateRoom_among [OF I] UpdateRoom_among [OF I] DeleteRoom_among [OF I] AddMember_among [OF I]
    RemoveMember_among [OF I] reads_among [OF I]
  show ?thesis
    using assms(2) w among
    by (cases req) (simp_all add: run_request_def wp_answered NewRoomService_def Let_def)
qed

end

section \<open>The service on Postgres, among others\<close>

text \<open>\<open>pg_others K I\<close>: whatever the rooms are, \<open>I\<close> changes them as others may.\<close>

definition pg_others :: "uuid set \<Rightarrow> ('z room_world_scheme \<Rightarrow> 'z room_world_scheme) \<Rightarrow> bool" where
  "pg_others K I \<longleftrightarrow>
     (\<forall>w. pg_ok w \<and> rooms_inv (pg_view w) \<longrightarrow> pg_ok (I w) \<and> relies K (pg_view w) (pg_view (I w)))"

definition interrupted_room_service :: "('z room_world_scheme \<Rightarrow> 'z room_world_scheme) \<Rightarrow> uuid_lib
    \<Rightarrow> ('z room_world_scheme \<times> room_view turn list) RoomService" where
  "interrupted_room_service I U =
     NewRoomService (interrupted pg_view I pgRoomRepository) (interrupted_publisher pg_view I (natsRoomPublisher U))"

lemma pg_among_others:
  assumes "pg_others K I" and "target_rooms req \<subseteq> K" and "pg_ok w" and "rooms_inv (pg_view w)"
    and "run_request (interrupted_room_service I U) req (w, []) = (r, (w', ts))"
  shows "pg_ok w' \<and> rooms_inv (pg_view w') \<and> chain (relies K) (pg_view w) ts (pg_view w') \<and> outcome (acts req) r ts"
proof -
  have "\<forall>w. pg_ok w \<and> rooms_inv (pg_view w) \<longrightarrow> pg_ok (I w) \<and> relies K (pg_view w) (pg_view (I w))"
    using assms(1) by (simp add: pg_others_def)
  from wpD [OF pgb.run_request_among [OF this assms(2-4), of U, folded interrupted_room_service_def] assms(5)]
  show ?thesis by (cases r) (auto simp: pgb.past_def pgb.failed_def pgb.linked_def outcome_def)
qed

text \<open>What a request does among others is again what others may do, so requests may be nested in each
  other to any depth.\<close>

lemma relies_mono: "relies K v v' \<Longrightarrow> K' \<subseteq> K \<Longrightarrow> relies K' v v'"
  by (erule rtranclp_mono [THEN predicate2D, rotated]) (unfold rely_def, blast)

fun makes_room :: "room_request \<Rightarrow> bool" where
  "makes_room (CreateRoomReq _ _ _ _) \<longleftrightarrow> True"
| "makes_room _ \<longleftrightarrow> False"

lemma intended_no_room:
  "intended req v v' \<Longrightarrow> \<not> makes_room req \<Longrightarrow> v_rooms v rid = None \<Longrightarrow> v_rooms v' rid = None"
  by (cases req) (auto simp: renamed_def room_spec_defs spec_add_def)

lemma outcome_relies:
  assumes "chain (relies UNIV) v ts v'" and "outcome (acts req) r ts" and "\<not> makes_room req"
  shows "relies UNIV v v'"
proof (rule chain_steps [OF assms(1)], safe)
  fix b d a assume "(b, d, a) \<in> set ts"
  from outcome_turns [OF assms(2) this] show "relies UNIV d a"
  proof (elim disjE exE)
    fix earlier assume a: "acts req earlier d a"
    show ?thesis
      using acts_change [OF a]
    proof
      assume "room_change (requester req) d a"
      moreover have "\<forall>rid. v_rooms d rid = None \<longrightarrow> v_rooms a rid = None"
        using a intended_no_room [OF _ assms(3), of d a] unfolding acts_def by blast
      ultimately have "rely UNIV d a" by (auto simp: rely_def)
      then show ?thesis by simp
    qed simp
  qed simp
qed

text \<open>Nests of requests: one after the other, one inside the other, and where a condition on the state
  says so, for example at some call of the repository (\<open>calls\<close> counts them).\<close>

definition serve_among :: "('z room_world_scheme \<Rightarrow> 'z room_world_scheme) \<Rightarrow> uuid_lib \<Rightarrow> room_request
    \<Rightarrow> 'z room_world_scheme \<Rightarrow> 'z room_world_scheme" where
  "serve_among I U req w = fst (snd (run_request (interrupted_room_service I U) req (w, [])))"

text \<open>When nobody else acts, the service over the interrupted repository is the service: the trace is
  beside the run.\<close>

named_theorems traces_intros "rules for traces on the combinators"

definition traces :: "('w \<times> 'v turn list, 'a) op \<Rightarrow> ('w, 'a) op \<Rightarrow> bool" where
  "traces m' m \<longleftrightarrow> (\<forall>w ts. \<exists>ts'. m' (w, ts) = (fst (m w), snd (m w), ts'))"

lemma traces_basic [traces_intros]: "traces (in_turn view id m) m" "traces (ret x) (ret x)" "traces (fail e) (fail e)"
  by (simp_all add: traces_def in_turn_def others_first_def ret_def fail_def split: prod.splits)

lemma traces_tryE [traces_intros]:
  assumes "traces m' m" and "\<And>e. traces (h' e) (h e)" and "\<And>x. traces (k' x) (k x)"
  shows "traces (tryE m' h' k') (tryE m h k)"
  unfolding traces_def
proof (intro allI)
  fix w ts
  obtain ts' where m: "m' (w, ts) = (fst (m w), snd (m w), ts')" using assms(1) by (auto simp: traces_def)
  show "\<exists>ts'. tryE m' h' k' (w, ts) = (fst (tryE m h k w), snd (tryE m h k w), ts')"
    using assms(2,3) by (cases "m w"; cases "fst (m w)") (auto simp: tryE_def m traces_def)
qed

lemma traces_attempt [traces_intros]: "traces m' m \<Longrightarrow> traces k' k \<Longrightarrow> traces (attempt m' k') (attempt m k)"
  by (simp add: attempt_def traces_tryE)

lemma traces_If [traces_intros]: "traces m' m \<Longrightarrow> traces k' k \<Longrightarrow> traces (if b then m' else k') (if b then m else k)"
  by simp

lemma run_request_traces:
  "traces (run_request (NewRoomService (interrupted view id repo) (interrupted_publisher view id pub)) req)
    (run_request (NewRoomService repo pub) req)"
  unfolding run_request_def answered_def NewRoomService_def Let_def
  by (cases req;
      simp add: roomService_CreateRoom_def roomService_GetRoom_def roomService_UpdateRoom_def roomService_DeleteRoom_def
      roomService_AddMember_def roomService_RemoveMember_def roomService_GetRoomMembers_def roomService_IsMember_def
      roomService_GetUserRooms_def interrupted_def interrupted_publisher_def Let_def;
      (intro conjI impI traces_intros | simp add: Let_def)+)

lemma serve_among_nobody: "serve_among id U req w = serve (room_service U) req w"
proof -
  obtain ts where "run_request (interrupted_room_service id U) req (w, []) =
      (fst (run_request (room_service U) req w), snd (run_request (room_service U) req w), ts)"
    using run_request_traces [of pg_view pgRoomRepository "natsRoomPublisher U" req]
    unfolding traces_def interrupted_room_service_def room_service_def by blast
  then show ?thesis by (simp add: serve_among_def run_request_serve)
qed

text \<open>\<open>nest\<close>: such requests in any order and depth.\<close>

inductive nest :: "uuid_lib \<Rightarrow> ('z room_world_scheme \<Rightarrow> 'z room_world_scheme) \<Rightarrow> bool" for U where
  nobody: "nest U id"
| one: "nest U I \<Longrightarrow> \<not> makes_room req \<Longrightarrow> nest U (serve_among I U req)"
| both: "nest U I \<Longrightarrow> nest U J \<Longrightarrow> nest U (J \<circ> I)"
| either: "nest U I \<Longrightarrow> nest U J \<Longrightarrow> nest U (\<lambda>w. if P w then I w else J w)"

lemma nest_others:
  fixes I :: "'z room_world_scheme \<Rightarrow> 'z room_world_scheme"
  assumes "nest U I"
  shows "pg_others K I"
proof -
  from assms have "pg_others UNIV I"
  proof (induction rule: nest.induct)
    case (one I req)
    show ?case
      unfolding pg_others_def
    proof (intro allI impI)
      fix w :: "'z room_world_scheme" assume w: "pg_ok w \<and> rooms_inv (pg_view w)"
      obtain r w' ts where run: "run_request (interrupted_room_service I U) req (w, []) = (r, (w', ts))"
        by (metis surj_pair)
      from pg_among_others [OF one.IH _ _ _ run] w
      have "pg_ok w'" "chain (relies UNIV) (pg_view w) ts (pg_view w')" "outcome (acts req) r ts" by simp_all
      with outcome_relies [OF _ _ one.hyps(2)] run
      show "pg_ok (serve_among I U req w) \<and> relies UNIV (pg_view w) (pg_view (serve_among I U req w))"
        by (simp add: serve_among_def)
    qed
  next
    case (both I J)
    then show ?case unfolding pg_others_def comp_apply by (meson relies_inv rtranclp_trans)
  qed (auto simp: pg_others_def)
  then show ?thesis unfolding pg_others_def by (meson relies_mono subset_UNIV)
qed

text \<open>C3: A request to the room service, between whose calls of the repository and of the publisher others
  change the rooms as they like (along \<open>relies K\<close>), changes the rooms itself in at most one of these calls.
  An answer without an error means that exactly one call did what the request is for, allowed by the rooms that
  this call found: only the owner renames and deletes, a member leaves or the owner removes another, nobody
  touches the members of a direct room; for the addition of a member the requester was a member when an
  earlier call asked.  A refusal of the service means that no call changed anything, any other error that none
  did or one did just that.  The rooms keep their invariant.\<close>

theorem rooms_interleaved:
  assumes "pg_others K I" and "target_rooms req \<subseteq> K" and "pg_ok w" and "rooms_inv (pg_view w)"
  shows "case run_request (interrupted_room_service I U) req (w, []) of (r, (w', ts)) \<Rightarrow>
    pg_ok w' \<and> rooms_inv (pg_view w') \<and> chain (relies K) (pg_view w) ts (pg_view w') \<and> outcome (acts req) r ts"
  using pg_among_others [OF assms] by (simp split: prod.split)

lemma sample_rooms_inv: "rooms_inv (pg_view sample_room_world)"
proof -
  let ?v = "tables_view sample_rooms"
  have rs: "v_rooms ?v rid = (if rid = 10 then Some \<lparr>room_ID = 10, room_Name = ''a'', room_Type = ''group'',
      room_CreatedBy = 1, room_CreatedAt = 5, room_UpdatedAt = 5\<rparr> else if rid = 11 then
      Some \<lparr>room_ID = 11, room_Name = ''b'', room_Type = ''direct'', room_CreatedBy = 1, room_CreatedAt = 6, room_UpdatedAt = 6\<rparr>
      else None)" for rid
    by (simp add: tables_view_def sample_rooms_def)
  have ms: "v_roles ?v rid u = (if rid = 10 \<and> u = 1 \<or> rid = 11 \<and> u = 1 then Some ''owner''
      else if rid = 10 \<and> u \<in> {2, 3} \<or> rid = 11 \<and> u = 2 then Some ''member'' else None)" for rid u
    by (auto simp: tables_view_def sample_rooms_def is_row_def)
  have "room_inv ?v rid" for rid
    unfolding room_inv_def rs ms
    by (auto simp: MemberRoleOwner_def MemberRoleMember_def RoomTypeDirect_def intro!: exI [of _ 2])
  moreover have "r = 11" if "direct_room_of ?v a b r" for a b r
    using that unfolding direct_room_of_def rs by (auto simp: RoomTypeDirect_def split: if_splits)
  ultimately show ?thesis unfolding rooms_inv_def sample_room_view by blast
qed

text \<open>Others may remove a member between two calls of the repository.\<close>

abbreviation removal_at :: "nat \<Rightarrow> room_world \<Rightarrow> room_world" where
  "removal_at n \<equiv> (\<lambda>w. if calls w = n then serve_among id sample_uuids (RemoveMemberReq 10 2 1) w else id w)"

lemma removal_others: "pg_others K (removal_at n)"
  by (rule nest_others [OF nest.either [OF nest.one [OF nest.nobody] nest.nobody]]) simp

theorem rooms_interleaved_witness:
  "case run_request (interrupted_room_service (removal_at 2) sample_uuids) (AddMemberReq 10 4 2) (sample_room_world, []) of (r, (w', ts)) \<Rightarrow>
    pg_ok w' \<and> rooms_inv (pg_view w') \<and> chain (relies {10}) (pg_view sample_room_world) ts (pg_view w') \<and>
    outcome (acts (AddMemberReq 10 4 2)) r ts"
  by (rule rooms_interleaved [OF removal_others _ _ sample_rooms_inv]) simp_all

text \<open>A member who is removed after the check of \<open>AddMember\<close> and before its insertion still adds a
  member: the removal is announced first, the addition after it.\<close>

theorem add_member_race:
  "case run_request (interrupted_room_service (removal_at 2) sample_uuids) (AddMemberReq 10 4 2) (sample_room_world, []) of (r, (w', ts)) \<Rightarrow>
    r = Inr () \<and> v_roles (pg_view w') 10 2 = None \<and> v_roles (pg_view w') 10 4 = Some MemberRoleMember \<and>
    published w' = [room_event_msg sample_uuids (MembershipChanged 10 2 ''removed'' [1, 3]),
      room_event_msg sample_uuids (MembershipChanged 10 4 ''added'' [1, 3, 4])]"
  by code_simp

end
