(* ===== verification/MessageInterleaving.thy ===== *)
theory MessageInterleaving
  imports Interleaving
begin

text \<open>
  Requests to the message service among others.  Others may act before every call of the repository,
  of the client of the room service and of the publisher; they change the rooms in any way \<open>R\<close>, and the messages
  as requests do.  The trace of \<open>Interleaving\<close> tells what they did and what the request did.
  A request then changes the messages in at most one of its calls, and what it does was permitted by the membership
  that it asked for earlier: between the answer and the effect the user may have left the room.
\<close>

section \<open>What others do\<close>

text \<open>A change of the messages: a new one, whose reply stays in the room, or one that is marked deleted.\<close>

inductive message_change :: "message_view \<Rightarrow> message_view \<Rightarrow> bool" where
  sent: "stored input v m v' \<Longrightarrow> reply_in v (ci_RoomID input) (ci_ReplyToID input) \<Longrightarrow> message_change v v'"
| marked: "soft_deleted i v v' \<Longrightarrow> message_change v v'"

text \<open>Rooms and messages.  \<open>R\<close> says what others may do to the rooms.\<close>

type_synonym chat_view = "room_view \<times> message_view"

inductive other :: "(room_view \<Rightarrow> room_view \<Rightarrow> bool) \<Rightarrow> chat_view \<Rightarrow> chat_view \<Rightarrow> bool" for R where
  rooms: "R rv rv' \<Longrightarrow> other R (rv, v) (rv', v)"
| messages: "message_change v v' \<Longrightarrow> other R (rv, v) (rv, v')"

abbreviation others :: "(room_view \<Rightarrow> room_view \<Rightarrow> bool) \<Rightarrow> chat_view \<Rightarrow> chat_view \<Rightarrow> bool" where
  "others R \<equiv> (other R)\<^sup>*\<^sup>*"

definition interrupted_messages :: "('w \<Rightarrow> 'v) \<Rightarrow> ('w \<Rightarrow> 'w) \<Rightarrow> 'w MessageRepository \<Rightarrow> ('w \<times> 'v turn list) MessageRepository" where
  "interrupted_messages view I repo =
     \<lparr>mrepo_CreateMessage = (\<lambda>input. in_turn view I (mrepo_CreateMessage repo input)),
      mrepo_GetMessagesByRoomID = (\<lambda>room cursor limit. in_turn view I (mrepo_GetMessagesByRoomID repo room cursor limit)),
      mrepo_GetMessageByID = (\<lambda>i. in_turn view I (mrepo_GetMessageByID repo i)),
      mrepo_SoftDeleteMessage = (\<lambda>i. in_turn view I (mrepo_SoftDeleteMessage repo i))\<rparr>"

definition interrupted_client :: "('w \<Rightarrow> 'v) \<Rightarrow> ('w \<Rightarrow> 'w) \<Rightarrow> 'w RoomClient \<Rightarrow> ('w \<times> 'v turn list) RoomClient" where
  "interrupted_client view I cl =
     \<lparr>rc_IsMember = (\<lambda>room u. in_turn view I (rc_IsMember cl room u)),
      rc_GetRoomMembers = (\<lambda>room. in_turn view I (rc_GetRoomMembers cl room))\<rparr>"

definition interrupted_message_publisher :: "('w \<Rightarrow> 'v) \<Rightarrow> ('w \<Rightarrow> 'w) \<Rightarrow> 'w MessagePublisher \<Rightarrow> ('w \<times> 'v turn list) MessagePublisher" where
  "interrupted_message_publisher view I pub =
     \<lparr>mpub_MessageCreated = (\<lambda>m ids. in_turn view I (mpub_MessageCreated pub m ids))\<rparr>"

lemma interrupted_messages_sel [simp]:
  "mrepo_CreateMessage (interrupted_messages view I r) = (\<lambda>input. in_turn view I (mrepo_CreateMessage r input))"
  "mrepo_GetMessagesByRoomID (interrupted_messages view I r) =
     (\<lambda>room cursor limit. in_turn view I (mrepo_GetMessagesByRoomID r room cursor limit))"
  "mrepo_GetMessageByID (interrupted_messages view I r) = (\<lambda>i. in_turn view I (mrepo_GetMessageByID r i))"
  "mrepo_SoftDeleteMessage (interrupted_messages view I r) = (\<lambda>i. in_turn view I (mrepo_SoftDeleteMessage r i))"
  "rc_IsMember (interrupted_client view I cl) = (\<lambda>room u. in_turn view I (rc_IsMember cl room u))"
  "rc_GetRoomMembers (interrupted_client view I cl) = (\<lambda>room. in_turn view I (rc_GetRoomMembers cl room))"
  "mpub_MessageCreated (interrupted_message_publisher view I pub) = (\<lambda>m ids. in_turn view I (mpub_MessageCreated pub m ids))"
  by (simp_all add: interrupted_messages_def interrupted_client_def interrupted_message_publisher_def)

section \<open>What one request does among others\<close>

text \<open>What the membership at the time of the check (the rooms \<open>rv\<close>) permits, and what a request is for.\<close>

fun permitted :: "message_request \<Rightarrow> room_view \<Rightarrow> message_view \<Rightarrow> bool" where
  "permitted (SendReq input) rv v \<longleftrightarrow>
     is_member rv (si_RoomID input) (si_SenderID input) \<and> reply_in v (si_RoomID input) (si_ReplyToID input)"
| "permitted (GetMessagesReq room u cursor limit) rv v \<longleftrightarrow> is_member rv room u"
| "permitted (GetMessageReq i u) rv v \<longleftrightarrow> (\<exists>r. v i = Some r \<and> is_member rv (mr_room_id r) u)"
| "permitted (DeleteReq i u) rv v \<longleftrightarrow> (\<exists>r. v i = Some r \<and> is_member rv (mr_room_id r) u \<and> mr_sender_id r = u)"

fun does :: "message_request \<Rightarrow> message_view \<Rightarrow> message_view \<Rightarrow> bool" where
  "does (SendReq input) v v' \<longleftrightarrow> (\<exists>m. stored (toCreateInput input) v m v')"
| "does (DeleteReq i u) v v' \<longleftrightarrow> soft_deleted i v v'"
| "does _ v v' \<longleftrightarrow> v' = v"

definition run_message_request :: "'w MessageService \<Rightarrow> message_request \<Rightarrow> ('w, unit) op" where
  "run_message_request s req =
     (case req of
        SendReq input \<Rightarrow> answered (msvc_SendMessage s input)
      | GetMessagesReq room u cursor limit \<Rightarrow> answered (msvc_GetMessages s room u cursor limit)
      | GetMessageReq i u \<Rightarrow> answered (msvc_GetMessageByID s i u)
      | DeleteReq i u \<Rightarrow> answered (msvc_DeleteMessage s i u))"

lemma run_message_request_serve: "snd (run_message_request s req w) = serve_message s req w"
  by (cases req) (simp_all add: run_message_request_def answered_def tryE_def fail_def ret_def split: prod.splits sum.splits)

text \<open>The rooms that decide: those which an earlier call found, and for the reading of one message, whose
  last call is the check, those which that call found.\<close>

fun deciding_rooms :: "message_request \<Rightarrow> chat_view turn list \<Rightarrow> chat_view \<Rightarrow> room_view set" where
  "deciding_rooms (GetMessageReq i u) earlier v = insert (fst v) ((\<lambda>(found, now, left). fst now) ` set earlier)"
| "deciding_rooms _ earlier v = (\<lambda>(found, now, left). fst now) ` set earlier"

text \<open>A call of the request leaves the rooms alone and does to the messages what the request is for, as the
  membership that was asked for permits.\<close>

definition message_acts :: "message_request \<Rightarrow> chat_view turn list \<Rightarrow> chat_view \<Rightarrow> chat_view \<Rightarrow> bool" where
  "message_acts req earlier v v' \<longleftrightarrow>
     fst v' = fst v \<and> does req (snd v) (snd v') \<and> (\<exists>rv \<in> deciding_rooms req earlier v. permitted req rv (snd v))"

section \<open>Stability\<close>

lemma message_change_history: "message_change v v' \<Longrightarrow> history v v'"
  by (induction rule: message_change.induct) (blast intro: stored_history soft_deleted_history)+

lemma message_change_invs: "message_change v v' \<Longrightarrow> ids_match v \<and> replies_inside v \<Longrightarrow> ids_match v' \<and> replies_inside v'"
  by (induction rule: message_change.induct) (blast dest: stored_invs soft_deleted_invs)+

lemma others_history: "others R s s' \<Longrightarrow> history (snd s) (snd s')"
proof (induction rule: rtranclp_induct)
  case (step s1 s2)
  have "history (snd s1) (snd s2)" using step.hyps(2) by (cases rule: other.cases) (simp_all add: history_refl message_change_history)
  with step.IH show ?case by (rule history_trans)
qed (rule history_refl)

lemma others_invs: "others R s s' \<Longrightarrow> ids_match (snd s) \<and> replies_inside (snd s) \<Longrightarrow> ids_match (snd s') \<and> replies_inside (snd s')"
proof (induction rule: rtranclp_induct)
  case (step s1 s2)
  from step.hyps(2) step.IH [OF step.prems] show ?case by (cases rule: other.cases) (simp_all add: message_change_invs)
qed simp

text \<open>A message that was seen stays in its room and its sender's.\<close>

lemma kept_message_sender: "kept_message r r' \<Longrightarrow> mr_sender_id r' = mr_sender_id r"
  by (auto simp: kept_message_def)

lemma message_stays:
  assumes "others R s s'" and "snd s i = Some r"
  obtains r' where "snd s' i = Some r'" "mr_room_id r' = mr_room_id r" "mr_sender_id r' = mr_sender_id r"
proof -
  from others_history [OF assms(1)] assms(2) obtain r' where "snd s' i = Some r'" "kept_message r r'"
    unfolding history_def by blast
  then show thesis using kept_message_facts(2) kept_message_sender by (intro that [of r']) auto
qed

lemma reply_stays:
  assumes "others R s s'" and "reply_in (snd s) room reply"
  shows "reply_in (snd s') room reply"
  unfolding reply_in_def
proof (intro allI impI)
  fix i assume "reply = Some i"
  then obtain r where "snd s i = Some r" "mr_room_id r = room" using assms(2) by (auto simp: reply_in_def)
  then show "\<exists>r. snd s' i = Some r \<and> mr_room_id r = room" using message_stays [OF assms(1)] by metis
qed

lemma done_change: "permitted req rv v \<Longrightarrow> does req v v' \<Longrightarrow> v' = v \<or> message_change v v'"
  by (cases req) (auto simp: toCreateInput_def intro: message_change.intros)

section \<open>Every request, among others\<close>

context message_backend
begin

abbreviation both_views :: "'w \<Rightarrow> chat_view" where
  "both_views w \<equiv> (rview w, mview w)"

definition disturbs :: "(room_view \<Rightarrow> room_view \<Rightarrow> bool) \<Rightarrow> ('w \<Rightarrow> 'w) \<Rightarrow> bool" where
  "disturbs R I \<longleftrightarrow> (\<forall>w. invar w \<longrightarrow> invar (I w) \<and> others R (both_views w) (both_views (I w)))"

abbreviation isvc :: "('w \<Rightarrow> 'w) \<Rightarrow> ('w \<times> chat_view turn list) messageService" where
  "isvc I \<equiv> \<lparr>ms_repo = interrupted_messages both_views I mrepo, ms_roomClient = interrupted_client both_views I cl,
     ms_publisher = interrupted_message_publisher both_views I mpub\<rparr>"

abbreviation next_of :: "('w \<Rightarrow> 'w) \<Rightarrow> 'w \<times> chat_view turn list \<Rightarrow> 'w \<Rightarrow> 'w \<times> chat_view turn list" where
  "next_of \<equiv> next_turn both_views"

text \<open>The request began in \<open>v\<close> and is now at \<open>s\<close>: so far it changed nothing (\<open>before\<close>), and \<open>u\<close> was a member of
  the room at an earlier call (\<open>checked\<close>); it has had its effect (\<open>past\<close>), or failed with the error \<open>e\<close>.\<close>

definition linked :: "(room_view \<Rightarrow> room_view \<Rightarrow> bool) \<Rightarrow> chat_view \<Rightarrow> 'w \<times> chat_view turn list \<Rightarrow> bool" where
  "linked R v s \<longleftrightarrow> invar (fst s) \<and> chain (others R) v (snd s) (both_views (fst s))"

definition before :: "(room_view \<Rightarrow> room_view \<Rightarrow> bool) \<Rightarrow> chat_view \<Rightarrow> 'w \<times> chat_view turn list \<Rightarrow> bool" where
  "before R v s \<longleftrightarrow> linked R v s \<and> idle (snd s)"

definition checked :: "uuid \<Rightarrow> uuid \<Rightarrow> 'w \<times> chat_view turn list \<Rightarrow> bool" where
  "checked room u s \<longleftrightarrow> (\<exists>(found, now, left) \<in> set (snd s). is_member (fst now) room u)"

definition past :: "(room_view \<Rightarrow> room_view \<Rightarrow> bool) \<Rightarrow> chat_view \<Rightarrow> message_request \<Rightarrow> 'w \<times> chat_view turn list \<Rightarrow> bool" where
  "past R v req s \<longleftrightarrow> linked R v s \<and> once (message_acts req) (snd s)"

definition failed :: "(room_view \<Rightarrow> room_view \<Rightarrow> bool) \<Rightarrow> chat_view \<Rightarrow> message_request \<Rightarrow> error
    \<Rightarrow> 'w \<times> chat_view turn list \<Rightarrow> bool" where
  "failed R v req e s \<longleftrightarrow> linked R v s \<and> outcome (message_acts req) (Inl e :: error + unit) (snd s)"

abbreviation same_views :: "'w \<Rightarrow> 'w \<Rightarrow> bool" where
  "same_views w w' \<equiv> invar w' \<and> mview w' = mview w \<and> rview w' = rview w"

lemma before_failed: "before R v s \<Longrightarrow> failed R v req e s"
  by (simp add: before_def failed_def outcome_idle)

lemma past_failed: "past R v req s \<Longrightarrow> \<forall>x. e \<noteq> Sentinel x \<Longrightarrow> failed R v req e s"
  by (simp add: past_def failed_def outcome_once)

lemma linked_now:
  "disturbs R I \<Longrightarrow> linked R v s \<Longrightarrow> invar (I (fst s)) \<and> others R (both_views (fst s)) (both_views (I (fst s)))"
  by (simp add: linked_def disturbs_def)

lemma linked_next:
  assumes "disturbs R I" and "linked R v s" and "invar w'"
  shows "linked R v (next_of I s w')"
  using assms(2,3) linked_now [OF assms(1,2)] by (simp add: linked_def chain_snoc)

lemma before_now:
  "disturbs R I \<Longrightarrow> before R v s \<Longrightarrow> invar (I (fst s)) \<and> others R (both_views (fst s)) (both_views (I (fst s)))"
  unfolding before_def using linked_now by blast

lemma before_next:
  assumes "disturbs R I" and "before R v s" and "same_views (I (fst s)) w'"
  shows "before R v (next_of I s w')"
  using assms linked_next [OF assms(1), of v s w'] by (simp add: before_def)

lemma checked_next: "checked room u s \<or> is_member (rview (I (fst s))) room u \<Longrightarrow> checked room u (next_of I s w')"
  by (auto simp: checked_def)

lemma past_now: "disturbs R I \<Longrightarrow> past R v req s \<Longrightarrow> invar (I (fst s))"
  unfolding past_def using linked_now by blast

lemma past_next:
  assumes "disturbs R I" and "past R v req s" and "same_views (I (fst s)) w'"
  shows "past R v req (next_of I s w')"
  using assms linked_next [OF assms(1), of v s w'] by (simp add: past_def once_later)

text \<open>The call with the effect.\<close>

lemma effect_next:
  assumes "disturbs R I" and "before R v s" and "invar w'" and "rview w' = rview (I (fst s))"
    and "does req (mview (I (fst s))) (mview w')"
    and "rv \<in> deciding_rooms req (snd s) (both_views (I (fst s)))" and "permitted req rv (mview (I (fst s)))"
  shows "past R v req (next_of I s w')"
proof -
  have "message_acts req (snd s) (both_views (I (fst s))) (both_views w')"
    using assms(4-7) by (auto simp: message_acts_def)
  with assms(1-3) show ?thesis by (simp add: past_def before_def linked_next once_now)
qed

lemma checked_effect:
  assumes "disturbs R I" and "before R v s" and "checked room u s" and "invar w'" and "rview w' = rview (I (fst s))"
    and "does req (mview (I (fst s))) (mview w')"
    and "\<And>rv. is_member rv room u \<Longrightarrow> permitted req rv (mview (I (fst s)))"
  shows "past R v req (next_of I s w')"
proof -
  obtain found now left where t: "(found, now, left) \<in> set (snd s)" "is_member (fst now) room u"
    using assms(3) by (auto simp: checked_def)
  have "fst now \<in> (\<lambda>(found, now, left). fst now) ` set (snd s)" using t(1) by force
  then have "fst now \<in> deciding_rooms req (snd s) (both_views (I (fst s)))" by (cases req) auto
  from effect_next [OF assms(1,2,4-6) this assms(7) [OF t(2)]] show ?thesis .
qed

lemma with_membership_among:
  assumes I: "disturbs R I" and s: "before R v s"
    and k: "\<And>w'. before R v (next_of I s w') \<Longrightarrow> same_views (I (fst s)) w' \<Longrightarrow> is_member (rview (I (fst s))) room u \<Longrightarrow>
      wp k Q E (next_of I s w')"
    and err: "\<And>e s'. before R v s' \<Longrightarrow> E e s'"
  shows "wp (with_membership (isvc I) room u k) Q E s"
proof -
  have inv: "invar (I (fst s))" using before_now [OF I s] by simp
  show ?thesis
    unfolding with_membership_def wp_simps messageService.select_convs interrupted_messages_sel
  proof (rule wp_mono [OF wp_frame [OF client_frame(1) [OF inv] IsMember [OF inv]]], goal_cases)
    case (1 b w')
    then have same: "same_views (I (fst s)) w'" by simp
    note next_s = before_next [OF I s same]
    show ?case
    proof (cases "v_roles (rview (I (fst s))) room u = None")
      case True
      with 1 have "\<not> b" by simp
      then show ?thesis using err [OF next_s] by (simp add: wp_simps)
    next
      case False
      then have "is_member (rview (I (fst s))) room u" by (simp add: is_member_def)
      from k [OF next_s same this] 1 False show ?thesis by (simp add: wp_simps)
    qed
  next
    case (2 e w')
    then show ?case by (intro err before_next [OF I s]) simp
  qed
qed

lemma get_message_among:
  assumes I: "disturbs R I" and s: "before R v s"
    and found: "\<And>r w'. before R v (next_of I s w') \<Longrightarrow> same_views (I (fst s)) w' \<Longrightarrow> mview w' i = Some r \<Longrightarrow>
      Q (seen (mview w') r) (next_of I s w')"
    and err: "\<And>e s'. before R v s' \<Longrightarrow> E e s'"
  shows "wp (mrepo_GetMessageByID (interrupted_messages both_views I mrepo) i) Q E s"
proof -
  have inv: "invar (I (fst s))" using before_now [OF I s] by simp
  show ?thesis
    unfolding interrupted_messages_sel wp_in_turn
  proof (rule wp_mono [OF wp_kept [OF repo_frame(3) GetMessageByID [OF inv] conjI [OF refl refl]]], goal_cases)
    case (1 m w')
    then have same: "same_views (I (fst s)) w'" by simp
    obtain r where "mview w' i = Some r" "m = seen (mview w') r" using 1 by auto
    with found [OF before_next [OF I s same] same] show ?case by simp
  next
    case (2 e w')
    then show ?case by (intro err before_next [OF I s]) simp
  qed
qed

abbreviation serves :: "('w \<Rightarrow> 'w) \<Rightarrow> (room_view \<Rightarrow> room_view \<Rightarrow> bool) \<Rightarrow> message_request
    \<Rightarrow> ('w \<times> chat_view turn list, 'a) op \<Rightarrow> bool" where
  "serves I R req m \<equiv> \<forall>v s. before R v s \<longrightarrow> wp m (\<lambda>_. past R v req) (failed R v req) s"

lemma GetMessages_among:
  assumes I: "disturbs R I" and limit: "limit \<ge> 1"
  shows "serves I R (GetMessagesReq room u cursor limit) (messageService_GetMessages (isvc I) room u cursor limit)"
proof (intro allI impI)
  fix v s assume s: "before R v s"
  show "wp (messageService_GetMessages (isvc I) room u cursor limit) (\<lambda>_. past R v (GetMessagesReq room u cursor limit))
      (failed R v (GetMessagesReq room u cursor limit)) s"
    unfolding messageService_GetMessages_def
  proof (rule with_membership_among [OF I s _ before_failed], goal_cases)
  case (1 w')
  let ?s = "next_of I s w'"
  have inv: "invar (I (fst ?s))" using before_now [OF I 1(1)] by simp
  have c: "checked room u ?s" using 1(3) by (intro checked_next) simp
  have eff: "past R v (GetMessagesReq room u cursor limit) (next_of I ?s w2)" if "same_views (I (fst ?s)) w2" for w2
    by (rule checked_effect [OF I 1(1) c]) (use that in simp_all)
  have none: "failed R v (GetMessagesReq room u cursor limit) e (next_of I ?s w2)" if "same_views (I (fst ?s)) w2" for e w2
    by (rule before_failed [OF before_next [OF I 1(1) that]])
  show ?case
    unfolding wp_simps messageService.select_convs interrupted_messages_sel
    by (rule wp_mono [OF wp_kept [OF repo_frame(2) GetMessagesByRoomID [OF inv limit] conjI [OF refl refl]]])
      (auto simp: wp_simps intro!: eff none split: prod.split)
  qed
qed

lemma GetMessageByID_among:
  assumes I: "disturbs R I"
  shows "serves I R (GetMessageReq i u) (messageService_GetMessageByID (isvc I) i u)"
proof (intro allI impI)
  fix v s assume s: "before R v s"
  show "wp (messageService_GetMessageByID (isvc I) i u) (\<lambda>_. past R v (GetMessageReq i u)) (failed R v (GetMessageReq i u)) s"
    unfolding messageService_GetMessageByID_def wp_tryE messageService.select_convs
  proof (rule get_message_among [OF I s], goal_cases)
  case seen: (1 r w1)
  let ?s = "next_of I s w1"
  show ?case
  proof (simp only: seen_simps, rule with_membership_among [OF I seen(1) _ before_failed], goal_cases)
    case (1 w2)
    have "others R (both_views w1) (both_views (I w1))" using before_now [OF I seen(1)] by simp
    then obtain r' where r': "mview (I w1) i = Some r'" "mr_room_id r' = mr_room_id r"
      using message_stays [of R "both_views w1" "both_views (I w1)" i r] seen(3) by auto
    have "past R v (GetMessageReq i u) (next_of I ?s w2)"
      by (rule effect_next [OF I seen(1), where rv = "rview (I w1)"]) (use 1 r' in simp_all)
    then show ?case by (simp add: wp_ret)
  qed
next
  case (2 e s')
  then show ?case by (simp add: wp_simps before_failed)
  qed
qed

lemma DeleteMessage_among:
  assumes I: "disturbs R I"
  shows "serves I R (DeleteReq i u) (messageService_DeleteMessage (isvc I) i u)"
proof (intro allI impI)
  fix v s assume s: "before R v s"
  show "wp (messageService_DeleteMessage (isvc I) i u) (\<lambda>_. past R v (DeleteReq i u)) (failed R v (DeleteReq i u)) s"
    unfolding messageService_DeleteMessage_def wp_tryE messageService.select_convs
  proof (rule get_message_among [OF I s], goal_cases)
  case seen: (1 r w1)
  let ?s = "next_of I s w1"
  show ?case
  proof (simp only: seen_simps, rule with_membership_among [OF I seen(1) _ before_failed], goal_cases)
    case (1 w2)
    let ?s2 = "next_of I ?s w2"
    have now: "invar (I w2)" "others R (both_views w2) (both_views (I w2))" using before_now [OF I 1(1)] by simp_all
    have "others R (both_views w1) (both_views (I w1))" using before_now [OF I seen(1)] by simp
    then have "others R (both_views w1) (both_views w2)" using 1(2) by simp
    from rtranclp_trans [OF this now(2)] have "others R (both_views w1) (both_views (I w2))" .
    then obtain r' where r': "mview (I w2) i = Some r'" "mr_room_id r' = mr_room_id r" "mr_sender_id r' = mr_sender_id r"
      using message_stays [of R "both_views w1" "both_views (I w2)" i r] seen(3) by auto
    have c: "checked (mr_room_id r) u ?s2" using 1(3) by (intro checked_next) simp
    have eff: "past R v (DeleteReq i u) (next_of I ?s2 w')" if "mr_sender_id r = u" "invar w'" "rview w' = rview (I w2)"
        "soft_deleted i (mview (I w2)) (mview w')" for w'
      by (rule checked_effect [OF I 1(1) c]) (use r' that in simp_all)
    have none: "failed R v (DeleteReq i u) e (next_of I ?s2 w')" if "same_views (I w2) w'" for e w'
      by (rule before_failed [OF before_next [OF I 1(1)]]) (use that in simp)
    show ?case
    proof (cases "mr_sender_id r = u")
      case True
      have err: "failed R v (DeleteReq i u) e (next_of I ?s2 w')" if "invar w'" "rview w' = rview (I w2)"
          "\<forall>s. errors_Is e s \<longrightarrow> s = msgRepo_ErrMessageNotFound \<and> mview w' = mview (I w2)"
          "mview w' = mview (I w2) \<or> soft_deleted i (mview (I w2)) (mview w')" for e w'
      proof (cases "mview w' = mview (I w2)")
        case False
        then have "\<forall>x. e \<noteq> Sentinel x" using that(3) by auto
        then show ?thesis using eff [OF True that(1,2)] that(4) False past_failed by blast
      qed (use none that in simp)
      show ?thesis
        by (simp only: True simp_thms if_False if_True interrupted_messages_sel wp_in_turn next_turn_simps,
          rule wp_mono [OF wp_kept [OF repo_frame(4) SoftDeleteMessage [OF now(1)] conjI [OF refl refl]]])
          (use eff [OF True] err in auto)
    next
      case False
      then show ?thesis using before_failed [OF 1(1)] by (simp add: wp_fail)
    qed
  qed
next
  case (2 e s')
  then show ?case by (simp add: wp_simps before_failed)
  qed
qed

lemma check_reply_among:
  assumes I: "disturbs R I" and s: "before R v s" and c: "checked room u s"
    and ok: "\<And>s'. before R v s' \<Longrightarrow> checked room u s' \<Longrightarrow> reply_in (mview (fst s')) (si_RoomID input) (si_ReplyToID input) \<Longrightarrow> Q () s'"
    and err: "\<And>e s'. before R v s' \<Longrightarrow> E e s'"
  shows "wp (check_reply_target (isvc I) input) Q E s"
proof (cases "si_ReplyToID input")
  case None
  then show ?thesis using ok [OF s c] by (simp add: check_reply_target_def wp_simps reply_in_def)
next
  case (Some i)
  show ?thesis
    unfolding check_reply_target_def Some option.case wp_tryE messageService.select_convs
  proof (rule get_message_among [OF I s], goal_cases)
    case (1 r w')
    have "checked room u (next_of I s w')" using c by (intro checked_next) simp
    with ok [OF 1(1)] err [OF 1(1)] 1(3) Some show ?case by (simp add: wp_simps reply_in_def)
  next
    case (2 e s')
    then show ?case using err by (simp add: wp_simps)
  qed
qed

text \<open>Once the message is stored, announcing it changes nothing.\<close>

lemma announce_among:
  assumes I: "disturbs R I" and s: "past R v req s"
  shows "wp (tryE (rc_GetRoomMembers (interrupted_client both_views I cl) room) (\<lambda>_. ret m)
      (\<lambda>ids. attempt (mpub_MessageCreated (interrupted_message_publisher both_views I mpub) m ids) (ret m))) (\<lambda>_. past R v req) E s"
proof -
  have inv: "invar (I (fst s))" by (rule past_now [OF I s])
  have tell: "wp (attempt (mpub_MessageCreated (interrupted_message_publisher both_views I mpub) m ids) (ret m)) (\<lambda>_. past R v req) E s'"
    if p: "past R v req s'" for ids s'
    unfolding interrupted_messages_sel wp_simps
    by (rule wp_mono [OF publish_message [OF past_now [OF I p]]]) (auto intro: past_next [OF I p])
  show ?thesis
    unfolding wp_tryE interrupted_messages_sel(6) wp_in_turn
    by (rule wp_mono [OF wp_frame [OF client_frame(2) [OF inv] GetRoomMembers [OF inv]]])
      (auto simp: wp_ret intro!: tell [unfolded interrupted_messages_sel] past_next [OF I s])
qed

lemma SendMessage_among:
  assumes I: "disturbs R I" and input: "sendable input"
  shows "serves I R (SendReq input) (messageService_SendMessage (isvc I) input)"
proof (intro allI impI)
  fix v s assume s: "before R v s"
  obtain x where x: "ci_Content (toCreateInput input) = Some x" "ci_Type (toCreateInput input) \<in> set (content_types x)"
    using input by (auto simp: sendable_def toCreateInput_def split: option.splits)
  have store: "wp (tryE (mrepo_CreateMessage (interrupted_messages both_views I mrepo) (toCreateInput input))
      (\<lambda>e. fail (Wrap ''create message'' e))
      (\<lambda>msg. tryE (rc_GetRoomMembers (interrupted_client both_views I cl) (si_RoomID input)) (\<lambda>_. ret (toMessage msg))
         (\<lambda>ids. attempt (mpub_MessageCreated (interrupted_message_publisher both_views I mpub) (toMessage msg) ids) (ret (toMessage msg)))))
      (\<lambda>_. past R v (SendReq input)) (failed R v (SendReq input)) s1"
    if s1: "before R v s1" and c: "checked (si_RoomID input) (si_SenderID input) s1"
      and reply: "reply_in (mview (fst s1)) (si_RoomID input) (si_ReplyToID input)" for s1
  proof -
    have now: "invar (I (fst s1))" "others R (both_views (fst s1)) (both_views (I (fst s1)))" using before_now [OF I s1] by simp_all
    have stays: "reply_in (mview (I (fst s1))) (si_RoomID input) (si_ReplyToID input)"
      using reply_stays [OF now(2), of "si_RoomID input" "si_ReplyToID input"] reply by simp
    have eff: "past R v (SendReq input) (next_of I s1 w')" if "invar w'" "rview w' = rview (I (fst s1))"
        "stored (toCreateInput input) (mview (I (fst s1))) m (mview w')" for w' m
      by (rule checked_effect [OF I s1 c that(1,2)]) (use stays that(3) in auto)
    show ?thesis
      unfolding wp_tryE [of "mrepo_CreateMessage (interrupted_messages both_views I mrepo) (toCreateInput input)"]
      unfolding interrupted_messages_sel(1) wp_in_turn
    proof (rule wp_mono [OF wp_kept [OF repo_frame(1) CreateMessage [OF now(1) x] conjI [OF refl refl]]], goal_cases)
      case (1 m w')
      then show ?case by (intro announce_among [OF I eff]) auto
    next
      case (2 e w')
      then show ?case using before_next [OF I s1, of w'] eff [of w'] by (auto simp: wp_fail intro: before_failed past_failed)
    qed
  qed
  show "wp (messageService_SendMessage (isvc I) input) (\<lambda>_. past R v (SendReq input)) (failed R v (SendReq input)) s"
    unfolding messageService_SendMessage_def
  proof (rule with_membership_among [OF I s _ before_failed], goal_cases)
    case (1 w1)
    have c: "checked (si_RoomID input) (si_SenderID input) (next_of I s w1)" using 1(3) by (intro checked_next) simp
    show ?case
      unfolding wp_tryE [of "check_reply_target _ _"] wp_fail messageService.select_convs Let_def
      by (rule check_reply_among [OF I 1(1) c store before_failed])
  qed
qed

lemma run_message_request_among:
  assumes I: "disturbs R I" and ok: "message_request_ok req" and w: "invar w"
  shows "wp (run_message_request (NewMessageService (interrupted_messages both_views I mrepo) (interrupted_client both_views I cl)
      (interrupted_message_publisher both_views I mpub)) req)
    (\<lambda>_. past R (both_views w) req) (failed R (both_views w) req) (w, [])"
proof -
  have "before R (both_views w) (w, [])" using w by (simp add: before_def linked_def)
  with ok show ?thesis
    using SendMessage_among [OF I] GetMessages_among [OF I] GetMessageByID_among [OF I] DeleteMessage_among [OF I]
    by (cases req) (simp_all add: run_message_request_def wp_answered NewMessageService_def Let_def)
qed

end

section \<open>The service on Postgres, among others\<close>

abbreviation chat_views :: "'z message_world_scheme \<Rightarrow> chat_view" where
  "chat_views w \<equiv> (pg_view w, pg_messages w)"

definition message_others ::
    "uuid_lib \<Rightarrow> (room_view \<Rightarrow> room_view \<Rightarrow> bool) \<Rightarrow> ('z message_world_scheme \<Rightarrow> 'z message_world_scheme) \<Rightarrow> bool" where
  "message_others U R I \<longleftrightarrow>
     (\<forall>w. backend_ok U w \<longrightarrow> backend_ok U (I w) \<and> others R (chat_views w) (chat_views (I w)))"

definition interrupted_message_service :: "('z message_world_scheme \<Rightarrow> 'z message_world_scheme) \<Rightarrow> grpc_lib \<Rightarrow> uuid_lib
    \<Rightarrow> time list \<Rightarrow> (string list \<Rightarrow> string) \<Rightarrow> ('z message_world_scheme \<times> chat_view turn list) MessageService" where
  "interrupted_message_service I L U delays errtxt =
     NewMessageService (interrupted_messages chat_views I pgMessageRepository)
       (interrupted_client chat_views I (NewRoomClient L U delays (room_handler U errtxt)))
       (interrupted_message_publisher chat_views I (natsMessagePublisher U))"

lemma pg_message_among:
  assumes "message_others U R I" and "message_request_ok req" and "backend_ok U w"
    and "run_message_request (interrupted_message_service I L U delays errtxt) req (w, []) = (r, (w', ts))"
  shows "backend_ok U w' \<and> chain (others R) (chat_views w) ts (chat_views w') \<and> outcome (message_acts req) r ts"
proof -
  have "mb.disturbs U R I" using assms(1) by (simp add: message_others_def mb.disturbs_def)
  from wpD [OF mb.run_message_request_among [OF this assms(2,3), of L delays errtxt, folded interrupted_message_service_def] assms(4)]
  show ?thesis by (cases r) (auto simp: mb.past_def mb.failed_def mb.linked_def outcome_def)
qed

text \<open>Requests to either service are such others, so requests may be nested to any depth.\<close>

lemma outcome_others:
  assumes "chain (others R) v ts v'" and "outcome (message_acts req) r ts"
  shows "others R v v'"
proof (rule chain_steps [OF assms(1)], safe)
  fix rb vb rd vd ra va assume "((rb, vb), (rd, vd), (ra, va)) \<in> set ts"
  from outcome_turns [OF assms(2) this] show "others R (rd, vd) (ra, va)"
  proof (elim disjE exE)
    fix earlier assume "message_acts req earlier (rd, vd) (ra, va)"
    then have "ra = rd" "va = vd \<or> message_change vd va" using done_change by (auto simp: message_acts_def)
    then show ?thesis by (auto intro: other.messages)
  qed simp
qed

definition serve_message_among :: "('z message_world_scheme \<Rightarrow> 'z message_world_scheme) \<Rightarrow> grpc_lib \<Rightarrow> uuid_lib \<Rightarrow> time list
    \<Rightarrow> (string list \<Rightarrow> string) \<Rightarrow> message_request \<Rightarrow> 'z message_world_scheme \<Rightarrow> 'z message_world_scheme" where
  "serve_message_among I L U delays errtxt req w =
     fst (snd (run_message_request (interrupted_message_service I L U delays errtxt) req (w, [])))"

inductive chat_nest :: "grpc_lib \<Rightarrow> uuid_lib \<Rightarrow> time list \<Rightarrow> (string list \<Rightarrow> string)
    \<Rightarrow> ('z message_world_scheme \<Rightarrow> 'z message_world_scheme) \<Rightarrow> bool" for L U delays errtxt where
  nobody: "chat_nest L U delays errtxt id"
| room: "chat_nest L U delays errtxt (serve (room_service U) req)"
| message: "chat_nest L U delays errtxt I \<Longrightarrow> message_request_ok req \<Longrightarrow>
    chat_nest L U delays errtxt (serve_message_among I L U delays errtxt req)"
| both: "chat_nest L U delays errtxt I \<Longrightarrow> chat_nest L U delays errtxt J \<Longrightarrow> chat_nest L U delays errtxt (J \<circ> I)"
| either: "chat_nest L U delays errtxt I \<Longrightarrow> chat_nest L U delays errtxt J \<Longrightarrow>
    chat_nest L U delays errtxt (\<lambda>w. if P w then I w else J w)"

definition some_room_step :: "room_view \<Rightarrow> room_view \<Rightarrow> bool" where
  "some_room_step rv rv' \<longleftrightarrow> (\<exists>u. room_step u rv rv')"

lemma room_request_others: "message_others U some_room_step (serve (room_service U) req)"
  unfolding message_others_def
proof (intro allI impI)
  fix w :: "'a message_world_scheme" assume w: "backend_ok U w"
  let ?w = "serve (room_service U) req w"
  have same: "message_db ?w = message_db w" using serve_room_frame [of U req w] by simp
  have "pg_ok w" using w by (simp add: backend_ok_def client_ok_def)
  from pgb.serve_step [OF this, of U req, folded room_service_def]
  have step: "pg_ok ?w" "pg_view ?w = pg_view w \<or> some_room_step (pg_view w) (pg_view ?w)"
    by (auto simp: some_room_step_def)
  have "others some_room_step (chat_views w) (chat_views ?w)"
    using step(2)
  proof
    assume "some_room_step (pg_view w) (pg_view ?w)"
    then show ?thesis using same by (auto simp: pg_messages_def intro: other.rooms)
  qed (simp add: same pg_messages_def)
  with step(1) w same show "backend_ok U ?w \<and> others some_room_step (chat_views w) (chat_views ?w)"
    by (simp add: backend_ok_dbs pg_ok_def)
qed

lemma chat_nest_others:
  fixes I :: "'z message_world_scheme \<Rightarrow> 'z message_world_scheme"
  assumes "chat_nest L U delays errtxt I"
  shows "message_others U some_room_step I"
  using assms
proof (induction rule: chat_nest.induct)
  case (message I req)
  show ?case
    unfolding message_others_def
  proof (intro allI impI)
    fix w :: "'z message_world_scheme" assume w: "backend_ok U w"
    obtain r w' ts where run: "run_message_request (interrupted_message_service I L U delays errtxt) req (w, []) = (r, (w', ts))"
      by (metis surj_pair)
    from pg_message_among [OF message.IH message.hyps(2) w run] outcome_others run
    show "backend_ok U (serve_message_among I L U delays errtxt req w) \<and>
        others some_room_step (chat_views w) (chat_views (serve_message_among I L U delays errtxt req w))"
      by (auto simp: serve_message_among_def)
  qed
next
  case (both I J)
  then show ?case unfolding message_others_def comp_apply by (meson rtranclp_trans)
qed (auto simp: message_others_def room_request_others [unfolded message_others_def])

text \<open>When nobody else acts, this is the service of the code.\<close>

lemma run_message_request_traces:
  "traces (run_message_request (NewMessageService (interrupted_messages view id repo) (interrupted_client view id cl)
      (interrupted_message_publisher view id pub)) req)
    (run_message_request (NewMessageService repo cl pub) req)"
  unfolding run_message_request_def answered_def NewMessageService_def Let_def
  by (cases req;
      simp add: messageService_SendMessage_def messageService_GetMessages_def messageService_GetMessageByID_def
        messageService_DeleteMessage_def with_membership_def check_reply_target_def;
      (intro allI conjI impI traces_intros | simp add: Let_def split: option.split prod.split)+)

text \<open>C4: A request to the message service, between whose calls of the repository, of the room service and of
  the publisher others change rooms and messages as they like (along \<open>others R\<close>), changes the messages itself in at
  most one of these calls, and the rooms in none.  An answer without an error means that exactly one call did what
  the request is for: it stored one message of its user, whose reply stays in the room, or marked one message
  of its user deleted, or read; and the user was a member of the room in the rooms that an earlier call found (for the
  reading of one message: the call itself).  A refusal of the service means that no call changed anything, any
  other error that none did or one did just that.  Whatever happens, stored messages stay as they are except
  for the mark of deletion, and replies stay inside their rooms.\<close>

theorem messages_interleaved:
  assumes "message_others U R I" and "message_request_ok req" and "backend_ok U w"
    and "ids_match (pg_messages w)" and "replies_inside (pg_messages w)"
  shows "case run_message_request (interrupted_message_service I L U delays errtxt) req (w, []) of (r, (w', ts)) \<Rightarrow>
    backend_ok U w' \<and> chain (others R) (chat_views w) ts (chat_views w') \<and> outcome (message_acts req) r ts \<and>
    history (pg_messages w) (pg_messages w') \<and> ids_match (pg_messages w') \<and> replies_inside (pg_messages w')"
proof -
  obtain r w' ts where run: "run_message_request (interrupted_message_service I L U delays errtxt) req (w, []) = (r, (w', ts))"
    by (metis surj_pair)
  note among = pg_message_among [OF assms(1-3) run]
  then have "others R (chat_views w) (chat_views w')" using outcome_others by blast
  from others_history [OF this] others_invs [OF this] among assms(4,5) show ?thesis by (simp add: run)
qed

lemma sample_history: "ids_match (pg_messages sample_chat)" "replies_inside (pg_messages sample_chat)"
proof -
  have row: "r \<in> set sample_messages \<and> mr_id r = i" if "pg_messages sample_chat i = Some r" for i r
    using that by (auto simp: sample_chat_views row_by_id_def dest: find_SomeD)
  then show "ids_match (pg_messages sample_chat)" by (simp add: ids_match_def)
  have "pg_messages sample_chat 50 = Some (hd sample_messages)"
    by (simp add: sample_chat_views row_by_id_def sample_messages_def)
  then show "replies_inside (pg_messages sample_chat)"
    unfolding replies_inside_def
  proof (intro allI impI)
    fix r i assume r: "pg_messages sample_chat (mr_id r) = Some r \<and> mr_reply_to_id r = Some i"
    then have "i = 50 \<and> mr_room_id r = 10" using row [of "mr_id r" r] by (auto simp: sample_messages_def)
    with \<open>pg_messages sample_chat 50 = _\<close> show "\<exists>o'. pg_messages sample_chat i = Some o' \<and> mr_room_id o' = mr_room_id r"
      by (simp add: sample_messages_def)
  qed
qed

text \<open>The owner removes member 2 while their message is on the way.\<close>

abbreviation removal_before :: "nat \<Rightarrow> message_world \<Rightarrow> message_world" where
  "removal_before n \<equiv> (\<lambda>w. if calls w = n then serve (room_service sample_uuids) (RemoveMemberReq 10 2 1) w else id w)"

definition sent_by_2 :: SendMessageInput where
  "sent_by_2 = sample_input\<lparr>si_SenderID := 2\<rparr>"

lemma removal_before_others: "message_others sample_uuids some_room_step (removal_before n)"
  by (rule chat_nest_others [OF chat_nest.either [OF chat_nest.room chat_nest.nobody]])

theorem messages_interleaved_witness:
  "case run_message_request (interrupted_message_service (removal_before 2) sample_grpc sample_uuids [] concat)
      (SendReq sent_by_2) (sample_chat, []) of (r, (w', ts)) \<Rightarrow>
    backend_ok sample_uuids w' \<and> chain (others some_room_step) (chat_views sample_chat) ts (chat_views w') \<and>
    outcome (message_acts (SendReq sent_by_2)) r ts \<and>
    history (pg_messages sample_chat) (pg_messages w') \<and> ids_match (pg_messages w') \<and> replies_inside (pg_messages w')"
  by (rule messages_interleaved [OF removal_before_others _ _ sample_history])
    (simp_all add: sent_by_2_def sample_input_def sendable_def content_types_def)

text \<open>The removal is announced, and then a message of the removed member.\<close>

theorem removed_sender_race:
  "case run_message_request (interrupted_message_service (removal_before 2) sample_grpc sample_uuids [] concat)
      (SendReq sent_by_2) (sample_chat, []) of (r, (w', ts)) \<Rightarrow>
    r = Inr () \<and> v_roles (pg_view w') 10 2 = None \<and> map mr_sender_id (message_db w') = [2, 2, 2] \<and>
    map fst (published w') = [''room.membership.changed'', ''message.created'']"
  by code_simp

end
