(* ===== verification/Valkey.thy ===== *)
theory Valkey
  imports World
begin

text \<open>
  Valkey, and what \<open>services/shared/pkg/valkey\<close> builds on it: the names of the keys
  (\<open>keys.go\<close>) and the two Lua scripts (\<open>scripts.go\<close>).

  The store maps a key to a value and the time at which it expires; a command is a function of the
  clock and the store, as a SQL statement is, and \<open>vk_do\<close> sends one.  A counter is kept as a number
  (the server keeps its digits).  A script runs without interruption.

  Two contracts are stated as locales.  \<open>one_time_tokens\<close> is a store of tokens that can be taken
  once; the refresh tokens of the auth service (a script) and the tickets of the websocket service
  (\<open>GETDEL\<close>) both provide it.  \<open>window_counter\<close> counts the calls of a window that starts with the
  first one; the script behind both rate limiters provides it.
\<close>

section \<open>Keys\<close>

definition AuthRefreshKey :: "string \<Rightarrow> string" where
  "AuthRefreshKey token = ''auth:refresh:'' @ token"

definition AuthRateLimitKey :: "string \<Rightarrow> string \<Rightarrow> string" where
  "AuthRateLimitKey action email = ''auth:ratelimit:'' @ action @ '':'' @ email"

definition GatewayRateLimitKey :: "string \<Rightarrow> string \<Rightarrow> string \<Rightarrow> string" where
  "GatewayRateLimitKey limitType v window = ''gateway:ratelimit:'' @ limitType @ '':'' @ v @ '':'' @ window"

definition WSPubsubChannelKey :: "string \<Rightarrow> string" where
  "WSPubsubChannelKey channel = ''ws:pubsub:'' @ channel"

definition PresenceOnlineKey :: "string \<Rightarrow> string" where
  "PresenceOnlineKey userID = ''presence:online:'' @ userID"

definition GatewayWSTicketKey :: "string \<Rightarrow> string" where
  "GatewayWSTicketKey ticket = ''gateway:ws:ticket:'' @ ticket"

lemmas key_defs = AuthRefreshKey_def AuthRateLimitKey_def GatewayRateLimitKey_def WSPubsubChannelKey_def
  PresenceOnlineKey_def GatewayWSTicketKey_def

text \<open>Keys of different families differ, and within a family a key says what it is for.\<close>

lemma keys_apart:
  "AuthRefreshKey a \<noteq> AuthRateLimitKey b c" "AuthRefreshKey a \<noteq> GatewayRateLimitKey d e f"
  "AuthRefreshKey a \<noteq> GatewayWSTicketKey g" "AuthRateLimitKey b c \<noteq> GatewayRateLimitKey d e f"
  "AuthRateLimitKey b c \<noteq> GatewayWSTicketKey g" "GatewayRateLimitKey d e f \<noteq> GatewayWSTicketKey g"
  by (simp_all add: key_defs)

lemma inj_keys: "inj AuthRefreshKey" "inj GatewayWSTicketKey" "inj WSPubsubChannelKey" "inj PresenceOnlineKey"
  by (simp_all add: inj_def key_defs)

lemma append_sep_eq:
  assumes "c \<notin> set xs" and "c \<notin> set xs'"
  shows "xs @ c # ys = xs' @ c # ys' \<longleftrightarrow> xs = xs' \<and> ys = ys'"
  using assms
proof (induction xs arbitrary: xs')
  case Nil
  then show ?case by (cases xs') auto
next
  case (Cons x xs)
  then show ?case by (cases xs') auto
qed

lemma AuthRateLimitKey_inj:
  assumes "CHR '':'' \<notin> set a" and "CHR '':'' \<notin> set a'"
  shows "AuthRateLimitKey a e = AuthRateLimitKey a' e' \<longleftrightarrow> a = a' \<and> e = e'"
  using append_sep_eq [OF assms] by (simp add: AuthRateLimitKey_def)

section \<open>The store\<close>

datatype vk_value = VStr string | VInt int

type_synonym valkey = "string \<rightharpoonup> vk_value \<times> time option"

definition second :: time where
  "second = 1000000"

text \<open>A duration in whole seconds, rounded towards zero.\<close>

definition Seconds :: "time \<Rightarrow> int" where
  "Seconds d = (if 0 \<le> d then d div second else - ((- d) div second))"

fun digits :: "nat \<Rightarrow> nat \<Rightarrow> string" where
  "digits 0 n = []"
| "digits (Suc fuel) n = (if n < 10 then [char_of (48 + n)] else digits fuel (n div 10) @ [char_of (48 + n mod 10)])"

text \<open>\<open>strconv.Itoa\<close>; a number has at most as many digits as its value plus one.\<close>

definition Itoa :: "int \<Rightarrow> string" where
  "Itoa i = (if i < 0 then ''-'' else []) @ digits (Suc (nat \<bar>i\<bar>)) (nat \<bar>i\<bar>)"

definition vk_text :: "vk_value \<Rightarrow> string" where
  "vk_text v = (case v of VStr s \<Rightarrow> s | VInt i \<Rightarrow> Itoa i)"

text \<open>The value of a key that has not expired.\<close>

definition live :: "time \<Rightarrow> valkey \<Rightarrow> string \<Rightarrow> vk_value option" where
  "live t db k =
     (case db k of
        None \<Rightarrow> None
      | Some (v, None) \<Rightarrow> Some v
      | Some (v, Some e) \<Rightarrow> if t < e then Some v else None)"

type_synonym 'a vk_command = "(valkey, 'a) stmt"

definition SET_EX :: "string \<Rightarrow> string \<Rightarrow> int \<Rightarrow> unit vk_command" where
  "SET_EX k v secs t u db =
     (if secs \<le> 0 then Inl (External (IOError ''ERR invalid expire time in 'set' command''))
      else Inr ((), db(k \<mapsto> (VStr v, Some (t + secs * second)))))"

definition GET :: "string \<Rightarrow> vk_value option vk_command" where
  "GET k t u db = Inr (live t db k, db)"

definition GETDEL :: "string \<Rightarrow> vk_value option vk_command" where
  "GETDEL k t u db = Inr (live t db k, db(k := None))"

definition DEL :: "string \<Rightarrow> unit vk_command" where
  "DEL k t u db = Inr ((), db(k := None))"

text \<open>\<open>INCR\<close> keeps the expiry of the key, a new key has none.\<close>

definition INCR :: "string \<Rightarrow> int vk_command" where
  "INCR k t u db =
     (case live t db k of
        None \<Rightarrow> Inr (1, db(k \<mapsto> (VInt 1, None)))
      | Some (VInt n) \<Rightarrow>
          if n + 1 < 2 ^ 63 then Inr (n + 1, db(k \<mapsto> (VInt (n + 1), snd (the (db k)))))
          else Inl (External (IOError ''ERR increment or decrement would overflow''))
      | Some (VStr _) \<Rightarrow> Inl (External (IOError ''ERR value is not an integer or out of range'')))"

definition EXPIRE :: "string \<Rightarrow> int \<Rightarrow> unit vk_command" where
  "EXPIRE k secs t u db =
     (case live t db k of
        None \<Rightarrow> Inr ((), db)
      | Some v \<Rightarrow> Inr ((), if secs \<le> 0 then db(k := None) else db(k \<mapsto> (v, Some (t + secs * second)))))"

section \<open>The scripts\<close>

definition IncrWithExpiryScript :: "string \<Rightarrow> int \<Rightarrow> int vk_command" where
  "IncrWithExpiryScript key arg t u db =
     (case INCR key t u db of
        Inl e \<Rightarrow> Inl e
      | Inr (current, db1) \<Rightarrow>
          if current = 1
          then (case EXPIRE key arg t u db1 of Inl e \<Rightarrow> Inl e | Inr (_, db2) \<Rightarrow> Inr (current, db2))
          else Inr (current, db1))"

definition GetAndDeleteScript :: "string \<Rightarrow> vk_value option vk_command" where
  "GetAndDeleteScript key t u db =
     (case GET key t u db of
        Inl e \<Rightarrow> Inl e
      | Inr (v, db1) \<Rightarrow>
          if v \<noteq> None
          then (case DEL key t u db1 of Inl e \<Rightarrow> Inl e | Inr (_, db2) \<Rightarrow> Inr (v, db2))
          else Inr (v, db1))"

text \<open>\<open>client.Do\<close>.\<close>

record valkey_world = world +
  vk :: valkey

definition put_vk :: "valkey \<Rightarrow> 'z valkey_world_scheme \<Rightarrow> 'z valkey_world_scheme" where
  "put_vk db w = w\<lparr>vk := db\<rparr>"

definition vk_do :: "'a vk_command \<Rightarrow> ('z valkey_world_scheme, 'a) op" where
  "vk_do c = pool_call vk put_vk c"

text \<open>\<open>resp.ToString()\<close>: a nil reply is the error \<open>Nil\<close>.\<close>

definition ToString :: "vk_value option \<Rightarrow> error + string" where
  "ToString r = (case r of None \<Rightarrow> Inl (Sentinel vk_Nil) | Some v \<Rightarrow> Inr (vk_text v))"

definition IsValkeyNil :: "error \<Rightarrow> bool" where
  "IsValkeyNil e \<longleftrightarrow> e = Sentinel vk_Nil"

lemmas vk_cmd_defs = SET_EX_def GET_def GETDEL_def DEL_def INCR_def EXPIRE_def IncrWithExpiryScript_def
  GetAndDeleteScript_def
lemmas vk_defs = vk_do_def put_vk_def ToString_def IsValkeyNil_def vk_cmd_defs live_def vk_text_def

section \<open>Tokens that can be taken once\<close>

text \<open>\<open>holds t s k\<close> is what the token \<open>k\<close> stands for at time \<open>t\<close>.  Grabbing it may fail, and then the
  token may be gone all the same.\<close>

locale one_time_tokens =
  fixes save :: "'k \<Rightarrow> string \<Rightarrow> int \<Rightarrow> time \<Rightarrow> 's \<Rightarrow> 's" and grab :: "'k \<Rightarrow> time \<Rightarrow> 's \<Rightarrow> string option \<times> 's"
    and holds :: "time \<Rightarrow> 's \<Rightarrow> 'k \<Rightarrow> string option"
  assumes save_holds: "0 < secs \<Longrightarrow>
      holds t' (save k v secs t s) j = (if j = k then if t' < t + secs * second then Some v else None else holds t' s j)"
    and grab_answers: "fst (grab k t s) \<in> {None, holds t s k}"
    and grab_takes: "t \<le> t' \<Longrightarrow> fst (grab k t s) \<noteq> None \<Longrightarrow> holds t' (snd (grab k t s)) k = None"
    and grab_rest: "t \<le> t' \<Longrightarrow> holds t' (snd (grab k t s)) j \<in> (if j = k then {None, holds t' s k} else {holds t' s j})"
    and expired: "holds t s k = None \<Longrightarrow> t \<le> t' \<Longrightarrow> holds t' s k = None"
begin

text \<open>Some tokens are grabbed at some times, the times in order: no token answers twice.\<close>

fun grabs :: "('k \<times> time) list \<Rightarrow> 's \<Rightarrow> ('k \<times> string) list" where
  "grabs [] s = []"
| "grabs ((k, t) # rest) s =
     (case fst (grab k t s) of None \<Rightarrow> grabs rest (snd (grab k t s)) | Some v \<Rightarrow> (k, v) # grabs rest (snd (grab k t s)))"

lemma gone_stays: "holds t s k = None \<Longrightarrow> t \<le> t' \<Longrightarrow> holds t' (snd (grab j t s)) k = None"
  using grab_rest [of t t' j s k] expired [of t s k t'] by (auto split: if_splits)

lemma gone_refused: "holds t s k = None \<Longrightarrow> fst (grab k t s) = None"
  using grab_answers [of k t s] by auto

lemma grabs_gone:
  assumes "sorted (map snd reqs)" and "\<forall>r \<in> set reqs. t \<le> snd r" and "holds t s k = None"
  shows "k \<notin> fst ` set (grabs reqs s)"
  using assms
proof (induction reqs arbitrary: s t)
  case (Cons req reqs)
  obtain j u where req: "req = (j, u)" by (cases req)
  have none: "holds u s k = None" using expired Cons.prems req by auto
  then have "holds u (snd (grab j u s)) k = None" by (rule gone_stays) simp
  then have "k \<notin> fst ` set (grabs reqs (snd (grab j u s)))"
    using Cons.prems(1) req by (intro Cons.IH [of u]) auto
  moreover have "fst (grab j u s) = None" if "j = k" using none that by (simp add: gone_refused)
  ultimately show ?case by (auto simp: req split: option.splits)
qed simp

lemma grabs_once: "sorted (map snd reqs) \<Longrightarrow> distinct (map fst (grabs reqs s))"
proof (induction reqs arbitrary: s)
  case (Cons req reqs)
  obtain j t where req: "req = (j, t)" by (cases req)
  have "j \<notin> fst ` set (grabs reqs (snd (grab j t s)))" if "fst (grab j t s) \<noteq> None"
    using Cons.prems that by (intro grabs_gone [of _ t] grab_takes) (auto simp: req)
  then show ?case using Cons by (auto simp: req split: option.splits)
qed simp

end

text \<open>On the store, whatever the network does.\<close>

definition token_at :: "(string \<Rightarrow> string) \<Rightarrow> time \<Rightarrow> 'z valkey_world_scheme \<Rightarrow> string \<Rightarrow> string option" where
  "token_at key t w k = map_option vk_text (live t (vk w) (key k))"

definition save_token :: "(string \<Rightarrow> string) \<Rightarrow> string \<Rightarrow> string \<Rightarrow> int \<Rightarrow> time \<Rightarrow> 'z valkey_world_scheme
    \<Rightarrow> 'z valkey_world_scheme" where
  "save_token key k v secs t w = snd (run_stmt vk put_vk t 0 (SET_EX (key k) v secs) w)"

definition grab_token :: "(string \<Rightarrow> vk_value option vk_command) \<Rightarrow> (string \<Rightarrow> string) \<Rightarrow> string \<Rightarrow> time
    \<Rightarrow> 'z valkey_world_scheme \<Rightarrow> string option \<times> 'z valkey_world_scheme" where
  "grab_token c key k t w =
     (case ext_call (run_stmt vk put_vk t 0 (c (key k))) w of
        (Inl e, w') \<Rightarrow> (None, w')
      | (Inr r, w') \<Rightarrow> (map_option vk_text r, w'))"

lemma put_vk_simps [simp]:
  "vk (put_vk db w) = db" "env (put_vk db w) = env w" "calls (put_vk db w) = calls w"
  "published (put_vk db w) = published w" "vk (tick w) = vk w"
  by (simp_all add: put_vk_def tick_def)

lemma save_token_at:
  assumes "inj key" and "0 < secs"
  shows "token_at key t' (save_token key k v secs t w) j =
    (if j = k then if t' < t + secs * second then Some v else None else token_at key t' w j)"
  using assms by (auto simp: token_at_def save_token_def run_stmt_def SET_EX_def live_def vk_text_def inj_eq)

lemma token_expired: "token_at key t w k = None \<Longrightarrow> t \<le> t' \<Longrightarrow> token_at key t' w k = None"
  by (auto simp: token_at_def live_def split: option.splits if_splits)

text \<open>Both commands answer the value and leave a store without the key.\<close>

lemma grab_commands:
  assumes "c = GETDEL \<or> c = GetAndDeleteScript"
  shows "\<exists>db'. c k t u db = Inr (live t db k, db') \<and> (\<forall>j. j \<noteq> k \<longrightarrow> db' j = db j) \<and>
    (db' k = None \<or> db' k = db k \<and> live t db k = None)"
  using assms by (auto simp: vk_cmd_defs)

lemma grab_token_cases:
  assumes "c = GETDEL \<or> c = GetAndDeleteScript" and "inj key"
  obtains (failed) "grab_token c key k t w = (None, tick w)"
    | (called) db r where "grab_token c key k t w = (r, put_vk db (tick w))" "r \<in> {None, token_at key t w k}"
      "\<And>j. j \<noteq> key k \<Longrightarrow> db j = vk w j" "db (key k) = None \<or> db (key k) = vk w (key k) \<and> token_at key t w k = None"
proof -
  obtain db' where db': "c (key k) t 0 (vk w) = Inr (live t (vk w) (key k), db')" "\<forall>j. j \<noteq> key k \<longrightarrow> db' j = vk w j"
      "db' (key k) = None \<or> db' (key k) = vk w (key k) \<and> live t (vk w) (key k) = None"
    using grab_commands [OF assms(1), of "key k" t 0 "vk w"] by blast
  show thesis
  proof (cases "fault_at (env w) (calls w)")
    case Works
    then show ?thesis using db'
      by (intro called [of "token_at key t w k" db']) (simp_all add: grab_token_def ext_call_def run_stmt_def token_at_def)
  next
    case (Fails x)
    then show ?thesis by (intro failed) (simp add: grab_token_def ext_call_def)
  next
    case (Lost x)
    then show ?thesis using db'
      by (intro called [of None db']) (simp_all add: grab_token_def ext_call_def run_stmt_def token_at_def)
  qed
qed

lemma grab_token_laws:
  assumes c: "c = GETDEL \<or> c = GetAndDeleteScript" and key: "inj key"
  shows "fst (grab_token c key k t w) \<in> {None, token_at key t w k}"
    and "t \<le> t' \<Longrightarrow> fst (grab_token c key k t w) \<noteq> None \<Longrightarrow> token_at key t' (snd (grab_token c key k t w)) k = None"
    and "t \<le> t' \<Longrightarrow> token_at key t' (snd (grab_token c key k t w)) j \<in>
      (if j = k then {None, token_at key t' w k} else {token_at key t' w j})"
proof -
  note cases = grab_token_cases [OF assms, of k t w]
  show "fst (grab_token c key k t w) \<in> {None, token_at key t w k}" by (cases rule: cases) auto
  show "t \<le> t' \<Longrightarrow> fst (grab_token c key k t w) \<noteq> None \<Longrightarrow> token_at key t' (snd (grab_token c key k t w)) k = None"
    by (cases rule: cases) (auto simp: token_at_def live_def)
  show "t \<le> t' \<Longrightarrow> token_at key t' (snd (grab_token c key k t w)) j \<in>
      (if j = k then {None, token_at key t' w k} else {token_at key t' w j})"
    by (cases rule: cases) (auto simp: token_at_def live_def inj_eq [OF key])
qed

interpretation refresh: one_time_tokens "save_token AuthRefreshKey" "grab_token GetAndDeleteScript AuthRefreshKey"
  "token_at AuthRefreshKey"
proof
qed (assumption | rule save_token_at [OF inj_keys(1)] grab_token_laws [OF disjI2 [OF refl] inj_keys(1)] token_expired)+

interpretation ticket: one_time_tokens "save_token GatewayWSTicketKey" "grab_token GETDEL GatewayWSTicketKey"
  "token_at GatewayWSTicketKey"
proof
qed (assumption | rule save_token_at [OF inj_keys(2)] grab_token_laws [OF disjI1 [OF refl] inj_keys(2)] token_expired)+

section \<open>Counting in windows\<close>

text \<open>\<open>tally s k\<close> is the count of \<open>k\<close> and the time its window ends.  A hit answers the new count, or
  nothing when the call failed (and then it may have counted or not).\<close>

definition open_tally :: "time \<Rightarrow> (int \<times> time) option \<Rightarrow> (int \<times> time) option" where
  "open_tally t c = (case c of Some (n, e) \<Rightarrow> if t < e then Some (n, e) else None | None \<Rightarrow> None)"

definition counted :: "time \<Rightarrow> time \<Rightarrow> (int \<times> time) option \<Rightarrow> int \<times> time" where
  "counted window t c = (case open_tally t c of None \<Rightarrow> (1, t + window) | Some (n, e) \<Rightarrow> (n + 1, e))"

locale window_counter =
  fixes hit :: "'k \<Rightarrow> time \<Rightarrow> 's \<Rightarrow> int option \<times> 's" and tally :: "'s \<Rightarrow> 'k \<Rightarrow> (int \<times> time) option"
    and window :: time and invar :: "'s \<Rightarrow> bool"
  assumes keeps: "invar s \<Longrightarrow> invar (snd (hit k t s))"
    and answer: "invar s \<Longrightarrow> fst (hit k t s) = Some m \<Longrightarrow>
      m = fst (counted window t (tally s k)) \<and> tally (snd (hit k t s)) k = Some (counted window t (tally s k))"
    and failed: "invar s \<Longrightarrow> fst (hit k t s) = None \<Longrightarrow>
      tally (snd (hit k t s)) k \<in> {tally s k, Some (counted window t (tally s k))}"
    and other: "invar s \<Longrightarrow> j \<noteq> k \<Longrightarrow> tally (snd (hit k t s)) j = tally s j"
begin

text \<open>Hits of several keys, between which other things may happen that leave the count of \<open>k\<close> alone;
  the answers to the hits of \<open>k\<close>.\<close>

inductive served :: "'k \<Rightarrow> 's \<Rightarrow> ('k \<times> time) list \<Rightarrow> int option list \<Rightarrow> bool" for k where
  served_none: "served k s [] []"
| served_skip: "served k s' reqs rs \<Longrightarrow> invar s' \<Longrightarrow> tally s' k = tally s k \<Longrightarrow> served k s reqs rs"
| served_hit: "served k (snd (hit j t s)) reqs rs \<Longrightarrow>
    served k s ((j, t) # reqs) ((if j = k then [fst (hit j t s)] else []) @ rs)"

definition let_through :: "int \<Rightarrow> int option list \<Rightarrow> int" where
  "let_through limit rs = int (length (filter (\<lambda>r. case r of None \<Rightarrow> False | Some m \<Rightarrow> m \<le> limit) rs))"

lemma let_through_simps [simp]:
  "let_through limit [] = 0"
  "let_through limit (r # rs) = (if \<exists>m. r = Some m \<and> m \<le> limit then 1 else 0) + let_through limit rs"
  by (auto simp: let_through_def split: option.splits)

text \<open>In one open window.\<close>

lemma one_window:
  assumes "served k s reqs rs" and "invar s" and "tally s k = Some (n, e)" and "\<forall>r \<in> set reqs. snd r < e"
  shows "let_through limit rs \<le> max 0 (limit - n)"
  using assms
proof (induction arbitrary: n rule: served.induct)
  case (served_skip s' reqs rs s)
  then show ?case using served_skip.IH [of n] by simp
next
  case (served_hit j t s reqs rs)
  note inv = keeps [OF served_hit.prems(1), of j t]
  show ?case
  proof (cases "j = k")
    case False
    then have "tally (snd (hit j t s)) k = Some (n, e)" using other [of s k j t] served_hit.prems by simp
    then show ?thesis using served_hit.IH [of n] inv served_hit.prems(3) False by simp
  next
    case True
    have c: "counted window t (tally s k) = (n + 1, e)"
      using served_hit.prems by (simp add: counted_def open_tally_def)
    have IH: "let_through limit rs \<le> max 0 (limit - n')" if "tally (snd (hit k t s)) k = Some (n', e)" for n'
      using served_hit.IH [of n'] inv that served_hit.prems(3) True by simp
    show ?thesis
    proof (cases "fst (hit k t s)")
      case None
      then consider "tally (snd (hit k t s)) k = Some (n, e)" | "tally (snd (hit k t s)) k = Some (n + 1, e)"
        using failed [of s k t] c served_hit.prems by auto
      then show ?thesis using IH [of n] IH [of "n + 1"] None True by cases auto
    next
      case (Some m)
      then have "m = n + 1" "tally (snd (hit k t s)) k = Some (n + 1, e)"
        using answer [OF served_hit.prems(1) Some] c by auto
      then show ?thesis using IH [of "n + 1"] Some True by auto
    qed
  qed
qed simp

text \<open>In any interval of the length of a window at most two windows are open, one after the other.\<close>

definition budget :: "int \<Rightarrow> time \<Rightarrow> 's \<Rightarrow> 'k \<Rightarrow> int" where
  "budget limit t s k = (case open_tally t (tally s k) of None \<Rightarrow> limit | Some (n, _) \<Rightarrow> max 0 (limit - n) + limit)"

lemma two_windows:
  assumes "served k s reqs rs" and "invar s" and "0 \<le> limit" and "sorted (map snd reqs)"
    and "\<forall>r \<in> set reqs. t \<le> snd r \<and> snd r < a + window" and "a \<le> t"
  shows "let_through limit rs \<le> budget limit t s k"
  using assms(1,2,4-6)
proof (induction arbitrary: t rule: served.induct)
  case (served_none s)
  then show ?case using assms(3) by (simp add: budget_def split: option.splits)
next
  case (served_skip s' reqs rs s)
  then show ?case using served_skip.IH [of t] by (simp add: budget_def)
next
  case (served_hit j u s reqs rs)
  note inv = keeps [OF served_hit.prems(1), of j u]
  have u: "t \<le> u" "u < a + window" "a \<le> u" using served_hit.prems by auto
  have late: "\<forall>r \<in> set reqs. u \<le> snd r \<and> snd r < a + window" "sorted (map snd reqs)"
    using served_hit.prems by auto
  have IH: "let_through limit rs \<le> budget limit u (snd (hit j u s)) k"
    using served_hit.IH [OF inv late(2) late(1)] u by simp
  have mono: "budget limit u s k \<le> budget limit t s k"
    using u(1) by (auto simp: budget_def open_tally_def split: option.splits)
  show ?case
  proof (cases "j = k")
    case False
    then have "budget limit u (snd (hit j u s)) k = budget limit u s k"
      using other [OF served_hit.prems(1), of k j u] by (simp add: budget_def)
    then show ?thesis using IH mono False by simp
  next
    case True
    let ?s = "snd (hit k u s)"
    have same: "tally ?s k = tally s k \<Longrightarrow> fst (hit k u s) = None \<Longrightarrow> ?thesis"
      using IH mono True by (simp add: budget_def)
    have step: "?thesis" if c: "tally ?s k = Some (counted window u (tally s k))"
      and r: "\<And>m. fst (hit k u s) = Some m \<Longrightarrow> m = fst (counted window u (tally s k))"
    proof (cases "open_tally u (tally s k)")
      case None
      then have "tally ?s k = Some (1, u + window)" using c by (simp add: counted_def)
      moreover have "\<forall>r \<in> set reqs. snd r < u + window" using late u by auto
      ultimately have "let_through limit rs \<le> max 0 (limit - 1)"
        using one_window [OF served_hit.hyps inv] True by blast
      moreover have "m \<le> limit \<Longrightarrow> 1 \<le> limit" if "fst (hit k u s) = Some m" for m
        using r [OF that] None by (simp add: counted_def)
      moreover have "budget limit u s k = limit" using None by (simp add: budget_def)
      ultimately show ?thesis using mono True assms(3) by auto
    next
      case (Some p)
      then obtain n e where p: "open_tally u (tally s k) = Some (n, e)" "u < e"
        by (cases p) (auto simp: open_tally_def split: option.splits if_splits)
      then have c': "tally ?s k = Some (n + 1, e)" using c by (simp add: counted_def)
      then have "budget limit u ?s k = max 0 (limit - (n + 1)) + limit" using p(2) by (simp add: budget_def open_tally_def)
      moreover have "budget limit u s k = max 0 (limit - n) + limit" using p by (simp add: budget_def)
      moreover have "m = n + 1" if "fst (hit k u s) = Some m" for m
        using r [OF that] p by (simp add: counted_def)
      ultimately show ?thesis using IH mono True by auto
    qed
    show ?thesis
      using same step answer [OF served_hit.prems(1), of k u] failed [OF served_hit.prems(1), of k u] True
      by (cases "fst (hit k u s)") auto
  qed
qed

text \<open>A count is positive, so no more than twice the limit get through.\<close>

lemma twice_limit:
  assumes "served k s reqs rs" and "invar s" and "0 \<le> limit" and "sorted (map snd reqs)"
    and "\<forall>r \<in> set reqs. a \<le> snd r \<and> snd r < a + window" and "\<And>n e. tally s k = Some (n, e) \<Longrightarrow> 0 \<le> n"
  shows "let_through limit rs \<le> 2 * limit"
proof -
  have "budget limit a s k \<le> 2 * limit"
    using assms(3,6) by (auto simp: budget_def open_tally_def split: option.splits)
  then show ?thesis using two_windows [OF assms(1-5)] by simp
qed

end

text \<open>The script provides it, whatever the network does.  The counters of a family of keys always have
  an expiry.\<close>

definition hit_script :: "(string \<Rightarrow> string) \<Rightarrow> int \<Rightarrow> string \<Rightarrow> time \<Rightarrow> 'z valkey_world_scheme
    \<Rightarrow> int option \<times> 'z valkey_world_scheme" where
  "hit_script key secs k t w =
     (case ext_call (run_stmt vk put_vk t 0 (IncrWithExpiryScript (key k) secs)) w of
        (Inl e, w') \<Rightarrow> (None, w')
      | (Inr n, w') \<Rightarrow> (Some n, w'))"

definition tally_at :: "(string \<Rightarrow> string) \<Rightarrow> 'z valkey_world_scheme \<Rightarrow> string \<Rightarrow> (int \<times> time) option" where
  "tally_at key w k = (case vk w (key k) of Some (VInt n, Some e) \<Rightarrow> Some (n, e) | _ \<Rightarrow> None)"

definition counter_entry :: "(vk_value \<times> time option) option \<Rightarrow> bool" where
  "counter_entry c \<longleftrightarrow> (case c of None \<Rightarrow> True | Some (VInt n, Some e) \<Rightarrow> 1 \<le> n | _ \<Rightarrow> False)"

definition counters_ok :: "(string \<Rightarrow> string) \<Rightarrow> 'z valkey_world_scheme \<Rightarrow> bool" where
  "counters_ok key w \<longleftrightarrow> (\<forall>k. counter_entry (vk w (key k)))"

lemma counter_entry_cases:
  assumes "counter_entry c"
  obtains "c = None" | n e where "c = Some (VInt n, Some e)" "1 \<le> n"
proof (cases c)
  case (Some p)
  obtain v x where "p = (v, x)" by (cases p)
  with assms Some that(2) show ?thesis by (cases v; cases x) (auto simp: counter_entry_def)
qed (rule that(1))

text \<open>The script on one counter.\<close>

lemma script_counts:
  assumes "counter_entry (db k)" and "0 < secs"
  shows "(\<exists>e. IncrWithExpiryScript k secs t u db = Inl e) \<or>
    IncrWithExpiryScript k secs t u db =
      (let c = counted (secs * second) t (case db k of Some (VInt n, Some e) \<Rightarrow> Some (n, e) | _ \<Rightarrow> None)
       in Inr (fst c, db(k \<mapsto> (VInt (fst c), Some (snd c)))))"
  using assms(1)
proof (cases rule: counter_entry_cases)
  case 1
  then show ?thesis using assms(2)
    by (simp add: vk_cmd_defs live_def counted_def open_tally_def)
next
  case (2 n e)
  then show ?thesis using assms(2)
    by (simp add: vk_cmd_defs live_def counted_def open_tally_def)
qed

lemma hit_script_cases:
  assumes "counters_ok key w" and "0 < secs"
  obtains (failed) "hit_script key secs k t w = (None, tick w)"
    | (counted) r c where "c = counted (secs * second) t (tally_at key w k)" "r \<in> {None, Some (fst c)}"
      "hit_script key secs k t w = (r, put_vk ((vk w)(key k \<mapsto> (VInt (fst c), Some (snd c)))) (tick w))"
proof -
  have entry: "counter_entry (vk w (key k))" using assms(1) by (simp add: counters_ok_def)
  let ?c = "counted (secs * second) t (tally_at key w k)"
  note script = script_counts [of "vk w" "key k", OF entry assms(2), of t 0]
  show thesis
  proof (cases "\<exists>e. IncrWithExpiryScript (key k) secs t 0 (vk w) = Inl e")
    case True
    then have "hit_script key secs k t w = (None, tick w)"
      by (auto simp: hit_script_def ext_call_def run_stmt_def split: fault.splits)
    then show ?thesis by (rule failed)
  next
    case False
    then have run: "IncrWithExpiryScript (key k) secs t 0 (vk w) =
        Inr (fst ?c, (vk w)(key k \<mapsto> (VInt (fst ?c), Some (snd ?c))))"
      using script by (simp add: tally_at_def Let_def)
    show ?thesis
    proof (cases "fault_at (env w) (calls w)")
      case Works
      then show ?thesis using run
        by (intro counted [of ?c "Some (fst ?c)"]) (simp_all add: hit_script_def ext_call_def run_stmt_def)
    next
      case (Fails x)
      then show ?thesis by (intro failed) (simp add: hit_script_def ext_call_def)
    next
      case (Lost x)
      then show ?thesis using run
        by (intro counted [of ?c None]) (simp_all add: hit_script_def ext_call_def run_stmt_def)
    qed
  qed
qed

lemma counted_positive: "counters_ok key w \<Longrightarrow> 1 \<le> fst (counted window t (tally_at key w k))"
proof -
  assume "counters_ok key w"
  then have "counter_entry (vk w (key k))" by (simp add: counters_ok_def)
  then show ?thesis
    by (cases rule: counter_entry_cases) (simp_all add: counted_def open_tally_def tally_at_def)
qed

lemma window_counter_script:
  assumes "inj key" and "0 < secs"
  shows "window_counter (hit_script key secs) (tally_at key) (secs * second) (counters_ok key)"
proof
  fix w :: "'a valkey_world_scheme" and k t
  assume ok: "counters_ok key w"
  note cases = hit_script_cases [OF ok assms(2), of k t]
  show "counters_ok key (snd (hit_script key secs k t w))"
    using ok counted_positive [OF ok]
    by (cases rule: cases) (auto simp: counters_ok_def counter_entry_def)
  show "m = fst (counted (secs * second) t (tally_at key w k)) \<and>
      tally_at key (snd (hit_script key secs k t w)) k = Some (counted (secs * second) t (tally_at key w k))"
    if "fst (hit_script key secs k t w) = Some m" for m
    using that by (cases rule: cases) (auto simp: tally_at_def)
  show "tally_at key (snd (hit_script key secs k t w)) k \<in>
      {tally_at key w k, Some (counted (secs * second) t (tally_at key w k))}"
    by (cases rule: cases) (auto simp: tally_at_def)
  show "tally_at key (snd (hit_script key secs k t w)) j = tally_at key w j" if "j \<noteq> k" for j
    using that by (cases rule: cases) (auto simp: tally_at_def inj_eq [OF assms(1)])
qed

lemma inj_rate_keys: "inj (AuthRateLimitKey action)" "inj (\<lambda>u. GatewayRateLimitKey kind u win)"
  by (simp_all add: inj_def key_defs)

interpretation auth_window: window_counter "hit_script (AuthRateLimitKey action) (1 + int n)"
  "tally_at (AuthRateLimitKey action)" "(1 + int n) * second" "counters_ok (AuthRateLimitKey action)" for action n
  by (rule window_counter_script) (simp_all add: inj_rate_keys)

interpretation user_window: window_counter "hit_script (\<lambda>u. GatewayRateLimitKey ''user'' u win) (1 + int n)"
  "tally_at (\<lambda>u. GatewayRateLimitKey ''user'' u win)" "(1 + int n) * second"
  "counters_ok (\<lambda>u. GatewayRateLimitKey ''user'' u win)" for win n
  by (rule window_counter_script) (simp_all add: inj_rate_keys)

section \<open>The commands as the program sends them\<close>

lemma vk_do_grab:
  fixes w :: "'z valkey_world_scheme"
  assumes "c = GETDEL \<or> c = GetAndDeleteScript"
  shows "grab_token c key k (now_in w) w =
    (case vk_do (c (key k)) w of (Inl e, w') \<Rightarrow> (None, w') | (Inr r, w') \<Rightarrow> (map_option vk_text r, w'))"
proof -
  have eq: "c x t u db = c x t 0 db" for x t u db using assms
    by (auto simp: vk_cmd_defs split: option.splits)
  have "run_stmt vk put_vk t u (c (key k)) = (run_stmt vk put_vk t 0 (c (key k)) :: ('z valkey_world_scheme, _) op)" for t u
    by (rule ext) (simp only: run_stmt_def eq [of "key k" t u])
  from this [of "now_in w" "uuid_in w"] show ?thesis by (simp only: grab_token_def vk_do_def pool_call_def)
qed

lemma vk_do_hit:
  fixes w :: "'z valkey_world_scheme"
  shows "hit_script key secs k (now_in w) w =
    (case vk_do (IncrWithExpiryScript (key k) secs) w of (Inl e, w') \<Rightarrow> (None, w') | (Inr n, w') \<Rightarrow> (Some n, w'))"
proof -
  have eq: "IncrWithExpiryScript x s t u db = IncrWithExpiryScript x s t 0 db" for x s t u db
    by (simp add: vk_cmd_defs split: option.splits vk_value.splits)
  have "run_stmt vk put_vk t u (IncrWithExpiryScript (key k) secs) =
      (run_stmt vk put_vk t 0 (IncrWithExpiryScript (key k) secs) :: ('z valkey_world_scheme, _) op)" for t u
    by (rule ext) (simp only: run_stmt_def eq [of "key k" secs t u])
  from this [of "now_in w" "uuid_in w"] show ?thesis by (simp only: hit_script_def vk_do_def pool_call_def)
qed

lemma vk_do_env:
  "env (snd (vk_do c w)) = env w" "calls (snd (vk_do c w)) = Suc (calls w)" "published (snd (vk_do c w)) = published w"
  by (auto simp: vk_do_def pool_call_def ext_call_def run_stmt_def split: fault.splits sum.splits)

text \<open>A call that fails may have changed the store.\<close>

lemma wp_vk_do:
  assumes "\<And>x. \<not> calm w \<Longrightarrow> E (External x) (tick w)"
    and "\<And>x t u a db. \<not> calm w \<Longrightarrow> c t u (vk w) = Inr (a, db) \<Longrightarrow> E (External x) (put_vk db (tick w))"
    and "\<And>t u e. c t u (vk w) = Inl e \<Longrightarrow> E e (tick w)"
    and "\<And>t u a db. c t u (vk w) = Inr (a, db) \<Longrightarrow> Q a (put_vk db (tick w))"
  shows "wp (vk_do c) Q E w"
  unfolding vk_do_def by (rule wp_pool_call) (use assms in simp_all)

end
