(* ===== verification/AuthRepo.thy ===== *)
theory AuthRepo
  imports Valkey
begin

text \<open>
  The stores of the auth service: \<open>services/auth/internal/repository/auth.go\<close> (the table
  \<open>accounts\<close> in Postgres), \<open>repository/token.go\<close> (refresh tokens in Valkey) and
  \<open>internal/ratelimit/ratelimit.go\<close> (attempts per address in Valkey).

  Seen from outside the accounts are a map from addresses; \<open>account_store\<close> is the contract
  of the account repository as a locale, and it is interpreted on the repository of the code.
\<close>

section \<open>Accounts\<close>

record Account =
  acc_ID :: uuid
  acc_Email :: string
  acc_PasswordHash :: string
  acc_CreatedAt :: time
  acc_UpdatedAt :: time

type_synonym account_table = "Account list"

record auth_world = valkey_world +
  account_db :: account_table

definition put_accounts :: "account_table \<Rightarrow> 'z auth_world_scheme \<Rightarrow> 'z auth_world_scheme" where
  "put_accounts db w = w\<lparr>account_db := db\<rparr>"

text \<open>\<open>INSERT INTO accounts (email, password_hash) VALUES ($1, $2) RETURNING ...\<close>, with the columns
  \<open>VARCHAR(255)\<close>, the primary key \<open>gen_random_uuid()\<close> and the unique address.\<close>

definition sql_insert_account :: "string \<Rightarrow> string \<Rightarrow> (account_table, Account) stmt" where
  "sql_insert_account email hash t u db =
     (case varchar 255 email of
        Inl e \<Rightarrow> Inl e
      | Inr em \<Rightarrow>
          (case varchar 255 hash of
             Inl e \<Rightarrow> Inl e
           | Inr ph \<Rightarrow>
               if u \<in> acc_ID ` set db \<or> em \<in> acc_Email ` set db then Inl (External (PgError ''23505''))
               else let acc = \<lparr>acc_ID = u, acc_Email = em, acc_PasswordHash = ph, acc_CreatedAt = t, acc_UpdatedAt = t\<rparr>
                    in Inr (acc, db @ [acc])))"

text \<open>\<open>SELECT ... FROM accounts WHERE email = $1\<close>; a parameter with a NUL is an error.\<close>

definition sql_account_by_email :: "string \<Rightarrow> (account_table, Account option) stmt" where
  "sql_account_by_email email t u db =
     (if \<not> no_nul email then Inl (External (PgError ''22021''))
      else Inr (find (\<lambda>r. acc_Email r = email) db, db))"

definition sql_account_by_id :: "uuid \<Rightarrow> (account_table, Account option) stmt" where
  "sql_account_by_id i t u db = Inr (find (\<lambda>r. acc_ID r = i) db, db)"

definition account_pool :: "(account_table, 'a) stmt \<Rightarrow> ('z auth_world_scheme, 'a) op" where
  "account_pool s = pool_call account_db put_accounts s"

definition pgAccount_CreateAccount :: "string \<Rightarrow> string \<Rightarrow> ('z auth_world_scheme, Account) op" where
  "pgAccount_CreateAccount email passwordHash =
     tryE (account_pool (sql_insert_account email passwordHash)) (\<lambda>e. fail (Wrap ''create account'' e)) ret"

definition pgAccount_GetAccountByEmail :: "string \<Rightarrow> ('z auth_world_scheme, Account) op" where
  "pgAccount_GetAccountByEmail email =
     tryE (account_pool (one_row (sql_account_by_email email)))
       (\<lambda>e. if errors_Is e pgx_ErrNoRows then fail (Sentinel accountRepo_ErrAccountNotFound)
            else fail (Wrap ''get account by email'' e))
       ret"

definition pgAccount_GetAccountByID :: "uuid \<Rightarrow> ('z auth_world_scheme, Account) op" where
  "pgAccount_GetAccountByID i =
     tryE (account_pool (one_row (sql_account_by_id i)))
       (\<lambda>e. if errors_Is e pgx_ErrNoRows then fail (Sentinel accountRepo_ErrAccountNotFound)
            else fail (Wrap ''get account by id'' e))
       ret"

record 'w AccountRepository =
  arepo_CreateAccount :: "string \<Rightarrow> string \<Rightarrow> ('w, Account) op"
  arepo_GetAccountByEmail :: "string \<Rightarrow> ('w, Account) op"
  arepo_GetAccountByID :: "uuid \<Rightarrow> ('w, Account) op"

definition pgAccountRepository :: "('z auth_world_scheme) AccountRepository" where
  "pgAccountRepository =
     \<lparr>arepo_CreateAccount = pgAccount_CreateAccount, arepo_GetAccountByEmail = pgAccount_GetAccountByEmail,
      arepo_GetAccountByID = pgAccount_GetAccountByID\<rparr>"

section \<open>Refresh tokens\<close>

definition tokenRepo_SaveRefreshToken :: "uuid_lib \<Rightarrow> uuid \<Rightarrow> string \<Rightarrow> time \<Rightarrow> ('z valkey_world_scheme, unit) op" where
  "tokenRepo_SaveRefreshToken U userID token ttl =
     tryE (vk_do (SET_EX (AuthRefreshKey token) (uuid_String U userID) (Seconds ttl)))
       (\<lambda>e. fail (Wrap ''save refresh token to valkey'' e)) ret"

text \<open>The common end of \<open>GetUserIDByRefreshToken\<close> and \<open>ReviveRefreshToken\<close>.\<close>

definition parse_token_reply :: "uuid_lib \<Rightarrow> vk_value option \<Rightarrow> ('w, uuid) op" where
  "parse_token_reply U resp =
     (case ToString resp of
        Inl e \<Rightarrow> if IsValkeyNil e then fail (Sentinel tokenRepo_ErrTokenNotFound)
                 else fail (Wrap ''parse user id from valkey'' e)
      | Inr userIDStr \<Rightarrow>
          (case uuid_Parse U userIDStr of None \<Rightarrow> fail (Wrap ''parse uuid'' (Errorf userIDStr)) | Some userID \<Rightarrow> ret userID))"

definition tokenRepo_GetUserIDByRefreshToken :: "uuid_lib \<Rightarrow> string \<Rightarrow> ('z valkey_world_scheme, uuid) op" where
  "tokenRepo_GetUserIDByRefreshToken U token =
     tryE (vk_do (GET (AuthRefreshKey token))) (\<lambda>e. fail (Wrap ''get refresh token from valkey'' e))
       (parse_token_reply U)"

definition tokenRepo_DeleteRefreshToken :: "string \<Rightarrow> ('z valkey_world_scheme, unit) op" where
  "tokenRepo_DeleteRefreshToken token =
     tryE (vk_do (DEL (AuthRefreshKey token))) (\<lambda>e. fail (Wrap ''delete refresh token from valkey'' e)) ret"

definition tokenRepo_ReviveRefreshToken :: "uuid_lib \<Rightarrow> string \<Rightarrow> ('z valkey_world_scheme, uuid) op" where
  "tokenRepo_ReviveRefreshToken U token =
     tryE (vk_do (GetAndDeleteScript (AuthRefreshKey token)))
       (\<lambda>e. fail (Wrap ''consume refresh token from valkey'' e)) (parse_token_reply U)"

record 'w TokenRepository =
  trepo_SaveRefreshToken :: "uuid \<Rightarrow> string \<Rightarrow> time \<Rightarrow> ('w, unit) op"
  trepo_GetUserIDByRefreshToken :: "string \<Rightarrow> ('w, uuid) op"
  trepo_DeleteRefreshToken :: "string \<Rightarrow> ('w, unit) op"
  trepo_ReviveRefreshToken :: "string \<Rightarrow> ('w, uuid) op"

definition valkeyTokenRepository :: "uuid_lib \<Rightarrow> ('z valkey_world_scheme) TokenRepository" where
  "valkeyTokenRepository U =
     \<lparr>trepo_SaveRefreshToken = tokenRepo_SaveRefreshToken U,
      trepo_GetUserIDByRefreshToken = tokenRepo_GetUserIDByRefreshToken U,
      trepo_DeleteRefreshToken = tokenRepo_DeleteRefreshToken,
      trepo_ReviveRefreshToken = tokenRepo_ReviveRefreshToken U\<rparr>"

section \<open>The rate limiter\<close>

definition ActionLogin :: string where "ActionLogin = ''login''"
definition ActionRegister :: string where "ActionRegister = ''register''"

record valkeyLimiter =
  lim_limit :: int
  lim_window :: time

definition valkeyLimiter_Allow :: "valkeyLimiter \<Rightarrow> string \<Rightarrow> string \<Rightarrow> ('z valkey_world_scheme, unit) op" where
  "valkeyLimiter_Allow l action email =
     tryE (vk_do (IncrWithExpiryScript (AuthRateLimitKey action email) (Seconds (lim_window l))))
       (\<lambda>e. fail (Wrap ''rate limit check'' e))
       (\<lambda>n. if n > lim_limit l then fail (ErrRateLimitExceeded action email) else ret ())"

section \<open>The contract of the account repository\<close>

text \<open>What an operation on the accounts leaves alone.\<close>

definition same_rest :: "'z valkey_world_scheme \<Rightarrow> 'z valkey_world_scheme \<Rightarrow> bool" where
  "same_rest w w' \<longleftrightarrow> vk w' = vk w \<and> published w' = published w \<and> env w' = env w \<and> calls w < calls w'"

definition account_fits :: "string \<Rightarrow> string \<Rightarrow> bool" where
  "account_fits email hash \<longleftrightarrow> fits 255 email \<and> fits 255 hash"

text \<open>A failed insertion is a violation only when the address or the id is taken; otherwise it is an
  error of another kind, and the account may be there all the same.\<close>

fun errors_As_PgError :: "error \<Rightarrow> string option" where
  "errors_As_PgError (External (PgError c)) = Some c"
| "errors_As_PgError (Wrap _ e) = errors_As_PgError e"
| "errors_As_PgError (StatusError _ _ (Some e)) = errors_As_PgError e"
| "errors_As_PgError _ = None"

locale account_store =
  fixes repo :: "('z valkey_world_scheme) AccountRepository"
    and accounts :: "'z valkey_world_scheme \<Rightarrow> string \<rightharpoonup> Account"
    and invar :: "'z valkey_world_scheme \<Rightarrow> bool"
  assumes frame: "invar w \<Longrightarrow> accounts (w\<lparr>vk := db\<rparr>) = accounts w \<and> invar (w\<lparr>vk := db\<rparr>)"
      "invar w \<Longrightarrow> accounts (w\<lparr>published := p\<rparr>) = accounts w \<and> invar (w\<lparr>published := p\<rparr>)"
      "invar w \<Longrightarrow> accounts (tick w) = accounts w \<and> invar (tick w)"
    and own_email: "invar w \<Longrightarrow> accounts w email = Some a \<Longrightarrow> acc_Email a = email"
    and own_id: "invar w \<Longrightarrow> accounts w email = Some a \<Longrightarrow> accounts w email' = Some b \<Longrightarrow> acc_ID a = acc_ID b \<Longrightarrow> email = email'"
    and find: "invar w \<Longrightarrow> wp (arepo_GetAccountByEmail repo email)
      (\<lambda>a w'. invar w' \<and> same_rest w w' \<and> accounts w' = accounts w \<and> accounts w email = Some a)
      (\<lambda>e w'. invar w' \<and> same_rest w w' \<and> accounts w' = accounts w \<and>
         (\<forall>s. errors_Is e s \<longrightarrow> s = accountRepo_ErrAccountNotFound \<and> accounts w email = None) \<and>
         (calm w \<and> no_nul email \<longrightarrow> errors_Is e accountRepo_ErrAccountNotFound)) w"
    and create: "invar w \<Longrightarrow> wp (arepo_CreateAccount repo email hash)
      (\<lambda>a w'. invar w' \<and> same_rest w w' \<and> accounts w (acc_Email a) = None \<and> accounts w' = (accounts w)(acc_Email a \<mapsto> a) \<and>
         (fits 255 email \<longrightarrow> acc_Email a = email) \<and> (fits 255 hash \<longrightarrow> acc_PasswordHash a = hash))
      (\<lambda>e w'. invar w' \<and> same_rest w w' \<and> (\<forall>s. \<not> errors_Is e s) \<and>
         (accounts w' = accounts w \<or> \<not> calm w \<and> (\<exists>a. accounts w (acc_Email a) = None \<and> accounts w' = (accounts w)(acc_Email a \<mapsto> a))) \<and>
         (calm w \<and> account_fits email hash \<and> uuid_in w \<notin> acc_ID ` ran (accounts w) \<longrightarrow> accounts w email \<noteq> None \<and> errors_As_PgError e = Some ''23505'')) w"

section \<open>Postgres provides it\<close>

definition accounts_ok :: "account_table \<Rightarrow> bool" where
  "accounts_ok db \<longleftrightarrow> distinct (List.map acc_ID db) \<and> distinct (List.map acc_Email db)"

definition pg_accounts :: "'z auth_world_scheme \<Rightarrow> string \<rightharpoonup> Account" where
  "pg_accounts w = (\<lambda>email. find (\<lambda>r. acc_Email r = email) (account_db w))"

definition pg_accounts_ok :: "'z auth_world_scheme \<Rightarrow> bool" where
  "pg_accounts_ok w \<longleftrightarrow> accounts_ok (account_db w)"

lemma put_accounts_simps [simp]:
  "account_db (put_accounts db w) = db" "vk (put_accounts db w) = vk w" "env (put_accounts db w) = env w"
  "calls (put_accounts db w) = calls w" "published (put_accounts db w) = published w"
  "account_db (tick w) = account_db w" "account_db (w\<lparr>vk := v\<rparr>) = account_db w" "account_db (w\<lparr>published := p\<rparr>) = account_db w"
  by (simp_all add: put_accounts_def tick_def)

lemma pg_accounts_Some:
  "accounts_ok (account_db w) \<Longrightarrow> pg_accounts w email = Some a \<longleftrightarrow> a \<in> set (account_db w) \<and> acc_Email a = email"
  unfolding pg_accounts_def accounts_ok_def by (auto simp: find_key_Some_iff)

lemma ran_pg_accounts: "accounts_ok (account_db w) \<Longrightarrow> ran (pg_accounts w) = set (account_db w)"
  by (auto simp: ran_def pg_accounts_Some)

text \<open>What an insertion does when it works, and the errors it has.\<close>

lemma insert_account_Inr:
  assumes "sql_insert_account email hash t u db = Inr (a, db')" and "accounts_ok db"
  shows "accounts_ok db' \<and> db' = db @ [a] \<and> acc_Email a \<notin> acc_Email ` set db \<and> acc_ID a \<notin> acc_ID ` set db \<and>
    (fits 255 email \<longrightarrow> acc_Email a = email) \<and> (fits 255 hash \<longrightarrow> acc_PasswordHash a = hash)"
  using assms by (auto simp: sql_insert_account_def accounts_ok_def Let_def varchar_short split: sum.splits if_splits)

lemma insert_account_Inl:
  assumes "sql_insert_account email hash t u db = Inl e" and "account_fits email hash" and "u \<notin> acc_ID ` set db"
  shows "email \<in> acc_Email ` set db \<and> e = External (PgError ''23505'')"
  using assms by (auto simp: sql_insert_account_def account_fits_def varchar_short Let_def split: if_splits)

lemma insert_account_error: "sql_insert_account email hash t u db = Inl e \<Longrightarrow> \<not> errors_Is e s"
  by (auto simp: sql_insert_account_def varchar_def Let_def split: sum.splits if_splits)

lemma same_rest_put: "same_rest w (put_accounts db (tick w))" "same_rest w (tick w)"
  by (simp_all add: same_rest_def tick_def put_accounts_def)

lemma accounts_snoc:
  assumes "acc_Email a \<notin> acc_Email ` set (account_db w)"
  shows "pg_accounts (put_accounts (account_db w @ [a]) w') = (pg_accounts w)(acc_Email a \<mapsto> a)"
  using find_snoc_fresh [of acc_Email a "account_db w"] assms by (auto simp: pg_accounts_def fun_eq_iff)

lemma accounts_tick: "pg_accounts (tick w) = pg_accounts w"
  by (simp add: pg_accounts_def)

lemma wp_account_pool:
  assumes "\<And>x. \<not> calm w \<Longrightarrow> E (External x) (tick w)"
    and "\<And>x t u a db. \<not> calm w \<Longrightarrow> s t u (account_db w) = Inr (a, db) \<Longrightarrow> E (External x) (put_accounts db (tick w))"
    and "\<And>t u e. u = uuid_in w \<Longrightarrow> s t u (account_db w) = Inl e \<Longrightarrow> E e (tick w)"
    and "\<And>t u a db. s t u (account_db w) = Inr (a, db) \<Longrightarrow> Q a (put_accounts db (tick w))"
  shows "wp (account_pool s) Q E w"
  unfolding account_pool_def by (rule wp_pool_call) (use assms in simp_all)

lemma put_same_accounts: "pg_accounts (put_accounts (account_db w) w') = pg_accounts w"
  "pg_accounts_ok (put_accounts (account_db w) w') = pg_accounts_ok w"
  by (simp_all add: pg_accounts_def pg_accounts_ok_def)

lemma errors_Is_wrap_external [simp]: "\<not> errors_Is (Wrap m (External x)) s" "\<not> errors_Is (External x) s"
  by simp_all

interpretation pga: account_store pgAccountRepository pg_accounts pg_accounts_ok
proof
  fix w :: "'z auth_world_scheme" and db p email email' a b hash
  assume ok: "pg_accounts_ok w"
  show "pg_accounts (w\<lparr>vk := db\<rparr>) = pg_accounts w \<and> pg_accounts_ok (w\<lparr>vk := db\<rparr>)"
    "pg_accounts (w\<lparr>published := p\<rparr>) = pg_accounts w \<and> pg_accounts_ok (w\<lparr>published := p\<rparr>)"
    "pg_accounts (tick w) = pg_accounts w \<and> pg_accounts_ok (tick w)"
    using ok by (simp_all add: pg_accounts_def pg_accounts_ok_def)
  have db: "accounts_ok (account_db w)" using ok by (simp add: pg_accounts_ok_def)
  note some = pg_accounts_Some [OF db]
  show "pg_accounts w email = Some a \<Longrightarrow> acc_Email a = email" using some by simp
  show "pg_accounts w email = Some a \<Longrightarrow> pg_accounts w email' = Some b \<Longrightarrow> acc_ID a = acc_ID b \<Longrightarrow> email = email'"
    using some db by (auto simp: accounts_ok_def distinct_map inj_on_def)
  show "wp (arepo_GetAccountByEmail pgAccountRepository email)
      (\<lambda>a w'. pg_accounts_ok w' \<and> same_rest w w' \<and> pg_accounts w' = pg_accounts w \<and> pg_accounts w email = Some a)
      (\<lambda>e w'. pg_accounts_ok w' \<and> same_rest w w' \<and> pg_accounts w' = pg_accounts w \<and>
         (\<forall>s. errors_Is e s \<longrightarrow> s = accountRepo_ErrAccountNotFound \<and> pg_accounts w email = None) \<and>
         (calm w \<and> no_nul email \<longrightarrow> errors_Is e accountRepo_ErrAccountNotFound)) w"
    unfolding pgAccountRepository_def AccountRepository.select_convs pgAccount_GetAccountByEmail_def wp_simps
    by (rule wp_account_pool)
      (use ok in \<open>auto simp: wp_simps one_row_Inr one_row_Inl sql_account_by_email_def same_rest_put put_same_accounts
        accounts_tick pg_accounts_ok_def pg_accounts_def split: if_splits\<close>)
  show "wp (arepo_CreateAccount pgAccountRepository email hash)
      (\<lambda>a w'. pg_accounts_ok w' \<and> same_rest w w' \<and> pg_accounts w (acc_Email a) = None \<and>
         pg_accounts w' = (pg_accounts w)(acc_Email a \<mapsto> a) \<and>
         (fits 255 email \<longrightarrow> acc_Email a = email) \<and> (fits 255 hash \<longrightarrow> acc_PasswordHash a = hash))
      (\<lambda>e w'. pg_accounts_ok w' \<and> same_rest w w' \<and> (\<forall>s. \<not> errors_Is e s) \<and>
         (pg_accounts w' = pg_accounts w \<or> \<not> calm w \<and> (\<exists>a. pg_accounts w (acc_Email a) = None \<and> pg_accounts w' = (pg_accounts w)(acc_Email a \<mapsto> a))) \<and>
         (calm w \<and> account_fits email hash \<and> uuid_in w \<notin> acc_ID ` ran (pg_accounts w) \<longrightarrow>
            pg_accounts w email \<noteq> None \<and> errors_As_PgError e = Some ''23505'')) w"
  proof -
    have ins: "pg_accounts_ok (put_accounts db' (tick w)) \<and> same_rest w (put_accounts db' (tick w)) \<and>
        pg_accounts w (acc_Email a) = None \<and> pg_accounts (put_accounts db' (tick w)) = (pg_accounts w)(acc_Email a \<mapsto> a) \<and>
        (fits 255 email \<longrightarrow> acc_Email a = email) \<and> (fits 255 hash \<longrightarrow> acc_PasswordHash a = hash)"
      if "sql_insert_account email hash t u (account_db w) = Inr (a, db')" for t u a db'
    proof -
      note new = insert_account_Inr [OF that db]
      then have "pg_accounts (put_accounts db' (tick w)) = (pg_accounts w)(acc_Email a \<mapsto> a)"
        using accounts_snoc [of a w "tick w"] by simp
      moreover have "pg_accounts w (acc_Email a) = None"
        using new by (simp add: pg_accounts_def find_key_None_iff)
      ultimately show ?thesis using new by (auto simp: pg_accounts_ok_def same_rest_put)
    qed
    have taken: "pg_accounts w email \<noteq> None \<and> e = External (PgError ''23505'')"
      if "sql_insert_account email hash t (uuid_in w) (account_db w) = Inl e" "account_fits email hash"
        "uuid_in w \<notin> acc_ID ` ran (pg_accounts w)" for t e
    proof -
      have "uuid_in w \<notin> acc_ID ` set (account_db w)" using that(3) unfolding ran_pg_accounts [OF db] .
      from insert_account_Inl [OF that(1,2) this] show ?thesis by (simp add: pg_accounts_def find_key_None_iff)
    qed
    show ?thesis
      unfolding pgAccountRepository_def AccountRepository.select_convs pgAccount_CreateAccount_def wp_simps
    proof (rule wp_account_pool, goal_cases)
      case (1 x)
      then show ?case using ok by (auto simp: accounts_tick same_rest_put pg_accounts_ok_def)
    next
      case (2 x t u a db')
      from ins [OF 2(2)] 2(1) show ?case by auto
    next
      case (3 t u e)
      then show ?case using ok taken [of t e] insert_account_error [OF 3(2)]
        by (auto simp: accounts_tick same_rest_put pg_accounts_ok_def)
    next
      case (4 t u a db')
      from ins [OF 4] show ?case by auto
    qed
  qed
qed

end
