(* ===== verification/AuthService.thy ===== *)
theory AuthService
  imports AuthRepo RoomHandler
begin

text \<open>
  The auth service: \<open>services/auth/internal/service/auth.go\<close>, \<open>nats/publisher.go\<close> and
  \<open>handler/auth.go\<close>.

  bcrypt and the JWT library are parameters; \<open>bcrypt_ok\<close> and \<open>jwt_ok\<close> say what the code relies on.
  A random choice (the salt, a new refresh token) is taken from the environment.
\<close>

section \<open>Libraries\<close>

text \<open>\<open>bcrypt.GenerateFromPassword\<close> with a salt, and \<open>CompareHashAndPassword\<close>.  A password is counted
  in bytes of UTF-8; a hash is found to match its own password and no other one, among passwords
  without NUL of at most 72 bytes; longer ones are refused.\<close>

definition byte_length :: "string \<Rightarrow> nat" where
  "byte_length s = sum_list (List.map (\<lambda>c. if (of_char c :: nat) < 128 then 1 else 2) s)"

record bcrypt_lib =
  bcrypt_Generate :: "string \<Rightarrow> uuid \<Rightarrow> string option"
  bcrypt_Compare :: "string \<Rightarrow> string \<Rightarrow> bool"

definition hashable :: "string \<Rightarrow> bool" where
  "hashable p \<longleftrightarrow> no_nul p \<and> byte_length p \<le> 72"

definition bcrypt_ok :: "bcrypt_lib \<Rightarrow> bool" where
  "bcrypt_ok B \<longleftrightarrow>
     (\<forall>p salt. bcrypt_Generate B p salt = None \<longleftrightarrow> 72 < byte_length p) \<and>
     (\<forall>p salt h. bcrypt_Generate B p salt = Some h \<longrightarrow> fits 255 h \<and>
        (hashable p \<longrightarrow> (\<forall>q. hashable q \<longrightarrow> (bcrypt_Compare B h q \<longleftrightarrow> q = p))))"

text \<open>\<open>jwt\<close>: signing a set of claims with HS256, and parsing a token, which checks the algorithm, the
  signature and the expiry against the clock (in seconds).  Relied on for the claims the program signs:
  a token parses to its claims until it expires, and with no other secret.\<close>

type_synonym claims = "(string \<times> json) list"

record jwt_lib =
  jwt_Sign :: "claims \<Rightarrow> string \<Rightarrow> string option"
  jwt_Parse :: "string \<Rightarrow> string \<Rightarrow> int \<Rightarrow> claims option"

definition token_claims :: "string \<Rightarrow> int \<Rightarrow> int \<Rightarrow> claims" where
  "token_claims sub exp iat = [(''sub'', JStr sub), (''exp'', JNum exp), (''iat'', JNum iat)]"

definition jwt_ok :: "jwt_lib \<Rightarrow> bool" where
  "jwt_ok J \<longleftrightarrow>
     (\<forall>sub exp iat secret. \<exists>tok. jwt_Sign J (token_claims sub exp iat) secret = Some tok \<and>
        (\<forall>now. jwt_Parse J tok secret now = (if now < exp then Some (token_claims sub exp iat) else None)) \<and>
        (\<forall>now other. other \<noteq> secret \<longrightarrow> jwt_Parse J tok other now = None))"

section \<open>The service\<close>

record sAccount =
  sacc_ID :: uuid
  sacc_Email :: string
  sacc_CreatedAt :: time

record TokenPair =
  tp_AccessToken :: string
  tp_RefreshToken :: string

definition toAccount :: "Account \<Rightarrow> sAccount" where
  "toAccount acc = \<lparr>sacc_ID = acc_ID acc, sacc_Email = acc_Email acc, sacc_CreatedAt = acc_CreatedAt acc\<rparr>"

record 'w AuthPublisher =
  apub_PublishUserRegistered :: "uuid \<Rightarrow> string \<Rightarrow> ('w, unit) op"

record 'w authService =
  as_accountRepo :: "'w AccountRepository"
  as_tokenRepo :: "'w TokenRepository"
  as_publisher :: "'w AuthPublisher"
  as_limiter :: "string \<Rightarrow> string \<Rightarrow> ('w, unit) op"
  as_jwtSecret :: string
  as_accessTTL :: time
  as_refreshTTL :: time
  as_uuid :: uuid_lib
  as_bcrypt :: bcrypt_lib
  as_jwt :: jwt_lib

fun errors_As_RateLimit :: "error \<Rightarrow> bool" where
  "errors_As_RateLimit (ErrRateLimitExceeded _ _) = True"
| "errors_As_RateLimit (Wrap _ e) = errors_As_RateLimit e"
| "errors_As_RateLimit (StatusError _ _ (Some e)) = errors_As_RateLimit e"
| "errors_As_RateLimit _ = False"

definition isUniqueViolation :: "error \<Rightarrow> bool" where
  "isUniqueViolation err \<longleftrightarrow> errors_As_PgError err = Some ''23505''"

text \<open>The check of the rate limit that \<open>Register\<close> and \<open>Login\<close> begin with.\<close>

definition with_rate_limit :: "'w authService \<Rightarrow> string \<Rightarrow> string \<Rightarrow> ('w, 'a) op \<Rightarrow> ('w, 'a) op" where
  "with_rate_limit s action email k =
     tryE (as_limiter s action email)
       (\<lambda>e. if errors_As_RateLimit e then fail (Sentinel authSvc_ErrRateLimitExceeded)
            else fail (Wrap ''rate limit check'' e))
       (\<lambda>_. k)"

definition access_claims :: "uuid_lib \<Rightarrow> uuid \<Rightarrow> time \<Rightarrow> time \<Rightarrow> claims" where
  "access_claims U userID now ttl =
     token_claims (uuid_String U userID) ((now + ttl) div second) (now div second)"

definition generateTokenPair :: "('z world_scheme) authService \<Rightarrow> uuid \<Rightarrow> ('z world_scheme, TokenPair) op" where
  "generateTokenPair s userID w =
     (case jwt_Sign (as_jwt s) (access_claims (as_uuid s) userID (now_in w) (as_accessTTL s)) (as_jwtSecret s) of
        None \<Rightarrow> (Inl (Wrap ''sign access token'' (Errorf [])), w)
      | Some at \<Rightarrow>
          let rt = uuid_String (as_uuid s) (uuid_in w)
          in tryE (trepo_SaveRefreshToken (as_tokenRepo s) userID rt (as_refreshTTL s))
               (\<lambda>e. fail (Wrap ''save refresh token'' e))
               (\<lambda>_. ret \<lparr>tp_AccessToken = at, tp_RefreshToken = rt\<rparr>) w)"

definition hash_password :: "('z world_scheme) authService \<Rightarrow> string \<Rightarrow> (string \<Rightarrow> ('z world_scheme, 'a) op)
    \<Rightarrow> ('z world_scheme, 'a) op" where
  "hash_password s password k w =
     (case bcrypt_Generate (as_bcrypt s) password (uuid_in w) of
        None \<Rightarrow> (Inl (Wrap ''hash password'' (Errorf [])), w)
      | Some hashedPassword \<Rightarrow> k hashedPassword w)"

text \<open>\<open>Register\<close> and \<open>Login\<close>, past the check of the rate limit.\<close>

definition register_body :: "('z world_scheme) authService \<Rightarrow> string \<Rightarrow> string \<Rightarrow> ('z world_scheme, sAccount \<times> TokenPair) op" where
  "register_body s email password =
     (tryE (arepo_GetAccountByEmail (as_accountRepo s) email)
        (\<lambda>e. if \<not> errors_Is e accountRepo_ErrAccountNotFound then fail (Wrap ''check existing account'' e)
             else hash_password s password (\<lambda>hashedPassword.
               tryE (arepo_CreateAccount (as_accountRepo s) email hashedPassword)
                 (\<lambda>e. if isUniqueViolation e then fail (Sentinel authSvc_ErrAccountAlreadyExists)
                      else fail (Wrap ''create account'' e))
                 (\<lambda>acc. tryE (generateTokenPair s (acc_ID acc))
                    (\<lambda>e. fail (Wrap ''generate tokens'' e))
                    (\<lambda>tokenPair. attempt (apub_PublishUserRegistered (as_publisher s) (acc_ID acc) (acc_Email acc))
                       (ret (toAccount acc, tokenPair))))))
        (\<lambda>existing. fail (Sentinel authSvc_ErrAccountAlreadyExists)))"

definition authService_Register :: "('z world_scheme) authService \<Rightarrow> string \<Rightarrow> string \<Rightarrow> ('z world_scheme, sAccount \<times> TokenPair) op" where
  "authService_Register s email password = with_rate_limit s ActionRegister email (register_body s email password)"

definition login_body :: "('z world_scheme) authService \<Rightarrow> string \<Rightarrow> string \<Rightarrow> ('z world_scheme, sAccount \<times> TokenPair) op" where
  "login_body s email password =
     (tryE (arepo_GetAccountByEmail (as_accountRepo s) email)
        (\<lambda>e. if errors_Is e accountRepo_ErrAccountNotFound then fail (Sentinel authSvc_ErrInvalidCredentials)
             else fail (Wrap ''get account'' e))
        (\<lambda>acc. if \<not> bcrypt_Compare (as_bcrypt s) (acc_PasswordHash acc) password
               then fail (Sentinel authSvc_ErrInvalidCredentials)
               else tryE (generateTokenPair s (acc_ID acc)) (\<lambda>e. fail (Wrap ''generate tokens'' e))
                      (\<lambda>tokenPair. ret (toAccount acc, tokenPair))))"

definition authService_Login :: "('z world_scheme) authService \<Rightarrow> string \<Rightarrow> string \<Rightarrow> ('z world_scheme, sAccount \<times> TokenPair) op" where
  "authService_Login s email password = with_rate_limit s ActionLogin email (login_body s email password)"

definition authService_Logout :: "'w authService \<Rightarrow> string \<Rightarrow> ('w, unit) op" where
  "authService_Logout s refreshToken =
     tryE (trepo_DeleteRefreshToken (as_tokenRepo s) refreshToken) (\<lambda>e. fail (Wrap ''delete refresh token'' e)) ret"

definition authService_RefreshToken :: "('z world_scheme) authService \<Rightarrow> string \<Rightarrow> ('z world_scheme, TokenPair) op" where
  "authService_RefreshToken s refreshToken =
     tryE (trepo_ReviveRefreshToken (as_tokenRepo s) refreshToken)
       (\<lambda>e. if errors_Is e tokenRepo_ErrTokenNotFound then fail (Sentinel authSvc_ErrInvalidToken)
            else fail (Wrap ''revive refresh token'' e))
       (\<lambda>userID. tryE (generateTokenPair s userID) (\<lambda>e. fail (Wrap ''generate tokens'' e)) ret)"

section \<open>The publisher\<close>

definition SubjectUserRegistered :: string where
  "SubjectUserRegistered = ''auth.user.registered''"

definition publisher_PublishUserRegistered :: "uuid_lib \<Rightarrow> uuid \<Rightarrow> string \<Rightarrow> ('z world_scheme, unit) op" where
  "publisher_PublishUserRegistered U userID email =
     tryE (js_Publish SubjectUserRegistered
        (JObj [(''email'', JStr email), (''user_id'', JStr (uuid_String U userID))]))
       (\<lambda>e. fail (Wrap ''publish to nats'' e)) ret"

definition natsAuthPublisher :: "uuid_lib \<Rightarrow> ('z world_scheme) AuthPublisher" where
  "natsAuthPublisher U = \<lparr>apub_PublishUserRegistered = publisher_PublishUserRegistered U\<rparr>"

section \<open>The handler\<close>

text \<open>The rules of \<open>auth.proto\<close>: an address is an e-mail of at most 255 characters, a password has 8
  to 72 characters; the e-mail rule of the validator is a parameter.\<close>

record RegisterRequest =
  ar_Email :: string
  ar_Password :: string

record AuthResponse =
  aresp_UserId :: string
  aresp_AccessToken :: string
  aresp_RefreshToken :: string

record 'w authHandler =
  ah_svc :: "'w authService"
  ah_uuid :: uuid_lib
  ah_email :: "string \<Rightarrow> bool"
  ah_violations :: "string list \<Rightarrow> string"

definition credential_violations :: "(string \<Rightarrow> bool) \<Rightarrow> RegisterRequest \<Rightarrow> string list" where
  "credential_violations mail req =
     (if mail (ar_Email req) then [] else [''email'']) @
     (if length (ar_Email req) \<le> 255 then [] else [''email'']) @
     (if 8 \<le> length (ar_Password req) then [] else [''password'']) @
     (if length (ar_Password req) \<le> 72 then [] else [''password''])"

definition responseToProto :: "uuid_lib \<Rightarrow> sAccount \<Rightarrow> TokenPair \<Rightarrow> AuthResponse" where
  "responseToProto U acc tokens =
     \<lparr>aresp_UserId = uuid_String U (sacc_ID acc), aresp_AccessToken = tp_AccessToken tokens,
      aresp_RefreshToken = tp_RefreshToken tokens\<rparr>"

definition authHandler_Register :: "('z world_scheme) authHandler \<Rightarrow> RegisterRequest \<Rightarrow> ('z world_scheme, AuthResponse) op" where
  "authHandler_Register h req =
     validate (ah_violations h) (credential_violations (ah_email h) req)
     (tryE (authService_Register (ah_svc h) (ar_Email req) (ar_Password req))
        (\<lambda>e. if errors_Is e authSvc_ErrAccountAlreadyExists
             then fail (Code_Error CodeAlreadyExists ''account already exists'')
             else if errors_Is e authSvc_ErrRateLimitExceeded
             then fail (Code_Error CodeUnavailable ''too many requests, please try again later'')
             else fail (CodeInternal_Wrap e))
        (\<lambda>(acc, tokens). ret (responseToProto (ah_uuid h) acc tokens)))"

definition authHandler_Login :: "('z world_scheme) authHandler \<Rightarrow> RegisterRequest \<Rightarrow> ('z world_scheme, AuthResponse) op" where
  "authHandler_Login h req =
     validate (ah_violations h) (credential_violations (ah_email h) req)
     (tryE (authService_Login (ah_svc h) (ar_Email req) (ar_Password req))
        (\<lambda>e. if errors_Is e authSvc_ErrInvalidCredentials
             then fail (Code_Error CodeUnauthenticated ''invalid credentials'')
             else if errors_Is e authSvc_ErrRateLimitExceeded
             then fail (Code_Error CodeUnavailable ''too many requests, please try again later'')
             else fail (CodeInternal_Wrap e))
        (\<lambda>(acc, tokens). ret (responseToProto (ah_uuid h) acc tokens)))"

definition authHandler_Logout :: "('z world_scheme) authHandler \<Rightarrow> string \<Rightarrow> ('z world_scheme, unit) op" where
  "authHandler_Logout h refreshToken =
     validate (ah_violations h) (min_len_violations [(''refresh_token'', refreshToken)])
     (tryE (authService_Logout (ah_svc h) refreshToken) (\<lambda>e. fail (CodeInternal_Wrap e)) ret)"

definition authHandler_RefreshToken :: "('z world_scheme) authHandler \<Rightarrow> string \<Rightarrow> ('z world_scheme, TokenPair) op" where
  "authHandler_RefreshToken h refreshToken =
     validate (ah_violations h) (min_len_violations [(''refresh_token'', refreshToken)])
     (tryE (authService_RefreshToken (ah_svc h) refreshToken)
        (\<lambda>e. if errors_Is e authSvc_ErrInvalidToken
             then fail (Code_Error CodeUnauthenticated ''invalid or expired refresh token'')
             else fail (CodeInternal_Wrap e))
        ret)"

section \<open>Wiring\<close>

text \<open>\<open>NewAuthService\<close> on the stores in Valkey, as \<open>cmd/main.go\<close> builds it.\<close>

record auth_config =
  cfg_secret :: string
  cfg_accessTTL :: time
  cfg_refreshTTL :: time
  cfg_limiter :: valkeyLimiter

record auth_libs =
  lib_uuid :: uuid_lib
  lib_bcrypt :: bcrypt_lib
  lib_jwt :: jwt_lib

definition NewAuthService :: "auth_libs \<Rightarrow> auth_config \<Rightarrow> ('z valkey_world_scheme) AccountRepository
    \<Rightarrow> ('z valkey_world_scheme) authService" where
  "NewAuthService L C repo =
     \<lparr>as_accountRepo = repo, as_tokenRepo = valkeyTokenRepository (lib_uuid L),
      as_publisher = natsAuthPublisher (lib_uuid L), as_limiter = valkeyLimiter_Allow (cfg_limiter C),
      as_jwtSecret = cfg_secret C, as_accessTTL = cfg_accessTTL C, as_refreshTTL = cfg_refreshTTL C,
      as_uuid = lib_uuid L, as_bcrypt = lib_bcrypt L, as_jwt = lib_jwt L\<rparr>"

lemmas new_service_simps = NewAuthService_def authService.select_convs valkeyTokenRepository_def TokenRepository.select_convs
  natsAuthPublisher_def AuthPublisher.select_convs

section \<open>Contracts of the stores in Valkey\<close>

lemma wp_vk_now:
  assumes "\<And>x. \<not> calm w \<Longrightarrow> E (External x) (tick w)"
    and "\<And>x a db. \<not> calm w \<Longrightarrow> c (now_in w) (uuid_in w) (vk w) = Inr (a, db) \<Longrightarrow> E (External x) (put_vk db (tick w))"
    and "\<And>e. c (now_in w) (uuid_in w) (vk w) = Inl e \<Longrightarrow> E e (tick w)"
    and "\<And>a db. c (now_in w) (uuid_in w) (vk w) = Inr (a, db) \<Longrightarrow> Q a (put_vk db (tick w))"
  shows "wp (vk_do c) Q E w"
proof -
  obtain v where v: "c (now_in w) (uuid_in w) (vk w) = v" by simp
  then show ?thesis using assms
    by (cases v; cases "fault_at (env w) (calls w)")
      (auto simp: wp_def vk_do_def pool_call_def ext_call_def run_stmt_def split: prod.splits)
qed

text \<open>The pair of tokens issued in a world, and the world it leaves.\<close>

definition refresh_entry :: "auth_libs \<Rightarrow> auth_config \<Rightarrow> uuid \<Rightarrow> time \<Rightarrow> vk_value \<times> time option" where
  "refresh_entry L C userID now =
     (VStr (uuid_String (lib_uuid L) userID), Some (now + Seconds (cfg_refreshTTL C) * second))"

definition new_refresh :: "auth_libs \<Rightarrow> 'z world_scheme \<Rightarrow> string" where
  "new_refresh L w = uuid_String (lib_uuid L) (uuid_in w)"

definition issued :: "auth_libs \<Rightarrow> auth_config \<Rightarrow> uuid \<Rightarrow> 'z valkey_world_scheme \<Rightarrow> 'z valkey_world_scheme" where
  "issued L C userID w = put_vk ((vk w)(AuthRefreshKey (new_refresh L w) \<mapsto> refresh_entry L C userID (now_in w))) (tick w)"

definition pair_for :: "auth_libs \<Rightarrow> auth_config \<Rightarrow> uuid \<Rightarrow> 'z world_scheme \<Rightarrow> TokenPair \<Rightarrow> bool" where
  "pair_for L C userID w tp \<longleftrightarrow>
     jwt_Sign (lib_jwt L) (access_claims (lib_uuid L) userID (now_in w) (cfg_accessTTL C)) (cfg_secret C) = Some (tp_AccessToken tp) \<and>
     tp_RefreshToken tp = new_refresh L w"

lemma generate_wp:
  assumes "jwt_ok (lib_jwt L)"
  shows "wp (generateTokenPair (NewAuthService L C repo) userID)
    (\<lambda>tp w'. pair_for L C userID w tp \<and> w' = issued L C userID w)
    (\<lambda>e w'. (w' = tick w \<or> w' = issued L C userID w) \<and> \<not> (calm w \<and> 0 < Seconds (cfg_refreshTTL C)) \<and> (\<forall>s. \<not> errors_Is e s)) w"
proof -
  obtain at where at: "jwt_Sign (lib_jwt L) (access_claims (lib_uuid L) userID (now_in w) (cfg_accessTTL C)) (cfg_secret C) = Some at"
    using assms unfolding jwt_ok_def access_claims_def by metis
  have "wp (tokenRepo_SaveRefreshToken (lib_uuid L) userID (new_refresh L w) (cfg_refreshTTL C))
      (\<lambda>_ w'. w' = issued L C userID w)
      (\<lambda>e w'. (w' = tick w \<or> w' = issued L C userID w) \<and> \<not> (calm w \<and> 0 < Seconds (cfg_refreshTTL C)) \<and> (\<forall>s. \<not> errors_Is e s)) w"
    unfolding tokenRepo_SaveRefreshToken_def wp_simps
    by (rule wp_vk_now) (auto simp: wp_simps SET_EX_def issued_def refresh_entry_def split: if_splits)
  then have "wp (tryE (tokenRepo_SaveRefreshToken (lib_uuid L) userID (new_refresh L w) (cfg_refreshTTL C))
        (\<lambda>e. fail (Wrap ''save refresh token'' e)) (\<lambda>_. ret \<lparr>tp_AccessToken = at, tp_RefreshToken = new_refresh L w\<rparr>))
      (\<lambda>tp w'. pair_for L C userID w tp \<and> w' = issued L C userID w)
      (\<lambda>e w'. (w' = tick w \<or> w' = issued L C userID w) \<and> \<not> (calm w \<and> 0 < Seconds (cfg_refreshTTL C)) \<and> (\<forall>s. \<not> errors_Is e s)) w"
    unfolding wp_simps by (rule wp_mono) (simp_all add: pair_for_def at)
  then show ?thesis
    by (simp add: generateTokenPair_def new_service_simps at Let_def new_refresh_def wp_def)
qed

text \<open>The number of attempts on an address, this one included.\<close>

definition attempts :: "auth_config \<Rightarrow> string \<Rightarrow> string \<Rightarrow> 'z valkey_world_scheme \<Rightarrow> int" where
  "attempts C action email w =
     fst (counted (Seconds (lim_window (cfg_limiter C)) * second) (now_in w) (tally_at (AuthRateLimitKey action) w email))"

definition limiter_ready :: "auth_config \<Rightarrow> string \<Rightarrow> string \<Rightarrow> 'z valkey_world_scheme \<Rightarrow> bool" where
  "limiter_ready C action email w \<longleftrightarrow>
     counters_ok (AuthRateLimitKey action) w \<and> 0 < Seconds (lim_window (cfg_limiter C)) \<and> attempts C action email w < 2 ^ 63"

definition rate_only :: "string \<Rightarrow> string \<Rightarrow> 'z valkey_world_scheme \<Rightarrow> 'z valkey_world_scheme \<Rightarrow> bool" where
  "rate_only action email w w' \<longleftrightarrow>
     (\<exists>db. w' = put_vk db (tick w) \<and> (\<forall>k. k \<noteq> AuthRateLimitKey action email \<longrightarrow> db k = vk w k))"

lemma put_vk_same: "put_vk (vk w) (tick w) = tick w"
  by (simp add: put_vk_def tick_def)

lemma rate_only_tick: "rate_only action email w (tick w)"
  unfolding rate_only_def using put_vk_same [of w] by (intro exI [of _ "vk w"]) simp

lemma script_other_keys:
  assumes "IncrWithExpiryScript k secs t u db = Inr (n, db')" and "j \<noteq> k"
  shows "db' j = db j"
proof -
  obtain m db1 where incr: "INCR k t u db = Inr (m, db1)"
    using assms(1) by (auto simp: IncrWithExpiryScript_def split: sum.splits prod.splits)
  then have "db1 j = db j" using assms(2) by (auto simp: INCR_def split: option.splits vk_value.splits if_splits)
  moreover have "db' j = db1 j"
    using assms incr by (auto simp: IncrWithExpiryScript_def EXPIRE_def split: if_splits option.splits)
  ultimately show ?thesis by simp
qed

lemma script_error: "IncrWithExpiryScript k secs t u db = Inl e \<Longrightarrow> \<exists>x. e = External x"
  by (auto simp: IncrWithExpiryScript_def INCR_def EXPIRE_def split: sum.splits prod.splits option.splits vk_value.splits if_splits)

lemma script_ready:
  assumes "limiter_ready C action email w"
  shows "\<exists>db. IncrWithExpiryScript (AuthRateLimitKey action email) (Seconds (lim_window (cfg_limiter C))) (now_in w) u (vk w) =
    Inr (attempts C action email w, db)"
proof -
  let ?k = "AuthRateLimitKey action email" and ?secs = "Seconds (lim_window (cfg_limiter C))"
  have entry: "counter_entry (vk w ?k)" and secs: "0 < ?secs"
    using assms by (auto simp: limiter_ready_def counters_ok_def)
  have "IncrWithExpiryScript ?k ?secs (now_in w) u (vk w) \<noteq> Inl e" for e
    using entry
  proof (cases rule: counter_entry_cases)
    case 1
    then show ?thesis by (simp add: vk_cmd_defs live_def)
  next
    case (2 n x)
    then have "now_in w < x \<Longrightarrow> n + 1 < 2 ^ 63"
      using assms by (simp add: limiter_ready_def attempts_def counted_def open_tally_def tally_at_def)
    then show ?thesis using 2 by (simp add: vk_cmd_defs live_def)
  qed
  then show ?thesis
    using script_counts [of "vk w" ?k, OF entry secs, of "now_in w" u]
    by (auto simp: attempts_def tally_at_def Let_def)
qed

lemma allow_wp:
  "wp (valkeyLimiter_Allow (cfg_limiter C) action email)
    (\<lambda>_ w'. rate_only action email w w' \<and> (limiter_ready C action email w \<longrightarrow> attempts C action email w \<le> lim_limit (cfg_limiter C)))
    (\<lambda>e w'. rate_only action email w w' \<and>
       (errors_As_RateLimit e \<and> (limiter_ready C action email w \<longrightarrow> lim_limit (cfg_limiter C) < attempts C action email w) \<or>
        \<not> errors_As_RateLimit e \<and> (\<forall>s. \<not> errors_Is e s) \<and> \<not> (calm w \<and> limiter_ready C action email w))) w"
proof -
  let ?c = "IncrWithExpiryScript (AuthRateLimitKey action email) (Seconds (lim_window (cfg_limiter C)))"
  have other: "rate_only action email w (put_vk db (tick w))" if "?c (now_in w) (uuid_in w) (vk w) = Inr (n, db)" for n db
    using script_other_keys [OF that] unfolding rate_only_def by blast
  have ready: "limiter_ready C action email w \<Longrightarrow> ?c (now_in w) (uuid_in w) (vk w) = Inr (n, db) \<Longrightarrow> n = attempts C action email w" for n db
    using script_ready [of C action email w "uuid_in w"] by auto
  show ?thesis
    unfolding valkeyLimiter_Allow_def wp_simps
  proof (rule wp_vk_now, goal_cases)
    case (3 e)
    then have "\<not> limiter_ready C action email w" "\<exists>x. e = External x"
      using script_ready [of C action email w "uuid_in w"] script_error by auto
    then show ?case by (auto simp: wp_simps rate_only_tick)
  next
    case (4 n db)
    then show ?case using other [OF 4] ready [OF _ 4] by (auto simp: wp_simps)
  qed (use other in \<open>auto simp: wp_simps rate_only_tick\<close>)
qed


section \<open>Libraries to compute with\<close>

text \<open>A password is its own hash; a token spells out its parts, numbers in unary.\<close>

definition sample_bcrypt :: bcrypt_lib where
  "sample_bcrypt = \<lparr>bcrypt_Generate = (\<lambda>p salt. if byte_length p \<le> 72 then Some (if no_nul p then p else ''?'') else None),
     bcrypt_Compare = (=)\<rparr>"

lemma length_bytes: "length s \<le> byte_length s"
  by (induction s) (auto simp: byte_length_def)

lemma sample_bcrypt_ok: "bcrypt_ok sample_bcrypt"
proof -
  have "fits 255 (if no_nul p then p else ''?'')" if "byte_length p \<le> 72" for p
    using length_bytes [of p] that by (auto simp: fits_def no_nul_def)
  then show ?thesis by (auto simp: bcrypt_ok_def sample_bcrypt_def hashable_def)
qed

definition spell :: "int \<Rightarrow> string" where
  "spell i = (if i < 0 then ''-'' else []) @ replicate (nat \<bar>i\<bar>) CHR ''1''"

definition unspell :: "string \<Rightarrow> int" where
  "unspell s = (case s of CHR ''-'' # r \<Rightarrow> - int (length r) | _ \<Rightarrow> int (length s))"

lemma unspell_spell: "unspell (spell i) = i"
  by (cases "nat \<bar>i\<bar>") (auto simp: spell_def unspell_def)

definition cut :: "string \<Rightarrow> string \<times> string" where
  "cut s = (takeWhile (\<lambda>c. c \<noteq> CHR ''.'') s, tl (dropWhile (\<lambda>c. c \<noteq> CHR ''.'') s))"

lemma cut_join: "CHR ''.'' \<notin> set xs \<Longrightarrow> cut (xs @ ''.'' @ ys) = (xs, ys)"
  by (auto simp: cut_def takeWhile_append dropWhile_append)

lemma dot_spell: "CHR ''.'' \<notin> set (spell i)"
  by (auto simp: spell_def)

definition sample_sign :: "claims \<Rightarrow> string \<Rightarrow> string option" where
  "sample_sign cl secret =
     (case cl of
        [(a, JStr sub), (b, JNum x), (c, JNum iat)] \<Rightarrow>
          Some (spell (int (length sub)) @ ''.'' @ spell x @ ''.'' @ spell iat @ ''.'' @ sub @ secret)
      | _ \<Rightarrow> None)"

definition sample_parse :: "string \<Rightarrow> string \<Rightarrow> int \<Rightarrow> claims option" where
  "sample_parse tok secret now =
     (let (n, r1) = cut tok; (x, r2) = cut r1; (iat, r3) = cut r2; len = nat (unspell n)
      in if drop len r3 = secret \<and> now < unspell x then Some (token_claims (take len r3) (unspell x) (unspell iat)) else None)"

definition sample_jwt :: jwt_lib where
  "sample_jwt = \<lparr>jwt_Sign = sample_sign, jwt_Parse = sample_parse\<rparr>"

lemma sample_jwt_ok: "jwt_ok sample_jwt"
  unfolding jwt_ok_def
proof (intro allI exI conjI impI)
  fix sub x iat secret
  let ?tok = "spell (int (length sub)) @ ''.'' @ spell x @ ''.'' @ spell iat @ ''.'' @ sub @ secret"
  show "jwt_Sign sample_jwt (token_claims sub x iat) secret = Some ?tok"
    by (simp add: sample_jwt_def sample_sign_def token_claims_def)
  show "jwt_Parse sample_jwt ?tok secret now = (if now < x then Some (token_claims sub x iat) else None)" for now
    unfolding sample_jwt_def jwt_lib.select_convs sample_parse_def cut_join [OF dot_spell] Let_def prod.case unspell_spell by simp
  show "jwt_Parse sample_jwt ?tok other now = None" if "other \<noteq> secret" for now other
    unfolding sample_jwt_def jwt_lib.select_convs sample_parse_def cut_join [OF dot_spell] Let_def prod.case unspell_spell
    using that by simp
qed

end
