(* ===== verification/Auth.thy ===== *)
theory Auth
  imports AuthService
begin

text \<open>
  What the auth service promises, on any store of accounts that keeps the contract
  \<open>account_store\<close>, and its properties on the stores of the code: who gets tokens, what a refresh
  token is good for and how often, how many guesses at a password an address admits, and that
  accounts never change or vanish.
\<close>

section \<open>Tokens\<close>

text \<open>The tokens were issued to the user in some later world, and the refresh token saved.\<close>

definition granted :: "auth_libs \<Rightarrow> auth_config \<Rightarrow> uuid \<Rightarrow> 'z valkey_world_scheme \<Rightarrow> TokenPair
    \<Rightarrow> 'z valkey_world_scheme \<Rightarrow> bool" where
  "granted L C userID w tp w' \<longleftrightarrow>
     (\<exists>wi :: 'z valkey_world_scheme. env wi = env w \<and> calls w < calls wi \<and> calls wi < calls w' \<and> pair_for L C userID wi tp \<and>
        vk w' = vk (issued L C userID wi) \<and> (\<forall>k. vk wi (AuthRefreshKey k) = vk w (AuthRefreshKey k)))"

text \<open>What the call can have done to the store: the counter of the address, and one new token.\<close>

definition token_changes :: "auth_libs \<Rightarrow> 'z valkey_world_scheme \<Rightarrow> 'z valkey_world_scheme \<Rightarrow> bool" where
  "token_changes L w w' \<longleftrightarrow>
     (\<forall>k. vk w' (AuthRefreshKey k) \<noteq> vk w (AuthRefreshKey k) \<longrightarrow>
        (\<exists>n. calls w \<le> n \<and> n < calls w' \<and> k = uuid_String (lib_uuid L) (uuid_at (env w) n)))"

lemma issued_simps [simp]:
  "env (issued L C u w) = env w" "calls (issued L C u w) = Suc (calls w)" "published (issued L C u w) = published w"
  by (simp_all add: issued_def)

lemma issued_refresh:
  "vk (issued L C u w) (AuthRefreshKey k) = (if k = new_refresh L w then Some (refresh_entry L C u (now_in w)) else vk w (AuthRefreshKey k))"
  by (simp add: issued_def inj_eq [OF inj_keys(1)])

lemma issued_rate: "vk (issued L C u w) (AuthRateLimitKey a e) = vk w (AuthRateLimitKey a e)"
  using keys_apart(1) [THEN not_sym] by (simp add: issued_def)

lemma service_sel [simp]:
  "as_accountRepo (NewAuthService L C repo) = repo" "as_tokenRepo (NewAuthService L C repo) = valkeyTokenRepository (lib_uuid L)"
  "as_publisher (NewAuthService L C repo) = natsAuthPublisher (lib_uuid L)"
  "as_limiter (NewAuthService L C repo) = valkeyLimiter_Allow (cfg_limiter C)"
  "as_uuid (NewAuthService L C repo) = lib_uuid L" "as_bcrypt (NewAuthService L C repo) = lib_bcrypt L"
  by (simp_all add: NewAuthService_def)

lemma calm_same_env: "env w' = env w \<Longrightarrow> calm w' = calm w"
  unfolding calm_def by simp

text \<open>What a call leaves alone, past the check of the rate limit.\<close>

definition quiet :: "auth_libs \<Rightarrow> 'z valkey_world_scheme \<Rightarrow> 'z valkey_world_scheme \<Rightarrow> bool" where
  "quiet L w w' \<longleftrightarrow> env w' = env w \<and> calls w < calls w' \<and> token_changes L w w' \<and>
     (\<forall>a e. vk w' (AuthRateLimitKey a e) = vk w (AuthRateLimitKey a e))"

lemma quiet_same_rest: "same_rest w w' \<Longrightarrow> quiet L w w'"
  by (simp add: quiet_def same_rest_def token_changes_def)

lemma token_changes_trans:
  assumes "token_changes L w w'" and "token_changes L w' w''" and "env w' = env w" and "calls w \<le> calls w'" "calls w' \<le> calls w''"
  shows "token_changes L w w''"
  unfolding token_changes_def
proof (intro allI impI)
  fix k assume "vk w'' (AuthRefreshKey k) \<noteq> vk w (AuthRefreshKey k)"
  then consider "vk w'' (AuthRefreshKey k) \<noteq> vk w' (AuthRefreshKey k)" | "vk w' (AuthRefreshKey k) \<noteq> vk w (AuthRefreshKey k)" by metis
  then show "\<exists>n\<ge>calls w. n < calls w'' \<and> k = uuid_String (lib_uuid L) (uuid_at (env w) n)"
    using assms unfolding token_changes_def by cases (metis dual_order.trans, metis order.strict_trans2)
qed

lemma quiet_trans: "quiet L w w' \<Longrightarrow> quiet L w' w'' \<Longrightarrow> quiet L w w''"
  using token_changes_trans [of L w w' w''] by (simp add: quiet_def)

lemma quiet_issued: "quiet L w (issued L C u w)" "quiet L w (tick w)"
  by (auto simp: quiet_def token_changes_def issued_rate issued_refresh new_refresh_def uuid_in_def)

lemma quiet_published: "quiet L w (w'\<lparr>published := p\<rparr>) = quiet L w w'"
  by (simp add: quiet_def token_changes_def)

lemma granted_issued:
  assumes "same_rest w wi" and "pair_for L C u wi tp"
  shows "granted L C u w tp (issued L C u wi)"
  using assms unfolding granted_def same_rest_def by (intro exI [of _ wi]) simp

context account_store
begin

lemma frame_issued: "invar w \<Longrightarrow> accounts (issued L C u w) = accounts w \<and> invar (issued L C u w)"
  using frame by (simp add: issued_def put_vk_def)

lemma frame_tick: "invar w \<Longrightarrow> accounts (tick w) = accounts w \<and> invar (tick w)"
  using frame by simp

lemma generate_spec:
  assumes "invar w" and "jwt_ok (lib_jwt L)"
  shows "wp (generateTokenPair (NewAuthService L C repo) u)
    (\<lambda>tp w'. invar w' \<and> accounts w' = accounts w \<and> quiet L w w' \<and> published w' = published w \<and>
       pair_for L C u w tp \<and> w' = issued L C u w)
    (\<lambda>e w'. invar w' \<and> accounts w' = accounts w \<and> quiet L w w' \<and> published w' = published w \<and>
       \<not> (calm w \<and> 0 < Seconds (cfg_refreshTTL C)) \<and> (\<forall>s. \<not> errors_Is e s)) w"
  by (rule wp_mono [OF generate_wp [OF assms(2)]])
    (use frame_issued [OF assms(1)] frame_tick [OF assms(1)] quiet_issued in auto)

lemma login_spec:
  assumes inv: "invar w" and jwt: "jwt_ok (lib_jwt L)"
  shows "wp (login_body (NewAuthService L C repo) email password)
    (\<lambda>(acc, tp) w'. invar w' \<and> accounts w' = accounts w \<and> quiet L w w' \<and> published w' = published w \<and>
       (\<exists>a. accounts w email = Some a \<and> bcrypt_Compare (lib_bcrypt L) (acc_PasswordHash a) password \<and> acc = toAccount a \<and>
          granted L C (acc_ID a) w tp w'))
    (\<lambda>e w'. invar w' \<and> accounts w' = accounts w \<and> quiet L w w' \<and> published w' = published w \<and>
       (errors_Is e authSvc_ErrInvalidCredentials \<longrightarrow>
          (\<forall>a. accounts w email = Some a \<longrightarrow> \<not> bcrypt_Compare (lib_bcrypt L) (acc_PasswordHash a) password)) \<and>
       (calm w \<and> no_nul email \<and> 0 < Seconds (cfg_refreshTTL C) \<longrightarrow> errors_Is e authSvc_ErrInvalidCredentials) \<and>
       \<not> errors_Is e authSvc_ErrRateLimitExceeded) w"
  unfolding login_body_def wp_simps service_sel
proof (rule wp_mono [OF find [OF inv]], goal_cases)
  case (1 a w1)
  then have w1: "invar w1" "same_rest w w1" "accounts w1 = accounts w" "accounts w email = Some a" by auto
  have same: "quiet L w w1" "calm w1 = calm w" "published w1 = published w"
    using w1 calm_same_env [of w1 w] by (simp_all add: quiet_same_rest same_rest_def)
  have gen: "wp (generateTokenPair (NewAuthService L C repo) (acc_ID a))
      (\<lambda>tp w'. invar w' \<and> accounts w' = accounts w \<and> quiet L w w' \<and> published w' = published w \<and> granted L C (acc_ID a) w tp w')
      (\<lambda>e w'. invar w' \<and> accounts w' = accounts w \<and> quiet L w w' \<and> published w' = published w \<and>
         \<not> (calm w \<and> 0 < Seconds (cfg_refreshTTL C)) \<and> (\<forall>s. \<not> errors_Is e s)) w1"
    by (rule wp_mono [OF generate_spec [OF w1(1) jwt]])
      (use w1 same granted_issued [OF w1(2)] quiet_trans [OF same(1)] in auto)
  show ?case
  proof (cases "bcrypt_Compare (lib_bcrypt L) (acc_PasswordHash a) password")
    case True
    show ?thesis
      by (simp only: True not_True_eq_False if_False, rule wp_mono [OF gen]) (use w1 True in auto)
  next
    case False
    then show ?thesis using w1 same by (simp add: wp_simps)
  qed
next
  case (2 e w1)
  then have "quiet L w w1" "published w1 = published w" by (simp_all add: quiet_same_rest same_rest_def)
  with 2 show ?case by (auto simp: wp_simps)
qed

end

lemma granted_mono:
  "granted L C u w tp w1 \<Longrightarrow> vk w2 = vk w1 \<Longrightarrow> calls w1 \<le> calls w2 \<Longrightarrow> granted L C u w tp w2"
  unfolding granted_def by (elim exE conjE, rule exI, intro conjI) (auto intro: order.strict_trans2)

lemma granted_from:
  "same_rest w w1 \<Longrightarrow> granted L C u w1 tp w2 \<Longrightarrow> granted L C u w tp w2"
  unfolding granted_def same_rest_def by (elim exE conjE, rule exI, intro conjI) (auto intro: order.strict_trans)

lemma wp_hash_password:
  "wp (hash_password s password k) Q E w \<longleftrightarrow>
    (case bcrypt_Generate (as_bcrypt s) password (uuid_in w) of
       None \<Rightarrow> E (Wrap ''hash password'' (Errorf [])) w | Some h \<Rightarrow> wp (k h) Q E w)"
  by (simp add: wp_def hash_password_def split: option.splits)

definition registered_event :: "auth_libs \<Rightarrow> Account \<Rightarrow> string \<times> json" where
  "registered_event L a = (SubjectUserRegistered,
     JObj [(''email'', JStr (acc_Email a)), (''user_id'', JStr (uuid_String (lib_uuid L) (acc_ID a)))])"

text \<open>The account \<open>a\<close> is new in \<open>m'\<close>.\<close>

definition account_added :: "(string \<rightharpoonup> Account) \<Rightarrow> Account \<Rightarrow> (string \<rightharpoonup> Account) \<Rightarrow> bool" where
  "account_added m a m' \<longleftrightarrow> m (acc_Email a) = None \<and> m' = m(acc_Email a \<mapsto> a)"

context account_store
begin

lemma announce_spec:
  assumes "invar w"
  shows "wp (attempt (publisher_PublishUserRegistered U i email) (ret x))
    (\<lambda>y w'. y = x \<and> invar w' \<and> accounts w' = accounts w \<and> vk w' = vk w \<and> env w' = env w \<and> calls w < calls w' \<and>
       published w' \<in> (let ev = (SubjectUserRegistered, JObj [(''email'', JStr email), (''user_id'', JStr (uuid_String U i))])
         in {published w @ [ev]} \<union> (if calm w then {} else {published w})))
    (\<lambda>_ _. False) w"
proof -
  have "accounts ((tick w)\<lparr>published := p\<rparr>) = accounts w" "invar ((tick w)\<lparr>published := p\<rparr>)" for p
    using frame(2) [of "tick w" p] frame(3) [OF assms] by simp_all
  then show ?thesis
    unfolding publisher_PublishUserRegistered_def wp_simps
    by (intro wp_js_Publish) (auto simp: wp_simps frame_tick [OF assms])
qed

text \<open>The end of \<open>Register\<close>, with the account created.\<close>

lemma register_tail:
  assumes inv: "invar w" and jwt: "jwt_ok (lib_jwt L)"
  shows "wp (tryE (generateTokenPair (NewAuthService L C repo) (acc_ID a)) (\<lambda>e. fail (Wrap ''generate tokens'' e))
      (\<lambda>tokenPair. attempt (apub_PublishUserRegistered (natsAuthPublisher (lib_uuid L)) (acc_ID a) (acc_Email a))
         (ret (toAccount a, tokenPair))))
    (\<lambda>(acc, tp) w'. invar w' \<and> accounts w' = accounts w \<and> quiet L w w' \<and> acc = toAccount a \<and>
       (\<exists>w1. pair_for L C (acc_ID a) w tp \<and> w1 = issued L C (acc_ID a) w \<and> vk w' = vk w1 \<and> calls w1 < calls w') \<and>
       published w' \<in> {published w @ [registered_event L a]} \<union> (if calm w then {} else {published w}))
    (\<lambda>e w'. invar w' \<and> accounts w' = accounts w \<and> quiet L w w' \<and> published w' = published w \<and>
       \<not> (calm w \<and> 0 < Seconds (cfg_refreshTTL C)) \<and> (\<forall>s. \<not> errors_Is e s)) w"
  unfolding wp_tryE
proof (rule wp_mono [OF generate_spec [OF inv jwt]], goal_cases)
  case (1 tp w1)
  then have w1: "invar w1" "accounts w1 = accounts w" "quiet L w w1" "published w1 = published w" "pair_for L C (acc_ID a) w tp"
      "w1 = issued L C (acc_ID a) w" by auto
  have same: "calm w1 = calm w" "quiet L w1 w' = quiet L w1 w'" for w' using w1(6) calm_same_env [of w1 w] by simp_all
  show ?case
    unfolding natsAuthPublisher_def AuthPublisher.select_convs
  proof (rule wp_mono [OF announce_spec [OF w1(1)]], goal_cases)
    case (1 y w')
    then have "quiet L w1 w'" by (auto simp: quiet_def token_changes_def)
    then show ?case using 1 w1 same quiet_trans [OF w1(3)]
      by (auto simp: registered_event_def Let_def)
  qed simp
next
  case (2 e w1)
  then show ?case by (simp add: wp_fail)
qed

end

context account_store
begin

lemma register_spec:
  assumes inv: "invar w" and jwt: "jwt_ok (lib_jwt L)" and hash: "bcrypt_ok (lib_bcrypt L)"
  shows "wp (register_body (NewAuthService L C repo) email password)
    (\<lambda>(acc, tp) w'. invar w' \<and> quiet L w w' \<and>
       (\<exists>a salt. account_added (accounts w) a (accounts w') \<and> acc = toAccount a \<and> (fits 255 email \<longrightarrow> acc_Email a = email) \<and>
          bcrypt_Generate (lib_bcrypt L) password salt = Some (acc_PasswordHash a) \<and> granted L C (acc_ID a) w tp w' \<and>
          published w' \<in> {published w @ [registered_event L a]} \<union> (if calm w then {} else {published w})))
    (\<lambda>e w'. invar w' \<and> quiet L w w' \<and> published w' = published w \<and>
       (accounts w' = accounts w \<or> (\<exists>a. account_added (accounts w) a (accounts w'))) \<and> \<not> errors_Is e authSvc_ErrRateLimitExceeded \<and>
       (calm w \<and> fits 255 email \<and> byte_length password \<le> 72 \<and> 0 < Seconds (cfg_refreshTTL C) \<and>
          (\<forall>n. uuid_at (env w) n \<notin> acc_ID ` ran (accounts w)) \<longrightarrow>
        accounts w email \<noteq> None \<and> accounts w' = accounts w \<and> errors_Is e authSvc_ErrAccountAlreadyExists)) w"
  unfolding register_body_def service_sel wp_tryE [of "arepo_GetAccountByEmail repo email"]
proof (rule wp_mono [OF find [OF inv]], goal_cases)
  case (1 a w1)
  then show ?case by (auto simp: wp_fail quiet_same_rest same_rest_def [of w w1])
next
  case (2 e w1)
  then have w1: "invar w1" "same_rest w w1" "accounts w1 = accounts w" "errors_Is e accountRepo_ErrAccountNotFound \<Longrightarrow> accounts w email = None"
      "calm w \<Longrightarrow> no_nul email \<Longrightarrow> errors_Is e accountRepo_ErrAccountNotFound" "\<not> errors_Is e authSvc_ErrRateLimitExceeded" by auto
  have q1: "quiet L w w1" "calm w1 = calm w" "published w1 = published w" "env w1 = env w"
    using w1(2) calm_same_env [of w1 w] by (simp_all add: quiet_same_rest same_rest_def)
  show ?case
  proof (cases "errors_Is e accountRepo_ErrAccountNotFound")
    case False
    then show ?thesis using w1 q1 by (auto simp: wp_fail fits_def)
  next
    case True
    show ?thesis
    proof (cases "bcrypt_Generate (lib_bcrypt L) password (uuid_in w1)")
      case None
      moreover from this hash have "72 < byte_length password" unfolding bcrypt_ok_def by blast
      ultimately show ?thesis using True w1 q1 by (auto simp: wp_hash_password)
    next
      case (Some h)
      then have h: "fits 255 h" using hash unfolding bcrypt_ok_def by blast
      show ?thesis
        unfolding wp_If wp_hash_password service_sel Some option.case wp_tryE [of "arepo_CreateAccount repo email h"]
      proof (simp only: True not_True_eq_False if_False, rule wp_mono [OF create [OF w1(1)]], goal_cases)
        case (1 a w2)
        then have w2: "invar w2" "same_rest w1 w2" "account_added (accounts w) a (accounts w2)" "fits 255 email \<longrightarrow> acc_Email a = email"
            "acc_PasswordHash a = h" using h w1(3) by (auto simp: account_added_def)
        have q2: "quiet L w w2" "calm w2 = calm w" "published w2 = published w" "same_rest w w2"
          using w1(2) w2(2) q1 quiet_trans [OF q1(1) quiet_same_rest [OF w2(2)]] calm_same_env [of w2 w] by (simp_all add: same_rest_def)
        show ?case
        proof (rule wp_mono [OF register_tail [OF w2(1) jwt]], goal_cases)
          case (1 y w')
          then obtain acc tp where y: "y = (acc, tp)" "invar w'" "accounts w' = accounts w2" "quiet L w2 w'" "acc = toAccount a"
              "pair_for L C (acc_ID a) w2 tp" "vk w' = vk (issued L C (acc_ID a) w2)" "calls (issued L C (acc_ID a) w2) < calls w'"
              "published w' \<in> {published w2 @ [registered_event L a]} \<union> (if calm w2 then {} else {published w2})"
            by (cases y) auto
          have "granted L C (acc_ID a) w tp w'"
            using granted_mono [OF granted_issued [OF q2(4) y(6)] y(7)] y(8) by simp
          moreover have "quiet L w w'" using quiet_trans [OF q2(1) y(4)] .
          ultimately show ?case using y w2 q2 Some by auto
        next
          case (2 e w')
          then show ?case using w2 q2 quiet_trans [OF q2(1)] by auto
        qed
      next
        case (2 e w2)
        then have w2: "invar w2" "quiet L w w2" "published w2 = published w" "\<not> errors_Is e s" for s
          using quiet_trans [OF q1(1) quiet_same_rest [of w1 w2 L]] q1 by (auto simp: same_rest_def)
        have acc: "accounts w2 = accounts w \<or> \<not> calm w \<and> (\<exists>a. account_added (accounts w) a (accounts w2))"
          using 2 w1(3) q1(2) by (auto simp: account_added_def)
        have viol: "accounts w email \<noteq> None \<and> errors_As_PgError e = Some ''23505''"
          if "calm w" "fits 255 email" "\<forall>n. uuid_at (env w) n \<notin> acc_ID ` ran (accounts w)"
        proof -
          have "uuid_in w1 \<notin> acc_ID ` ran (accounts w1)" using that(3) w1(3) q1(4) by (simp add: uuid_in_def)
          then show ?thesis using 2 that q1(2) h w1(3) by (auto simp: account_fits_def)
        qed
        show ?case
          using w2 acc viol by (auto simp: wp_If wp_fail isUniqueViolation_def)
      qed
    qed
  qed
qed

end

section \<open>The handlers\<close>

text \<open>The handler over a service, as \<open>cmd/main.go\<close> builds it; the rule for an e-mail and the texts of the
  violations are the validator's.\<close>

definition auth_handler :: "auth_libs \<Rightarrow> auth_config \<Rightarrow> ('z valkey_world_scheme) AccountRepository \<Rightarrow> (string \<Rightarrow> bool)
    \<Rightarrow> (string list \<Rightarrow> string) \<Rightarrow> ('z valkey_world_scheme) authHandler" where
  "auth_handler L C repo mail txt =
     \<lparr>ah_svc = NewAuthService L C repo, ah_uuid = lib_uuid L, ah_email = mail, ah_violations = txt\<rparr>"

lemma auth_handler_sel [simp]:
  "ah_svc (auth_handler L C repo mail txt) = NewAuthService L C repo" "ah_uuid (auth_handler L C repo mail txt) = lib_uuid L"
  "ah_email (auth_handler L C repo mail txt) = mail"
  by (simp_all add: auth_handler_def)

definition over_limit :: "auth_config \<Rightarrow> string \<Rightarrow> string \<Rightarrow> 'z valkey_world_scheme \<Rightarrow> bool" where
  "over_limit C action email w \<longleftrightarrow> lim_limit (cfg_limiter C) < attempts C action email w"

lemma rate_only_frame:
  assumes "rate_only action email w w1"
  shows "env w1 = env w" "calls w1 = Suc (calls w)" "published w1 = published w" "calm w1 = calm w"
    "vk w1 (AuthRefreshKey k) = vk w (AuthRefreshKey k)"
  using assms calm_same_env [of w1 w] keys_apart(1) by (auto simp: rate_only_def)

lemma granted_after_limit:
  "rate_only action email w w1 \<Longrightarrow> granted L C u w1 tp w' \<Longrightarrow> granted L C u w tp w'"
  unfolding granted_def by (elim exE conjE, rule exI, intro conjI) (auto simp: rate_only_frame)

text \<open>A call that begins with the rate limit ends in the limiter, or runs the rest in the world the
  limiter leaves.\<close>

lemma limited_wp:
  assumes body: "\<And>w1. rate_only action email w w1 \<Longrightarrow>
      (limiter_ready C action email w \<longrightarrow> \<not> over_limit C action email w) \<Longrightarrow> wp body Q E w1"
    and over: "\<And>w1. rate_only action email w w1 \<Longrightarrow> (limiter_ready C action email w \<longrightarrow> over_limit C action email w) \<Longrightarrow>
      E (Sentinel authSvc_ErrRateLimitExceeded) w1"
    and failed: "\<And>w1 e. rate_only action email w w1 \<Longrightarrow> \<not> (calm w \<and> limiter_ready C action email w) \<Longrightarrow>
      (\<And>s. \<not> errors_Is e s) \<Longrightarrow> E e w1"
  shows "wp (with_rate_limit (NewAuthService L C repo) action email body) Q E w"
  unfolding with_rate_limit_def service_sel wp_tryE
proof (rule wp_mono [OF allow_wp], goal_cases)
  case (1 x w1)
  then show ?case using body by (simp add: over_limit_def not_less)
next
  case (2 e w1)
  then show ?case using over [of w1] failed [of w1 "Wrap ''rate limit check'' e"]
    by (cases "errors_As_RateLimit e") (auto simp: wp_fail over_limit_def)
qed

context account_store
begin

lemma frame_limit: "rate_only action email w w1 \<Longrightarrow> invar w \<Longrightarrow> accounts w1 = accounts w \<and> invar w1"
  using frame(1) [of "tick w"] frame_tick [of w] by (auto simp: rate_only_def put_vk_def)

definition may_enter :: "auth_libs \<Rightarrow> 'z valkey_world_scheme \<Rightarrow> string \<Rightarrow> string \<Rightarrow> bool" where
  "may_enter L w email password \<longleftrightarrow> (\<exists>a. accounts w email = Some a \<and> bcrypt_Compare (lib_bcrypt L) (acc_PasswordHash a) password)"

lemma Login_wp:
  assumes inv: "invar w" and jwt: "jwt_ok (lib_jwt L)"
  shows "wp (authService_Login (NewAuthService L C repo) email password)
    (\<lambda>(acc, tp) w'. invar w' \<and> accounts w' = accounts w \<and> published w' = published w \<and>
       (limiter_ready C ActionLogin email w \<longrightarrow> \<not> over_limit C ActionLogin email w) \<and>
       (\<exists>a. accounts w email = Some a \<and> bcrypt_Compare (lib_bcrypt L) (acc_PasswordHash a) password \<and> acc = toAccount a \<and>
          granted L C (acc_ID a) w tp w'))
    (\<lambda>e w'. invar w' \<and> accounts w' = accounts w \<and> published w' = published w \<and>
       (calm w \<and> limiter_ready C ActionLogin email w \<and> no_nul email \<and> 0 < Seconds (cfg_refreshTTL C) \<longrightarrow>
          (if over_limit C ActionLogin email w
           then errors_Is e authSvc_ErrRateLimitExceeded \<and> \<not> errors_Is e authSvc_ErrInvalidCredentials
           else errors_Is e authSvc_ErrInvalidCredentials \<and> \<not> may_enter L w email password))) w"
  unfolding authService_Login_def
proof (rule limited_wp, goal_cases)
  case (1 w1)
  note same = rate_only_frame [OF 1(1)] frame_limit [OF 1(1) inv]
  show ?case
    by (rule wp_mono [OF login_spec [OF conjunct2 [OF same(6)] jwt]])
      (use same 1(2) granted_after_limit [OF 1(1)] in \<open>auto simp: may_enter_def\<close>)
next
  case (2 w1)
  then show ?case using rate_only_frame [OF 2(1)] frame_limit [OF 2(1) inv] by simp
next
  case (3 w1 e)
  then show ?case using rate_only_frame [OF 3(1)] frame_limit [OF 3(1) inv] by auto
qed

lemma Register_wp:
  assumes inv: "invar w" and jwt: "jwt_ok (lib_jwt L)" and hash: "bcrypt_ok (lib_bcrypt L)"
  shows "wp (authService_Register (NewAuthService L C repo) email password)
    (\<lambda>(acc, tp) w'. invar w' \<and>
       (limiter_ready C ActionRegister email w \<longrightarrow> \<not> over_limit C ActionRegister email w) \<and>
       (\<exists>a salt. account_added (accounts w) a (accounts w') \<and> acc = toAccount a \<and> (fits 255 email \<longrightarrow> acc_Email a = email) \<and>
          bcrypt_Generate (lib_bcrypt L) password salt = Some (acc_PasswordHash a) \<and> granted L C (acc_ID a) w tp w' \<and>
          published w' \<in> {published w @ [registered_event L a]} \<union> (if calm w then {} else {published w})))
    (\<lambda>e w'. invar w' \<and> published w' = published w \<and>
       (accounts w' = accounts w \<or> (\<exists>a. account_added (accounts w) a (accounts w'))) \<and>
       (calm w \<and> limiter_ready C ActionRegister email w \<and> fits 255 email \<and> byte_length password \<le> 72 \<and>
          0 < Seconds (cfg_refreshTTL C) \<and> (\<forall>n. uuid_at (env w) n \<notin> acc_ID ` ran (accounts w)) \<longrightarrow>
          accounts w' = accounts w \<and>
          (if over_limit C ActionRegister email w
           then errors_Is e authSvc_ErrRateLimitExceeded \<and> \<not> errors_Is e authSvc_ErrAccountAlreadyExists
           else errors_Is e authSvc_ErrAccountAlreadyExists \<and> accounts w email \<noteq> None))) w"
  unfolding authService_Register_def
proof (rule limited_wp, goal_cases)
  case (1 w1)
  note same = rate_only_frame [OF 1(1)] frame_limit [OF 1(1) inv]
  show ?case
  proof (rule wp_mono [OF register_spec [OF conjunct2 [OF same(6)] jwt hash]], goal_cases)
    case (1 y w')
    then show ?case using same granted_after_limit [OF \<open>rate_only _ _ w w1\<close>] \<open>_ \<longrightarrow> \<not> over_limit _ _ _ w\<close> by (cases y) auto
  next
    case (2 e w')
    then show ?case using same \<open>_ \<longrightarrow> \<not> over_limit _ _ _ w\<close> by auto
  qed
next
  case (2 w1)
  then show ?case using rate_only_frame [OF 2(1)] frame_limit [OF 2(1) inv] by simp
next
  case (3 w1 e)
  then show ?case using rate_only_frame [OF 3(1)] frame_limit [OF 3(1) inv] by auto
qed

end

section \<open>Registering and logging in\<close>

lemma wp_validate [wp_simps]:
  "wp (validate txt vs k) Q E w \<longleftrightarrow> (if vs = [] then wp k Q E w else E (Code_Error CodeInvalidArgument (txt vs)) w)"
  by (simp add: validate_def wp_simps)

text \<open>Nothing unforeseen: no external call fails, the counter of the address is a counter, the lifetime of
  refresh tokens is at least a second.\<close>

definition auth_calm :: "auth_config \<Rightarrow> string \<Rightarrow> string \<Rightarrow> 'z valkey_world_scheme \<Rightarrow> bool" where
  "auth_calm C action email w \<longleftrightarrow> calm w \<and> limiter_ready C action email w \<and> 0 < Seconds (cfg_refreshTTL C)"

context account_store
begin

lemma login_handler_wp:
  assumes "invar w" and "jwt_ok (lib_jwt L)"
  shows "wp (authHandler_Login (auth_handler L C repo mail txt) req)
    (\<lambda>resp w'. invar w' \<and> accounts w' = accounts w \<and> published w' = published w \<and> credential_violations mail req = [] \<and>
       (limiter_ready C ActionLogin (ar_Email req) w \<longrightarrow> \<not> over_limit C ActionLogin (ar_Email req) w) \<and>
       (\<exists>a tp. accounts w (ar_Email req) = Some a \<and> bcrypt_Compare (lib_bcrypt L) (acc_PasswordHash a) (ar_Password req) \<and>
          resp = responseToProto (lib_uuid L) (toAccount a) tp \<and> granted L C (acc_ID a) w tp w'))
    (\<lambda>e w'. invar w' \<and> accounts w' = accounts w \<and> published w' = published w \<and>
       (if credential_violations mail req \<noteq> [] then answers CodeInvalidArgument (Inl e) \<and> w' = w
        else auth_calm C ActionLogin (ar_Email req) w \<and> no_nul (ar_Email req) \<longrightarrow>
          (if over_limit C ActionLogin (ar_Email req) w then answers CodeUnavailable (Inl e)
           else answers CodeUnauthenticated (Inl e) \<and> \<not> may_enter L w (ar_Email req) (ar_Password req)))) w"
proof (cases "credential_violations mail req = []")
  case False
  then show ?thesis using assms(1)
    by (simp add: authHandler_Login_def wp_validate)
next
  case True
  show ?thesis
    unfolding authHandler_Login_def auth_handler_sel wp_validate wp_tryE
  proof (simp only: True simp_thms if_True, rule wp_mono [OF Login_wp [OF assms]], goal_cases)
    case (1 y w')
    then show ?case by (cases y) (auto simp: wp_ret)
  next
    case (2 e w')
    then show ?case by (auto simp: wp_simps auth_calm_def)
  qed
qed

lemma register_handler_wp:
  assumes "invar w" and "jwt_ok (lib_jwt L)" and "bcrypt_ok (lib_bcrypt L)"
  shows "wp (authHandler_Register (auth_handler L C repo mail txt) req)
    (\<lambda>resp w'. invar w' \<and> credential_violations mail req = [] \<and>
       (limiter_ready C ActionRegister (ar_Email req) w \<longrightarrow> \<not> over_limit C ActionRegister (ar_Email req) w) \<and>
       (\<exists>a tp salt. account_added (accounts w) a (accounts w') \<and> (fits 255 (ar_Email req) \<longrightarrow> acc_Email a = ar_Email req) \<and>
          bcrypt_Generate (lib_bcrypt L) (ar_Password req) salt = Some (acc_PasswordHash a) \<and>
          resp = responseToProto (lib_uuid L) (toAccount a) tp \<and> granted L C (acc_ID a) w tp w' \<and>
          published w' \<in> {published w @ [registered_event L a]} \<union> (if calm w then {} else {published w})))
    (\<lambda>e w'. invar w' \<and> published w' = published w \<and>
       (if credential_violations mail req \<noteq> [] then answers CodeInvalidArgument (Inl e) \<and> w' = w
        else (accounts w' = accounts w \<or> (\<exists>a. account_added (accounts w) a (accounts w'))) \<and>
         (auth_calm C ActionRegister (ar_Email req) w \<and> no_nul (ar_Email req) \<and> byte_length (ar_Password req) \<le> 72 \<and>
            (\<forall>n. uuid_at (env w) n \<notin> acc_ID ` ran (accounts w)) \<longrightarrow>
          accounts w' = accounts w \<and>
          (if over_limit C ActionRegister (ar_Email req) w then answers CodeUnavailable (Inl e)
           else answers CodeAlreadyExists (Inl e) \<and> accounts w (ar_Email req) \<noteq> None)))) w"
proof (cases "credential_violations mail req = []")
  case False
  then show ?thesis using assms(1)
    by (simp add: authHandler_Register_def wp_validate)
next
  case True
  then have len: "length (ar_Email req) \<le> 255" by (simp add: credential_violations_def split: if_splits)
  show ?thesis
    unfolding authHandler_Register_def auth_handler_sel wp_validate wp_tryE
  proof (simp only: True simp_thms if_True, rule wp_mono [OF Register_wp [OF assms]], goal_cases)
    case (1 y w')
    then show ?case by (cases y) (fastforce simp: wp_ret)
  next
    case (2 e w')
    then show ?case using len by (auto simp: wp_simps auth_calm_def fits_def)
  qed
qed

end

text \<open>What the tokens of an answer are good for: the refresh token stands for the user until it expires, the
  access token parses to a claim with the user as subject until it expires.\<close>

definition good_tokens :: "auth_libs \<Rightarrow> auth_config \<Rightarrow> uuid \<Rightarrow> 'z valkey_world_scheme \<Rightarrow> 'z valkey_world_scheme
    \<Rightarrow> string \<Rightarrow> string \<Rightarrow> bool" where
  "good_tokens L C userID w w' access refresh \<longleftrightarrow>
     (\<exists>n. calls w < n \<and> n < calls w' \<and> refresh = uuid_String (lib_uuid L) (uuid_at (env w) n) \<and>
        (\<forall>t. token_at AuthRefreshKey t w' refresh =
           (if t < clock_at (env w) n + Seconds (cfg_refreshTTL C) * second then Some (uuid_String (lib_uuid L) userID) else None)) \<and>
        (\<forall>now. jwt_Parse (lib_jwt L) access (cfg_secret C) now =
           (if now < (clock_at (env w) n + cfg_accessTTL C) div second
            then Some (access_claims (lib_uuid L) userID (clock_at (env w) n) (cfg_accessTTL C)) else None)))"

lemma issued_good:
  fixes w wi w' :: "'z valkey_world_scheme"
  assumes wi: "env wi = env w" "calls w < calls wi" "calls wi < calls w'" "pair_for L C userID wi tp"
      "vk w' = vk (issued L C userID wi)" and jwt: "jwt_ok (lib_jwt L)"
  shows "good_tokens L C userID w w' (tp_AccessToken tp) (tp_RefreshToken tp)"
proof -
  have "jwt_Parse (lib_jwt L) (tp_AccessToken tp) (cfg_secret C) now =
      (if now < (now_in wi + cfg_accessTTL C) div second
       then Some (access_claims (lib_uuid L) userID (now_in wi) (cfg_accessTTL C)) else None)" for now
    using wi(4) jwt unfolding jwt_ok_def pair_for_def access_claims_def by (metis option.inject)
  then show ?thesis
    unfolding good_tokens_def using wi
    by (intro exI [of _ "calls wi"])
      (auto simp: pair_for_def new_refresh_def uuid_in_def token_at_def live_def issued_refresh refresh_entry_def vk_text_def now_in_def)
qed

lemma granted_good:
  fixes w w' :: "'z valkey_world_scheme"
  assumes "granted L C userID w tp w'" and jwt: "jwt_ok (lib_jwt L)"
  shows "good_tokens L C userID w w' (tp_AccessToken tp) (tp_RefreshToken tp)"
  using assms(1) issued_good [OF _ _ _ _ _ jwt] unfolding granted_def by metis

text \<open>C10: Logging in.  Whatever the environment does, tokens are answered only when the account of the
  address exists and the password matches its hash; they are good for its user, and no account changes.
  When nothing unforeseen happens and the request is valid, the answer is \<open>UNAVAILABLE\<close> past the limit of
  attempts, the tokens when account and password match, and \<open>UNAUTHENTICATED\<close> otherwise, the same
  answer for an unknown address and for a wrong password.\<close>

theorem login_handler:
  assumes "pg_accounts_ok w" and "jwt_ok (lib_jwt L)"
  shows "case authHandler_Login (auth_handler L C pgAccountRepository mail txt) req w of (r, w') \<Rightarrow>
    pg_accounts w' = pg_accounts w \<and> published w' = published w \<and>
    (\<forall>resp. r = Inr resp \<longrightarrow> (\<exists>a. pg_accounts w (ar_Email req) = Some a \<and>
       bcrypt_Compare (lib_bcrypt L) (acc_PasswordHash a) (ar_Password req) \<and>
       aresp_UserId resp = uuid_String (lib_uuid L) (acc_ID a) \<and>
       good_tokens L C (acc_ID a) w w' (aresp_AccessToken resp) (aresp_RefreshToken resp))) \<and>
    (credential_violations mail req \<noteq> [] \<longrightarrow> answers CodeInvalidArgument r \<and> w' = w) \<and>
    (credential_violations mail req = [] \<and> auth_calm C ActionLogin (ar_Email req) w \<and> no_nul (ar_Email req) \<longrightarrow>
       (if over_limit C ActionLogin (ar_Email req) w then answers CodeUnavailable r
        else if \<exists>a. pg_accounts w (ar_Email req) = Some a \<and> bcrypt_Compare (lib_bcrypt L) (acc_PasswordHash a) (ar_Password req)
        then \<exists>resp. r = Inr resp
        else answers CodeUnauthenticated r))"
proof (cases "authHandler_Login (auth_handler L C pgAccountRepository mail txt) req w")
  case (Pair r w')
  note spec = wpD [OF pga.login_handler_wp [OF assms, of C mail "txt" req] Pair]
  show ?thesis
  proof (cases r)
    case (Inl e)
    then show ?thesis using spec Pair by (auto simp: pga.may_enter_def)
  next
    case (Inr resp)
    then obtain a tp where a: "pg_accounts w' = pg_accounts w" "published w' = published w" "credential_violations mail req = []"
        "limiter_ready C ActionLogin (ar_Email req) w \<longrightarrow> \<not> over_limit C ActionLogin (ar_Email req) w"
        "pg_accounts w (ar_Email req) = Some a" "bcrypt_Compare (lib_bcrypt L) (acc_PasswordHash a) (ar_Password req)"
        "resp = responseToProto (lib_uuid L) (toAccount a) tp" "granted L C (acc_ID a) w tp w'"
      using spec by blast
    show ?thesis
      using a granted_good [OF a(8) assms(2)] Inr Pair
      by (auto simp: responseToProto_def toAccount_def auth_calm_def)
  qed
qed

text \<open>C23: Registering.  Whatever the environment does, an answer with tokens means that the address had no
  account, that it has one now with a hash of the password, that no other account changed and that the
  tokens are good for it; an error adds at most that account.  When nothing unforeseen happens the event
  \<open>auth.user.registered\<close> is published with the answer, and an error is \<open>UNAVAILABLE\<close> past the limit of
  attempts or else \<open>ALREADY_EXISTS\<close> for an address that has an account.\<close>

theorem register_handler:
  assumes "pg_accounts_ok w" and "jwt_ok (lib_jwt L)" and "bcrypt_ok (lib_bcrypt L)" and "no_nul (ar_Email req)"
  shows "case authHandler_Register (auth_handler L C pgAccountRepository mail txt) req w of (r, w') \<Rightarrow>
    pg_accounts_ok w' \<and> (pg_accounts w' = pg_accounts w \<or> (\<exists>a. account_added (pg_accounts w) a (pg_accounts w'))) \<and>
    (\<forall>resp. r = Inr resp \<longrightarrow> (\<exists>a salt. account_added (pg_accounts w) a (pg_accounts w') \<and> acc_Email a = ar_Email req \<and>
       bcrypt_Generate (lib_bcrypt L) (ar_Password req) salt = Some (acc_PasswordHash a) \<and>
       aresp_UserId resp = uuid_String (lib_uuid L) (acc_ID a) \<and>
       good_tokens L C (acc_ID a) w w' (aresp_AccessToken resp) (aresp_RefreshToken resp) \<and>
       (calm w \<longrightarrow> published w' = published w @ [registered_event L a]))) \<and>
    (\<forall>e. r = Inl e \<longrightarrow> published w' = published w \<and>
       (credential_violations mail req = [] \<and> auth_calm C ActionRegister (ar_Email req) w \<and> byte_length (ar_Password req) \<le> 72 \<and>
          (\<forall>n. uuid_at (env w) n \<notin> acc_ID ` ran (pg_accounts w)) \<longrightarrow>
        pg_accounts w' = pg_accounts w \<and>
        (if over_limit C ActionRegister (ar_Email req) w then answers CodeUnavailable r
         else answers CodeAlreadyExists r \<and> pg_accounts w (ar_Email req) \<noteq> None)))"
proof (cases "authHandler_Register (auth_handler L C pgAccountRepository mail txt) req w")
  case (Pair r w')
  note spec = wpD [OF pga.register_handler_wp [OF assms(1-3), of C mail "txt" req] Pair]
  show ?thesis
  proof (cases r)
    case (Inl e)
    then show ?thesis using spec Pair assms(1,4) by (auto split: if_splits)
  next
    case (Inr resp)
    then obtain a tp salt where a: "pg_accounts_ok w'" "credential_violations mail req = []" "account_added (pg_accounts w) a (pg_accounts w')"
        "fits 255 (ar_Email req) \<longrightarrow> acc_Email a = ar_Email req"
        "bcrypt_Generate (lib_bcrypt L) (ar_Password req) salt = Some (acc_PasswordHash a)"
        "resp = responseToProto (lib_uuid L) (toAccount a) tp" "granted L C (acc_ID a) w tp w'"
        "published w' \<in> {published w @ [registered_event L a]} \<union> (if calm w then {} else {published w})"
      using spec by blast
    have "length (ar_Email req) \<le> 255" using a(2) by (simp add: credential_violations_def split: if_splits)
    then have "acc_Email a = ar_Email req" using a(4) assms(4) by (simp add: fits_def)
    then show ?thesis
      using a granted_good [OF a(7) assms(2)] Inr Pair
      by (auto simp: responseToProto_def toAccount_def)
  qed
qed

text \<open>C24: Who registers can log in: with the answer of a registration in hand, in any later world that still
  has the accounts, a login of the address with the password answers tokens of the same user, and with any
  other password \<open>UNAUTHENTICATED\<close>.\<close>

theorem register_then_login:
  assumes "pg_accounts_ok w" and "jwt_ok (lib_jwt L)" and "bcrypt_ok (lib_bcrypt L)"
    and "no_nul (ar_Email req)" and "hashable (ar_Password req)" and "hashable password"
    and "authHandler_Register (auth_handler L C pgAccountRepository mail txt) req w = (Inr resp, w1)"
    and "pg_accounts_ok w2" and "pg_accounts w1 \<subseteq>\<^sub>m pg_accounts w2"
    and "credential_violations mail (req\<lparr>ar_Password := password\<rparr>) = []"
    and "auth_calm C ActionLogin (ar_Email req) w2" and "\<not> over_limit C ActionLogin (ar_Email req) w2"
  shows "case authHandler_Login (auth_handler L C pgAccountRepository mail txt) (req\<lparr>ar_Password := password\<rparr>) w2 of (r, w3) \<Rightarrow>
    if password = ar_Password req then \<exists>resp'. r = Inr resp' \<and> aresp_UserId resp' = aresp_UserId resp
    else answers CodeUnauthenticated r"
proof -
  let ?req = "req\<lparr>ar_Password := password\<rparr>"
  obtain a tp salt where a: "account_added (pg_accounts w) a (pg_accounts w1)" "credential_violations mail req = []"
      "fits 255 (ar_Email req) \<longrightarrow> acc_Email a = ar_Email req"
      "bcrypt_Generate (lib_bcrypt L) (ar_Password req) salt = Some (acc_PasswordHash a)"
      "resp = responseToProto (lib_uuid L) (toAccount a) tp"
    using wpD [OF pga.register_handler_wp [OF assms(1-3), of C mail "txt" req] assms(7)] by blast
  have "length (ar_Email req) \<le> 255" using a(2) by (simp add: credential_violations_def split: if_splits)
  then have "pg_accounts w1 (ar_Email req) = Some a" using a(1,3) assms(4) by (simp add: fits_def account_added_def)
  then have some: "pg_accounts w2 (ar_Email req) = Some a" using assms(9) by (metis domI map_le_def)
  have cmp: "bcrypt_Compare (lib_bcrypt L) (acc_PasswordHash a) password \<longleftrightarrow> password = ar_Password req"
    using assms(3,5,6) a(4) unfolding bcrypt_ok_def by blast
  obtain r w3 where run: "authHandler_Login (auth_handler L C pgAccountRepository mail txt) ?req w2 = (r, w3)" by fastforce
  note spec = wpD [OF pga.login_handler_wp [OF assms(8,2), of C mail "txt" ?req] run]
  show ?thesis
  proof (cases r)
    case (Inl e)
    then show ?thesis using spec run assms(4,10-12) some cmp by (auto simp: pga.may_enter_def)
  next
    case (Inr resp')
    then show ?thesis using spec run some cmp a(5) by (auto simp: responseToProto_def toAccount_def)
  qed
qed


section \<open>A small world\<close>

definition auth_env :: environment where
  "auth_env = \<lparr>fault_at = \<lambda>_. Works, clock_at = \<lambda>n. int n * 1000, uuid_at = \<lambda>n. of_nat (n + 50), cancelled_at = \<lambda>_. False\<rparr>"

definition sample_libs :: auth_libs where
  "sample_libs = \<lparr>lib_uuid = sample_uuids, lib_bcrypt = sample_bcrypt, lib_jwt = sample_jwt\<rparr>"

definition sample_auth_config :: auth_config where
  "sample_auth_config = \<lparr>cfg_secret = ''s'', cfg_accessTTL = 60 * second, cfg_refreshTTL = 600 * second,
     cfg_limiter = \<lparr>lim_limit = 5, lim_window = 60 * second\<rparr>\<rparr>"

definition no_accounts :: auth_world where
  "no_accounts = \<lparr>env = auth_env, calls = 0, published = [], vk = Map.empty, account_db = []\<rparr>"

definition one_account :: auth_world where
  "one_account = no_accounts\<lparr>account_db := [\<lparr>acc_ID = 7, acc_Email = ''a@b'', acc_PasswordHash = ''password'', acc_CreatedAt = 0, acc_UpdatedAt = 0\<rparr>]\<rparr>"

definition sample_credentials :: RegisterRequest where
  "sample_credentials = \<lparr>ar_Email = ''a@b'', ar_Password = ''password''\<rparr>"

lemma sample_libs_ok [simp]:
  "jwt_ok (lib_jwt sample_libs)" "bcrypt_ok (lib_bcrypt sample_libs)" "lib_uuid sample_libs = sample_uuids"
  by (simp_all add: sample_libs_def sample_jwt_ok sample_bcrypt_ok)

lemma sample_auth_worlds [simp]:
  "pg_accounts_ok no_accounts" "pg_accounts_ok one_account" "pg_accounts no_accounts = Map.empty"
  "pg_accounts one_account = [''a@b'' \<mapsto> \<lparr>acc_ID = 7, acc_Email = ''a@b'', acc_PasswordHash = ''password'', acc_CreatedAt = 0, acc_UpdatedAt = 0\<rparr>]"
  by (auto simp: pg_accounts_ok_def accounts_ok_def no_accounts_def one_account_def pg_accounts_def fun_eq_iff)

lemma sample_auth_calm [simp]:
  "calm no_accounts" "calm one_account"
  unfolding calm_def by (simp_all add: no_accounts_def one_account_def auth_env_def)

lemma auth_calm_fresh:
  assumes "calm w" and "vk w = Map.empty"
  shows "auth_calm sample_auth_config action email w" "\<not> over_limit sample_auth_config action email w"
  using assms by (simp_all add: auth_calm_def limiter_ready_def over_limit_def attempts_def counted_def open_tally_def tally_at_def
      counters_ok_def counter_entry_def sample_auth_config_def Seconds_def second_def)

lemma sample_vk [simp]: "vk no_accounts = Map.empty" "vk one_account = Map.empty"
  by (simp_all add: no_accounts_def one_account_def)

lemma sample_credentials_simps [simp]:
  "ar_Email sample_credentials = ''a@b''" "ar_Password sample_credentials = ''password''"
  "credential_violations (\<lambda>_. True) sample_credentials = []" "no_nul ''a@b''" "hashable ''password''" "byte_length ''password'' \<le> 72"
  by (simp_all add: sample_credentials_def credential_violations_def no_nul_def hashable_def byte_length_def)

theorem login_handler_witness:
  "case authHandler_Login (auth_handler sample_libs sample_auth_config pgAccountRepository (\<lambda>_. True) concat) sample_credentials one_account of (r, w') \<Rightarrow>
    \<exists>resp. r = Inr resp \<and> aresp_UserId resp = uuid_String sample_uuids 7"
proof -
  have "bcrypt_Compare (lib_bcrypt sample_libs) ''password'' ''password''" by (simp add: sample_libs_def sample_bcrypt_def)
  then show ?thesis
    using login_handler [of one_account sample_libs sample_credentials sample_auth_config "\<lambda>_. True" concat]
      auth_calm_fresh [of one_account ActionLogin "''a@b''"]
    by (auto split: prod.splits)
qed

lemma sample_registered:
  "\<exists>resp w1. authHandler_Register (auth_handler sample_libs sample_auth_config pgAccountRepository (\<lambda>_. True) concat) sample_credentials no_accounts = (Inr resp, w1)"
proof -
  obtain r w1 where run: "authHandler_Register (auth_handler sample_libs sample_auth_config pgAccountRepository (\<lambda>_. True) concat)
      sample_credentials no_accounts = (r, w1)" by fastforce
  have "\<exists>resp. r = Inr resp"
    using wpD [OF pga.register_handler_wp [of no_accounts sample_libs] run] auth_calm_fresh [of no_accounts ActionRegister "''a@b''"]
    by (cases r) auto
  with run show ?thesis by blast
qed

theorem register_handler_witness:
  "case authHandler_Register (auth_handler sample_libs sample_auth_config pgAccountRepository (\<lambda>_. True) concat) sample_credentials no_accounts of (r, w') \<Rightarrow>
    \<exists>a. pg_accounts w' = [''a@b'' \<mapsto> a] \<and> published w' = [registered_event sample_libs a]"
proof -
  obtain resp w1 where run: "authHandler_Register (auth_handler sample_libs sample_auth_config pgAccountRepository (\<lambda>_. True) concat)
      sample_credentials no_accounts = (Inr resp, w1)" using sample_registered by blast
  then obtain a where "account_added Map.empty a (pg_accounts w1)" "acc_Email a = ''a@b''"
      "published w1 = published no_accounts @ [registered_event sample_libs a]"
    using register_handler [of no_accounts sample_libs sample_credentials sample_auth_config "\<lambda>_. True" concat] by auto
  then show ?thesis using run by (auto simp: account_added_def no_accounts_def)
qed

theorem register_then_login_witness:
  "\<exists>resp w1. authHandler_Register (auth_handler sample_libs sample_auth_config pgAccountRepository (\<lambda>_. True) concat) sample_credentials no_accounts = (Inr resp, w1) \<and>
    (case authHandler_Login (auth_handler sample_libs sample_auth_config pgAccountRepository (\<lambda>_. True) concat) sample_credentials
        (no_accounts\<lparr>account_db := account_db w1\<rparr>) of (r, w3) \<Rightarrow>
      \<exists>resp'. r = Inr resp' \<and> aresp_UserId resp' = aresp_UserId resp)"
proof -
  obtain resp w1 where run: "authHandler_Register (auth_handler sample_libs sample_auth_config pgAccountRepository (\<lambda>_. True) concat)
      sample_credentials no_accounts = (Inr resp, w1)" using sample_registered by blast
  let ?w2 = "no_accounts\<lparr>account_db := account_db w1\<rparr>"
  have "pg_accounts_ok w1"
    using wpD [OF pga.register_handler_wp [of no_accounts sample_libs] run] by auto
  then have w2: "pg_accounts_ok ?w2" "pg_accounts ?w2 = pg_accounts w1" "calm ?w2" "vk ?w2 = Map.empty"
    unfolding calm_def by (simp_all add: pg_accounts_ok_def pg_accounts_def no_accounts_def auth_env_def)
  have same: "sample_credentials\<lparr>ar_Password := ''password''\<rparr> = sample_credentials" by (simp add: sample_credentials_def)
  then show ?thesis
    using register_then_login [OF _ _ _ _ _ _ run, of "''password''" ?w2] w2 auth_calm_fresh [OF w2(3,4)] run
    by (auto simp: same split: prod.splits)
qed

end
