(* ===== verification/AuthRequests.thy ===== *)
theory AuthRequests
  imports Auth
begin

text \<open>
  Sequences of requests to the auth service: what holds however they are mixed and whatever fails.
  An account never changes or goes away, a refresh token is exchanged at most once, and the number of
  passwords that can be tried on an address in the time of a window is bounded.
\<close>

section \<open>Requests\<close>

datatype auth_request = RegisterCall RegisterRequest | LoginCall RegisterRequest | LogoutCall string | RefreshCall string

text \<open>The answer to a request: an error, or the tokens if there are any.\<close>

type_synonym auth_reply = "error + (string \<times> string) option"

definition serve_auth :: "('z valkey_world_scheme) authHandler \<Rightarrow> auth_request \<Rightarrow> ('z valkey_world_scheme, (string \<times> string) option) op" where
  "serve_auth h req =
     (case req of
        RegisterCall r \<Rightarrow> tryE (authHandler_Register h r) fail (\<lambda>x. ret (Some (aresp_AccessToken x, aresp_RefreshToken x)))
      | LoginCall r \<Rightarrow> tryE (authHandler_Login h r) fail (\<lambda>x. ret (Some (aresp_AccessToken x, aresp_RefreshToken x)))
      | LogoutCall k \<Rightarrow> tryE (authHandler_Logout h k) fail (\<lambda>_. ret None)
      | RefreshCall k \<Rightarrow> tryE (authHandler_RefreshToken h k) fail (\<lambda>x. ret (Some (tp_AccessToken x, tp_RefreshToken x))))"

fun auth_replies :: "('z valkey_world_scheme) authHandler \<Rightarrow> auth_request list \<Rightarrow> 'z valkey_world_scheme \<Rightarrow> (auth_request \<times> auth_reply) list" where
  "auth_replies h [] w = []"
| "auth_replies h (req # reqs) w = (case serve_auth h req w of (x, w') \<Rightarrow> (req, x) # auth_replies h reqs w')"

fun auth_after :: "('z valkey_world_scheme) authHandler \<Rightarrow> auth_request list \<Rightarrow> 'z valkey_world_scheme \<Rightarrow> 'z valkey_world_scheme" where
  "auth_after h [] w = w"
| "auth_after h (req # reqs) w = auth_after h reqs (snd (serve_auth h req w))"

section \<open>Single requests\<close>

text \<open>The tokens that are not generated from now on only disappear.\<close>

definition old_token :: "auth_libs \<Rightarrow> 'z world_scheme \<Rightarrow> string \<Rightarrow> bool" where
  "old_token L w k \<longleftrightarrow> (\<forall>n\<ge>calls w. uuid_String (lib_uuid L) (uuid_at (env w) n) \<noteq> k)"

definition tokens_fade :: "auth_libs \<Rightarrow> 'z valkey_world_scheme \<Rightarrow> 'z valkey_world_scheme \<Rightarrow> bool" where
  "tokens_fade L w w' \<longleftrightarrow> env w' = env w \<and> calls w \<le> calls w' \<and>
     (\<forall>k. old_token L w k \<longrightarrow> vk w' (AuthRefreshKey k) = None \<or> vk w' (AuthRefreshKey k) = vk w (AuthRefreshKey k))"

lemma old_token_later: "old_token L w k \<Longrightarrow> env w' = env w \<Longrightarrow> calls w \<le> calls w' \<Longrightarrow> old_token L w' k"
  by (auto simp: old_token_def)

lemma tokens_fade_refl [simp]: "tokens_fade L w w" "tokens_fade L w (tick w)"
  by (simp_all add: tokens_fade_def)

lemma tokens_fade_trans: "tokens_fade L w w' \<Longrightarrow> tokens_fade L w' w'' \<Longrightarrow> tokens_fade L w w''"
  unfolding tokens_fade_def using old_token_later [of L w _ w'] by (metis order.trans)

lemma quiet_fade: "quiet L w w' \<Longrightarrow> tokens_fade L w w'"
  unfolding quiet_def tokens_fade_def token_changes_def old_token_def by (metis less_imp_le)

lemma rate_only_fade: "rate_only action email w w' \<Longrightarrow> tokens_fade L w w'"
  using rate_only_frame [of action email w w'] by (simp add: tokens_fade_def)

text \<open>A call that begins with the limiter.\<close>

abbreviation allow :: "auth_config \<Rightarrow> string \<Rightarrow> string \<Rightarrow> ('z valkey_world_scheme, unit) op" where
  "allow C \<equiv> valkeyLimiter_Allow (cfg_limiter C)"

definition limiter_error :: "error \<Rightarrow> bool" where
  "limiter_error e \<longleftrightarrow> (e = Sentinel authSvc_ErrRateLimitExceeded \<or> (\<exists>m e'. e = Wrap m e')) \<and>
     (\<forall>s. errors_Is e s \<longrightarrow> s = authSvc_ErrRateLimitExceeded)"

lemma limited_run:
  assumes "\<And>w1. rate_only action email w w1 \<Longrightarrow> wp body (\<lambda>_ w'. quiet L w1 w') (\<lambda>_ w'. quiet L w1 w') w1"
  shows "wp (with_rate_limit (NewAuthService L C repo) action email body)
    (\<lambda>_ w'. \<exists>w1. allow C action email w = (Inr (), w1) \<and> rate_only action email w w1 \<and> quiet L w1 w')
    (\<lambda>e w'. \<exists>x w1. allow C action email w = (x, w1) \<and> rate_only action email w w1 \<and>
       (x = Inr () \<and> quiet L w1 w' \<or>
        w' = w1 \<and> limiter_error e)) w"
proof -
  note spec = wpD [OF allow_wp [of C action email w]]
  show ?thesis
    unfolding with_rate_limit_def service_sel wp_tryE
  proof (rule wpI, goal_cases)
    case (1 x w1)
    then have "rate_only action email w w1" using spec [OF 1] by simp
    from wp_mono [OF assms [OF this]] show ?case using 1 \<open>rate_only action email w w1\<close> by auto
  next
    case (2 e w1)
    with spec [OF 2] show ?case by (auto simp: wp_simps limiter_error_def)
  qed
qed

lemma login_quiet:
  assumes "pg_accounts_ok w" and "jwt_ok (lib_jwt L)"
  shows "wp (login_body (NewAuthService L C pgAccountRepository) email password) (\<lambda>_ w'. quiet L w w') (\<lambda>_ w'. quiet L w w') w"
  by (rule wp_mono [OF pga.login_spec [OF assms]]) auto

lemma register_quiet:
  assumes "pg_accounts_ok w" and "jwt_ok (lib_jwt L)" and "bcrypt_ok (lib_bcrypt L)"
  shows "wp (register_body (NewAuthService L C pgAccountRepository) email password) (\<lambda>_ w'. quiet L w w') (\<lambda>_ w'. quiet L w w') w"
  by (rule wp_mono [OF pga.register_spec [OF assms]]) auto

text \<open>What a request leaves alone: the counters of logins, and everything about old tokens but their end.\<close>

definition login_counts :: "'z valkey_world_scheme \<Rightarrow> string \<Rightarrow> (vk_value \<times> time option) option" where
  "login_counts w = (\<lambda>email. vk w (AuthRateLimitKey ActionLogin email))"

lemma other_action: "rate_only ActionRegister email w w1 \<Longrightarrow> login_counts w1 = login_counts w"
proof -
  have "AuthRateLimitKey ActionLogin e \<noteq> AuthRateLimitKey ActionRegister email" for e
    by (simp add: AuthRateLimitKey_def ActionLogin_def ActionRegister_def)
  then show "rate_only ActionRegister email w w1 \<Longrightarrow> login_counts w1 = login_counts w"
    by (auto simp: rate_only_def login_counts_def)
qed

lemma quiet_counts: "quiet L w w' \<Longrightarrow> login_counts w' = login_counts w"
  by (simp add: quiet_def login_counts_def)

text \<open>A guess: the password was compared.\<close>

definition compared :: "error + 'a \<Rightarrow> bool" where
  "compared x \<longleftrightarrow> (\<exists>y. x = Inr y) \<or> answers CodeUnauthenticated x"

lemma limiter_not_compared:
  assumes "limiter_error e"
  shows "\<not> compared (Inl (if errors_Is e authSvc_ErrInvalidCredentials then Code_Error CodeUnauthenticated a
     else if errors_Is e authSvc_ErrRateLimitExceeded then Code_Error CodeUnavailable b else CodeInternal_Wrap e) :: error + 'a)"
proof -
  have "\<not> errors_Is e authSvc_ErrInvalidCredentials" using assms unfolding limiter_error_def by blast
  moreover have "\<not> answers CodeUnauthenticated (Inl (CodeInternal_Wrap e) :: error + 'a)"
    using assms by (auto simp: limiter_error_def CodeInternal_Wrap_def Code_Wrap_def answers_def code_defs)
  moreover have "CodeUnauthenticated \<noteq> CodeUnavailable" by (simp add: code_defs)
  ultimately show ?thesis by (auto simp: compared_def)
qed

lemma login_serve:
  assumes "pg_accounts_ok w" and "jwt_ok (lib_jwt L)"
  shows "wp (authHandler_Login (auth_handler L C pgAccountRepository mail txt) r)
    (\<lambda>_ w'. \<exists>w1. allow C ActionLogin (ar_Email r) w = (Inr (), w1) \<and> rate_only ActionLogin (ar_Email r) w w1 \<and> quiet L w1 w')
    (\<lambda>e w'. w' = w \<and> \<not> compared (Inl e :: auth_reply) \<or>
       (\<exists>x w1. allow C ActionLogin (ar_Email r) w = (x, w1) \<and> rate_only ActionLogin (ar_Email r) w w1 \<and>
          (w' = w1 \<or> quiet L w1 w') \<and> (compared (Inl e :: auth_reply) \<longrightarrow> x = Inr ()))) w"
proof (cases "credential_violations mail r = []")
  case False
  then show ?thesis by (simp add: authHandler_Login_def wp_validate compared_def code_defs)
next
  case True
  have run: "wp (authService_Login (NewAuthService L C pgAccountRepository) (ar_Email r) (ar_Password r))
    (\<lambda>_ w'. \<exists>w1. allow C ActionLogin (ar_Email r) w = (Inr (), w1) \<and> rate_only ActionLogin (ar_Email r) w w1 \<and> quiet L w1 w')
    (\<lambda>e w'. \<exists>x w1. allow C ActionLogin (ar_Email r) w = (x, w1) \<and> rate_only ActionLogin (ar_Email r) w w1 \<and>
       (x = Inr () \<and> quiet L w1 w' \<or> w' = w1 \<and> limiter_error e)) w"
    unfolding authService_Login_def
    by (rule limited_run, rule login_quiet) (use pga.frame_limit assms in auto)
  show ?thesis
    unfolding authHandler_Login_def auth_handler_sel wp_validate wp_tryE
  proof (simp only: True simp_thms if_True, rule wp_mono [OF run], goal_cases)
    case (1 y w')
    then show ?case by (cases y) (auto simp: wp_ret)
  next
    case (2 e w')
    let ?e = "if errors_Is e authSvc_ErrInvalidCredentials then Code_Error CodeUnauthenticated ''invalid credentials''
      else if errors_Is e authSvc_ErrRateLimitExceeded then Code_Error CodeUnavailable ''too many requests, please try again later''
      else CodeInternal_Wrap e"
    have "limiter_error e \<Longrightarrow> \<not> compared (Inl ?e :: auth_reply)" by (rule limiter_not_compared)
    then have "w' = w \<and> \<not> compared (Inl ?e :: auth_reply) \<or>
       (\<exists>x w1. allow C ActionLogin (ar_Email r) w = (x, w1) \<and> rate_only ActionLogin (ar_Email r) w w1 \<and>
          (w' = w1 \<or> quiet L w1 w') \<and> (compared (Inl ?e :: auth_reply) \<longrightarrow> x = Inr ()))"
      using 2 by blast
    then show ?case by (auto simp: wp_simps)
  qed
qed

lemma register_serve:
  assumes "pg_accounts_ok w" and "jwt_ok (lib_jwt L)" and "bcrypt_ok (lib_bcrypt L)"
  shows "wp (authHandler_Register (auth_handler L C pgAccountRepository mail txt) r)
    (\<lambda>_ w'. tokens_fade L w w' \<and> login_counts w' = login_counts w) (\<lambda>_ w'. tokens_fade L w w' \<and> login_counts w' = login_counts w) w"
proof -
  have "wp (authService_Register (NewAuthService L C pgAccountRepository) (ar_Email r) (ar_Password r))
    (\<lambda>_ w'. \<exists>w1. allow C ActionRegister (ar_Email r) w = (Inr (), w1) \<and> rate_only ActionRegister (ar_Email r) w w1 \<and> quiet L w1 w')
    (\<lambda>e w'. \<exists>x w1. allow C ActionRegister (ar_Email r) w = (x, w1) \<and> rate_only ActionRegister (ar_Email r) w w1 \<and>
       (x = Inr () \<and> quiet L w1 w' \<or> w' = w1 \<and> limiter_error e)) w"
    unfolding authService_Register_def
    by (rule limited_run, rule register_quiet) (use pga.frame_limit assms in auto)
  moreover have "tokens_fade L w w' \<and> login_counts w' = login_counts w"
    if "rate_only ActionRegister (ar_Email r) w w1" "w' = w1 \<or> quiet L w1 w'" for w1 w'
    using that tokens_fade_trans [OF rate_only_fade [OF that(1)] quiet_fade] rate_only_fade [OF that(1)] other_action [OF that(1)] quiet_counts
    by metis
  ultimately have "wp (authService_Register (NewAuthService L C pgAccountRepository) (ar_Email r) (ar_Password r))
    (\<lambda>_ w'. tokens_fade L w w' \<and> login_counts w' = login_counts w) (\<lambda>_ w'. tokens_fade L w w' \<and> login_counts w' = login_counts w) w"
    by (elim wp_mono) blast+
  then show ?thesis
    unfolding authHandler_Register_def auth_handler_sel wp_validate wp_tryE
    by (cases "credential_violations mail r = []") (auto elim!: wp_mono simp: wp_simps)
qed

text \<open>Logging out and exchanging a refresh token.\<close>

lemma put_other_tables:
  "pg_accounts (put_vk db w) = pg_accounts w" "pg_accounts_ok (put_vk db w) = pg_accounts_ok w"
  "pg_accounts (issued L C u w) = pg_accounts w" "pg_accounts_ok (issued L C u w) = pg_accounts_ok w"
  "pg_accounts (tick w) = pg_accounts w" "pg_accounts_ok (tick w) = pg_accounts_ok w"
  by (simp_all add: put_vk_def issued_def pg_accounts_def pg_accounts_ok_def)

text \<open>What such a request does: it may take one token away, then it may issue one.\<close>

definition taken :: "string \<Rightarrow> 'z valkey_world_scheme \<Rightarrow> 'z valkey_world_scheme \<Rightarrow> bool" where
  "taken k w w1 \<longleftrightarrow> (\<exists>db. w1 = put_vk db (tick w) \<and> (\<forall>j. j \<noteq> AuthRefreshKey k \<longrightarrow> db j = vk w j) \<and>
     (db (AuthRefreshKey k) = None \<or> db (AuthRefreshKey k) = vk w (AuthRefreshKey k)))"

lemma taken_tick: "taken k w (tick w)"
  unfolding taken_def using put_vk_same [of w] by (intro exI [of _ "vk w"]) simp

lemma taken_frame:
  fixes w w1 :: "'z auth_world_scheme"
  assumes "taken k w w1"
  shows "tokens_fade L w w1" "login_counts w1 = login_counts w" "pg_accounts w1 = pg_accounts w" "pg_accounts_ok w1 = pg_accounts_ok w"
proof -
  obtain db where db: "w1 = put_vk db (tick w)" "\<And>j. j \<noteq> AuthRefreshKey k \<Longrightarrow> db j = vk w j"
      "db (AuthRefreshKey k) = None \<or> db (AuthRefreshKey k) = vk w (AuthRefreshKey k)"
    using assms by (auto simp: taken_def)
  have "db (AuthRefreshKey j) = None \<or> db (AuthRefreshKey j) = vk w (AuthRefreshKey j)" for j
    using db(2,3) by (cases "j = k") (auto simp: inj_eq [OF inj_keys(1)])
  then show "tokens_fade L w w1" by (simp add: tokens_fade_def db(1))
  show "login_counts w1 = login_counts w"
    using db(2) not_sym [OF keys_apart(1)] by (simp add: login_counts_def db(1))
qed (use assms in \<open>auto simp: taken_def put_other_tables\<close>)

lemma taken_gone: "taken k w (put_vk ((vk w)(AuthRefreshKey k := None)) (tick w))"
  by (auto simp: taken_def)

lemma wp_take:
  assumes "c = DEL (AuthRefreshKey k)" and "\<And>x w1. taken k w w1 \<Longrightarrow> E (External x) w1" and "\<And>w1. taken k w w1 \<Longrightarrow> Q () w1"
  shows "wp (vk_do c) Q E w"
  using assms taken_tick [of k w] taken_gone [of k w] by (intro wp_vk_now) (auto simp: DEL_def)

lemma logout_serve:
  "wp (authHandler_Logout (auth_handler L C repo mail txt) k) (\<lambda>_ w'. taken k w w') (\<lambda>_ w'. w' = w \<or> taken k w w') w"
  unfolding authHandler_Logout_def auth_handler_sel wp_simps authService_Logout_def service_sel valkeyTokenRepository_def
    TokenRepository.select_convs tokenRepo_DeleteRefreshToken_def
  by (auto intro!: wp_take simp: wp_simps)

text \<open>What the store answers is what the token stands for, and then the token is gone.\<close>

lemma revive_wp:
  "wp (tokenRepo_ReviveRefreshToken U k)
    (\<lambda>userID w1. taken k w w1 \<and> token_at AuthRefreshKey (now_in w) w1 k = None \<and> vk w1 (AuthRefreshKey k) = None \<and>
       (\<exists>s. token_at AuthRefreshKey (now_in w) w k = Some s \<and> uuid_Parse U s = Some userID))
    (\<lambda>e w1. taken k w w1 \<and> (\<forall>s. errors_Is e s \<longrightarrow> s = tokenRepo_ErrTokenNotFound) \<and>
       (errors_Is e tokenRepo_ErrTokenNotFound \<longrightarrow> token_at AuthRefreshKey (now_in w) w k = None) \<and>
       (calm w \<and> token_at AuthRefreshKey (now_in w) w k = None \<longrightarrow> errors_Is e tokenRepo_ErrTokenNotFound) \<and>
       (calm w \<longrightarrow> (\<forall>s userID. token_at AuthRefreshKey (now_in w) w k = Some s \<longrightarrow> uuid_Parse U s \<noteq> Some userID))) w"
proof -
  let ?key = "AuthRefreshKey k"
  have script: "GetAndDeleteScript ?key t u db = (case live t db ?key of None \<Rightarrow> Inr (None, db) | Some v \<Rightarrow> Inr (Some v, db(?key := None)))" for t u db
    by (auto simp: vk_cmd_defs split: option.splits)
  note gone = taken_gone [of k w]
  note same = taken_tick [of k w] put_vk_same [of w]
  have after: "token_at AuthRefreshKey t (put_vk ((vk w)(?key := None)) (tick w)) k = None" for t
    by (simp add: token_at_def live_def)
  show ?thesis
    unfolding tokenRepo_ReviveRefreshToken_def wp_tryE
  proof (rule wp_vk_now, goal_cases)
    case (4 r db)
    then show ?case
      using gone same after
      by (cases r)
        (auto simp: script token_at_def ToString_def IsValkeyNil_def parse_token_reply_def wp_simps split: option.splits)
  qed (use gone same in \<open>auto simp: script wp_simps split: option.splits\<close>)
qed

lemma refresh_serve:
  assumes jwt: "jwt_ok (lib_jwt L)"
  shows "wp (authHandler_RefreshToken (auth_handler L C repo mail txt) k)
    (\<lambda>tp w'. \<exists>w1 s userID. k \<noteq> [] \<and> taken k w w1 \<and> vk w1 (AuthRefreshKey k) = None \<and>
       token_at AuthRefreshKey (now_in w) w k = Some s \<and> uuid_Parse (lib_uuid L) s = Some userID \<and>
       pair_for L C userID w1 tp \<and> w' = issued L C userID w1)
    (\<lambda>e w'. k = [] \<and> answers CodeInvalidArgument (Inl e) \<and> w' = w \<or>
       k \<noteq> [] \<and> (\<exists>w1. taken k w w1 \<and> (w' = w1 \<or> w' = tick w1 \<or> (\<exists>userID. w' = issued L C userID w1))) \<and>
       (calm w \<and> 0 < Seconds (cfg_refreshTTL C) \<longrightarrow>
          (token_at AuthRefreshKey (now_in w) w k = None \<longrightarrow> answers CodeUnauthenticated (Inl e)) \<and>
          (\<forall>s userID. token_at AuthRefreshKey (now_in w) w k = Some s \<longrightarrow> uuid_Parse (lib_uuid L) s \<noteq> Some userID))) w"
proof (cases "k = []")
  case True
  then show ?thesis by (simp add: authHandler_RefreshToken_def wp_validate min_len_violations_def)
next
  case False
  then have valid: "min_len_violations [(''refresh_token'', k)] = []" by (simp add: min_len_violations_def)
  show ?thesis
    unfolding authHandler_RefreshToken_def auth_handler_sel wp_validate valid authService_RefreshToken_def service_sel
      valkeyTokenRepository_def TokenRepository.select_convs wp_tryE
  proof (simp only: simp_thms if_True, rule wp_mono [OF revive_wp], goal_cases)
    case (1 userID w1)
    then have calm: "calm w1 = calm w" using calm_same_env [of w1 w] by (auto simp: taken_def)
    show ?case
      by (rule wp_mono [OF generate_wp [OF jwt]]) (use 1 False calm in \<open>auto simp: wp_simps\<close>)
  next
    case (2 e w1)
    then show ?case using False by (auto simp: wp_simps)
  qed
qed

text \<open>C17: Exchanging a refresh token.  Whatever the environment does, new tokens are answered only for a
  token that stands for a user at that moment; they are good for the same user, and the old token stands for
  nobody any more.  When no call fails, a token that stands for a user is exchanged, and any other one
  (expired, used, logged out or never issued) is answered \<open>UNAUTHENTICATED\<close>.\<close>

theorem refresh_rotation:
  assumes "jwt_ok (lib_jwt L)" and "k \<noteq> []"
  shows "case authHandler_RefreshToken (auth_handler L C repo mail txt) k w of (r, w') \<Rightarrow>
    (\<forall>tp. r = Inr tp \<longrightarrow> (\<exists>s userID. token_at AuthRefreshKey (now_in w) w k = Some s \<and> uuid_Parse (lib_uuid L) s = Some userID \<and>
       good_tokens L C userID w w' (tp_AccessToken tp) (tp_RefreshToken tp) \<and>
       (tp_RefreshToken tp \<noteq> k \<longrightarrow> (\<forall>t. token_at AuthRefreshKey t w' k = None)))) \<and>
    (calm w \<and> 0 < Seconds (cfg_refreshTTL C) \<longrightarrow>
       (case token_at AuthRefreshKey (now_in w) w k of
          None \<Rightarrow> answers CodeUnauthenticated r
        | Some s \<Rightarrow> uuid_Parse (lib_uuid L) s \<noteq> None \<longrightarrow> (\<exists>tp. r = Inr tp)))"
proof (cases "authHandler_RefreshToken (auth_handler L C repo mail txt) k w")
  case (Pair r w')
  note spec = wpD [OF refresh_serve [OF assms(1)] Pair]
  show ?thesis
  proof (cases r)
    case (Inl e)
    then show ?thesis using spec Pair assms(2) by (auto split: option.splits)
  next
    case (Inr tp)
    then obtain w1 s userID where w1: "taken k w w1" "vk w1 (AuthRefreshKey k) = None" "token_at AuthRefreshKey (now_in w) w k = Some s"
        "uuid_Parse (lib_uuid L) s = Some userID" "pair_for L C userID w1 tp" "w' = issued L C userID w1"
      using spec by blast
    have "good_tokens L C userID w w' (tp_AccessToken tp) (tp_RefreshToken tp)"
      by (rule issued_good [OF _ _ _ w1(5) _ assms(1)]) (use w1(1,6) in \<open>auto simp: taken_def\<close>)
    moreover have "token_at AuthRefreshKey t w' k = None" if "tp_RefreshToken tp \<noteq> k" for t
      using that w1 by (simp add: token_at_def live_def issued_refresh pair_for_def)
    ultimately show ?thesis using w1(3,4) Inr Pair by (auto split: option.splits)
  qed
qed

section \<open>Sequences of requests\<close>

text \<open>One request: the accounts only grow, old tokens only disappear, a token that was exchanged is gone.\<close>

lemma map_le_added: "account_added m a m' \<Longrightarrow> m \<subseteq>\<^sub>m m'"
  by (auto simp: account_added_def map_le_def)

definition auth_kept :: "auth_libs \<Rightarrow> 'z auth_world_scheme \<Rightarrow> 'z auth_world_scheme \<Rightarrow> bool" where
  "auth_kept L w w' \<longleftrightarrow> pg_accounts_ok w' \<and> pg_accounts w \<subseteq>\<^sub>m pg_accounts w' \<and> tokens_fade L w w'"

lemma auth_kept_refl: "pg_accounts_ok w \<Longrightarrow> auth_kept L w w"
  by (simp add: auth_kept_def)

lemma auth_kept_taken:
  fixes w w1 w' :: "'z auth_world_scheme"
  assumes "pg_accounts_ok w" and "taken k w w1" and "w' = w1 \<or> w' = tick w1 \<or> (\<exists>u. w' = issued L C u w1)"
  shows "auth_kept L w w'"
proof -
  have "tokens_fade L w1 w'" using assms(3) quiet_fade [OF quiet_issued(1)] by auto
  then have "tokens_fade L w w'" by (rule tokens_fade_trans [OF taken_frame(1) [OF assms(2)]])
  then show ?thesis using assms taken_frame [OF assms(2)] by (auto simp: auth_kept_def put_other_tables)
qed

lemma register_kept:
  assumes "pg_accounts_ok w" and "jwt_ok (lib_jwt L)" and "bcrypt_ok (lib_bcrypt L)"
  shows "wp (authHandler_Register (auth_handler L C pgAccountRepository mail txt) r) (\<lambda>_ w'. auth_kept L w w') (\<lambda>_ w'. auth_kept L w w') w"
  using register_serve [OF assms, of C mail "txt" r] pga.register_handler_wp [OF assms, of C mail "txt" r] assms(1)
  by (auto simp: wp_def auth_kept_def split: prod.splits sum.splits if_splits dest: map_le_added)

lemma login_kept:
  assumes "pg_accounts_ok w" and "jwt_ok (lib_jwt L)"
  shows "wp (authHandler_Login (auth_handler L C pgAccountRepository mail txt) r) (\<lambda>_ w'. auth_kept L w w') (\<lambda>_ w'. auth_kept L w w') w"
proof -
  have "tokens_fade L w w'" if "rate_only ActionLogin (ar_Email r) w w1" "w' = w1 \<or> quiet L w1 w'" for w1 w'
    using that rate_only_fade [OF that(1)] tokens_fade_trans [OF rate_only_fade [OF that(1)] quiet_fade] by metis
  then have "wp (authHandler_Login (auth_handler L C pgAccountRepository mail txt) r) (\<lambda>_ w'. tokens_fade L w w') (\<lambda>_ w'. tokens_fade L w w') w"
    by (intro wp_mono [OF login_serve [OF assms]]) auto
  then show ?thesis
    using pga.login_handler_wp [OF assms, of C mail "txt" r]
    by (auto simp: wp_def auth_kept_def split: prod.splits sum.splits)
qed

lemma wp_reply: "wp m (\<lambda>_. P) (\<lambda>_. P) w \<Longrightarrow> wp (tryE m fail (\<lambda>x. ret (f x))) (\<lambda>_. P) (\<lambda>_. P) w"
  unfolding wp_tryE by (elim wp_mono) (simp_all add: wp_simps)

lemma serve_frame:
  fixes w w' :: "'z auth_world_scheme"
  assumes ok: "pg_accounts_ok w" and libs: "jwt_ok (lib_jwt L)" "bcrypt_ok (lib_bcrypt L)"
    and run: "serve_auth (auth_handler L C pgAccountRepository mail txt) req w = (x, w')"
  shows "auth_kept L w w'"
proof -
  have "wp (serve_auth (auth_handler L C pgAccountRepository mail txt) req) (\<lambda>_ w'. auth_kept L w w') (\<lambda>_ w'. auth_kept L w w') w"
  proof (cases req)
    case (LogoutCall k)
    have "wp (authHandler_Logout (auth_handler L C pgAccountRepository mail txt) k) (\<lambda>_ w'. auth_kept L w w') (\<lambda>_ w'. auth_kept L w w') w"
      by (rule wp_mono [OF logout_serve]) (use auth_kept_taken [OF ok] auth_kept_refl [OF ok] in blast)+
    then show ?thesis by (simp add: LogoutCall serve_auth_def wp_reply)
  next
    case (RefreshCall k)
    have "wp (authHandler_RefreshToken (auth_handler L C pgAccountRepository mail txt) k) (\<lambda>_ w'. auth_kept L w w') (\<lambda>_ w'. auth_kept L w w') w"
      by (rule wp_mono [OF refresh_serve [OF libs(1)]]) (use auth_kept_taken [OF ok] auth_kept_refl [OF ok] in blast)+
    then show ?thesis by (simp add: RefreshCall serve_auth_def wp_reply)
  qed (simp_all add: serve_auth_def wp_reply register_kept [OF ok libs] login_kept [OF ok libs(1)])
  from wpD [OF this run] show ?thesis by (cases x) auto
qed

text \<open>Accounts are for ever: after any requests, under any faults, addresses and ids are still unique,
  and every account that existed is there with its id, its address and its hash.\<close>

theorem accounts_kept:
  assumes "pg_accounts_ok w" and "jwt_ok (lib_jwt L)" and "bcrypt_ok (lib_bcrypt L)"
  shows "pg_accounts_ok (auth_after (auth_handler L C pgAccountRepository mail txt) reqs w) \<and>
    pg_accounts w \<subseteq>\<^sub>m pg_accounts (auth_after (auth_handler L C pgAccountRepository mail txt) reqs w)"
  using assms(1)
proof (induction reqs arbitrary: w)
  case (Cons req reqs)
  obtain x w1 where run: "serve_auth (auth_handler L C pgAccountRepository mail txt) req w = (x, w1)" by fastforce
  note step = serve_frame [OF Cons.prems assms(2,3) run, unfolded auth_kept_def]
  have "pg_accounts_ok w1" using step by simp
  from Cons.IH [OF this] show ?case using step run by (auto intro: map_le_trans)
qed simp

lemma refresh_ends:
  assumes "jwt_ok (lib_jwt L)" and "old_token L w k"
    and "serve_auth (auth_handler L C repo mail txt) (RefreshCall k) w = (Inr y, w')"
  shows "vk w' (AuthRefreshKey k) = None \<and> vk w (AuthRefreshKey k) \<noteq> None"
proof -
  have "wp (serve_auth (auth_handler L C repo mail txt) (RefreshCall k))
      (\<lambda>_ w'. vk w' (AuthRefreshKey k) = None \<and> vk w (AuthRefreshKey k) \<noteq> None) (\<lambda>_ _. True) w"
    unfolding serve_auth_def auth_request.case wp_simps
  proof (rule wp_mono [OF refresh_serve [OF assms(1)]], goal_cases)
    case (1 tp w')
    then obtain w1 s userID where w1: "taken k w w1" "vk w1 (AuthRefreshKey k) = None" "token_at AuthRefreshKey (now_in w) w k = Some s"
        "w' = issued L C userID w1" by blast
    have "new_refresh L w1 \<noteq> k"
      using w1(1) assms(2) [unfolded old_token_def, rule_format, of "calls w1"]
      by (auto simp: taken_def new_refresh_def uuid_in_def)
    then show ?case using w1 by (auto simp: issued_refresh token_at_def live_def split: option.splits)
  qed simp
  from wpD [OF this assms(3)] show ?thesis by simp
qed

definition exchanges :: "string \<Rightarrow> (auth_request \<times> auth_reply) list \<Rightarrow> nat" where
  "exchanges k rs = length (filter (\<lambda>(req, x). req = RefreshCall k \<and> (\<exists>y. x = Inr y)) rs)"

lemma exchanges_simps [simp]:
  "exchanges k [] = 0"
  "exchanges k ((req, x) # rs) = (if req = RefreshCall k \<and> (\<exists>y. x = Inr y) then 1 else 0) + exchanges k rs"
  by (auto simp: exchanges_def)

lemma exchanges_bound:
  fixes w :: "'z auth_world_scheme"
  assumes libs: "jwt_ok (lib_jwt L)" "bcrypt_ok (lib_bcrypt L)"
    and "pg_accounts_ok w" and "old_token L w k"
  shows "exchanges k (auth_replies (auth_handler L C pgAccountRepository mail txt) reqs w) \<le> (if vk w (AuthRefreshKey k) = None then 0 else 1)"
  using assms(3,4)
proof (induction reqs arbitrary: w)
  case (Cons req reqs)
  obtain x w1 where run: "serve_auth (auth_handler L C pgAccountRepository mail txt) req w = (x, w1)" by fastforce
  note step = serve_frame [OF Cons.prems(1) libs run, unfolded auth_kept_def]
  have old: "old_token L w1 k" using old_token_later [OF Cons.prems(2), of w1] step unfolding tokens_fade_def by blast
  have fade: "vk w1 (AuthRefreshKey k) = None \<or> vk w1 (AuthRefreshKey k) = vk w (AuthRefreshKey k)"
    using step Cons.prems(2) by (simp add: tokens_fade_def)
  note IH = Cons.IH [OF step [THEN conjunct1] old]
  show ?case
  proof (cases "req = RefreshCall k \<and> (\<exists>y. x = Inr y)")
    case True
    then have "vk w1 (AuthRefreshKey k) = None \<and> vk w (AuthRefreshKey k) \<noteq> None"
      using refresh_ends [OF libs(1) Cons.prems(2)] run by blast
    then show ?thesis using IH run True by simp
  next
    case False
    then show ?thesis using IH run fade by (auto split: if_splits)
  qed
qed simp

text \<open>However requests are mixed and whatever fails, a refresh token that is not generated again is
  exchanged for new tokens at most once, and never once it has disappeared (by an exchange or a logout).\<close>

theorem refresh_once:
  assumes "jwt_ok (lib_jwt L)" and "bcrypt_ok (lib_bcrypt L)" and "pg_accounts_ok w"
    and "\<forall>n\<ge>calls w. uuid_String (lib_uuid L) (uuid_at (env w) n) \<noteq> k"
  shows "exchanges k (auth_replies (auth_handler L C pgAccountRepository mail txt) reqs w) \<le> 1 \<and>
    (vk w (AuthRefreshKey k) = None \<longrightarrow> exchanges k (auth_replies (auth_handler L C pgAccountRepository mail txt) reqs w) = 0)"
  using exchanges_bound [OF assms(1-3), of k C mail "txt" reqs] assms(4) by (auto simp: old_token_def split: if_splits)


section \<open>Guessing passwords\<close>

definition guesses :: "string \<Rightarrow> (auth_request \<times> auth_reply) list \<Rightarrow> int" where
  "guesses email rs = int (length (filter (\<lambda>(req, x). case req of LoginCall r \<Rightarrow> ar_Email r = email \<and> compared x | _ \<Rightarrow> False) rs))"

lemma guesses_simps [simp]:
  "guesses email [] = 0"
  "guesses email ((req, x) # rs) =
    (if case req of LoginCall r \<Rightarrow> ar_Email r = email \<and> compared x | _ \<Rightarrow> False then 1 else 0) + guesses email rs"
  by (auto simp: guesses_def)

text \<open>The limiter in terms of the counter.\<close>

lemma allow_hit:
  fixes w :: "'z valkey_world_scheme"
  assumes "allow C action email w = (x, w1)"
  shows "snd (hit_script (AuthRateLimitKey action) (Seconds (lim_window (cfg_limiter C))) email (now_in w) w) = w1 \<and>
    (x = Inr () \<longrightarrow> (\<exists>m. fst (hit_script (AuthRateLimitKey action) (Seconds (lim_window (cfg_limiter C))) email (now_in w) w) = Some m \<and>
       m \<le> lim_limit (cfg_limiter C)))"
  using assms unfolding vk_do_hit
  by (auto simp: valkeyLimiter_Allow_def tryE_def ret_def fail_def split: prod.splits sum.splits if_splits)

lemma same_counts:
  assumes "login_counts w' = login_counts w"
  shows "tally_at (AuthRateLimitKey ActionLogin) w' k = tally_at (AuthRateLimitKey ActionLogin) w k"
    "counters_ok (AuthRateLimitKey ActionLogin) w' = counters_ok (AuthRateLimitKey ActionLogin) w"
  using fun_cong [OF assms] by (simp_all add: tally_at_def counters_ok_def login_counts_def)

lemma taken_counts:
  fixes w w1 w' :: "'z auth_world_scheme"
  assumes "taken k w w1" and "w' = w1 \<or> w' = tick w1 \<or> (\<exists>u. w' = issued L C u w1)"
  shows "login_counts w' = login_counts w"
  using assms(2) taken_frame(2) [OF assms(1)] quiet_counts [OF quiet_issued(1)] quiet_counts [OF quiet_issued(2)] by metis

lemma compared_simps [simp]:
  "compared (Inr y)" "compared (Inl e) \<longleftrightarrow> (\<exists>m cause. e = StatusError CodeUnauthenticated m cause)"
  by (auto simp: compared_def answers_def)

text \<open>A request that is not a login leaves the counters of logins.\<close>

lemma other_serve:
  fixes w w' :: "'z auth_world_scheme"
  assumes ok: "pg_accounts_ok w" and libs: "jwt_ok (lib_jwt L)" "bcrypt_ok (lib_bcrypt L)"
    and run: "serve_auth (auth_handler L C pgAccountRepository mail txt) req w = (x, w')" and other: "\<And>r. req \<noteq> LoginCall r"
  shows "login_counts w' = login_counts w"
proof -
  have "wp (serve_auth (auth_handler L C pgAccountRepository mail txt) req)
      (\<lambda>_ w'. login_counts w' = login_counts w) (\<lambda>_ w'. login_counts w' = login_counts w) w"
  proof (cases req)
    case (RegisterCall r)
    have "wp (authHandler_Register (auth_handler L C pgAccountRepository mail txt) r)
        (\<lambda>_ w'. login_counts w' = login_counts w) (\<lambda>_ w'. login_counts w' = login_counts w) w"
      by (rule wp_mono [OF register_serve [OF ok libs]]) auto
    then show ?thesis by (simp add: RegisterCall serve_auth_def wp_reply)
  next
    case (LogoutCall k)
    have "wp (authHandler_Logout (auth_handler L C pgAccountRepository mail txt) k)
        (\<lambda>_ w'. login_counts w' = login_counts w) (\<lambda>_ w'. login_counts w' = login_counts w) w"
      by (rule wp_mono [OF logout_serve]) (auto dest: taken_counts)
    then show ?thesis by (simp add: LogoutCall serve_auth_def wp_reply)
  next
    case (RefreshCall k)
    have "wp (authHandler_RefreshToken (auth_handler L C pgAccountRepository mail txt) k)
        (\<lambda>_ w'. login_counts w' = login_counts w) (\<lambda>_ w'. login_counts w' = login_counts w) w"
      by (rule wp_mono [OF refresh_serve [OF libs(1)]]) (use taken_counts in blast)+
    then show ?thesis by (simp add: RefreshCall serve_auth_def wp_reply)
  qed (use other in auto)
  from wpD [OF this run] show ?thesis by (cases x) auto
qed

text \<open>A login counts once, unless it is not valid.\<close>

lemma login_counted:
  fixes w w' :: "'z auth_world_scheme"
  assumes "pg_accounts_ok w" and "jwt_ok (lib_jwt L)"
    and run: "serve_auth (auth_handler L C pgAccountRepository mail txt) (LoginCall r) w = (x, w')"
  obtains (skip) "w' = w" "\<not> compared x"
    | (count) y w1 where "allow C ActionLogin (ar_Email r) w = (y, w1)" "login_counts w' = login_counts w1"
        "compared x \<longrightarrow> y = Inr ()" "calls w < calls w'" "env w1 = env w"
proof -
  obtain z w2 where login: "authHandler_Login (auth_handler L C pgAccountRepository mail txt) r w = (z, w2)" by fastforce
  then have w2: "w2 = w'" "compared x = compared z"
    using run by (auto simp: serve_auth_def tryE_def ret_def fail_def split: sum.splits)
  note spec = wpD [OF login_serve [OF assms(1,2), of C mail "txt" r] login]
  have counted: "login_counts w' = login_counts w1 \<and> calls w < calls w' \<and> env w1 = env w"
    if "rate_only ActionLogin (ar_Email r) w w1" "w' = w1 \<or> quiet L w1 w'" for w1
    using that(2) rate_only_frame(1,2) [OF that(1)] by (auto simp: quiet_def login_counts_def)
  show thesis
  proof (cases z)
    case (Inl e)
    with spec w2 consider "w' = w" "\<not> compared x"
      | y w1 where "allow C ActionLogin (ar_Email r) w = (y, w1)" "rate_only ActionLogin (ar_Email r) w w1"
          "w' = w1 \<or> quiet L w1 w'" "compared x \<longrightarrow> y = Inr ()" by auto
    then show thesis using counted skip count by cases blast+
  next
    case (Inr resp)
    with spec w2 show thesis using counted count by auto
  qed
qed

text \<open>A sequence of requests serves the limiter a sequence of hits, which answers the guesses.\<close>

abbreviation served_logins :: "auth_config \<Rightarrow> string \<Rightarrow> 'z valkey_world_scheme \<Rightarrow> (string \<times> time) list \<Rightarrow> int option list \<Rightarrow> bool" where
  "served_logins C \<equiv> window_counter.served (hit_script (AuthRateLimitKey ActionLogin) (Seconds (lim_window (cfg_limiter C))))
     (tally_at (AuthRateLimitKey ActionLogin)) (counters_ok (AuthRateLimitKey ActionLogin))"

lemma login_window:
  assumes "0 < Seconds (lim_window (cfg_limiter C))"
  shows "window_counter (hit_script (AuthRateLimitKey ActionLogin) (Seconds (lim_window (cfg_limiter C))) ::
      string \<Rightarrow> time \<Rightarrow> 'z valkey_world_scheme \<Rightarrow> int option \<times> 'z valkey_world_scheme)
    (tally_at (AuthRateLimitKey ActionLogin)) (Seconds (lim_window (cfg_limiter C)) * second) (counters_ok (AuthRateLimitKey ActionLogin))"
  by (rule window_counter_script [OF inj_rate_keys(1) assms])

lemma calls_after:
  fixes w :: "'z auth_world_scheme"
  assumes "jwt_ok (lib_jwt L)" and "bcrypt_ok (lib_bcrypt L)" and "pg_accounts_ok w"
  shows "calls w \<le> calls (auth_after (auth_handler L C pgAccountRepository mail txt) reqs w)"
  using assms(3)
proof (induction reqs arbitrary: w)
  case (Cons req reqs)
  obtain x w1 where run: "serve_auth (auth_handler L C pgAccountRepository mail txt) req w = (x, w1)" by fastforce
  note step = serve_frame [OF Cons.prems assms(1,2) run, unfolded auth_kept_def tokens_fade_def]
  then have "calls w1 \<le> calls (auth_after (auth_handler L C pgAccountRepository mail txt) reqs w1)" by (intro Cons.IH) simp
  with step run show ?case by simp
qed simp

lemma logins_served:
  fixes w :: "'z auth_world_scheme"
  assumes libs: "jwt_ok (lib_jwt L)" "bcrypt_ok (lib_bcrypt L)"
    and secs: "0 < Seconds (lim_window (cfg_limiter C))" and clock: "mono (clock_at E)"
    and "pg_accounts_ok w" and "counters_ok (AuthRateLimitKey ActionLogin) w" and "env w = E"
    and "\<forall>i \<ge> calls w. i < calls (auth_after (auth_handler L C pgAccountRepository mail txt) reqs w) \<longrightarrow> clock_at E i < b"
  shows "\<exists>hits rs. served_logins C email w hits rs \<and> sorted (map snd hits) \<and> (\<forall>h \<in> set hits. now_in w \<le> snd h \<and> snd h < b) \<and>
    guesses email (auth_replies (auth_handler L C pgAccountRepository mail txt) reqs w) \<le> window_counter.let_through (lim_limit (cfg_limiter C)) rs"
  using assms(5-8)
proof (induction reqs arbitrary: w)
  case Nil
  show ?case
    by (intro exI [of _ "[]"]) (auto intro: window_counter.served_none [OF login_window [OF secs]] simp: window_counter.let_through_simps [OF login_window [OF secs]])
next
  case (Cons req reqs)
  let ?H = "auth_handler L C pgAccountRepository mail txt" and ?limit = "lim_limit (cfg_limiter C)"
  note window = login_window [OF secs]
  obtain x w' where run: "serve_auth ?H req w = (x, w')" by fastforce
  have step: "pg_accounts_ok w'" "env w' = E" "calls w \<le> calls w'"
    using serve_frame [OF Cons.prems(1) libs run] Cons.prems(3) by (simp_all add: auth_kept_def tokens_fade_def)
  have later: "now_in w \<le> now_in w'" using clock step Cons.prems(3) by (simp add: now_in_def monoD)
  have IH: "\<exists>hits rs. served_logins C email w' hits rs \<and> sorted (map snd hits) \<and> (\<forall>h \<in> set hits. now_in w \<le> snd h \<and> snd h < b) \<and>
      guesses email (auth_replies ?H reqs w') \<le> window_counter.let_through ?limit rs"
    if "counters_ok (AuthRateLimitKey ActionLogin) w'"
    using Cons.IH [OF step(1) that step(2)] Cons.prems(4) run step(3) later by force
  have quiet: ?case if same: "login_counts w' = login_counts w" and no: "\<And>r. req = LoginCall r \<Longrightarrow> \<not> compared x"
  proof -
    have inv: "counters_ok (AuthRateLimitKey ActionLogin) w'" using same_counts(2) [OF same] Cons.prems(2) by simp
    from IH [OF this] obtain hits rs where "served_logins C email w' hits rs" and rest: "sorted (map snd hits)"
        "\<forall>h \<in> set hits. now_in w \<le> snd h \<and> snd h < b" "guesses email (auth_replies ?H reqs w') \<le> window_counter.let_through ?limit rs"
      by blast
    then have "served_logins C email w hits rs"
      by (intro window_counter.served_skip [OF window _ inv same_counts(1) [OF same]])
    then show ?thesis using rest run no by (intro exI [of _ hits] exI [of _ rs]) (auto split: auth_request.splits)
  qed
  show ?case
  proof (cases "\<exists>r. req = LoginCall r")
    case False
    then show ?thesis using other_serve [OF Cons.prems(1) libs run] by (intro quiet) auto
  next
    case True
    then obtain r where r: "req = LoginCall r" ..
    from Cons.prems(1) libs(1) run [unfolded r] show ?thesis
    proof (cases rule: login_counted)
      case skip
      then show ?thesis by (intro quiet) auto
    next
      case (count y w1)
      let ?hit = "hit_script (AuthRateLimitKey ActionLogin) (Seconds (lim_window (cfg_limiter C))) (ar_Email r) (now_in w) w"
      note hit = allow_hit [OF count(1)]
      have "counters_ok (AuthRateLimitKey ActionLogin) w1"
        using window_counter.keeps [OF window Cons.prems(2), of "ar_Email r" "now_in w"] hit by simp
      then have inv: "counters_ok (AuthRateLimitKey ActionLogin) w'" using same_counts(2) [OF count(2)] by simp
      from IH [OF this] obtain hits rs where "served_logins C email w' hits rs" and rest: "sorted (map snd hits)"
          "\<forall>h \<in> set hits. now_in w \<le> snd h \<and> snd h < b" "guesses email (auth_replies ?H reqs w') \<le> window_counter.let_through ?limit rs"
        by blast
      then have "served_logins C email w1 hits rs"
        by (intro window_counter.served_skip [OF window _ inv same_counts(1) [OF count(2)]])
      then have "served_logins C email w ((ar_Email r, now_in w) # hits) ((if ar_Email r = email then [fst ?hit] else []) @ rs)"
        using hit by (intro window_counter.served_hit [OF window]) simp
      moreover have "now_in w < b"
        using Cons.prems(3,4) count(4) calls_after [OF libs step(1), of C mail "txt" reqs] run by (simp add: now_in_def)
      moreover have "guesses email (auth_replies ?H (req # reqs) w) \<le>
          window_counter.let_through ?limit ((if ar_Email r = email then [fst ?hit] else []) @ rs)"
        using rest(3) run r hit count(3) by (auto simp: window_counter.let_through_simps [OF window])
      ultimately show ?thesis using rest(1,2)
        by (intro exI [of _ "(ar_Email r, now_in w) # hits"] exI) auto
    qed
  qed
qed

text \<open>C13: Guessing passwords.  Whatever fails and however requests are mixed, in a time shorter than the window
  of the limiter at most twice the limit of login requests for one address get as far as comparing the
  password, that is, are answered tokens or \<open>UNAUTHENTICATED\<close>.\<close>

theorem password_guesses:
  assumes "jwt_ok (lib_jwt L)" and "bcrypt_ok (lib_bcrypt L)" and "pg_accounts_ok w"
    and "counters_ok (AuthRateLimitKey ActionLogin) w"
    and "0 < Seconds (lim_window (cfg_limiter C))" and "0 \<le> lim_limit (cfg_limiter C)" and "mono (clock_at (env w))"
    and "\<forall>i \<ge> calls w. i < calls (auth_after (auth_handler L C pgAccountRepository mail txt) reqs w) \<longrightarrow>
      clock_at (env w) i < now_in w + Seconds (lim_window (cfg_limiter C)) * second"
  shows "guesses email (auth_replies (auth_handler L C pgAccountRepository mail txt) reqs w) \<le> 2 * lim_limit (cfg_limiter C)"
proof -
  note window = login_window [OF assms(5)]
  obtain hits rs where hits: "served_logins C email w hits rs" "sorted (map snd hits)"
      "\<forall>h \<in> set hits. now_in w \<le> snd h \<and> snd h < now_in w + Seconds (lim_window (cfg_limiter C)) * second"
      "guesses email (auth_replies (auth_handler L C pgAccountRepository mail txt) reqs w) \<le> window_counter.let_through (lim_limit (cfg_limiter C)) rs"
    using logins_served [OF assms(1,2,5,7,3,4) refl assms(8)] by blast
  have positive: "0 \<le> n" if "tally_at (AuthRateLimitKey ActionLogin) w email = Some (n, e)" for n e
  proof -
    have "counter_entry (vk w (AuthRateLimitKey ActionLogin email))" using assms(4) by (simp add: counters_ok_def)
    then show ?thesis by (cases rule: counter_entry_cases) (use that in \<open>simp_all add: tally_at_def\<close>)
  qed
  have "window_counter.let_through (lim_limit (cfg_limiter C)) rs \<le> 2 * lim_limit (cfg_limiter C)"
    by (rule window_counter.twice_limit [OF window hits(1) assms(4,6) hits(2,3)]) (rule positive)
  with hits(4) show ?thesis by linarith
qed

section \<open>A small world\<close>

definition token_world :: auth_world where
  "token_world = one_account\<lparr>env := auth_env\<lparr>clock_at := \<lambda>_. 0\<rparr>,
     vk := [AuthRefreshKey ''tok'' \<mapsto> (VStr (uuid_String sample_uuids 7), Some 1)]\<rparr>"

definition sample_auth_handler :: "auth_world authHandler" where
  "sample_auth_handler = auth_handler sample_libs sample_auth_config pgAccountRepository (\<lambda>_. True) concat"

lemma token_world_simps [simp]:
  "pg_accounts_ok token_world" "token_at AuthRefreshKey 0 token_world ''tok'' = Some (uuid_String sample_uuids 7)"
  "mono (clock_at (env token_world))" "now_in token_world = 0" "calls token_world = 0"
  by (simp_all add: token_world_def one_account_def no_accounts_def pg_accounts_ok_def accounts_ok_def token_at_def live_def now_in_def
      auth_env_def mono_def vk_text_def)

lemma calm_token_world [simp]: "calm token_world"
  unfolding calm_def by (simp add: token_world_def auth_env_def)

lemma sample_config_ttl [simp]: "0 < Seconds (cfg_refreshTTL sample_auth_config)" "0 < Seconds (lim_window (cfg_limiter sample_auth_config))"
  "lim_limit (cfg_limiter sample_auth_config) = 5" "Seconds (lim_window (cfg_limiter sample_auth_config)) = 60"
  by (simp_all add: sample_auth_config_def Seconds_def second_def)

theorem refresh_rotation_witness:
  "case authHandler_RefreshToken sample_auth_handler ''tok'' token_world of (r, w') \<Rightarrow> \<exists>tp. r = Inr tp"
  using refresh_rotation [of sample_libs "''tok''" token_world sample_auth_config pgAccountRepository "\<lambda>_. True" concat]
    sample_uuids_ok
  by (auto simp: sample_auth_handler_def uuid_lib_ok_def split: prod.splits)

theorem accounts_kept_witness:
  "pg_accounts (auth_after sample_auth_handler [RegisterCall sample_credentials, LogoutCall ''tok''] token_world) ''a@b'' \<noteq> None"
proof -
  have "pg_accounts token_world ''a@b'' \<noteq> None" by (simp add: token_world_def one_account_def pg_accounts_def)
  then show ?thesis
    using accounts_kept [of token_world sample_libs sample_auth_config "\<lambda>_. True" concat "[RegisterCall sample_credentials, LogoutCall ''tok'']"]
    unfolding sample_auth_handler_def by (auto simp: map_le_def dom_def)
qed

theorem refresh_once_witness:
  "exchanges ''tok'' (auth_replies sample_auth_handler [RefreshCall ''tok'', RefreshCall ''tok''] token_world) \<le> 1"
  using refresh_once [of sample_libs token_world "''tok''" sample_auth_config "\<lambda>_. True" concat "[RefreshCall ''tok'', RefreshCall ''tok'']"]
  by (simp add: sample_auth_handler_def sample_uuids_def)

theorem password_guesses_witness:
  "guesses ''a@b'' (auth_replies sample_auth_handler (replicate 20 (LoginCall sample_credentials)) token_world) \<le> 10"
proof -
  have "clock_at (env token_world) i = 0" for i by (simp add: token_world_def auth_env_def)
  moreover have "counters_ok (AuthRateLimitKey ActionLogin) token_world"
    using not_sym [OF keys_apart(1)] by (simp add: counters_ok_def token_world_def counter_entry_def)
  ultimately show ?thesis
    using password_guesses [of sample_libs token_world sample_auth_config "\<lambda>_. True" concat "replicate 20 (LoginCall sample_credentials)" "''a@b''"]
    by (simp add: sample_auth_handler_def second_def)
qed

section \<open>A registration that fails half-way\<close>

text \<open>Single calls in a world where that call works, or the next one does not.\<close>

lemma allow_works:
  fixes w :: "'z valkey_world_scheme"
  assumes "fault_at (env w) (calls w) = Works" and "limiter_ready C action email w" and "\<not> over_limit C action email w"
  obtains w1 where "allow C action email w = (Inr (), w1)" "rate_only action email w w1"
proof -
  obtain db where db: "IncrWithExpiryScript (AuthRateLimitKey action email) (Seconds (lim_window (cfg_limiter C))) (now_in w) (uuid_in w) (vk w) =
      Inr (attempts C action email w, db)"
    using script_ready [OF assms(2), of "uuid_in w"] by blast
  then have run: "allow C action email w = (Inr (), put_vk db (tick w))"
    using assms(1,3)
    by (simp add: valkeyLimiter_Allow_def vk_do_def pool_call_def ext_call_def run_stmt_def tryE_def ret_def over_limit_def)
  from that [OF run] wpD [OF allow_wp [of C action email w] run] show thesis by simp
qed

lemma find_works:
  fixes w :: "'z auth_world_scheme"
  assumes "fault_at (env w) (calls w) = Works" and "no_nul email"
  shows "pgAccount_GetAccountByEmail email w =
    (case pg_accounts w email of None \<Rightarrow> (Inl (Sentinel accountRepo_ErrAccountNotFound), tick w)
     | Some a \<Rightarrow> (Inr a, put_accounts (account_db w) (tick w)))"
  using assms
  by (auto simp: pgAccount_GetAccountByEmail_def account_pool_def pool_call_def ext_call_def run_stmt_def tryE_def ret_def
      fail_def one_row_def sql_account_by_email_def pg_accounts_def split: option.splits)

lemma create_works:
  fixes w :: "'z auth_world_scheme"
  assumes "fault_at (env w) (calls w) = Works" and "pg_accounts_ok w" and "account_fits email hash"
    and "pg_accounts w email = None" and "uuid_in w \<notin> acc_ID ` ran (pg_accounts w)"
  obtains a where "pgAccount_CreateAccount email hash w = (Inr a, put_accounts (account_db w @ [a]) (tick w))"
    "acc_Email a = email" "pg_accounts (put_accounts (account_db w @ [a]) (tick w)) = (pg_accounts w)(email \<mapsto> a)"
proof -
  have db: "accounts_ok (account_db w)" using assms(2) by (simp add: pg_accounts_ok_def)
  have new: "uuid_in w \<notin> acc_ID ` set (account_db w)" "email \<notin> acc_Email ` set (account_db w)"
    using assms(4,5) unfolding ran_pg_accounts [OF db] by (simp_all add: pg_accounts_def find_key_None_iff)
  let ?a = "\<lparr>acc_ID = uuid_in w, acc_Email = email, acc_PasswordHash = hash, acc_CreatedAt = now_in w, acc_UpdatedAt = now_in w\<rparr>"
  have "sql_insert_account email hash (now_in w) (uuid_in w) (account_db w) = Inr (?a, account_db w @ [?a])"
    using assms(3) new by (simp add: sql_insert_account_def account_fits_def varchar_short Let_def)
  then have "pgAccount_CreateAccount email hash w = (Inr ?a, put_accounts (account_db w @ [?a]) (tick w))"
    using assms(1)
    by (simp add: pgAccount_CreateAccount_def account_pool_def pool_call_def ext_call_def run_stmt_def tryE_def ret_def)
  moreover have "pg_accounts (put_accounts (account_db w @ [?a]) (tick w)) = (pg_accounts w)(email \<mapsto> ?a)"
    using accounts_snoc [of ?a w "tick w"] new(2) by simp
  ultimately show thesis by (intro that [of ?a]) simp_all
qed

lemma tokens_fail:
  fixes w :: "'z auth_world_scheme"
  assumes "fault_at (env w) (calls w) \<noteq> Works"
  obtains e w' where "generateTokenPair (NewAuthService L C repo) u w = (Inl e, w')" "\<forall>s. \<not> errors_Is e s" "errors_As_StatusError e = None"
    "published w' = published w" "account_db w' = account_db w"
proof (cases "jwt_Sign (lib_jwt L) (access_claims (lib_uuid L) u (now_in w) (cfg_accessTTL C)) (cfg_secret C)")
  case None
  then have "generateTokenPair (NewAuthService L C repo) u w = (Inl (Wrap ''sign access token'' (Errorf [])), w)"
    by (simp add: generateTokenPair_def NewAuthService_def)
  then show thesis by (intro that) auto
next
  case (Some tok)
  obtain x w' where save: "vk_do (SET_EX (AuthRefreshKey (uuid_String (lib_uuid L) (uuid_in w))) (uuid_String (lib_uuid L) u)
      (Seconds (cfg_refreshTTL C))) w = (Inl (External x), w')" "published w' = published w" "account_db w' = account_db w"
    using assms
    by (cases "fault_at (env w) (calls w)")
      (auto simp: vk_do_def pool_call_def ext_call_def run_stmt_def tick_def put_vk_def split: sum.splits prod.splits)
  then have "generateTokenPair (NewAuthService L C repo) u w =
      (Inl (Wrap ''save refresh token'' (Wrap ''save refresh token to valkey'' (External x))), w')"
    using Some by (simp add: generateTokenPair_def NewAuthService_def Let_def tokenRepo_SaveRefreshToken_def valkeyTokenRepository_def tryE_def fail_def)
  then show thesis by (rule that) (simp_all add: save(2,3))
qed

text \<open>The registration that stores the account and not the token.\<close>

lemma register_half_way:
  fixes w :: "'z auth_world_scheme"
  assumes ok: "pg_accounts_ok w" and jwt: "jwt_ok (lib_jwt L)" and hash: "bcrypt_ok (lib_bcrypt L)"
    and valid: "no_nul (ar_Email req)" "credential_violations mail req = []" "byte_length (ar_Password req) \<le> 72"
    and free: "pg_accounts w (ar_Email req) = None" "\<forall>n. uuid_at (env w) n \<notin> acc_ID ` ran (pg_accounts w)"
    and limit: "limiter_ready C ActionRegister (ar_Email req) w" "\<not> over_limit C ActionRegister (ar_Email req) w"
    and works: "\<forall>n < 3. fault_at (env w) (calls w + n) = Works" and fails: "fault_at (env w) (calls w + 3) \<noteq> Works"
  shows "\<exists>e w' a. authHandler_Register (auth_handler L C pgAccountRepository mail txt) req w = (Inl e, w') \<and>
    answers CodeInternal (Inl e :: error + unit) \<and> published w' = published w \<and>
    pg_accounts w' = (pg_accounts w)(ar_Email req \<mapsto> a) \<and> acc_Email a = ar_Email req \<and> pg_accounts_ok w'"
proof -
  obtain w1 where w1: "allow C ActionRegister (ar_Email req) w = (Inr (), w1)" "rate_only ActionRegister (ar_Email req) w w1"
    using allow_works [OF _ limit] works [rule_format, of 0] by auto
  have same: "env w1 = env w" "calls w1 = Suc (calls w)" "published w1 = published w" "account_db w1 = account_db w"
    using w1(2) by (auto simp: rate_only_def put_vk_def tick_def)
  obtain h where h: "bcrypt_Generate (lib_bcrypt L) (ar_Password req) (uuid_in (tick w1)) = Some h" "fits 255 h"
    using hash valid(3) unfolding bcrypt_ok_def by (metis linorder_not_less not_None_eq)
  have find: "pgAccount_GetAccountByEmail (ar_Email req) w1 = (Inl (Sentinel accountRepo_ErrAccountNotFound), tick w1)"
    using find_works [OF _ valid(1), of w1] works [rule_format, of 1] free(1) same by (simp add: pg_accounts_def)
  have "length (ar_Email req) \<le> 255" using valid(2) by (simp add: credential_violations_def split: if_splits)
  then have fit: "account_fits (ar_Email req) h" using h(2) valid(1) by (simp add: account_fits_def fits_def)
  have two: "fault_at (env (tick w1)) (calls (tick w1)) = Works" "pg_accounts (tick w1) = pg_accounts w" "pg_accounts_ok (tick w1)"
    "uuid_in (tick w1) \<notin> acc_ID ` ran (pg_accounts w)"
    using works [rule_format, of 2] same free(2) ok by (simp_all add: pg_accounts_def pg_accounts_ok_def uuid_in_def eval_nat_numeral)
  obtain a where a: "pgAccount_CreateAccount (ar_Email req) h (tick w1) = (Inr a, put_accounts (account_db (tick w1) @ [a]) (tick (tick w1)))"
      "acc_Email a = ar_Email req" "pg_accounts (put_accounts (account_db (tick w1) @ [a]) (tick (tick w1))) = (pg_accounts w)(ar_Email req \<mapsto> a)"
    using create_works [OF two(1,3) fit] two free(1) by metis
  let ?w3 = "put_accounts (account_db (tick w1) @ [a]) (tick (tick w1))"
  have "fault_at (env ?w3) (calls ?w3) \<noteq> Works" using fails same by (simp add: eval_nat_numeral)
  then obtain e w' where e: "generateTokenPair (NewAuthService L C pgAccountRepository) (acc_ID a) ?w3 = (Inl e, w')" "\<forall>s. \<not> errors_Is e s" "errors_As_StatusError e = None"
      "published w' = published ?w3" "account_db w' = account_db ?w3"
    by (rule tokens_fail)
  have run: "authHandler_Register (auth_handler L C pgAccountRepository mail txt) req w =
      (Inl (CodeInternal_Wrap (Wrap ''generate tokens'' e)), w')"
    using w1(1) find h(1) a(1) e(1,2) valid(2)
    by (simp add: authHandler_Register_def validate_def authService_Register_def with_rate_limit_def register_body_def hash_password_def
        tryE_def fail_def pgAccountRepository_def)
  have "pg_accounts w' = (pg_accounts w)(ar_Email req \<mapsto> a)" using a(3) e(5) by (simp add: pg_accounts_def)
  moreover have "pg_accounts_ok w'"
    using wpD [OF pga.register_handler_wp [OF ok jwt hash] run] by blast
  moreover have "answers CodeInternal (Inl (CodeInternal_Wrap (Wrap ''generate tokens'' e)) :: error + unit)"
    using e(3) by (simp add: CodeInternal_Wrap_def Code_Wrap_def)
  moreover have "published w' = published w" using e(4) same by simp
  ultimately show ?thesis using run a(2) by blast
qed

text \<open>An address that has an account cannot be registered.\<close>

lemma register_taken:
  fixes w :: "'z auth_world_scheme"
  assumes ok: "pg_accounts_ok w" and libs: "jwt_ok (lib_jwt L)" "bcrypt_ok (lib_bcrypt L)"
    and email: "no_nul (ar_Email req)" and a: "pg_accounts w (ar_Email req) = Some a"
    and run: "authHandler_Register (auth_handler L C pgAccountRepository mail txt) req w = (r, w')"
  shows "(\<forall>resp. r \<noteq> Inr resp) \<and> published w' = published w"
    and "credential_violations mail req = [] \<and> limiter_ready C ActionRegister (ar_Email req) w \<and> \<not> over_limit C ActionRegister (ar_Email req) w \<and>
      fault_at (env w) (calls w) = Works \<and> fault_at (env w) (Suc (calls w)) = Works \<Longrightarrow> answers CodeAlreadyExists r"
proof -
  note spec = wpD [OF pga.register_handler_wp [OF ok libs] run]
  show "(\<forall>resp. r \<noteq> Inr resp) \<and> published w' = published w"
  proof (cases r)
    case (Inr resp)
    then obtain b where b: "credential_violations mail req = []" "account_added (pg_accounts w) b (pg_accounts w')"
        "fits 255 (ar_Email req) \<longrightarrow> acc_Email b = ar_Email req"
      using spec by blast
    then have "length (ar_Email req) \<le> 255" by (simp add: credential_violations_def split: if_splits)
    then have "acc_Email b = ar_Email req" using b(3) email by (simp add: fits_def)
    with b(2) a show ?thesis by (simp add: account_added_def)
  qed (use spec in auto)
  assume calm: "credential_violations mail req = [] \<and> limiter_ready C ActionRegister (ar_Email req) w \<and>
    \<not> over_limit C ActionRegister (ar_Email req) w \<and> fault_at (env w) (calls w) = Works \<and> fault_at (env w) (Suc (calls w)) = Works"
  then obtain w1 where w1: "allow C ActionRegister (ar_Email req) w = (Inr (), w1)" "rate_only ActionRegister (ar_Email req) w w1"
    using allow_works [of w C ActionRegister "ar_Email req"] by auto
  have same: "env w1 = env w" "calls w1 = Suc (calls w)" "account_db w1 = account_db w"
    using w1(2) by (auto simp: rate_only_def put_vk_def tick_def)
  have "pgAccount_GetAccountByEmail (ar_Email req) w1 = (Inr a, put_accounts (account_db w1) (tick w1))"
    using find_works [OF _ email, of w1] calm same a by (simp add: pg_accounts_def)
  then show "answers CodeAlreadyExists r"
    using run w1(1) calm
    by (auto simp: authHandler_Register_def validate_def authService_Register_def with_rate_limit_def register_body_def
        tryE_def fail_def pgAccountRepository_def)
qed

text \<open>C40: A registration can fail half-way, and trying again does not repair it.  When the limiter admits a
  valid registration of a new address, the account is stored and then the refresh token cannot be saved (the
  fourth external call fails, or its answer is lost), the client is answered \<open>INTERNAL\<close>, the account is there
  and \<open>auth.user.registered\<close> is not published.  Whatever requests follow and whatever fails then, no later
  registration of that address is answered with tokens or publishes anything, and one that the limiter
  admits and whose first two calls work is answered \<open>ALREADY_EXISTS\<close>.\<close>

theorem register_orphan:
  fixes w :: "'z auth_world_scheme" and L C mail "txt"
  defines "h \<equiv> auth_handler L C pgAccountRepository mail txt"
  assumes "pg_accounts_ok w" and "jwt_ok (lib_jwt L)" and "bcrypt_ok (lib_bcrypt L)"
    and "no_nul (ar_Email req)" and "credential_violations mail req = []" and "byte_length (ar_Password req) \<le> 72"
    and "pg_accounts w (ar_Email req) = None" and "\<forall>n. uuid_at (env w) n \<notin> acc_ID ` ran (pg_accounts w)"
    and "limiter_ready C ActionRegister (ar_Email req) w" and "\<not> over_limit C ActionRegister (ar_Email req) w"
    and "\<forall>n < 3. fault_at (env w) (calls w + n) = Works" and "fault_at (env w) (calls w + 3) \<noteq> Works"
  shows "case authHandler_Register h req w of (r, w1) \<Rightarrow>
    answers CodeInternal r \<and> published w1 = published w \<and>
    (\<exists>a. pg_accounts w1 = (pg_accounts w)(ar_Email req \<mapsto> a) \<and> acc_Email a = ar_Email req \<and>
      (\<forall>reqs again. ar_Email again = ar_Email req \<longrightarrow>
        (let w2 = auth_after h reqs w1 in
         case authHandler_Register h again w2 of (r', w3) \<Rightarrow>
           pg_accounts w3 (ar_Email req) = Some a \<and> published w3 = published w2 \<and> (\<forall>resp. r' \<noteq> Inr resp) \<and>
           (credential_violations mail again = [] \<and> limiter_ready C ActionRegister (ar_Email req) w2 \<and>
              \<not> over_limit C ActionRegister (ar_Email req) w2 \<and>
              fault_at (env w2) (calls w2) = Works \<and> fault_at (env w2) (Suc (calls w2)) = Works \<longrightarrow>
            answers CodeAlreadyExists r'))))"
proof -
  obtain e w1 a where run: "authHandler_Register h req w = (Inl e, w1)" "answers CodeInternal (Inl e :: error + unit)"
      "published w1 = published w" "pg_accounts w1 = (pg_accounts w)(ar_Email req \<mapsto> a)" "acc_Email a = ar_Email req" "pg_accounts_ok w1"
    using register_half_way [OF assms(2-13)] unfolding h_def by blast
  have later: "pg_accounts_ok (auth_after h reqs w1) \<and> pg_accounts (auth_after h reqs w1) (ar_Email req) = Some a" for reqs
    using accounts_kept [OF run(6) assms(3,4), of C mail "txt" reqs] run(4) unfolding h_def by (auto simp: map_le_def dom_def)
  have again: "pg_accounts w3 (ar_Email req) = Some a \<and> published w3 = published w2 \<and> (\<forall>resp. r' \<noteq> Inr resp) \<and>
      (credential_violations mail again = [] \<and> limiter_ready C ActionRegister (ar_Email req) w2 \<and>
         \<not> over_limit C ActionRegister (ar_Email req) w2 \<and>
         fault_at (env w2) (calls w2) = Works \<and> fault_at (env w2) (Suc (calls w2)) = Works \<longrightarrow> answers CodeAlreadyExists r')"
    if "ar_Email again = ar_Email req" "w2 = auth_after h reqs w1" "authHandler_Register h again w2 = (r', w3)" for again w2 reqs r' w3
  proof -
    have w2: "pg_accounts_ok w2" "pg_accounts w2 (ar_Email again) = Some a" using later that(1,2) by simp_all
    note taken = register_taken [OF w2(1) assms(3,4) _ w2(2) that(3) [unfolded h_def]]
    have "auth_kept L w2 w3"
      using wpD [OF register_kept [OF w2(1) assms(3,4)] that(3) [unfolded h_def]] by (cases r') auto
    then have "pg_accounts w3 (ar_Email req) = Some a"
      using w2(2) that(1) by (auto simp: auth_kept_def map_le_def dom_def)
    then show ?thesis using taken that(1) assms(5) by simp
  qed
  show ?thesis
    unfolding run(1) prod.case
  proof (intro conjI exI [of _ a] allI impI, goal_cases)
    case (5 reqs req')
    obtain r' w3 where r: "authHandler_Register h req' (auth_after h reqs w1) = (r', w3)" by fastforce
    show ?case unfolding Let_def r prod.case by (rule again [OF 5 refl r])
  qed (use run in \<open>auto simp: answers_def\<close>)
qed

text \<open>A world in which the fourth external call of a request fails.\<close>

definition orphan_world :: auth_world where
  "orphan_world = no_accounts\<lparr>env := auth_env\<lparr>fault_at := \<lambda>n. if n = 3 then Fails (IOError []) else Works\<rparr>\<rparr>"

theorem register_orphan_witness:
  "case authHandler_Register sample_auth_handler sample_credentials orphan_world of (r, w1) \<Rightarrow>
    answers CodeInternal r \<and> published w1 = [] \<and>
    (case authHandler_Register sample_auth_handler sample_credentials w1 of (r', w2) \<Rightarrow> published w2 = [] \<and> (\<forall>resp. r' \<noteq> Inr resp))"
proof -
  have w: "pg_accounts_ok orphan_world" "pg_accounts orphan_world = Map.empty" "vk orphan_world = Map.empty" "calls orphan_world = 0"
      "published orphan_world = []" "fault_at (env orphan_world) n = (if n = 3 then Fails (IOError []) else Works)" for n
    by (auto simp: orphan_world_def no_accounts_def pg_accounts_def pg_accounts_ok_def accounts_ok_def)
  have limit: "limiter_ready sample_auth_config ActionRegister ''a@b'' orphan_world" "\<not> over_limit sample_auth_config ActionRegister ''a@b'' orphan_world"
    using w(3) by (simp_all add: limiter_ready_def over_limit_def attempts_def counted_def open_tally_def tally_at_def
      counters_ok_def counter_entry_def sample_auth_config_def Seconds_def second_def)
  obtain r w1 where run: "authHandler_Register sample_auth_handler sample_credentials orphan_world = (r, w1)" by fastforce
  have "case authHandler_Register sample_auth_handler sample_credentials orphan_world of (r, w1) \<Rightarrow>
    answers CodeInternal r \<and> published w1 = published orphan_world \<and>
    (\<exists>a. pg_accounts w1 = (pg_accounts orphan_world)(''a@b'' \<mapsto> a) \<and> acc_Email a = ''a@b'' \<and>
      (\<forall>reqs again. ar_Email again = ''a@b'' \<longrightarrow>
        (let w2 = auth_after sample_auth_handler reqs w1 in
         case authHandler_Register sample_auth_handler again w2 of (r', w3) \<Rightarrow>
           pg_accounts w3 ''a@b'' = Some a \<and> published w3 = published w2 \<and> (\<forall>resp. r' \<noteq> Inr resp) \<and>
           (credential_violations (\<lambda>_. True) again = [] \<and> limiter_ready sample_auth_config ActionRegister ''a@b'' w2 \<and>
              \<not> over_limit sample_auth_config ActionRegister ''a@b'' w2 \<and>
              fault_at (env w2) (calls w2) = Works \<and> fault_at (env w2) (Suc (calls w2)) = Works \<longrightarrow>
            answers CodeAlreadyExists r'))))"
    using register_orphan [of orphan_world sample_libs sample_credentials "\<lambda>_. True" sample_auth_config concat] w limit
    unfolding sample_auth_handler_def by simp
  then obtain "answers CodeInternal r" "published w1 = []" and
    again: "\<And>reqs again. ar_Email again = ''a@b'' \<Longrightarrow> (let w2 = auth_after sample_auth_handler reqs w1 in
         case authHandler_Register sample_auth_handler again w2 of (r', w3) \<Rightarrow>  published w3 = published w2 \<and> (\<forall>resp. r' \<noteq> Inr resp))"
    using run w(5) by (fastforce simp: Let_def split: prod.splits)
  moreover have "case authHandler_Register sample_auth_handler sample_credentials w1 of (r', w2) \<Rightarrow> published w2 = published w1 \<and> (\<forall>resp. r' \<noteq> Inr resp)"
    using again [of sample_credentials "[]"] by (simp add: Let_def)
  ultimately show ?thesis using run by (auto split: prod.splits)
qed

end
