(* ===== verification/AuthInterleaving.thy ===== *)
theory AuthInterleaving
  imports Interleaving AuthRequests
begin

text \<open>
  Requests to the auth service among others.  Others may act before every call of a store, of the limiter
  and of the bus.  The world carries the answers that were given so far, so that what is shown of sequences
  of requests in \<open>AuthRequests\<close>, that a refresh token is exchanged at most once, can be said of requests
  that run at the same time: an exchange that is under way has already used the token up.
\<close>

section \<open>A service among others\<close>

definition interrupted_accounts :: "('w \<Rightarrow> 'w) \<Rightarrow> 'w AccountRepository \<Rightarrow> 'w AccountRepository" where
  "interrupted_accounts I repo =
     \<lparr>arepo_CreateAccount = (\<lambda>email hash. others_first I (arepo_CreateAccount repo email hash)),
      arepo_GetAccountByEmail = (\<lambda>email. others_first I (arepo_GetAccountByEmail repo email)),
      arepo_GetAccountByID = (\<lambda>i. others_first I (arepo_GetAccountByID repo i))\<rparr>"

definition interrupted_tokens :: "('w \<Rightarrow> 'w) \<Rightarrow> 'w TokenRepository \<Rightarrow> 'w TokenRepository" where
  "interrupted_tokens I repo =
     \<lparr>trepo_SaveRefreshToken = (\<lambda>u k ttl. others_first I (trepo_SaveRefreshToken repo u k ttl)),
      trepo_GetUserIDByRefreshToken = (\<lambda>k. others_first I (trepo_GetUserIDByRefreshToken repo k)),
      trepo_DeleteRefreshToken = (\<lambda>k. others_first I (trepo_DeleteRefreshToken repo k)),
      trepo_ReviveRefreshToken = (\<lambda>k. others_first I (trepo_ReviveRefreshToken repo k))\<rparr>"

definition interrupted_auth :: "('w \<Rightarrow> 'w) \<Rightarrow> 'w authService \<Rightarrow> 'w authService" where
  "interrupted_auth I s =
     s\<lparr>as_accountRepo := interrupted_accounts I (as_accountRepo s),
       as_tokenRepo := interrupted_tokens I (as_tokenRepo s),
       as_publisher := \<lparr>apub_PublishUserRegistered = (\<lambda>u email. others_first I (apub_PublishUserRegistered (as_publisher s) u email))\<rparr>,
       as_limiter := (\<lambda>action email. others_first I (as_limiter s action email))\<rparr>"

definition interrupted_handler :: "('w \<Rightarrow> 'w) \<Rightarrow> 'w authHandler \<Rightarrow> 'w authHandler" where
  "interrupted_handler I h = h\<lparr>ah_svc := interrupted_auth I (ah_svc h)\<rparr>"

text \<open>A request is answered when its answer is noted.\<close>

record served_world = auth_world +
  served :: "(auth_request \<times> auth_reply) list"

definition serve_noted :: "('z served_world_scheme \<Rightarrow> 'z served_world_scheme) \<Rightarrow> ('z served_world_scheme) authHandler
    \<Rightarrow> auth_request \<Rightarrow> 'z served_world_scheme \<Rightarrow> 'z served_world_scheme" where
  "serve_noted I h req w =
     (case serve_auth (interrupted_handler I h) req w of (x, w') \<Rightarrow> w'\<lparr>served := served w' @ [(req, x)]\<rparr>)"

text \<open>Requests one after the other, one inside the other, and chosen by the state (for example by the number
  of calls made so far).\<close>

inductive auth_nest :: "('z served_world_scheme) authHandler \<Rightarrow> ('z served_world_scheme \<Rightarrow> 'z served_world_scheme) \<Rightarrow> bool" for h where
  nobody: "auth_nest h id"
| one: "auth_nest h I \<Longrightarrow> auth_nest h (serve_noted I h req)"
| both: "auth_nest h I \<Longrightarrow> auth_nest h J \<Longrightarrow> auth_nest h (J \<circ> I)"
| either: "auth_nest h I \<Longrightarrow> auth_nest h J \<Longrightarrow> auth_nest h (\<lambda>w. if P w then I w else J w)"

section \<open>The budget of a token\<close>

text \<open>The exchanges that were answered, and one more as long as the token is there.  \<open>E\<close> and \<open>c\<close> say which
  identifiers are generated: those of the calls from \<open>c\<close> on.\<close>

definition token_budget :: "string \<Rightarrow> nat \<Rightarrow> environment \<Rightarrow> nat \<Rightarrow> 'z served_world_scheme \<Rightarrow> bool" where
  "token_budget k B E c w \<longleftrightarrow> env w = E \<and> c \<le> calls w \<and>
     exchanges k (served w) + (if vk w (AuthRefreshKey k) = None then 0 else 1) \<le> B"

lemma exchanges_append: "exchanges k (xs @ ys) = exchanges k xs + exchanges k ys"
  by (simp add: exchanges_def)

lemma budget_tick [simp]: "token_budget k B E c w \<Longrightarrow> token_budget k B E c (tick w)"
  by (simp add: token_budget_def tick_def)

lemma served_tick [simp]: "served (tick w) = served w" "served (put_vk db w) = served w" "served (put_accounts a w) = served w"
  by (simp_all add: tick_def put_vk_def put_accounts_def)

lemma budget_put_vk:
  assumes "token_budget k B E c w" and "vk w (AuthRefreshKey k) = None \<longrightarrow> db (AuthRefreshKey k) = None"
  shows "token_budget k B E c (put_vk db (tick w))"
  using assms by (auto simp: token_budget_def split: if_splits)

lemma budget_vk_do:
  assumes "\<And>t u db a db'. cmd t u db = Inr (a, db') \<Longrightarrow> db (AuthRefreshKey k) = None \<Longrightarrow> db' (AuthRefreshKey k) = None"
  shows "kept (token_budget k B E c) (vk_do cmd)"
proof (unfold kept_def, intro allI impI)
  fix w :: "'z served_world_scheme" assume w: "token_budget k B E c w"
  have "wp (vk_do cmd) (\<lambda>_. token_budget k B E c) (\<lambda>_. token_budget k B E c) w"
    by (rule wp_vk_now) (use w assms in \<open>auto intro: budget_put_vk\<close>)
  then show "token_budget k B E c (snd (vk_do cmd w))" by (rule snd_wp) simp_all
qed


lemma budget_js_Publish [kept_intros]: "kept (token_budget k B E c) (js_Publish s d)"
  by (auto simp: kept_def js_Publish_def ext_call_def token_budget_def tick_def split: fault.splits)

lemma budget_account_pool [kept_intros]: "kept (token_budget k B E c) (account_pool s)"
  by (auto simp: kept_def account_pool_def pool_call_def ext_call_def run_stmt_def token_budget_def tick_def put_accounts_def
      split: fault.splits sum.splits prod.splits)

text \<open>No command but the saving of the token itself brings it back.\<close>

lemma budget_commands [kept_intros]:
  "k' \<noteq> k \<Longrightarrow> kept (token_budget k B E c) (vk_do (SET_EX (AuthRefreshKey k') v secs))"
  "kept (token_budget k B E c) (vk_do (GET (AuthRefreshKey k')))"
  "kept (token_budget k B E c) (vk_do (DEL (AuthRefreshKey k')))"
  "kept (token_budget k B E c) (vk_do (GetAndDeleteScript (AuthRefreshKey k')))"
  "kept (token_budget k B E c) (vk_do (IncrWithExpiryScript (AuthRateLimitKey a e) secs))"
proof -
  show "k' \<noteq> k \<Longrightarrow> kept (token_budget k B E c) (vk_do (SET_EX (AuthRefreshKey k') v secs))"
    by (rule budget_vk_do) (auto simp: SET_EX_def inj_eq [OF inj_keys(1)] split: if_splits)
  show "kept (token_budget k B E c) (vk_do (GET (AuthRefreshKey k')))"
    "kept (token_budget k B E c) (vk_do (DEL (AuthRefreshKey k')))"
    "kept (token_budget k B E c) (vk_do (GetAndDeleteScript (AuthRefreshKey k')))"
    by (rule budget_vk_do, auto simp: vk_cmd_defs split: if_splits option.splits sum.splits)+
  show "kept (token_budget k B E c) (vk_do (IncrWithExpiryScript (AuthRateLimitKey a e) secs))"
  proof (rule budget_vk_do)
    fix t u db n db'
    assume "IncrWithExpiryScript (AuthRateLimitKey a e) secs t u db = Inr (n, db')" "db (AuthRefreshKey k) = None"
    then show "db' (AuthRefreshKey k) = None"
      using keys_apart(1) [THEN not_sym] keys_apart(1) by (auto simp: vk_cmd_defs Let_def split: if_splits option.splits sum.splits prod.splits vk_value.splits)
  qed
qed

lemma kept_others_first [kept_intros]:
  assumes "\<And>w. J w \<Longrightarrow> J (I w)" and "kept J m"
  shows "kept J (others_first I m)"
  using assms by (simp add: kept_def others_first_def)

text \<open>What others do keeps the budget.\<close>

abbreviation budget_others :: "string \<Rightarrow> nat \<Rightarrow> environment \<Rightarrow> nat \<Rightarrow> ('z served_world_scheme \<Rightarrow> 'z served_world_scheme) \<Rightarrow> bool" where
  "budget_others k B E c I \<equiv> \<forall>w. token_budget k B E c w \<longrightarrow> token_budget k B E c (I w)"

lemma interrupted_auth_sel [simp]:
  "arepo_CreateAccount (interrupted_accounts I ar) = (\<lambda>email hash. others_first I (arepo_CreateAccount ar email hash))"
  "arepo_GetAccountByEmail (interrupted_accounts I ar) = (\<lambda>email. others_first I (arepo_GetAccountByEmail ar email))"
  "trepo_SaveRefreshToken (interrupted_tokens I tr) = (\<lambda>u k ttl. others_first I (trepo_SaveRefreshToken tr u k ttl))"
  "trepo_DeleteRefreshToken (interrupted_tokens I tr) = (\<lambda>k. others_first I (trepo_DeleteRefreshToken tr k))"
  "trepo_ReviveRefreshToken (interrupted_tokens I tr) = (\<lambda>k. others_first I (trepo_ReviveRefreshToken tr k))"
  by (simp_all add: interrupted_accounts_def interrupted_tokens_def)

abbreviation iauth :: "('z served_world_scheme \<Rightarrow> 'z served_world_scheme) \<Rightarrow> auth_libs \<Rightarrow> auth_config \<Rightarrow> ('z served_world_scheme) authService" where
  "iauth I L C \<equiv> interrupted_auth I (NewAuthService L C pgAccountRepository)"

lemma iauth_sel [simp]:
  "as_accountRepo (iauth I L C) = interrupted_accounts I pgAccountRepository"
  "as_tokenRepo (iauth I L C) = interrupted_tokens I (valkeyTokenRepository (lib_uuid L))"
  "apub_PublishUserRegistered (as_publisher (iauth I L C)) =
     (\<lambda>u email. others_first I (publisher_PublishUserRegistered (lib_uuid L) u email))"
  "as_limiter (iauth I L C) = (\<lambda>action email. others_first I (valkeyLimiter_Allow (cfg_limiter C) action email))"
  "as_uuid (iauth I L C) = lib_uuid L"
  by (simp_all add: interrupted_auth_def NewAuthService_def natsAuthPublisher_def)

lemma pg_sel [simp]:
  "arepo_CreateAccount pgAccountRepository = pgAccount_CreateAccount"
  "arepo_GetAccountByEmail pgAccountRepository = pgAccount_GetAccountByEmail"
  "trepo_SaveRefreshToken (valkeyTokenRepository U) = tokenRepo_SaveRefreshToken U"
  "trepo_DeleteRefreshToken (valkeyTokenRepository U) = tokenRepo_DeleteRefreshToken"
  "trepo_ReviveRefreshToken (valkeyTokenRepository U) = tokenRepo_ReviveRefreshToken U"
  by (simp_all add: pgAccountRepository_def valkeyTokenRepository_def)

lemma interrupted_handler_sel [simp]:
  "ah_svc (interrupted_handler I (auth_handler L C pgAccountRepository mail txt)) = iauth I L C"
  by (simp add: interrupted_handler_def)

lemma generate_kept:
  fixes I :: "'z served_world_scheme \<Rightarrow> 'z served_world_scheme"
  assumes I: "\<And>w. J w \<Longrightarrow> J (I w)"
    and save: "\<And>w. J w \<Longrightarrow> kept J (tokenRepo_SaveRefreshToken (lib_uuid L) u (uuid_String (lib_uuid L) (uuid_in w)) (as_refreshTTL (iauth I L C)))"
  shows "kept J (generateTokenPair (iauth I L C) u)"
proof (unfold kept_def, intro allI impI)
  fix w :: "'z served_world_scheme" assume w: "J w"
  let ?rt = "uuid_String (lib_uuid L) (uuid_in w)"
  have "kept J (tryE (others_first I (tokenRepo_SaveRefreshToken (lib_uuid L) u ?rt (as_refreshTTL (iauth I L C))))
      (\<lambda>e. fail (Wrap ''save refresh token'' e)) (\<lambda>_. ret \<lparr>tp_AccessToken = at, tp_RefreshToken = ?rt\<rparr>))" for at
    by (intro kept_intros I save [OF w])
  then show "J (snd (generateTokenPair (iauth I L C) u w))"
    using w by (auto simp: generateTokenPair_def Let_def kept_def split: option.splits)
qed

lemma budget_hash [kept_intros]: "(\<And>h. kept J (m h)) \<Longrightarrow> kept J (hash_password s password m)"
  by (auto simp: kept_def hash_password_def split: option.splits)

lemma kept_validate [kept_intros]: "kept J m \<Longrightarrow> kept J (validate txt vs m)"
  by (auto simp: kept_def validate_def fail_def)


text \<open>What the calls of a service keep, every request keeps.\<close>

lemma serve_kept:
  fixes I :: "'z served_world_scheme \<Rightarrow> 'z served_world_scheme"
  assumes I: "\<And>w. J w \<Longrightarrow> J (I w)" and gen: "\<And>u. kept J (generateTokenPair (iauth I L C) u)"
    and calls: "\<And>email hash. kept J (pgAccount_CreateAccount email hash)" "\<And>email. kept J (pgAccount_GetAccountByEmail email)"
      "\<And>k. kept J (tokenRepo_DeleteRefreshToken k)" "\<And>k. kept J (tokenRepo_ReviveRefreshToken (lib_uuid L) k)"
      "\<And>u email. kept J (publisher_PublishUserRegistered (lib_uuid L) u email)"
      "\<And>action email. kept J (valkeyLimiter_Allow (cfg_limiter C) action email)"
  shows "kept J (serve_auth (interrupted_handler I (auth_handler L C pgAccountRepository mail txt)) req)"
proof -
  have bodies: "kept J (register_body (iauth I L C) email password)" "kept J (login_body (iauth I L C) email password)"
    "kept J (authService_Logout (iauth I L C) k')" "kept J (authService_RefreshToken (iauth I L C) k')" for email password k'
    unfolding register_body_def login_body_def authService_Logout_def authService_RefreshToken_def iauth_sel interrupted_auth_sel pg_sel
    by (intro kept_intros I gen calls; assumption?)+
  have pair: "kept J (case p of (x, y) \<Rightarrow> ret (f x y))" for f :: "_ \<Rightarrow> _ \<Rightarrow> 'b" and p :: "'c \<times> 'd"
    by (cases p) (simp add: kept_ret)
  show ?thesis
    unfolding serve_auth_def authHandler_Register_def authHandler_Login_def authHandler_Logout_def authHandler_RefreshToken_def
      authService_Register_def authService_Login_def with_rate_limit_def interrupted_handler_sel iauth_sel
    by (cases req) (simp_all, (intro kept_intros I bodies pair calls; assumption?)+)
qed

section \<open>A token is exchanged once\<close>

definition never_again :: "auth_libs \<Rightarrow> environment \<Rightarrow> nat \<Rightarrow> string \<Rightarrow> bool" where
  "never_again L E c k \<longleftrightarrow> (\<forall>n\<ge>c. uuid_String (lib_uuid L) (uuid_at E n) \<noteq> k)"

text \<open>The id of a new token is not the old one, so issuing tokens keeps the budget.\<close>

lemma budget_generate:
  fixes I :: "'z served_world_scheme \<Rightarrow> 'z served_world_scheme"
  assumes "budget_others k B E c I" and "never_again L E c k"
  shows "kept (token_budget k B E c) (generateTokenPair (iauth I L C) u)"
proof (rule generate_kept)
  fix w :: "'z served_world_scheme" assume "token_budget k B E c w"
  with assms(2) have "uuid_String (lib_uuid L) (uuid_in w) \<noteq> k" by (simp add: token_budget_def never_again_def uuid_in_def)
  then show "kept (token_budget k B E c) (tokenRepo_SaveRefreshToken (lib_uuid L) u (uuid_String (lib_uuid L) (uuid_in w))
      (as_refreshTTL (iauth I L C)))"
    unfolding tokenRepo_SaveRefreshToken_def by (intro kept_intros)
qed (use assms(1) in blast)

lemma budget_allow [kept_intros]: "kept (token_budget k B E c) (valkeyLimiter_Allow l action email)"
  unfolding valkeyLimiter_Allow_def by (intro kept_intros)

lemma budget_accounts [kept_intros]:
  "kept (token_budget k B E c) (pgAccount_CreateAccount email hash)"
  "kept (token_budget k B E c) (pgAccount_GetAccountByEmail email)"
  unfolding pgAccount_CreateAccount_def pgAccount_GetAccountByEmail_def by (intro kept_intros)+

lemma budget_tokens [kept_intros]:
  "kept (token_budget k B E c) (tokenRepo_DeleteRefreshToken k')"
  "kept (token_budget k B E c) (tokenRepo_ReviveRefreshToken U k')"
proof -
  have "kept (token_budget k B E c) (parse_token_reply U r)" for r
    by (auto simp: kept_def parse_token_reply_def ret_def fail_def split: sum.splits option.splits)
  then show "kept (token_budget k B E c) (tokenRepo_DeleteRefreshToken k')"
    "kept (token_budget k B E c) (tokenRepo_ReviveRefreshToken U k')"
    unfolding tokenRepo_DeleteRefreshToken_def tokenRepo_ReviveRefreshToken_def by (intro kept_intros)+
qed

lemma budget_publish [kept_intros]: "kept (token_budget k B E c) (publisher_PublishUserRegistered U u email)"
  unfolding publisher_PublishUserRegistered_def by (intro kept_intros)

text \<open>Every request keeps the budget.\<close>

lemma budget_serve:
  fixes I :: "'z served_world_scheme \<Rightarrow> 'z served_world_scheme"
  assumes "budget_others k B E c I" and "never_again L E c k"
  shows "kept (token_budget k B E c) (serve_auth (interrupted_handler I (auth_handler L C pgAccountRepository mail txt)) req)"
  by (intro serve_kept kept_intros budget_generate [OF assms]) (use assms(1) in blast)


text \<open>An exchange that is answered has spent one: its answer may be noted.\<close>

lemma budget_exchange:
  fixes I :: "'z served_world_scheme \<Rightarrow> 'z served_world_scheme"
  assumes I: "\<forall>B. budget_others k B E c I" and k: "never_again L E c k" and w: "token_budget k B E c w"
    and run: "serve_auth (interrupted_handler I (auth_handler L C pgAccountRepository mail txt)) (RefreshCall k) w = (Inr y, w')"
  shows "0 < B \<and> token_budget k (B - 1) E c w'"
proof -
  let ?P = "\<lambda>w'. 0 < B \<and> token_budget k (B - 1) E c w'"
  have Iw: "token_budget k B E c (I w)" using I w by blast
  have gen: "wp (generateTokenPair (iauth I L C) u) (\<lambda>_. ?P) (\<lambda>_. ?P) w2" if "?P w2" for u w2
  proof -
    have "kept (token_budget k (B - 1) E c) (generateTokenPair (iauth I L C) u)"
      by (rule budget_generate [OF _ k]) (use I in blast)
    then show ?thesis using that by (auto simp: kept_def wp_def split: prod.splits sum.splits)
  qed
  have spent: "?P w2" if "taken k (I w) w2" "vk w2 (AuthRefreshKey k) = None"
      "token_at AuthRefreshKey (now_in (I w)) (I w) k = Some s" for w2 s
  proof -
    have "vk (I w) (AuthRefreshKey k) \<noteq> None" using that(3) by (auto simp: token_at_def live_def split: option.splits)
    then show ?thesis using that(1,2) Iw by (auto simp: token_budget_def taken_def)
  qed
  have "wp (authService_RefreshToken (iauth I L C) k) (\<lambda>_. ?P) (\<lambda>_ _. True) w"
    unfolding authService_RefreshToken_def iauth_sel interrupted_auth_sel pg_sel wp_tryE wp_others_first
  proof (rule wp_mono [OF revive_wp], goal_cases)
    case (1 u w2)
    then have "?P w2" using spent by blast
    from gen [OF this] show ?case by (rule wp_mono) (simp_all add: wp_simps)
  qed (simp add: wp_simps)
  then have "wp (serve_auth (interrupted_handler I (auth_handler L C pgAccountRepository mail txt)) (RefreshCall k)) (\<lambda>_. ?P) (\<lambda>_ _. True) w"
    unfolding serve_auth_def auth_request.case authHandler_RefreshToken_def interrupted_handler_sel wp_tryE wp_validate
    by (auto simp: wp_simps elim!: wp_mono)
  from wpD [OF this run] show ?thesis by simp
qed

lemma nest_budget:
  fixes I :: "'z served_world_scheme \<Rightarrow> 'z served_world_scheme"
  assumes "auth_nest (auth_handler L C pgAccountRepository mail txt) I" and k: "never_again L E c k"
  shows "budget_others k B E c I"
  using assms(1)
proof (induction arbitrary: B rule: auth_nest.induct)
  case (one I req)
  have I: "\<forall>B. budget_others k B E c I" using one.IH by blast
  show ?case
  proof (intro allI impI)
    fix w :: "'z served_world_scheme" assume w: "token_budget k B E c w"
    obtain x w' where run: "serve_auth (interrupted_handler I (auth_handler L C pgAccountRepository mail txt)) req w = (x, w')" by fastforce
    have w': "token_budget k B E c w'" by (rule keptD [OF budget_serve [OF _ k] w run]) (use I in blast)
    have "token_budget k B E c (w'\<lparr>served := served w' @ [(req, x)]\<rparr>)"
    proof (cases "req = RefreshCall k \<and> (\<exists>y. x = Inr y)")
      case True
      then obtain y where xy: "req = RefreshCall k" "x = Inr y" by blast
      from budget_exchange [OF I k w run [unfolded xy]] xy show ?thesis
        by (auto simp: token_budget_def exchanges_append split: if_splits)
    next
      case False
      with w' show ?thesis by (auto simp: token_budget_def exchanges_append split: if_splits)
    qed
    then show "token_budget k B E c (serve_noted I (auth_handler L C pgAccountRepository mail txt) req w)"
      by (simp add: serve_noted_def run)
  qed
qed simp_all

text \<open>C7: However requests to the auth service run at the same time, in any nesting, under any faults, a
  refresh token whose id is not generated again is exchanged for new tokens at most once, and never when it
  was gone at the start (by an exchange, a logout, or because it was never issued).\<close>

theorem refresh_once_interleaved:
  assumes "auth_nest (auth_handler L C pgAccountRepository mail txt) I"
    and "\<forall>n\<ge>calls w. uuid_String (lib_uuid L) (uuid_at (env w) n) \<noteq> k"
  shows "exchanges k (served (I w)) \<le> exchanges k (served w) + (if vk w (AuthRefreshKey k) = None then 0 else 1)"
proof -
  have "never_again L (env w) (calls w) k" using assms(2) by (simp add: never_again_def)
  moreover have "token_budget k (exchanges k (served w) + (if vk w (AuthRefreshKey k) = None then 0 else 1)) (env w) (calls w) w"
    by (simp add: token_budget_def)
  ultimately have "token_budget k (exchanges k (served w) + (if vk w (AuthRefreshKey k) = None then 0 else 1)) (env w) (calls w) (I w)"
    using nest_budget [OF assms(1)] by blast
  then show ?thesis by (simp add: token_budget_def split: if_splits)
qed

text \<open>Two exchanges of one token at the same time: the second one is served before the first asks the store.\<close>

definition noted_world :: served_world where
  "noted_world = \<lparr>env = env token_world, calls = 0, published = [], vk = vk token_world, account_db = account_db token_world, served = []\<rparr>"

definition noted_handler :: "served_world authHandler" where
  "noted_handler = auth_handler sample_libs sample_auth_config pgAccountRepository (\<lambda>_. True) concat"

abbreviation two_exchanges :: "served_world \<Rightarrow> served_world" where
  "two_exchanges \<equiv> serve_noted (\<lambda>w. if calls w = 0 then serve_noted id noted_handler (RefreshCall ''tok'') w else id w)
     noted_handler (RefreshCall ''tok'')"

theorem refresh_once_interleaved_witness:
  "exchanges ''tok'' (served (two_exchanges noted_world)) \<le> 1"
proof -
  have "auth_nest (auth_handler sample_libs sample_auth_config pgAccountRepository (\<lambda>_. True) concat) two_exchanges"
    unfolding noted_handler_def by (intro auth_nest.intros)
  from refresh_once_interleaved [OF this, of noted_world "''tok''"] show ?thesis
    by (simp add: noted_world_def sample_uuids_def split: if_splits)
qed


section \<open>An address is registered once\<close>

definition registrations :: "string \<Rightarrow> (auth_request \<times> auth_reply) list \<Rightarrow> nat" where
  "registrations email rs =
     length (filter (\<lambda>(req, x). (case req of RegisterCall r \<Rightarrow> ar_Email r = email | _ \<Rightarrow> False) \<and> (\<exists>y. x = Inr y)) rs)"

lemma registrations_append: "registrations email (xs @ ys) = registrations email xs + registrations email ys"
  by (simp add: registrations_def)

text \<open>The accounts \<open>m\<close> stay; the registrations that were answered, and one more as long as the address is free.\<close>

definition account_budget :: "string \<Rightarrow> nat \<Rightarrow> (string \<rightharpoonup> Account) \<Rightarrow> 'z served_world_scheme \<Rightarrow> bool" where
  "account_budget email B m w \<longleftrightarrow> pg_accounts_ok w \<and> m \<subseteq>\<^sub>m pg_accounts w \<and>
     registrations email (served w) + (if pg_accounts w email = None then 1 else 0) \<le> B"

lemma account_budget_same:
  "account_db w' = account_db w \<Longrightarrow> served w' = served w \<Longrightarrow> account_budget email B m w' = account_budget email B m w"
  by (simp add: account_budget_def pg_accounts_def pg_accounts_ok_def)

lemma account_budget_calls [kept_intros]:
  "kept (account_budget email B m) (vk_do cmd)" "kept (account_budget email B m) (js_Publish s d)"
proof -
  have same: "account_budget email B m (snd (vk_do cmd w)) = account_budget email B m w"
      "account_budget email B m (snd (js_Publish s d w)) = account_budget email B m w" for w
    by (rule account_budget_same; auto simp: vk_do_def js_Publish_def pool_call_def ext_call_def run_stmt_def put_vk_def tick_def
        split: fault.splits sum.splits prod.splits)+
  show "kept (account_budget email B m) (vk_do cmd)" "kept (account_budget email B m) (js_Publish s d)"
    by (simp_all add: kept_def same)
qed

lemma served_account_pool: "kept (\<lambda>w. served w = l) (account_pool s)"
  by (auto simp: kept_def account_pool_def pool_call_def ext_call_def run_stmt_def tick_def put_accounts_def
      split: fault.splits sum.splits prod.splits)

lemma served_accounts: "kept (\<lambda>w. served w = l) (pgAccount_CreateAccount email hash)" "kept (\<lambda>w. served w = l) (pgAccount_GetAccountByEmail email)"
  unfolding pgAccount_CreateAccount_def pgAccount_GetAccountByEmail_def by (intro kept_intros served_account_pool)+

lemma wp_of_kept: "kept J m \<Longrightarrow> J w \<Longrightarrow> wp m (\<lambda>_. J) (\<lambda>_. J) w"
  by (auto simp: kept_def wp_def split: prod.splits sum.splits)

lemma kept_of_wp: "(\<And>w. J w \<Longrightarrow> wp m (\<lambda>_. J) (\<lambda>_. J) w) \<Longrightarrow> kept J m"
  unfolding kept_def by (blast intro: snd_wp)

lemma map_le_new: "m \<subseteq>\<^sub>m f \<Longrightarrow> f x = None \<Longrightarrow> m \<subseteq>\<^sub>m f(x \<mapsto> y)"
  by (auto simp: map_le_def dom_def)

lemma account_budget_added:
  assumes "account_budget email B m w" and "pg_accounts_ok w'" and "served w' = served w"
    and "pg_accounts w i = None" and "pg_accounts w' = (pg_accounts w)(i \<mapsto> a)"
  shows "account_budget email B m w'"
  using assms map_le_new [of m "pg_accounts w" i a] by (auto simp: account_budget_def split: if_splits)

lemma account_budget_store [kept_intros]:
  "kept (account_budget email B m :: 'z served_world_scheme \<Rightarrow> bool) (pgAccount_CreateAccount email' hash)"
  "kept (account_budget email B m :: 'z served_world_scheme \<Rightarrow> bool) (pgAccount_GetAccountByEmail email')"
proof -
  show "kept (account_budget email B m :: 'z served_world_scheme \<Rightarrow> bool) (pgAccount_CreateAccount email' hash)"
  proof (rule kept_of_wp)
    fix w :: "'z served_world_scheme" assume w: "account_budget email B m w"
    then have ok: "pg_accounts_ok w" by (simp add: account_budget_def)
    show "wp (pgAccount_CreateAccount email' hash) (\<lambda>_. account_budget email B m) (\<lambda>_. account_budget email B m) w"
    proof (rule wp_mono [OF wp_kept [OF served_accounts(1) pga.create [OF ok, unfolded pg_sel] refl]], goal_cases)
      case (1 a w')
      then show ?case by (intro account_budget_added [OF w]) auto
    next
      case (2 e w')
      then have w': "pg_accounts_ok w'" "served w' = served w" by simp_all
      from 2 consider "pg_accounts w' = pg_accounts w"
        | a where "pg_accounts w (acc_Email a) = None" "pg_accounts w' = (pg_accounts w)(acc_Email a \<mapsto> a)" by blast
      then show ?case
      proof cases
        case 1
        with w w' show ?thesis by (simp add: account_budget_def)
      next
        case (2 a)
        then show ?thesis by (rule account_budget_added [OF w w'])
      qed
    qed
  qed
  show "kept (account_budget email B m :: 'z served_world_scheme \<Rightarrow> bool) (pgAccount_GetAccountByEmail email')"
  proof (rule kept_of_wp)
    fix w :: "'z served_world_scheme" assume w: "account_budget email B m w"
    then have ok: "pg_accounts_ok w" by (simp add: account_budget_def)
    show "wp (pgAccount_GetAccountByEmail email') (\<lambda>_. account_budget email B m) (\<lambda>_. account_budget email B m) w"
      by (rule wp_mono [OF wp_kept [OF served_accounts(2) pga.find [OF ok, unfolded pg_sel] refl]])
        (use w in \<open>auto simp: account_budget_def\<close>)
  qed
qed

abbreviation account_others :: "string \<Rightarrow> nat \<Rightarrow> (string \<rightharpoonup> Account) \<Rightarrow> ('z served_world_scheme \<Rightarrow> 'z served_world_scheme) \<Rightarrow> bool" where
  "account_others email B m I \<equiv> \<forall>w. account_budget email B m w \<longrightarrow> account_budget email B m (I w)"

lemma account_generate:
  fixes I :: "'z served_world_scheme \<Rightarrow> 'z served_world_scheme"
  assumes "account_others email B m I"
  shows "kept (account_budget email B m) (generateTokenPair (iauth I L C) u)"
  by (rule generate_kept) (use assms in \<open>auto simp: tokenRepo_SaveRefreshToken_def intro!: kept_intros\<close>)

lemma account_serve:
  fixes I :: "'z served_world_scheme \<Rightarrow> 'z served_world_scheme"
  assumes "account_others email B m I"
  shows "kept (account_budget email B m) (serve_auth (interrupted_handler I (auth_handler L C pgAccountRepository mail txt)) req)"
proof -
  have parse: "kept J (parse_token_reply U r)" for J :: "'z served_world_scheme \<Rightarrow> bool" and U r
    by (auto simp: kept_def parse_token_reply_def ret_def fail_def split: sum.splits option.splits)
  have calls: "kept (account_budget email B m :: 'z served_world_scheme \<Rightarrow> bool) (tokenRepo_DeleteRefreshToken k)"
    "kept (account_budget email B m :: 'z served_world_scheme \<Rightarrow> bool) (tokenRepo_ReviveRefreshToken U k)"
    "kept (account_budget email B m :: 'z served_world_scheme \<Rightarrow> bool) (publisher_PublishUserRegistered U u a)"
    "kept (account_budget email B m :: 'z served_world_scheme \<Rightarrow> bool) (valkeyLimiter_Allow l action a)" for k U u a l action
    unfolding tokenRepo_DeleteRefreshToken_def tokenRepo_ReviveRefreshToken_def publisher_PublishUserRegistered_def valkeyLimiter_Allow_def
    by (intro kept_intros parse)+
  show ?thesis
    by (intro serve_kept kept_intros account_generate [OF assms] calls) (use assms in blast)
qed


text \<open>An answered registration has made the account, so its answer may be noted.\<close>

lemma account_registration:
  fixes I :: "'z served_world_scheme \<Rightarrow> 'z served_world_scheme"
  assumes I: "\<forall>B. account_others email B m I" and email: "fits 255 email" "ar_Email r = email" and w: "account_budget email B m w"
    and run: "serve_auth (interrupted_handler I (auth_handler L C pgAccountRepository mail txt)) (RegisterCall r) w = (Inr y, w')"
  shows "0 < B \<and> account_budget email (B - 1) m w'"
proof -
  let ?P = "\<lambda>w'. 0 < B \<and> account_budget email (B - 1) m w'"
  have next_w: "account_budget email B m (I w1)" if "account_budget email B m w1" for w1 using I that by blast
  have rest: "wp (tryE (generateTokenPair (iauth I L C) u) (\<lambda>e. fail (Wrap ''generate tokens'' e))
      (\<lambda>tp. attempt (others_first I (publisher_PublishUserRegistered (lib_uuid L) u a)) (ret (x, tp)))) (\<lambda>_. ?P) (\<lambda>_ _. True) w1"
    if "?P w1" for u a w1 and x :: sAccount
  proof -
    have others: "account_others email (B - 1) m I" using I by blast
    have "kept (account_budget email (B - 1) m) (tryE (generateTokenPair (iauth I L C) u) (\<lambda>e. fail (Wrap ''generate tokens'' e))
        (\<lambda>tp. attempt (others_first I (publisher_PublishUserRegistered (lib_uuid L) u a)) (ret (x, tp))))"
      unfolding publisher_PublishUserRegistered_def
      by (intro kept_intros account_generate [OF others]) (use others in blast)
    from wp_of_kept [OF this, of w1] that show ?thesis by (auto elim!: wp_mono)
  qed
  have create: "wp (others_first I (pgAccount_CreateAccount email hash)) (\<lambda>_. ?P) (\<lambda>_ _. True) w1"
    if w1: "account_budget email B m w1" for w1 hash
  proof -
    have ok: "pg_accounts_ok (I w1)" using next_w [OF w1] by (simp add: account_budget_def)
    show ?thesis
      unfolding wp_others_first
      by (rule wp_mono [OF wp_kept [OF served_accounts(1) pga.create [OF ok, unfolded pg_sel] refl]])
        (use next_w [OF w1] email map_le_new in \<open>auto simp: account_budget_def split: if_splits\<close>)
  qed
  have "wp (register_body (iauth I L C) email (ar_Password r)) (\<lambda>_. ?P) (\<lambda>_ _. True) w1"
    if w1: "account_budget email B m w1" for w1
    unfolding register_body_def iauth_sel interrupted_auth_sel pg_sel wp_tryE [of "others_first I (pgAccount_GetAccountByEmail email)"]
  proof (rule wp_mono [OF wp_of_kept [OF kept_others_first [OF next_w account_budget_store(2)] w1]], goal_cases)
    case (3 e w2)
    have "wp (hash_password (iauth I L C) (ar_Password r) (\<lambda>hashedPassword.
        tryE (others_first I (pgAccount_CreateAccount email hashedPassword))
          (\<lambda>e. if isUniqueViolation e then fail (Sentinel authSvc_ErrAccountAlreadyExists) else fail (Wrap ''create account'' e))
          (\<lambda>acc. tryE (generateTokenPair (iauth I L C) (acc_ID acc)) (\<lambda>e. fail (Wrap ''generate tokens'' e))
             (\<lambda>tp. attempt (others_first I (publisher_PublishUserRegistered (lib_uuid L) (acc_ID acc) (acc_Email acc)))
                (ret (toAccount acc, tp)))))) (\<lambda>_. ?P) (\<lambda>_ _. True) w2"
      unfolding wp_hash_password wp_tryE [of "others_first I (pgAccount_CreateAccount email h)" for h]
      by (split option.split, intro conjI allI impI TrueI wp_mono [OF create [OF 3]] rest) (simp_all add: wp_fail)
    then show ?case by (simp add: wp_fail)
  qed (auto simp: wp_fail)
  note body = this
  have "kept (account_budget email B m) (others_first I (valkeyLimiter_Allow (cfg_limiter C) ActionRegister email))"
    unfolding valkeyLimiter_Allow_def by (intro kept_intros next_w)
  note limit = wp_of_kept [OF this w]
  have "wp (authService_Register (iauth I L C) email (ar_Password r)) (\<lambda>_. ?P) (\<lambda>_ _. True) w"
    unfolding authService_Register_def with_rate_limit_def iauth_sel wp_tryE
    by (rule wp_mono [OF limit], rule body) (simp_all add: wp_fail)
  then have "wp (serve_auth (interrupted_handler I (auth_handler L C pgAccountRepository mail txt)) (RegisterCall r)) (\<lambda>_. ?P) (\<lambda>_ _. True) w"
    unfolding serve_auth_def auth_request.case authHandler_Register_def interrupted_handler_sel wp_tryE wp_validate email(2)
    by (auto simp: wp_simps elim!: wp_mono)
  from wpD [OF this run] show ?thesis by simp
qed

lemma nest_accounts:
  fixes I :: "'z served_world_scheme \<Rightarrow> 'z served_world_scheme"
  assumes "auth_nest (auth_handler L C pgAccountRepository mail txt) I" and email: "fits 255 email"
  shows "account_others email B m I"
  using assms(1)
proof (induction arbitrary: B rule: auth_nest.induct)
  case (one I req)
  have I: "\<forall>B. account_others email B m I" using one.IH by blast
  show ?case
  proof (intro allI impI)
    fix w :: "'z served_world_scheme" assume w: "account_budget email B m w"
    obtain x w' where run: "serve_auth (interrupted_handler I (auth_handler L C pgAccountRepository mail txt)) req w = (x, w')" by fastforce
    have w': "account_budget email B m w'" by (rule keptD [OF account_serve w run]) (use I in blast)
    have noted: "pg_accounts (w'\<lparr>served := s\<rparr>) = pg_accounts w'" "pg_accounts_ok (w'\<lparr>served := s\<rparr>) = pg_accounts_ok w'" for s
      by (simp_all add: pg_accounts_def pg_accounts_ok_def)
    show "account_budget email B m (serve_noted I (auth_handler L C pgAccountRepository mail txt) req w)"
    proof (cases "\<exists>r y. req = RegisterCall r \<and> ar_Email r = email \<and> x = Inr y")
      case True
      then obtain r y where xy: "req = RegisterCall r" "ar_Email r = email" "x = Inr y" by blast
      then have "registrations email [(req, x)] = 1" by (simp add: registrations_def)
      with account_registration [OF I email xy(2) w run [unfolded xy(1,3)]]
      show ?thesis unfolding serve_noted_def run prod.case account_budget_def noted
        by (auto simp: registrations_append split: if_splits)
    next
      case False
      then have "registrations email [(req, x)] = 0" by (auto simp: registrations_def split: auth_request.splits)
      with w' show ?thesis by (simp add: serve_noted_def run account_budget_def noted registrations_append)
    qed
  qed
qed simp_all

text \<open>C16: However requests to the auth service run at the same time, in any nesting, under any faults,
  addresses and ids of accounts stay unique, no account changes or vanishes, and a registration of an address is
  answered at most once, and never when the address has an account at the start.\<close>

theorem accounts_interleaved:
  assumes "auth_nest (auth_handler L C pgAccountRepository mail txt) I" and "pg_accounts_ok w" and "fits 255 email"
  shows "pg_accounts_ok (I w) \<and> pg_accounts w \<subseteq>\<^sub>m pg_accounts (I w) \<and>
    registrations email (served (I w)) \<le> registrations email (served w) + (if pg_accounts w email = None then 1 else 0)"
proof -
  have "account_budget email (registrations email (served w) + (if pg_accounts w email = None then 1 else 0)) (pg_accounts w) w"
    using assms(2) by (simp add: account_budget_def map_le_def)
  with nest_accounts [OF assms(1,3)]
  have "account_budget email (registrations email (served w) + (if pg_accounts w email = None then 1 else 0)) (pg_accounts w) (I w)"
    by blast
  then show ?thesis by (auto simp: account_budget_def split: if_splits)
qed

abbreviation two_registrations :: "served_world \<Rightarrow> served_world" where
  "two_registrations \<equiv> serve_noted (\<lambda>w. if calls w = 2 then serve_noted id noted_handler (RegisterCall (sample_credentials\<lparr>ar_Email := ''c@d''\<rparr>)) w else id w)
     noted_handler (RegisterCall (sample_credentials\<lparr>ar_Email := ''c@d''\<rparr>))"

theorem accounts_interleaved_witness:
  "registrations ''c@d'' (served (two_registrations noted_world)) \<le> 1 \<and> pg_accounts (two_registrations noted_world) ''a@b'' \<noteq> None"
proof -
  have "auth_nest (auth_handler sample_libs sample_auth_config pgAccountRepository (\<lambda>_. True) concat) two_registrations"
    unfolding noted_handler_def by (intro auth_nest.intros)
  moreover have "pg_accounts_ok noted_world" "pg_accounts noted_world ''a@b'' \<noteq> None"
    by (simp_all add: noted_world_def pg_accounts_ok_def accounts_ok_def pg_accounts_def token_world_def one_account_def)
  moreover have "fits 255 ''c@d''" by (simp add: fits_def no_nul_def)
  ultimately show ?thesis
    using accounts_interleaved [of sample_libs sample_auth_config "\<lambda>_. True" concat two_registrations noted_world "''c@d''"]
    by (auto simp: map_le_def dom_def noted_world_def registrations_def split: if_splits)
qed

end
