(* ===== verification/Hub.thy ===== *)
theory Hub
  imports Json "HOL-Library.AList"
begin

text \<open>
  \<open>services/websocket/internal/hub/hub.go\<close>: which connection listens to which room.

  A connection is a number (the code compares pointers).  \<open>rooms\<close> maps a room to the association
  list of its users, each with the list of their connections; Go iterates over such a map in an
  unspecified order, here it is the order of the list.  \<open>userIDs\<close> and \<open>connRooms\<close> lead back from a
  connection; the set of rooms of a connection is a list, empty when the key is absent.

  \<open>hub_ok\<close> says that the three tables agree and hold nothing empty.  Seen from outside a hub is the
  set of pairs of a connection and a room (\<open>subs\<close>): \<open>subscriptions\<close> is that contract as a locale,
  with what follows for any order of events, and it is interpreted on the hub of the code.
\<close>

section \<open>Envelopes\<close>

definition TypeMessageCreated :: string where "TypeMessageCreated = ''message.created''"
definition TypeRoomMembershipChange :: string where "TypeRoomMembershipChange = ''room.membership.changed''"
definition TypeRoomUpdated :: string where "TypeRoomUpdated = ''room.updated''"
definition TypePing :: string where "TypePing = ''ping''"
definition TypePong :: string where "TypePong = ''pong''"
definition TypeSubscribe :: string where "TypeSubscribe = ''subscribe''"
definition TypeUnsubscribe :: string where "TypeUnsubscribe = ''unsubscribe''"
definition TypeError :: string where "TypeError = ''error''"

lemmas envelope_types = TypeMessageCreated_def TypeRoomMembershipChange_def TypeRoomUpdated_def
  TypePing_def TypePong_def TypeSubscribe_def TypeUnsubscribe_def TypeError_def

text \<open>A \<open>json.RawMessage\<close> that is \<open>nil\<close> is \<open>None\<close>; it is written as \<open>null\<close>.\<close>

record Envelope =
  env_Type :: string
  env_Payload :: "json option"

definition marshal_Envelope :: "Envelope \<Rightarrow> json" where
  "marshal_Envelope env =
     JObj [(''type'', JStr (env_Type env)),
           (''payload'', case env_Payload env of None \<Rightarrow> JNull | Some p \<Rightarrow> p)]"

section \<open>The hub\<close>

type_synonym conn = nat

record hub =
  h_rooms :: "string \<rightharpoonup> (string \<times> conn list) list"
  h_userIDs :: "conn \<rightharpoonup> string"
  h_connRooms :: "conn \<Rightarrow> string list"

definition NewHub :: hub where
  "NewHub = \<lparr>h_rooms = Map.empty, h_userIDs = Map.empty, h_connRooms = (\<lambda>_. [])\<rparr>"

text \<open>Reading \<open>h.rooms[roomID]\<close> and \<open>h.rooms[roomID][userID]\<close>, where a missing key reads as \<open>nil\<close>.\<close>

definition room_users :: "hub \<Rightarrow> string \<Rightarrow> (string \<times> conn list) list" where
  "room_users h roomID = (case h_rooms h roomID of None \<Rightarrow> [] | Some m \<Rightarrow> m)"

definition user_conns :: "hub \<Rightarrow> string \<Rightarrow> string \<Rightarrow> conn list" where
  "user_conns h roomID userID = (case map_of (room_users h roomID) userID of None \<Rightarrow> [] | Some cs \<Rightarrow> cs)"

definition set_user_conns :: "string \<Rightarrow> string \<Rightarrow> conn list \<Rightarrow> hub \<Rightarrow> hub" where
  "set_user_conns roomID userID cs h =
     h\<lparr>h_rooms := (h_rooms h)(roomID \<mapsto> AList.update userID cs (room_users h roomID))\<rparr>"

definition addConn :: "conn \<Rightarrow> string \<Rightarrow> string \<Rightarrow> hub \<Rightarrow> hub" where
  "addConn conn userID roomID h =
     (let h1 = h\<lparr>h_userIDs := (h_userIDs h)(conn \<mapsto> userID)\<rparr>;
          h2 = (if h_rooms h1 roomID = None then h1\<lparr>h_rooms := (h_rooms h1)(roomID \<mapsto> [])\<rparr> else h1);
          userConns = user_conns h2 roomID userID
      in if conn \<in> set userConns then h2
         else let h3 = set_user_conns roomID userID (userConns @ [conn]) h2
              in h3\<lparr>h_connRooms := (h_connRooms h3)(conn := List.insert roomID (h_connRooms h3 conn))\<rparr>)"

text \<open>Taking a connection out of one room: the first part of \<open>removeConn\<close> and the body of the loop
  of \<open>disconnectAll\<close>.\<close>

definition drop_from_room :: "conn \<Rightarrow> string \<Rightarrow> string \<Rightarrow> hub \<Rightarrow> hub" where
  "drop_from_room conn userID roomID h =
     (let conns = user_conns h roomID userID;
          h1 = (if conn \<in> set conns then set_user_conns roomID userID (remove1 conn conns) h else h);
          h2 = (if user_conns h1 roomID userID = []
                then h1\<lparr>h_rooms := (h_rooms h1)(roomID := map_option (AList.delete userID) (h_rooms h1 roomID))\<rparr>
                else h1)
      in if room_users h2 roomID = [] then h2\<lparr>h_rooms := (h_rooms h2)(roomID := None)\<rparr> else h2)"

definition removeConn :: "conn \<Rightarrow> string \<Rightarrow> hub \<Rightarrow> hub" where
  "removeConn conn roomID h =
     (case h_userIDs h conn of
        None \<Rightarrow> h
      | Some userID \<Rightarrow>
          if userID = [] then h
          else
            let h1 = drop_from_room conn userID roomID h;
                h2 = h1\<lparr>h_connRooms := (h_connRooms h1)(conn := removeAll roomID (h_connRooms h1 conn))\<rparr>
            in if h_connRooms h2 conn = [] then h2\<lparr>h_userIDs := (h_userIDs h2)(conn := None)\<rparr> else h2)"

definition disconnectAll :: "conn \<Rightarrow> hub \<Rightarrow> hub" where
  "disconnectAll conn h =
     (case h_userIDs h conn of
        None \<Rightarrow> h
      | Some userID \<Rightarrow>
          if userID = [] then h
          else
            let h1 = fold (drop_from_room conn userID) (h_connRooms h conn) h
            in h1\<lparr>h_connRooms := (h_connRooms h1)(conn := []), h_userIDs := (h_userIDs h1)(conn := None)\<rparr>)"

text \<open>The sends of \<open>sendToRoom\<close>: the connections of the room, with the data for each.\<close>

definition sendToRoom :: "string \<Rightarrow> Envelope \<Rightarrow> hub \<Rightarrow> (conn \<times> json) list" where
  "sendToRoom roomID envelope h =
     (let room = room_users h roomID
      in if length room = 0 then []
         else let data = marshal_Envelope envelope
              in concat (List.map (\<lambda>(_, conns). List.map (\<lambda>conn. (conn, data)) conns) room))"

definition getRoomUserCount :: "string \<Rightarrow> hub \<Rightarrow> nat" where
  "getRoomUserCount roomID h = length (room_users h roomID)"

section \<open>The tables agree\<close>

definition room_ok :: "(string \<times> conn list) list \<Rightarrow> bool" where
  "room_ok m \<longleftrightarrow> m \<noteq> [] \<and> distinct (List.map fst m) \<and> (\<forall>u cs. (u, cs) \<in> set m \<longrightarrow> cs \<noteq> [] \<and> distinct cs)"

definition rooms_ok :: "hub \<Rightarrow> bool" where
  "rooms_ok h \<longleftrightarrow> (\<forall>r m. h_rooms h r = Some m \<longrightarrow> room_ok m)"

definition hub_ok :: "hub \<Rightarrow> bool" where
  "hub_ok h \<longleftrightarrow> rooms_ok h \<and>
     (\<forall>r u c. c \<in> set (user_conns h r u) \<longleftrightarrow> h_userIDs h c = Some u \<and> r \<in> set (h_connRooms h c)) \<and>
     (\<forall>c. h_userIDs h c = None \<longleftrightarrow> h_connRooms h c = []) \<and>
     (\<forall>c. h_userIDs h c \<noteq> Some [] \<and> distinct (h_connRooms h c))"

definition subs :: "hub \<Rightarrow> (conn \<times> string) set" where
  "subs h = {(c, r). r \<in> set (h_connRooms h c)}"

lemma NewHub_ok: "hub_ok NewHub" "subs NewHub = {}"
  by (simp_all add: hub_ok_def rooms_ok_def NewHub_def user_conns_def room_users_def subs_def)

lemma hub_okD:
  assumes "hub_ok h"
  shows "rooms_ok h"
    and "c \<in> set (user_conns h r u) \<longleftrightarrow> h_userIDs h c = Some u \<and> r \<in> set (h_connRooms h c)"
    and "h_userIDs h c = None \<longleftrightarrow> h_connRooms h c = []" and "h_userIDs h c \<noteq> Some []"
    and "distinct (h_connRooms h c)"
  using assms by (simp_all add: hub_ok_def)

text \<open>Changing the connections of one user in one room, keeping the tables free of empty entries.\<close>

definition put_conns :: "string \<Rightarrow> string \<Rightarrow> conn list \<Rightarrow> hub \<Rightarrow> hub" where
  "put_conns r u cs h =
     (let m = (if cs = [] then AList.delete u (room_users h r) else AList.update u cs (room_users h r))
      in h\<lparr>h_rooms := (h_rooms h)(r := if m = [] then None else Some m)\<rparr>)"

lemma put_conns_simps [simp]:
  "h_userIDs (put_conns r u cs h) = h_userIDs h" "h_connRooms (put_conns r u cs h) = h_connRooms h"
  by (simp_all add: put_conns_def Let_def)

lemma user_conns_other_fields [simp]:
  "user_conns (h\<lparr>h_userIDs := a\<rparr>) = user_conns h" "user_conns (h\<lparr>h_connRooms := b\<rparr>) = user_conns h"
  "room_users (h\<lparr>h_userIDs := a\<rparr>) = room_users h" "room_users (h\<lparr>h_connRooms := b\<rparr>) = room_users h"
  "rooms_ok (h\<lparr>h_userIDs := a\<rparr>) = rooms_ok h" "rooms_ok (h\<lparr>h_connRooms := b\<rparr>) = rooms_ok h"
  by (simp_all add: fun_eq_iff user_conns_def room_users_def rooms_ok_def)

lemma room_users_put:
  "room_users (put_conns r u cs h) r' =
     (if r' = r then if cs = [] then AList.delete u (room_users h r) else AList.update u cs (room_users h r)
      else room_users h r')"
  by (simp add: put_conns_def Let_def room_users_def)

lemma user_conns_put [simp]:
  "user_conns (put_conns r u cs h) r' u' = (if r' = r \<and> u' = u then cs else user_conns h r' u')"
  by (simp add: user_conns_def room_users_put AList.update_conv' AList.delete_conv')

lemma room_users_ok:
  assumes "rooms_ok h"
  shows "distinct (List.map fst (room_users h r))" and "(v, cs) \<in> set (room_users h r) \<Longrightarrow> cs \<noteq> [] \<and> distinct cs"
  using assms unfolding rooms_ok_def room_ok_def room_users_def by (cases "h_rooms h r"; simp; blast)+

lemma user_conns_eq:
  assumes "rooms_ok h"
  shows "map_of (room_users h r) u = Some cs \<Longrightarrow> user_conns h r u = cs \<and> cs \<noteq> []" and "distinct (user_conns h r u)"
proof -
  show "map_of (room_users h r) u = Some cs \<Longrightarrow> user_conns h r u = cs \<and> cs \<noteq> []" for cs
    using room_users_ok(2) [OF assms, of u cs r] by (simp add: user_conns_def map_of_SomeD)
  show "distinct (user_conns h r u)"
    using room_users_ok(2) [OF assms, of u _ r] by (auto simp: user_conns_def map_of_SomeD split: option.split)
qed

lemma set_alist_update: "set (AList.update k v xs) \<subseteq> insert (k, v) (set xs)"
  by (induction xs) auto

lemma put_conns_ok:
  assumes "rooms_ok h" and "distinct cs"
  shows "rooms_ok (put_conns r u cs h)"
proof -
  note dist = room_users_ok(1) [OF assms(1), of r] and entries = room_users_ok(2) [OF assms(1), of _ _ r]
  have upd: "room_ok (AList.update u cs (room_users h r))" if "cs \<noteq> []"
    using that assms(2) entries set_alist_update [of u cs "room_users h r"]
    unfolding room_ok_def by (simp add: AList.distinct_update AList.update_nonempty dist) blast
  have "distinct (List.map fst (AList.delete u (room_users h r)))" using dist by (rule AList.distinct_delete)
  moreover have "set (AList.delete u (room_users h r)) \<subseteq> set (room_users h r)" by (auto simp: AList.delete_eq)
  ultimately have del: "AList.delete u (room_users h r) = [] \<or> room_ok (AList.delete u (room_users h r))"
    using entries unfolding room_ok_def by blast
  show ?thesis using assms(1) upd del by (auto simp: rooms_ok_def put_conns_def Let_def)
qed

lemma put_same:
  assumes "rooms_ok h"
  shows "put_conns r u (user_conns h r u) h = h"
proof (cases "map_of (room_users h r) u")
  case None
  then have "user_conns h r u = []" by (simp add: user_conns_def)
  moreover have "AList.delete u (room_users h r) = room_users h r"
    using None by (simp add: map_of_eq_None_iff)
  moreover have "(if room_users h r = [] then None else Some (room_users h r)) = h_rooms h r"
    using assms by (auto simp: room_users_def rooms_ok_def room_ok_def split: option.splits)
  ultimately show ?thesis by (simp add: put_conns_def Let_def)
next
  case (Some cs)
  then have "user_conns h r u = cs" "cs \<noteq> []" using user_conns_eq(1) [OF assms Some] by simp_all
  moreover have "AList.update u cs (room_users h r) = room_users h r" using Some by (rule AList.update_triv)
  moreover have "Some (room_users h r) = h_rooms h r" "room_users h r \<noteq> []"
    using Some by (auto simp: room_users_def split: option.splits)
  ultimately show ?thesis by (simp add: put_conns_def Let_def)
qed

text \<open>The operations in terms of \<open>put_conns\<close>.\<close>

lemma delete_update_key: "AList.delete k (AList.update k v xs) = AList.delete k xs"
  by (induction xs) auto

lemma set_conns_put: "cs \<noteq> [] \<Longrightarrow> set_user_conns r u cs h = put_conns r u cs h"
  by (simp add: set_user_conns_def put_conns_def Let_def AList.update_nonempty)

lemma drop_from_room_put:
  assumes "rooms_ok h"
  shows "drop_from_room c u r h = put_conns r u (remove1 c (user_conns h r u)) h"
proof (cases "c \<in> set (user_conns h r u)")
  case True
  let ?cs = "remove1 c (user_conns h r u)"
  let ?h = "set_user_conns r u ?cs h"
  have h: "h_rooms ?h r = Some (AList.update u ?cs (room_users h r))" by (simp add: set_user_conns_def)
  then have "user_conns ?h r u = ?cs" "room_users ?h r \<noteq> []"
    by (simp_all add: user_conns_def room_users_def AList.update_conv' AList.update_nonempty)
  then show ?thesis
    using True h set_conns_put [of ?cs r u h]
    by (cases "?cs = []")
      (simp_all add: drop_from_room_def Let_def put_conns_def room_users_def set_user_conns_def delete_update_key)
next
  case False
  then have same: "remove1 c (user_conns h r u) = user_conns h r u" by (simp add: remove1_idem)
  have "drop_from_room c u r h = put_conns r u (user_conns h r u) h"
  proof (cases "map_of (room_users h r) u")
    case None
    then have none: "user_conns h r u = []" "AList.delete u (room_users h r) = room_users h r"
      by (simp_all add: user_conns_def) (simp add: map_of_eq_None_iff)
    then show ?thesis using False
      by (cases "h_rooms h r") (auto simp: drop_from_room_def put_conns_def Let_def room_users_def)
  next
    case (Some cs)
    then have "user_conns h r u = cs" "cs \<noteq> []" using user_conns_eq(1) [OF assms Some] by simp_all
    moreover have "room_users h r \<noteq> []" using Some by auto
    ultimately show ?thesis using False put_same [OF assms, of r u] by (simp add: drop_from_room_def Let_def)
  qed
  then show ?thesis by (simp add: same)
qed

text \<open>Taking a connection out of several rooms.\<close>

lemma drop_from_rooms:
  assumes "rooms_ok h" and "distinct rs"
  shows "rooms_ok (fold (drop_from_room c u) rs h) \<and>
    h_userIDs (fold (drop_from_room c u) rs h) = h_userIDs h \<and>
    h_connRooms (fold (drop_from_room c u) rs h) = h_connRooms h \<and>
    user_conns (fold (drop_from_room c u) rs h) r' u' =
      (if u' = u \<and> r' \<in> set rs then remove1 c (user_conns h r' u') else user_conns h r' u')"
  using assms
proof (induction rs arbitrary: h)
  case (Cons r rs)
  have ok: "rooms_ok (drop_from_room c u r h)"
    using Cons.prems(1) user_conns_eq(2) [OF Cons.prems(1)]
    by (simp add: drop_from_room_put [OF Cons.prems(1)] put_conns_ok)
  from Cons.IH [OF ok] Cons.prems show ?case
    by (auto simp: drop_from_room_put [OF Cons.prems(1)])
qed simp

section \<open>Every operation keeps the tables\<close>

lemma addConn_put:
  assumes "hub_ok h"
  shows "addConn c u r h =
    (if c \<in> set (user_conns h r u) then h\<lparr>h_userIDs := (h_userIDs h)(c \<mapsto> u)\<rparr>
     else (put_conns r u (user_conns h r u @ [c]) (h\<lparr>h_userIDs := (h_userIDs h)(c \<mapsto> u)\<rparr>))
       \<lparr>h_connRooms := (h_connRooms h)(c := List.insert r (h_connRooms h c))\<rparr>)"
proof -
  let ?h1 = "h\<lparr>h_userIDs := (h_userIDs h)(c \<mapsto> u)\<rparr>"
  let ?h2 = "if h_rooms ?h1 r = None then ?h1\<lparr>h_rooms := (h_rooms ?h1)(r \<mapsto> [])\<rparr> else ?h1"
  have same: "user_conns ?h2 r u = user_conns h r u"
    by (auto simp: user_conns_def room_users_def)
  have seen: "h_rooms h r \<noteq> None" if "c \<in> set (user_conns h r u)"
    using that by (cases "h_rooms h r") (simp_all add: user_conns_def room_users_def)
  have set: "set_user_conns r u cs ?h2 = put_conns r u cs ?h1" if "cs \<noteq> []" for cs
    using that by (auto simp: set_conns_put) (simp add: put_conns_def room_users_def AList.update_nonempty Let_def)
  have snoc: "user_conns h r u @ [c] \<noteq> []" by simp
  show ?thesis
    unfolding addConn_def Let_def same set [OF snoc] using seen by auto
qed

text \<open>An operation that leaves \<open>c\<close>, a connection of \<open>u\<close>, in exactly the rooms \<open>rs\<close>, and the other
  connections alone.\<close>

lemma hub_ok_retarget:
  assumes "hub_ok h" and "rooms_ok h'" and "u \<noteq> []" and "distinct rs"
    and users: "\<And>r v d. d \<in> set (user_conns h' r v) \<longleftrightarrow>
      (if d = c then v = u \<and> r \<in> set rs else d \<in> set (user_conns h r v))"
    and rooms: "h_connRooms h' = (h_connRooms h)(c := rs)"
    and ids: "h_userIDs h' = (h_userIDs h)(c := if rs = [] then None else Some u)"
  shows "hub_ok h' \<and> subs h' = {p \<in> subs h. fst p \<noteq> c} \<union> {c} \<times> set rs"
proof -
  have "hub_ok h'"
    using assms(1-4) unfolding hub_ok_def users rooms ids by auto
  moreover have "subs h' = {p \<in> subs h. fst p \<noteq> c} \<union> {c} \<times> set rs"
    by (auto simp: subs_def rooms split: if_splits)
  ultimately show ?thesis by simp
qed

lemma hub_conns:
  assumes "hub_ok h" and "h_userIDs h c \<in> {None, Some u}"
  shows "c \<in> set (user_conns h r v) \<longleftrightarrow> v = u \<and> r \<in> set (h_connRooms h c)"
  using hub_okD(2,3) [OF assms(1)] assms(2) by auto

lemma addConn_ok:
  assumes "hub_ok h" and "h_userIDs h c \<in> {None, Some u}" and "u \<noteq> []"
  shows "hub_ok (addConn c u r h) \<and> subs (addConn c u r h) = insert (c, r) (subs h)"
proof -
  note ok = hub_okD(1) [OF assms(1)] and conns = hub_conns [OF assms(1,2)]
  let ?rs = "List.insert r (h_connRooms h c)"
  have "hub_ok (addConn c u r h) \<and> subs (addConn c u r h) = {p \<in> subs h. fst p \<noteq> c} \<union> {c} \<times> set ?rs"
  proof (rule hub_ok_retarget [OF assms(1) _ assms(3)])
    have "distinct (user_conns h r u @ [c])" if "c \<notin> set (user_conns h r u)"
      using that user_conns_eq(2) [OF ok] by simp
    then show "rooms_ok (addConn c u r h)"
      using ok by (simp add: addConn_put [OF assms(1)] put_conns_ok)
    show "distinct ?rs" using hub_okD(5) [OF assms(1), of c] by (simp add: List.distinct_insert)
    show "(d \<in> set (user_conns (addConn c u r h) q v)) =
        (if d = c then v = u \<and> q \<in> set ?rs else d \<in> set (user_conns h q v))" for q v d
      using conns by (auto simp: addConn_put [OF assms(1)])
    show "h_connRooms (addConn c u r h) = (h_connRooms h)(c := ?rs)"
      using conns by (simp add: addConn_put [OF assms(1)] List.insert_def)
    have "?rs \<noteq> []" by (auto simp: List.insert_def)
    then show "h_userIDs (addConn c u r h) = (h_userIDs h)(c := if ?rs = [] then None else Some u)"
      by (simp add: addConn_put [OF assms(1)])
  qed
  then show ?thesis by (auto simp: subs_def)
qed

lemma hub_user:
  assumes "hub_ok h"
  obtains (unknown) "h_userIDs h c = None" "h_connRooms h c = []"
    | (user) u where "h_userIDs h c = Some u" "u \<noteq> []"
  using hub_okD(3,4) [OF assms, of c] by (cases "h_userIDs h c") auto

lemma removeConn_ok:
  assumes "hub_ok h"
  shows "hub_ok (removeConn c r h) \<and> subs (removeConn c r h) = subs h - {(c, r)}"
proof (cases rule: hub_user [OF assms, of c])
  case 1
  with assms show ?thesis by (auto simp: removeConn_def subs_def)
next
  case user: (2 u)
  then have conns: "c \<in> set (user_conns h q v) \<longleftrightarrow> v = u \<and> q \<in> set (h_connRooms h c)" for q v
    using hub_conns [OF assms] by simp
  note ok = hub_okD(1) [OF assms]
  let ?rs = "removeAll r (h_connRooms h c)"
  have "hub_ok (removeConn c r h) \<and> subs (removeConn c r h) = {p \<in> subs h. fst p \<noteq> c} \<union> {c} \<times> set ?rs"
  proof (rule hub_ok_retarget [OF assms _ user(2)])
    show "rooms_ok (removeConn c r h)" using ok user_conns_eq(2) [OF ok]
      by (simp add: removeConn_def Let_def user drop_from_room_put put_conns_ok)
    show "distinct ?rs" using hub_okD(5) [OF assms] by (rule distinct_removeAll)
    show "(d \<in> set (user_conns (removeConn c r h) q v)) =
        (if d = c then v = u \<and> q \<in> set ?rs else d \<in> set (user_conns h q v))" for q v d
      using conns user_conns_eq(2) [OF ok]
      by (auto simp: removeConn_def Let_def user drop_from_room_put [OF ok])
    show "h_connRooms (removeConn c r h) = (h_connRooms h)(c := ?rs)"
      by (simp add: removeConn_def Let_def user drop_from_room_put [OF ok])
    have "h_userIDs (removeConn c r h) = (if ?rs = [] then (h_userIDs h)(c := None) else h_userIDs h)"
      by (simp add: removeConn_def Let_def user drop_from_room_put [OF ok])
    moreover have "(h_userIDs h)(c := Some u) = h_userIDs h" using user(1) by (rule fun_upd_idem)
    ultimately show "h_userIDs (removeConn c r h) = (h_userIDs h)(c := if ?rs = [] then None else Some u)"
      by presburger
  qed
  moreover have "{p \<in> subs h. fst p \<noteq> c} \<union> {c} \<times> set ?rs = subs h - {(c, r)}"
    by (auto simp: subs_def)
  ultimately show ?thesis by simp
qed

lemma disconnectAll_ok:
  assumes "hub_ok h"
  shows "hub_ok (disconnectAll c h) \<and> subs (disconnectAll c h) = {p \<in> subs h. fst p \<noteq> c}"
proof (cases rule: hub_user [OF assms, of c])
  case 1
  with assms show ?thesis by (auto simp: disconnectAll_def subs_def)
next
  case user: (2 u)
  then have conns: "c \<in> set (user_conns h q v) \<longleftrightarrow> v = u \<and> q \<in> set (h_connRooms h c)" for q v
    using hub_conns [OF assms] by simp
  note ok = hub_okD(1) [OF assms]
  note dropped = drop_from_rooms [OF ok hub_okD(5) [OF assms, of c], of c u]
  have "hub_ok (disconnectAll c h) \<and> subs (disconnectAll c h) = {p \<in> subs h. fst p \<noteq> c} \<union> {c} \<times> set []"
  proof (rule hub_ok_retarget [OF assms _ user(2)])
    show "(d \<in> set (user_conns (disconnectAll c h) q v)) =
        (if d = c then v = u \<and> q \<in> set [] else d \<in> set (user_conns h q v))" for q v d
      using conns user_conns_eq(2) [OF ok] dropped
      by (auto simp: disconnectAll_def Let_def user)
  qed (use dropped user in \<open>simp_all add: disconnectAll_def Let_def\<close>)
  then show ?thesis by simp
qed

section \<open>Sending\<close>

text \<open>\<open>sendToRoom\<close> sends once to each connection that listens to the room and to nobody else.\<close>

lemma room_users_conns:
  assumes "rooms_ok h"
  shows "(u, cs) \<in> set (room_users h r) \<longleftrightarrow> cs = user_conns h r u \<and> cs \<noteq> []"
proof -
  have "map_of (room_users h r) u = Some cs \<longleftrightarrow> (u, cs) \<in> set (room_users h r)"
    using room_users_ok(1) [OF assms] by simp
  moreover have "map_of (room_users h r) u = Some cs \<longleftrightarrow> cs = user_conns h r u \<and> cs \<noteq> []"
    using user_conns_eq(1) [OF assms] by (auto simp: user_conns_def split: option.splits)
  ultimately show ?thesis by simp
qed

lemma hub_ok_user_conns:
  assumes "hub_ok h"
  shows "c \<in> set (user_conns h r u) \<longleftrightarrow> (c, r) \<in> subs h \<and> h_userIDs h c = Some u"
  using hub_okD(2) [OF assms] by (auto simp: subs_def)

lemma subs_user:
  assumes "hub_ok h" and "(c, r) \<in> subs h"
  shows "\<exists>u. h_userIDs h c = Some u \<and> c \<in> set (user_conns h r u)"
  using hub_okD(2,3) [OF assms(1), of c] assms(2) by (cases "h_userIDs h c") (auto simp: subs_def)

lemma sendToRoom_data: "(c, d) \<in> set (sendToRoom r e h) \<Longrightarrow> d = marshal_Envelope e"
  by (auto simp: sendToRoom_def Let_def split: if_splits)

lemma sendToRoom_concat:
  "List.map fst (sendToRoom r e h) = concat (List.map snd (room_users h r))"
  by (auto simp: sendToRoom_def Let_def List.map_concat comp_def split_def)

lemma sendToRoom_targets:
  assumes "hub_ok h"
  shows "set (List.map fst (sendToRoom r e h)) = {c. (c, r) \<in> subs h}"
proof -
  have "c \<in> (\<Union>x \<in> set (room_users h r). set (snd x)) \<longleftrightarrow> (\<exists>u. c \<in> set (user_conns h r u))" for c
    using room_users_conns [OF hub_okD(1) [OF assms]] by force
  then show ?thesis
    using subs_user [OF assms] hub_ok_user_conns [OF assms] by (auto simp: sendToRoom_concat)
qed

lemma sendToRoom_once:
  assumes "hub_ok h"
  shows "distinct (List.map fst (sendToRoom r e h))"
proof -
  have disjoint: "u = v" if "c \<in> set (user_conns h r u)" "c \<in> set (user_conns h r v)" for u v c
    using that hub_okD(2) [OF assms] by force
  note entries = room_users_conns [OF hub_okD(1) [OF assms], of _ _ r]
  have "distinct (concat (List.map snd m))" if "set m \<subseteq> set (room_users h r)" "distinct (List.map fst m)" for m
    using that
  proof (induction m)
    case (Cons x m)
    obtain u cs where x: "x = (u, cs)" by (cases x)
    have cs: "cs = user_conns h r u" using Cons.prems(1) entries x by auto
    have "ds = user_conns h r v" "v \<noteq> u" if "(v, ds) \<in> set m" for v ds
    proof -
      have "(v, ds) \<in> set (room_users h r)" using that Cons.prems(1) by auto
      then show "ds = user_conns h r v" using entries by simp
      show "v \<noteq> u" using Cons.prems(2) x that by (auto simp: rev_image_eqI)
    qed
    then have "c \<notin> set ds" if "(v, ds) \<in> set m" "c \<in> set cs" for v ds c
      using that disjoint cs by metis
    then have "set cs \<inter> set (concat (List.map snd m)) = {}" by fastforce
    moreover have "distinct cs" unfolding cs using user_conns_eq(2) [OF hub_okD(1) [OF assms]] .
    moreover have "distinct (concat (List.map snd m))" using Cons.IH Cons.prems by auto
    ultimately show ?case by (simp add: x)
  qed simp
  then show ?thesis
    using room_users_ok(1) [OF hub_okD(1) [OF assms]] by (simp add: sendToRoom_concat)
qed

lemma getRoomUserCount_users:
  assumes "hub_ok h"
  shows "getRoomUserCount r h = card {u. \<exists>c. (c, r) \<in> subs h \<and> h_userIDs h c = Some u}"
proof -
  have "set (List.map fst (room_users h r)) = {u. user_conns h r u \<noteq> []}"
    using room_users_conns [OF hub_okD(1) [OF assms], of _ _ r] by force
  also have "\<dots> = {u. \<exists>c. (c, r) \<in> subs h \<and> h_userIDs h c = Some u}"
    using hub_ok_user_conns [OF assms] by (metis (no_types) last_in_set empty_iff empty_set)
  finally show ?thesis
    using distinct_card [OF room_users_ok(1) [OF hub_okD(1) [OF assms]], of r]
    by (simp add: getRoomUserCount_def)
qed

section \<open>Any order of events\<close>

text \<open>What the goroutine of \<open>Run\<close> does with a message from one of its channels.\<close>

datatype hub_event =
    Registration conn string string
  | Unregistration conn string
  | Disconnection conn

fun hub_apply :: "hub_event \<Rightarrow> hub \<Rightarrow> hub" where
  "hub_apply (Registration conn userID roomID) h = addConn conn userID roomID h"
| "hub_apply (Unregistration conn roomID) h = removeConn conn roomID h"
| "hub_apply (Disconnection conn) h = disconnectAll conn h"

text \<open>A connection belongs to one user for life: the handler registers it under the user of its
  ticket only.\<close>

fun owned_event :: "(conn \<Rightarrow> string) \<Rightarrow> hub_event \<Rightarrow> bool" where
  "owned_event owner (Registration c u r) \<longleftrightarrow> u = owner c \<and> owner c \<noteq> []"
| "owned_event owner _ \<longleftrightarrow> True"

text \<open>What listening means: the last event about the pair decides.\<close>

fun last_word :: "conn \<Rightarrow> string \<Rightarrow> hub_event \<Rightarrow> bool \<Rightarrow> bool" where
  "last_word c r (Registration c' _ r') b = (if c' = c \<and> r' = r then True else b)"
| "last_word c r (Unregistration c' r') b = (if c' = c \<and> r' = r then False else b)"
| "last_word c r (Disconnection c') b = (if c' = c then False else b)"

definition listens :: "hub_event list \<Rightarrow> conn \<Rightarrow> string \<Rightarrow> bool" where
  "listens evs c r = fold (last_word c r) evs False"

text \<open>The contract of a table of subscriptions: it answers every sequence of events as \<open>listens\<close>.\<close>

locale subscriptions =
  fixes event_apply :: "hub_event \<Rightarrow> 's \<Rightarrow> 's" and subscribed :: "'s \<Rightarrow> (conn \<times> string) set"
    and invar :: "'s \<Rightarrow> bool" and allowed :: "hub_event \<Rightarrow> bool"
  assumes keeps: "invar s \<Longrightarrow> allowed e \<Longrightarrow> invar (event_apply e s)"
    and adds: "invar s \<Longrightarrow> allowed (Registration c u r) \<Longrightarrow>
      subscribed (event_apply (Registration c u r) s) = insert (c, r) (subscribed s)"
    and removes: "invar s \<Longrightarrow> subscribed (event_apply (Unregistration c r) s) = subscribed s - {(c, r)}"
    and forgets: "invar s \<Longrightarrow> subscribed (event_apply (Disconnection c) s) = {p \<in> subscribed s. fst p \<noteq> c}"
begin

lemma one_event:
  assumes "invar s" and "allowed e"
  shows "(c, r) \<in> subscribed (event_apply e s) \<longleftrightarrow> last_word c r e ((c, r) \<in> subscribed s)"
  using assms adds removes forgets by (cases e) auto

lemma all_events:
  assumes "invar s" and "\<forall>e \<in> set evs. allowed e"
  shows "invar (fold event_apply evs s) \<and>
    ((c, r) \<in> subscribed (fold event_apply evs s) \<longleftrightarrow> fold (last_word c r) evs ((c, r) \<in> subscribed s))"
  using assms by (induction evs arbitrary: s) (auto simp: keeps one_event)

lemma from_start:
  assumes "invar s" and "subscribed s = {}" and "\<forall>e \<in> set evs. allowed e"
  shows "invar (fold event_apply evs s) \<and> subscribed (fold event_apply evs s) = {(c, r). listens evs c r}"
  using all_events [OF assms(1,3)] assms(2) by (auto simp: listens_def)

end

text \<open>The hub provides it, while every connection keeps to its user.\<close>

definition owned :: "(conn \<Rightarrow> string) \<Rightarrow> hub \<Rightarrow> bool" where
  "owned owner h \<longleftrightarrow> hub_ok h \<and> (\<forall>c. h_userIDs h c \<in> {None, Some (owner c)})"

lemma drop_from_room_ids:
  "h_userIDs (drop_from_room c u r h) = h_userIDs h"
  by (simp add: drop_from_room_def set_user_conns_def Let_def)

lemma drop_from_rooms_ids: "h_userIDs (fold (drop_from_room c u) rs h) = h_userIDs h"
  by (induction rs arbitrary: h) (simp_all add: drop_from_room_ids)

lemma hub_apply_ids:
  "h_userIDs (removeConn c r h) d \<in> {None, h_userIDs h d}"
  "h_userIDs (disconnectAll c h) d \<in> {None, h_userIDs h d}"
  "h_userIDs (addConn c u r h) d = (if d = c then Some u else h_userIDs h d)"
  by (auto simp: removeConn_def disconnectAll_def addConn_def set_user_conns_def Let_def drop_from_room_ids
      drop_from_rooms_ids split: option.splits)

lemma ownedI: "hub_ok h \<Longrightarrow> (\<And>c. h_userIDs h c \<in> {None, Some (owner c)}) \<Longrightarrow> owned owner h"
  by (simp add: owned_def)

lemma owned_apply:
  assumes "owned owner h" and "owned_event owner e"
  shows "owned owner (hub_apply e h)"
proof -
  have ok: "hub_ok h" and ids: "h_userIDs h c \<in> {None, Some (owner c)}" for c
    using assms(1) by (simp_all add: owned_def)
  show ?thesis
  proof (cases e)
    case (Registration c u r)
    then have u: "u = owner c" "owner c \<noteq> []" using assms(2) by auto
    then have "hub_ok (addConn c u r h)" using addConn_ok [OF ok] ids by blast
    then show ?thesis unfolding Registration hub_apply.simps
      using ids by (intro ownedI) (auto simp: hub_apply_ids(3) u(1))
  next
    case (Unregistration c r)
    have "hub_ok (removeConn c r h)" using removeConn_ok [OF ok] by blast
    then show ?thesis unfolding Unregistration hub_apply.simps
    proof (rule ownedI)
      show "h_userIDs (removeConn c r h) d \<in> {None, Some (owner d)}" for d
        using hub_apply_ids(1) [of c r h d] ids [of d] by (metis insert_iff singleton_iff)
    qed
  next
    case (Disconnection c)
    have "hub_ok (disconnectAll c h)" using disconnectAll_ok [OF ok] by blast
    then show ?thesis unfolding Disconnection hub_apply.simps
    proof (rule ownedI)
      show "h_userIDs (disconnectAll c h) d \<in> {None, Some (owner d)}" for d
        using hub_apply_ids(2) [of c h d] ids [of d] by (metis insert_iff singleton_iff)
    qed
  qed
qed

interpretation hs: subscriptions hub_apply subs "owned owner" "owned_event owner" for owner
proof
  show "owned owner s \<Longrightarrow> owned_event owner e \<Longrightarrow> owned owner (hub_apply e s)" for s e
    by (rule owned_apply)
  fix s assume s: "owned owner s"
  then have ok: "hub_ok s" and ids: "h_userIDs s c \<in> {None, Some (owner c)}" for c by (simp_all add: owned_def)
  show "owned_event owner (Registration c u r) \<Longrightarrow>
      subs (hub_apply (Registration c u r) s) = insert (c, r) (subs s)" for c u r
    using addConn_ok [OF ok ids [of c], of r] by auto
  show "subs (hub_apply (Unregistration c r) s) = subs s - {(c, r)}" for c r
    using removeConn_ok [OF ok] by simp
  show "subs (hub_apply (Disconnection c) s) = {p \<in> subs s. fst p \<noteq> c}" for c
    using disconnectAll_ok [OF ok] by simp
qed

lemma NewHub_owned: "owned owner NewHub"
  using NewHub_ok(1) by (simp add: owned_def) (simp add: NewHub_def)

end
