(* ===== verification/HubActor.thy ===== *)
theory HubActor
  imports Hub
begin

text \<open>
  The hub as an actor: \<open>Register\<close>, \<open>Unregister\<close>, \<open>Disconnect\<close>, \<open>BroadcastToRoom\<close> and
  \<open>GetRoomUserCount\<close> send to one channel each, and \<open>Run\<close> takes from any channel that has
  something (\<open>hub_step\<close>, the interleavings of the callers and of \<open>Run\<close>).  A channel keeps its own
  order, but \<open>Run\<close> may serve the channels in any order.

  Two ghost fields record the calls in the order the callers made them and in the order \<open>Run\<close>
  served them; what was served decides who listens, and a broadcast goes to exactly those.
\<close>

section \<open>Channels\<close>

record ConnRegistration =
  reg_Conn :: conn
  reg_UserID :: string
  reg_RoomID :: string

record ConnUnregistration =
  unreg_Conn :: conn
  unreg_RoomID :: string

record BroadcastMessage =
  bm_RoomID :: string
  bm_Envelope :: Envelope

text \<open>A count request waits with its reply channel; the answers are collected in order.\<close>

record hub_actor =
  ha_hub :: hub
  ha_buffer :: nat
  ha_register :: "ConnRegistration list"
  ha_unregister :: "ConnUnregistration list"
  ha_disconnect :: "conn list"
  ha_broadcast :: "BroadcastMessage list"
  ha_roomCount :: "string list"
  ha_out :: "(conn \<times> json) list"
  ha_counts :: "nat list"
  ha_calls :: "hub_event list"
  ha_served :: "hub_event list"

definition new_actor :: "nat \<Rightarrow> hub_actor" where
  "new_actor bufferSize =
     \<lparr>ha_hub = NewHub, ha_buffer = bufferSize, ha_register = [], ha_unregister = [], ha_disconnect = [],
      ha_broadcast = [], ha_roomCount = [], ha_out = [], ha_counts = [], ha_calls = [], ha_served = []\<rparr>"

text \<open>The callers.\<close>

definition hub_Register :: "conn \<Rightarrow> string \<Rightarrow> string \<Rightarrow> hub_actor \<Rightarrow> hub_actor" where
  "hub_Register conn userID roomID a =
     a\<lparr>ha_register := ha_register a @ [\<lparr>reg_Conn = conn, reg_UserID = userID, reg_RoomID = roomID\<rparr>],
       ha_calls := ha_calls a @ [Registration conn userID roomID]\<rparr>"

definition hub_Unregister :: "conn \<Rightarrow> string \<Rightarrow> hub_actor \<Rightarrow> hub_actor" where
  "hub_Unregister conn roomID a =
     a\<lparr>ha_unregister := ha_unregister a @ [\<lparr>unreg_Conn = conn, unreg_RoomID = roomID\<rparr>],
       ha_calls := ha_calls a @ [Unregistration conn roomID]\<rparr>"

definition hub_Disconnect :: "conn \<Rightarrow> hub_actor \<Rightarrow> hub_actor" where
  "hub_Disconnect conn a =
     a\<lparr>ha_disconnect := ha_disconnect a @ [conn], ha_calls := ha_calls a @ [Disconnection conn]\<rparr>"

definition hub_BroadcastToRoom :: "string \<Rightarrow> Envelope \<Rightarrow> hub_actor \<Rightarrow> hub_actor" where
  "hub_BroadcastToRoom roomID envelope a =
     a\<lparr>ha_broadcast := ha_broadcast a @ [\<lparr>bm_RoomID = roomID, bm_Envelope = envelope\<rparr>]\<rparr>"

definition hub_GetRoomUserCount :: "string \<Rightarrow> hub_actor \<Rightarrow> hub_actor" where
  "hub_GetRoomUserCount roomID a = a\<lparr>ha_roomCount := ha_roomCount a @ [roomID]\<rparr>"

text \<open>The branches of the \<open>select\<close> in \<open>Run\<close>: \<open>None\<close> when the channel is empty.\<close>

datatype hub_case = CaseRegister | CaseUnregister | CaseDisconnect | CaseBroadcast | CaseRoomCount

fun Run_case :: "hub_case \<Rightarrow> hub_actor \<Rightarrow> hub_actor option" where
  "Run_case CaseRegister a =
     (case ha_register a of
        [] \<Rightarrow> None
      | reg # q \<Rightarrow> Some (a\<lparr>ha_register := q, ha_hub := addConn (reg_Conn reg) (reg_UserID reg) (reg_RoomID reg) (ha_hub a),
          ha_served := ha_served a @ [Registration (reg_Conn reg) (reg_UserID reg) (reg_RoomID reg)]\<rparr>))"
| "Run_case CaseUnregister a =
     (case ha_unregister a of
        [] \<Rightarrow> None
      | unreg # q \<Rightarrow> Some (a\<lparr>ha_unregister := q, ha_hub := removeConn (unreg_Conn unreg) (unreg_RoomID unreg) (ha_hub a),
          ha_served := ha_served a @ [Unregistration (unreg_Conn unreg) (unreg_RoomID unreg)]\<rparr>))"
| "Run_case CaseDisconnect a =
     (case ha_disconnect a of
        [] \<Rightarrow> None
      | conn # q \<Rightarrow> Some (a\<lparr>ha_disconnect := q, ha_hub := disconnectAll conn (ha_hub a),
          ha_served := ha_served a @ [Disconnection conn]\<rparr>))"
| "Run_case CaseBroadcast a =
     (case ha_broadcast a of
        [] \<Rightarrow> None
      | msg # q \<Rightarrow> Some (a\<lparr>ha_broadcast := q,
          ha_out := ha_out a @ sendToRoom (bm_RoomID msg) (bm_Envelope msg) (ha_hub a)\<rparr>))"
| "Run_case CaseRoomCount a =
     (case ha_roomCount a of
        [] \<Rightarrow> None
      | roomID # q \<Rightarrow> Some (a\<lparr>ha_roomCount := q, ha_counts := ha_counts a @ [getRoomUserCount roomID (ha_hub a)]\<rparr>))"

text \<open>A channel holds as many messages as its buffer; an unbuffered one has its sender wait, which is
  one message that \<open>Run\<close> has yet to take.\<close>

definition has_room :: "hub_actor \<Rightarrow> 'a list \<Rightarrow> bool" where
  "has_room a q \<longleftrightarrow> length q < max 1 (ha_buffer a)"

inductive hub_step :: "(conn \<Rightarrow> string) \<Rightarrow> hub_actor \<Rightarrow> hub_actor \<Rightarrow> bool" for owner where
  register: "has_room a (ha_register a) \<Longrightarrow> owner conn \<noteq> [] \<Longrightarrow>
    hub_step owner a (hub_Register conn (owner conn) roomID a)"
| unregister: "has_room a (ha_unregister a) \<Longrightarrow> hub_step owner a (hub_Unregister conn roomID a)"
| disconnect: "has_room a (ha_disconnect a) \<Longrightarrow> hub_step owner a (hub_Disconnect conn a)"
| broadcast: "has_room a (ha_broadcast a) \<Longrightarrow> hub_step owner a (hub_BroadcastToRoom roomID envelope a)"
| room_count: "has_room a (ha_roomCount a) \<Longrightarrow> hub_step owner a (hub_GetRoomUserCount roomID a)"
| run: "Run_case sel a = Some a' \<Longrightarrow> hub_step owner a a'"

definition hub_reach :: "(conn \<Rightarrow> string) \<Rightarrow> nat \<Rightarrow> hub_actor \<Rightarrow> bool" where
  "hub_reach owner bufferSize a \<longleftrightarrow> (hub_step owner)\<^sup>*\<^sup>* (new_actor bufferSize) a"

section \<open>What holds in every reachable state\<close>

fun is_registration :: "hub_event \<Rightarrow> bool" where
  "is_registration (Registration _ _ _) = True"
| "is_registration _ = False"

fun is_unregistration :: "hub_event \<Rightarrow> bool" where
  "is_unregistration (Unregistration _ _) = True"
| "is_unregistration _ = False"

fun is_disconnection :: "hub_event \<Rightarrow> bool" where
  "is_disconnection (Disconnection _) = True"
| "is_disconnection _ = False"

text \<open>The messages that wait in the three channels that change the tables.\<close>

definition pending_registrations :: "hub_actor \<Rightarrow> hub_event list" where
  "pending_registrations a = List.map (\<lambda>r. Registration (reg_Conn r) (reg_UserID r) (reg_RoomID r)) (ha_register a)"

definition pending_unregistrations :: "hub_actor \<Rightarrow> hub_event list" where
  "pending_unregistrations a = List.map (\<lambda>r. Unregistration (unreg_Conn r) (unreg_RoomID r)) (ha_unregister a)"

definition pending_disconnections :: "hub_actor \<Rightarrow> hub_event list" where
  "pending_disconnections a = List.map Disconnection (ha_disconnect a)"

lemmas pending_defs = pending_registrations_def pending_unregistrations_def pending_disconnections_def

definition in_order :: "hub_actor \<Rightarrow> bool" where
  "in_order a \<longleftrightarrow>
     filter is_registration (ha_calls a) = filter is_registration (ha_served a) @ pending_registrations a \<and>
     filter is_unregistration (ha_calls a) = filter is_unregistration (ha_served a) @ pending_unregistrations a \<and>
     filter is_disconnection (ha_calls a) = filter is_disconnection (ha_served a) @ pending_disconnections a"

definition within_buffers :: "hub_actor \<Rightarrow> bool" where
  "within_buffers a \<longleftrightarrow>
     length (ha_register a) \<le> max 1 (ha_buffer a) \<and> length (ha_unregister a) \<le> max 1 (ha_buffer a) \<and>
     length (ha_disconnect a) \<le> max 1 (ha_buffer a) \<and> length (ha_broadcast a) \<le> max 1 (ha_buffer a) \<and>
     length (ha_roomCount a) \<le> max 1 (ha_buffer a)"

definition actor_inv :: "(conn \<Rightarrow> string) \<Rightarrow> hub_actor \<Rightarrow> bool" where
  "actor_inv owner a \<longleftrightarrow> in_order a \<and> within_buffers a \<and>
     (\<forall>e \<in> set (ha_served a) \<union> set (pending_registrations a). owned_event owner e) \<and>
     ha_hub a = fold hub_apply (ha_served a) NewHub"

lemmas caller_defs = hub_Register_def hub_Unregister_def hub_Disconnect_def hub_BroadcastToRoom_def
  hub_GetRoomUserCount_def

lemma Run_case_inv: "actor_inv owner a \<Longrightarrow> Run_case sel a = Some a' \<Longrightarrow> actor_inv owner a'"
  by (cases sel) (clarsimp simp: actor_inv_def in_order_def within_buffers_def pending_defs split: list.splits)+

lemma hub_step_inv: "hub_step owner a a' \<Longrightarrow> actor_inv owner a \<Longrightarrow> actor_inv owner a'"
proof (induction rule: hub_step.induct)
  case (run sel a a')
  then show ?case by (blast intro: Run_case_inv)
qed (simp_all add: actor_inv_def in_order_def within_buffers_def has_room_def pending_defs caller_defs)

lemma hub_reach_inv: "hub_reach owner n a \<Longrightarrow> actor_inv owner a"
proof -
  have start: "actor_inv owner (new_actor n)"
    by (simp add: actor_inv_def in_order_def within_buffers_def pending_defs new_actor_def)
  have "(hub_step owner)\<^sup>*\<^sup>* (new_actor n) a \<Longrightarrow> actor_inv owner a"
    by (induction rule: rtranclp_induct) (blast intro: start hub_step_inv)+
  then show "hub_reach owner n a \<Longrightarrow> actor_inv owner a" by (simp add: hub_reach_def)
qed

lemma hub_reach_subs:
  assumes "hub_reach owner n a"
  shows "hub_ok (ha_hub a) \<and> subs (ha_hub a) = {(c, r). listens (ha_served a) c r}"
proof -
  have "actor_inv owner a" using assms by (rule hub_reach_inv)
  then show ?thesis
    using hs.from_start [OF NewHub_owned NewHub_ok(2), of "ha_served a" owner]
    by (auto simp: actor_inv_def owned_def)
qed

text \<open>Reachability step by step.\<close>

lemma reach_new: "hub_reach owner n (new_actor n)"
  by (simp add: hub_reach_def)

lemma reach_step: "hub_reach owner n a \<Longrightarrow> hub_step owner a a' \<Longrightarrow> hub_reach owner n a'"
  unfolding hub_reach_def by (rule rtranclp.rtrancl_into_rtrancl)

lemmas reach_run = reach_step [OF _ hub_step.run]
lemmas reach_register = reach_step [OF _ hub_step.register]
lemmas reach_disconnect = reach_step [OF _ hub_step.disconnect]
lemmas reach_broadcast = reach_step [OF _ hub_step.broadcast]

lemma has_room_empty [simp]: "has_room a []"
  by (simp add: has_room_def)

text \<open>After a registration and a disconnection of the same connection, with nothing served yet.\<close>

definition after_both :: "nat \<Rightarrow> conn \<Rightarrow> string \<Rightarrow> string \<Rightarrow> hub_actor" where
  "after_both n c u r = hub_Disconnect c (hub_Register c u r (new_actor n))"

lemma reach_both: "owner c \<noteq> [] \<Longrightarrow> hub_reach owner n (after_both n c (owner c) r)"
  unfolding after_both_def
  by (intro reach_disconnect reach_register reach_new) (simp_all add: new_actor_def hub_Register_def)

definition drained :: "hub_actor \<Rightarrow> bool" where
  "drained a \<longleftrightarrow> ha_register a = [] \<and> ha_unregister a = [] \<and> ha_disconnect a = [] \<and> ha_broadcast a = [] \<and>
     ha_roomCount a = []"

lemma hub_reach_order:
  assumes "owner c \<noteq> []" and "set order = {CaseRegister, CaseDisconnect}" and "length order = 2"
  shows "\<exists>a. hub_reach owner n a \<and> drained a \<and>
    ha_calls a = [Registration c (owner c) r, Disconnection c] \<and>
    ha_served a = (if hd order = CaseRegister then [Registration c (owner c) r, Disconnection c]
      else [Disconnection c, Registration c (owner c) r])"
proof -
  have run: "hub_reach owner n a2" if "Run_case s1 (after_both n c (owner c) r) = Some a1" "Run_case s2 a1 = Some a2" for s1 s2 a1 a2
    using reach_run [OF reach_run [OF reach_both [of owner c n r, OF assms(1)] that(1)] that(2)] .
  obtain s1 s2 where "order = [s1, s2]" using assms(3) by (auto simp: numeral_2_eq_2 length_Suc_conv)
  moreover have "{s1, s2} = {CaseRegister, CaseDisconnect}" using assms(2) calculation by simp
  ultimately consider "order = [CaseRegister, CaseDisconnect]" | "order = [CaseDisconnect, CaseRegister]"
    by (auto simp: doubleton_eq_iff)
  then show ?thesis
  proof cases
    case 1
    show ?thesis
      by (rule exI, rule conjI, rule run [of CaseRegister _ CaseDisconnect])
        (auto simp: 1 after_both_def caller_defs new_actor_def drained_def)
  next
    case 2
    show ?thesis
      by (rule exI, rule conjI, rule run [of CaseDisconnect _ CaseRegister])
        (auto simp: 2 after_both_def caller_defs new_actor_def drained_def)
  qed
qed

section \<open>Properties\<close>

text \<open>C12: Whatever the callers do and however \<open>Run\<close> picks among its channels, the tables of the hub
  agree with each other; who listens to a room is decided, for each connection, by the last
  registration, unregistration or disconnection that was served; each kind of call is served in the
  order it was made, and no channel holds more than its buffer.\<close>

theorem hub_reachable:
  assumes "hub_reach owner bufferSize a"
  shows "hub_ok (ha_hub a) \<and> subs (ha_hub a) = {(c, r). listens (ha_served a) c r} \<and> in_order a \<and> within_buffers a"
  using hub_reach_subs [OF assms] hub_reach_inv [OF assms] by (simp add: actor_inv_def)

theorem hub_reachable_witness:
  "hub_ok (ha_hub (after_both 8 3 ''ann'' ''lobby'')) \<and> \<not> listens (ha_served (after_both 8 3 ''ann'' ''lobby'')) 3 ''lobby''"
proof -
  have "hub_reach (\<lambda>_. ''ann'') 8 (after_both 8 3 ''ann'' ''lobby'')"
    using reach_both [of "\<lambda>_. ''ann''" 3 8 "''lobby''"] by simp
  from hub_reachable [OF this] show ?thesis
    by (auto simp: after_both_def caller_defs new_actor_def listens_def)
qed

text \<open>C34: A broadcast that \<open>Run\<close> serves in a reachable state goes, as the same envelope, once to
  each connection that listens to the room and to no other; and a count is the number of users
  with a listening connection.\<close>

theorem hub_broadcast:
  assumes "hub_reach owner bufferSize a" and "Run_case CaseBroadcast a = Some a'"
  shows "\<exists>msg xs. ha_broadcast a = msg # ha_broadcast a' \<and> ha_out a' = ha_out a @ xs \<and>
    distinct (List.map fst xs) \<and> fst ` set xs = {c. listens (ha_served a) c (bm_RoomID msg)} \<and>
    (\<forall>(c, d) \<in> set xs. d = marshal_Envelope (bm_Envelope msg)) \<and>
    getRoomUserCount (bm_RoomID msg) (ha_hub a) =
      card {u. \<exists>c. listens (ha_served a) c (bm_RoomID msg) \<and> h_userIDs (ha_hub a) c = Some u}"
proof -
  note ok = hub_reach_subs [OF assms(1)]
  obtain msg q where "ha_broadcast a = msg # q" "a' = a\<lparr>ha_broadcast := q,
      ha_out := ha_out a @ sendToRoom (bm_RoomID msg) (bm_Envelope msg) (ha_hub a)\<rparr>"
    using assms(2) by (auto split: list.splits)
  then show ?thesis
    using ok sendToRoom_once [of "ha_hub a"] sendToRoom_targets [of "ha_hub a"] sendToRoom_data
      getRoomUserCount_users [of "ha_hub a"]
    by (intro exI [of _ msg] exI [of _ "sendToRoom (bm_RoomID msg) (bm_Envelope msg) (ha_hub a)"]) auto
qed

definition sample_hub :: hub_actor where
  "sample_hub = hub_BroadcastToRoom ''lobby'' \<lparr>env_Type = TypePong, env_Payload = None\<rparr>
     (the (Run_case CaseRegister (hub_Register 4 ''ann'' ''lobby'' (the (Run_case CaseRegister
       (hub_Register 3 ''ann'' ''lobby'' (new_actor 8)))))))"

lemma sample_hub_reach: "hub_reach (\<lambda>_. ''ann'') 8 sample_hub"
proof -
  let ?owner = "\<lambda>_::conn. ''ann''"
  have one: "hub_reach ?owner 8 (the (Run_case CaseRegister (hub_Register c ''ann'' ''lobby'' a)))"
    if "hub_reach ?owner 8 a" "ha_register a = []" for c a
  proof -
    have "hub_reach ?owner 8 (hub_Register c ''ann'' ''lobby'' a)"
      using reach_register [of ?owner 8 a c "''lobby''"] that by simp
    then show ?thesis by (rule reach_run [where sel = CaseRegister]) (simp add: hub_Register_def that(2))
  qed
  have "hub_reach ?owner 8 (the (Run_case CaseRegister (hub_Register 4 ''ann'' ''lobby'' (the (Run_case CaseRegister
       (hub_Register 3 ''ann'' ''lobby'' (new_actor 8)))))))"
    by (intro one reach_new) (simp_all add: hub_Register_def new_actor_def)
  then show ?thesis
    unfolding sample_hub_def by (rule reach_broadcast) (simp add: hub_Register_def new_actor_def)
qed

theorem hub_broadcast_witness:
  "\<exists>a'. Run_case CaseBroadcast sample_hub = Some a' \<and> fst ` set (ha_out a') = {3, 4} \<and>
    getRoomUserCount ''lobby'' (ha_hub sample_hub) = 1"
proof -
  have state: "ha_broadcast sample_hub = [\<lparr>bm_RoomID = ''lobby'', bm_Envelope = \<lparr>env_Type = TypePong, env_Payload = None\<rparr>\<rparr>]"
      "ha_served sample_hub = [Registration 3 ''ann'' ''lobby'', Registration 4 ''ann'' ''lobby'']" "ha_out sample_hub = []"
    by (simp_all add: sample_hub_def caller_defs new_actor_def)
  have ids: "h_userIDs (ha_hub sample_hub) 3 = Some ''ann''" "h_userIDs (ha_hub sample_hub) 4 = Some ''ann''"
    by (simp_all add: sample_hub_def caller_defs new_actor_def hub_apply_ids)
  obtain a' where a': "Run_case CaseBroadcast sample_hub = Some a'" using state by simp
  have who: "listens (ha_served sample_hub) c ''lobby'' \<longleftrightarrow> c = 3 \<or> c = 4" for c
    by (auto simp: listens_def state)
  then have listen: "{c. listens (ha_served sample_hub) c ''lobby''} = {3, 4}" by auto
  have "(\<exists>c. listens (ha_served sample_hub) c ''lobby'' \<and> h_userIDs (ha_hub sample_hub) c = Some u) \<longleftrightarrow> u = ''ann''" for u
    unfolding who using ids by (metis option.inject)
  then have count: "card {u. \<exists>c. listens (ha_served sample_hub) c ''lobby'' \<and> h_userIDs (ha_hub sample_hub) c = Some u} = 1"
    by simp
  obtain msg xs where run: "ha_broadcast sample_hub = msg # ha_broadcast a'" "ha_out a' = ha_out sample_hub @ xs"
      "fst ` set xs = {c. listens (ha_served sample_hub) c (bm_RoomID msg)}" "getRoomUserCount (bm_RoomID msg) (ha_hub sample_hub) =
        card {u. \<exists>c. listens (ha_served sample_hub) c (bm_RoomID msg) \<and> h_userIDs (ha_hub sample_hub) c = Some u}"
    using hub_broadcast [OF sample_hub_reach a'] by blast
  have "bm_RoomID msg = ''lobby''" using run(1) unfolding state(1) by auto
  with run(2-4) listen count state(3) have "fst ` set (ha_out a') = {3, 4}" "getRoomUserCount ''lobby'' (ha_hub sample_hub) = 1"
    by simp_all
  with a' show ?thesis by blast
qed

text \<open>A connection that registers and then disconnects, as the read loop of the handler does when
  a client leaves right after \<open>subscribe\<close>, is not always forgotten: both calls made in this order and
  everything served, it listens to the room or not, depending on which channel \<open>Run\<close> read first.\<close>

theorem hub_disconnect_race:
  assumes "owner c \<noteq> []"
  shows "\<forall>left \<in> {True, False}. \<exists>a. hub_reach owner bufferSize a \<and> drained a \<and>
    ha_calls a = [Registration c (owner c) r, Disconnection c] \<and> ((c, r) \<in> subs (ha_hub a) \<longleftrightarrow> left)"
proof
  fix left
  let ?order = "if left then [CaseDisconnect, CaseRegister] else [CaseRegister, CaseDisconnect]"
  have "set ?order = {CaseRegister, CaseDisconnect}" "length ?order = 2" by auto
  from hub_reach_order [of owner c ?order bufferSize r, OF assms this]
  obtain a where a: "hub_reach owner bufferSize a" "drained a"
      "ha_calls a = [Registration c (owner c) r, Disconnection c]"
      "ha_served a = (if left then [Disconnection c, Registration c (owner c) r]
         else [Registration c (owner c) r, Disconnection c])"
    by (auto split: if_splits)
  then have "(c, r) \<in> subs (ha_hub a) \<longleftrightarrow> left"
    using hub_reach_subs [OF a(1)] by (auto simp: listens_def)
  with a show "\<exists>a. hub_reach owner bufferSize a \<and> drained a \<and>
      ha_calls a = [Registration c (owner c) r, Disconnection c] \<and> ((c, r) \<in> subs (ha_hub a) \<longleftrightarrow> left)"
    by blast
qed

theorem hub_disconnect_race_witness:
  "\<exists>a. hub_reach (\<lambda>_. ''ann'') 8 a \<and> drained a \<and> (3, ''lobby'') \<in> subs (ha_hub a)"
  using hub_disconnect_race [of "\<lambda>_. ''ann''" 3 8 "''lobby''"] by auto

end
