(* ===== verification/Subscriber.thy ===== *)
theory Subscriber
  imports HubActor MessageHandler
begin

text \<open>
  \<open>services/websocket/internal/subscriber/events.go\<close> and \<open>internal/nats/consumers.go\<close>, with the
  consumers of \<open>services/shared/pkg/nats/nats.go\<close>: how an event on NATS becomes a broadcast.

  \<open>deliver_event\<close> hands a message to every consumer whose filter is its subject, once; redelivery
  after a missing acknowledgement is JetStream's.  \<open>relay_message_event\<close> and
  \<open>relay_room_event\<close> say what arrives of the events that the room and the message service publish.
\<close>

section \<open>Consumers\<close>

record ConsumerConfig =
  cc_Durable :: string
  cc_FilterSubject :: string
  cc_AckExplicit :: bool
  cc_MaxDeliver :: int
  cc_AckWait :: time

definition DefaultConsumerConfig :: "string \<Rightarrow> string \<Rightarrow> int \<Rightarrow> time \<Rightarrow> ConsumerConfig" where
  "DefaultConsumerConfig durable filterSubject maxDeliver ackWait =
     \<lparr>cc_Durable = durable, cc_FilterSubject = filterSubject, cc_AckExplicit = True,
      cc_MaxDeliver = maxDeliver, cc_AckWait = ackWait\<rparr>"

definition StreamMessage :: string where "StreamMessage = ''MESSAGE''"
definition StreamRoom :: string where "StreamRoom = ''ROOM''"
definition ws_SubjectMessageCreated :: string where "ws_SubjectMessageCreated = ''message.created''"
definition ws_SubjectRoomMembershipChanged :: string where
  "ws_SubjectRoomMembershipChanged = ''room.membership.changed''"
definition ws_SubjectRoomUpdated :: string where "ws_SubjectRoomUpdated = ''room.updated''"
definition ConsumerMessageCreated :: string where "ConsumerMessageCreated = ''ws-svc-message-created''"
definition ConsumerRoomMembershipChanged :: string where
  "ConsumerRoomMembershipChanged = ''ws-svc-room-membership''"
definition ConsumerRoomUpdated :: string where "ConsumerRoomUpdated = ''ws-svc-room-updated''"

lemmas consumer_names = StreamMessage_def StreamRoom_def ws_SubjectMessageCreated_def
  ws_SubjectRoomMembershipChanged_def ws_SubjectRoomUpdated_def ConsumerMessageCreated_def
  ConsumerRoomMembershipChanged_def ConsumerRoomUpdated_def

definition MessageCreatedConsumer :: "int \<Rightarrow> time \<Rightarrow> ConsumerConfig" where
  "MessageCreatedConsumer maxDeliver ackWait =
     DefaultConsumerConfig ConsumerMessageCreated ws_SubjectMessageCreated maxDeliver ackWait"

definition RoomMembershipChangedConsumer :: "int \<Rightarrow> time \<Rightarrow> ConsumerConfig" where
  "RoomMembershipChangedConsumer maxDeliver ackWait =
     DefaultConsumerConfig ConsumerRoomMembershipChanged ws_SubjectRoomMembershipChanged maxDeliver ackWait"

definition RoomUpdatedConsumer :: "int \<Rightarrow> time \<Rightarrow> ConsumerConfig" where
  "RoomUpdatedConsumer maxDeliver ackWait =
     DefaultConsumerConfig ConsumerRoomUpdated ws_SubjectRoomUpdated maxDeliver ackWait"

text \<open>\<open>ProvisionConsumerWithRetry\<close>: \<open>create\<close> is JetStream's \<open>CreateOrUpdateConsumer\<close>.  The loop may go
  on for ever; the time it has slept is counted.\<close>

definition retry_interval :: "time \<Rightarrow> time" where
  "retry_interval d = (if d \<le> 0 then 100000 else d)"

partial_function (option) provision_loop :: "(string \<Rightarrow> ConsumerConfig \<Rightarrow> ('z world_scheme, unit) op) \<Rightarrow> string
    \<Rightarrow> ConsumerConfig \<Rightarrow> time \<Rightarrow> time \<Rightarrow> 'z world_scheme \<Rightarrow> ((error + unit) \<times> time \<times> 'z world_scheme) option" where
  "provision_loop create stream cfg interval slept w =
     (case create stream cfg w of
        (Inr c, w1) \<Rightarrow> Some (Inr c, slept, w1)
      | (Inl e, w1) \<Rightarrow>
          if errors_Is e jetstream_ErrStreamNotFound
          then if ctx_done w1
               then Some (Inl (Wrap (''stream never appeared: '' @ stream) (Sentinel ctx_Err)), slept, w1)
               else provision_loop create stream cfg interval (slept + interval) (tick w1)
          else Some (Inl (Wrap (''provision consumer '' @ cc_Durable cfg) e), slept, w1))"

definition ProvisionConsumerWithRetry :: "(string \<Rightarrow> ConsumerConfig \<Rightarrow> ('z world_scheme, unit) op) \<Rightarrow> string
    \<Rightarrow> ConsumerConfig \<Rightarrow> time \<Rightarrow> 'z world_scheme \<Rightarrow> ((error + unit) \<times> time \<times> 'z world_scheme) option" where
  "ProvisionConsumerWithRetry create stream cfg retryInterval w =
     provision_loop create stream cfg (retry_interval retryInterval) 0 w"

section \<open>Events\<close>

record MessageCreatedEvent =
  mce_MessageID :: string
  mce_RoomID :: string
  mce_UserID :: string
  mce_Content :: json

record RoomMembershipChangedEvent =
  rme_RoomID :: string
  rme_UserID :: string
  rme_Joined :: bool

record RoomUpdatedEvent =
  rue_RoomID :: string
  rue_UpdatedBy :: string

text \<open>\<open>json.Unmarshal\<close> into the three structs; the data is a document, or \<open>None\<close> when it is no JSON.\<close>

definition decode_MessageCreatedEvent :: "json option \<Rightarrow> MessageCreatedEvent option" where
  "decode_MessageCreatedEvent data =
     (case Option.bind data json_members of
        None \<Rightarrow> None
      | Some kvs \<Rightarrow>
          (case (json_field set_string ''message_id'' [] kvs, json_field set_string ''room_id'' [] kvs,
                 json_field set_string ''user_id'' [] kvs, json_field set_any ''content'' JNull kvs) of
             (Some m, Some r, Some u, Some c) \<Rightarrow>
               Some \<lparr>mce_MessageID = m, mce_RoomID = r, mce_UserID = u, mce_Content = c\<rparr>
           | _ \<Rightarrow> None))"

definition decode_RoomMembershipChangedEvent :: "json option \<Rightarrow> RoomMembershipChangedEvent option" where
  "decode_RoomMembershipChangedEvent data =
     (case Option.bind data json_members of
        None \<Rightarrow> None
      | Some kvs \<Rightarrow>
          (case (json_field set_string ''room_id'' [] kvs, json_field set_string ''user_id'' [] kvs,
                 json_field set_bool ''joined'' False kvs) of
             (Some r, Some u, Some j) \<Rightarrow> Some \<lparr>rme_RoomID = r, rme_UserID = u, rme_Joined = j\<rparr>
           | _ \<Rightarrow> None))"

definition decode_RoomUpdatedEvent :: "json option \<Rightarrow> RoomUpdatedEvent option" where
  "decode_RoomUpdatedEvent data =
     (case Option.bind data json_members of
        None \<Rightarrow> None
      | Some kvs \<Rightarrow>
          (case (json_field set_string ''room_id'' [] kvs, json_field set_string ''updated_by'' [] kvs) of
             (Some r, Some u) \<Rightarrow> Some \<lparr>rue_RoomID = r, rue_UpdatedBy = u\<rparr>
           | _ \<Rightarrow> None))"

text \<open>The payloads that go to the clients.\<close>

definition marshal_MessageCreatedPayload :: "MessageCreatedEvent \<Rightarrow> json" where
  "marshal_MessageCreatedPayload ev =
     JObj [(''message_id'', JStr (mce_MessageID ev)), (''room_id'', JStr (mce_RoomID ev)),
           (''user_id'', JStr (mce_UserID ev)), (''content'', mce_Content ev)]"

definition marshal_RoomMembershipChangedPayload :: "RoomMembershipChangedEvent \<Rightarrow> json" where
  "marshal_RoomMembershipChangedPayload ev =
     JObj [(''room_id'', JStr (rme_RoomID ev)), (''user_id'', JStr (rme_UserID ev)),
           (''joined'', JBool (rme_Joined ev))]"

definition marshal_RoomUpdatedPayload :: "RoomUpdatedEvent \<Rightarrow> json" where
  "marshal_RoomUpdatedPayload ev =
     JObj [(''room_id'', JStr (rue_RoomID ev)), (''updated_by'', JStr (rue_UpdatedBy ev))]"

section \<open>The three handlers\<close>

text \<open>A handler acknowledges the message or terminates it; a failure of that call is only logged.
  Encoding a decoded event does not fail, so the branches for it are not reached.\<close>

datatype fate = Acked | Termed

definition handleMessageCreated :: "json option \<Rightarrow> hub_actor \<Rightarrow> fate \<times> hub_actor" where
  "handleMessageCreated data hub =
     (case decode_MessageCreatedEvent data of
        None \<Rightarrow> (Termed, hub)
      | Some ev \<Rightarrow>
          (Acked, hub_BroadcastToRoom (mce_RoomID ev)
             \<lparr>env_Type = TypeMessageCreated, env_Payload = Some (marshal_MessageCreatedPayload ev)\<rparr> hub))"

definition handleRoomMembershipChanged :: "json option \<Rightarrow> hub_actor \<Rightarrow> fate \<times> hub_actor" where
  "handleRoomMembershipChanged data hub =
     (case decode_RoomMembershipChangedEvent data of
        None \<Rightarrow> (Termed, hub)
      | Some ev \<Rightarrow>
          (Acked, hub_BroadcastToRoom (rme_RoomID ev)
             \<lparr>env_Type = TypeRoomMembershipChange, env_Payload = Some (marshal_RoomMembershipChangedPayload ev)\<rparr> hub))"

definition handleRoomUpdated :: "json option \<Rightarrow> hub_actor \<Rightarrow> fate \<times> hub_actor" where
  "handleRoomUpdated data hub =
     (case decode_RoomUpdatedEvent data of
        None \<Rightarrow> (Termed, hub)
      | Some ev \<Rightarrow>
          (Acked, hub_BroadcastToRoom (rue_RoomID ev)
             \<lparr>env_Type = TypeRoomUpdated, env_Payload = Some (marshal_RoomUpdatedPayload ev)\<rparr> hub))"

text \<open>\<open>Start\<close>: the three consumers are provisioned in order, then each gets its handler.\<close>

record Subscriber =
  sub_hub :: hub_actor
  sub_subs :: "(string \<times> (json option \<Rightarrow> hub_actor \<Rightarrow> fate \<times> hub_actor)) list"

record SubscriberConfig =
  sc_MaxDeliver :: int
  sc_AckWait :: time
  sc_RetryWait :: time

definition NewSubscriber :: "hub_actor \<Rightarrow> Subscriber" where
  "NewSubscriber hub = \<lparr>sub_hub = hub, sub_subs = []\<rparr>"

definition consumer_plan :: "SubscriberConfig \<Rightarrow> (string \<times> ConsumerConfig \<times> (json option \<Rightarrow> hub_actor \<Rightarrow> fate \<times> hub_actor)) list" where
  "consumer_plan cfg =
     [(StreamMessage, MessageCreatedConsumer (sc_MaxDeliver cfg) (sc_AckWait cfg), handleMessageCreated),
      (StreamRoom, RoomMembershipChangedConsumer (sc_MaxDeliver cfg) (sc_AckWait cfg), handleRoomMembershipChanged),
      (StreamRoom, RoomUpdatedConsumer (sc_MaxDeliver cfg) (sc_AckWait cfg), handleRoomUpdated)]"

fun provision_all :: "(string \<Rightarrow> ConsumerConfig \<Rightarrow> ('z world_scheme, unit) op) \<Rightarrow> time
    \<Rightarrow> (string \<times> ConsumerConfig \<times> 'h) list \<Rightarrow> 'z world_scheme \<Rightarrow> ((error + unit) \<times> 'z world_scheme) option" where
  "provision_all create d [] w = Some (Inr (), w)"
| "provision_all create d ((stream, cfg, h) # rest) w =
     (case ProvisionConsumerWithRetry create stream cfg d w of
        None \<Rightarrow> None
      | Some (Inl e, _, w1) \<Rightarrow> Some (Inl e, w1)
      | Some (Inr _, _, w1) \<Rightarrow> provision_all create d rest w1)"

fun consume_all :: "(string \<times> ConsumerConfig \<times> (json option \<Rightarrow> hub_actor \<Rightarrow> fate \<times> hub_actor)) list \<Rightarrow> Subscriber
    \<Rightarrow> 'z world_scheme \<Rightarrow> (error option \<times> Subscriber) \<times> 'z world_scheme" where
  "consume_all [] s w = ((None, s), w)"
| "consume_all ((stream, cfg, h) # rest) s w =
     (case ext_call (\<lambda>w. (Inr (), w)) w of
        (Inl e, w1) \<Rightarrow> ((Some e, s), w1)
      | (Inr _, w1) \<Rightarrow> consume_all rest (s\<lparr>sub_subs := sub_subs s @ [(cc_FilterSubject cfg, h)]\<rparr>) w1)"

definition Subscriber_Start :: "(string \<Rightarrow> ConsumerConfig \<Rightarrow> ('z world_scheme, unit) op) \<Rightarrow> SubscriberConfig \<Rightarrow> Subscriber
    \<Rightarrow> 'z world_scheme \<Rightarrow> ((error option \<times> Subscriber) \<times> 'z world_scheme) option" where
  "Subscriber_Start create cfg s w =
     (case provision_all create (sc_RetryWait cfg) (consumer_plan cfg) w of
        None \<Rightarrow> None
      | Some (Inl e, w1) \<Rightarrow> Some ((Some e, s), w1)
      | Some (Inr _, w1) \<Rightarrow> Some (consume_all (consumer_plan cfg) s w1))"

text \<open>JetStream hands a message to the consumers with its subject.\<close>

definition deliver_event :: "string \<times> json \<Rightarrow> Subscriber \<Rightarrow> Subscriber" where
  "deliver_event msg s =
     fold (\<lambda>(filter_subject, h) s. if filter_subject = fst msg
             then s\<lparr>sub_hub := snd (h (Some (snd msg)) (sub_hub s))\<rparr> else s)
       (sub_subs s) s"

text \<open>A subscriber that has started.\<close>

definition started :: "Subscriber \<Rightarrow> bool" where
  "started s \<longleftrightarrow> sub_subs s =
     [(ws_SubjectMessageCreated, handleMessageCreated), (ws_SubjectRoomMembershipChanged, handleRoomMembershipChanged),
      (ws_SubjectRoomUpdated, handleRoomUpdated)]"

section \<open>Provisioning ends when it can\<close>

text \<open>The world after \<open>n\<close> attempts that found no stream, and whether another attempt waits.\<close>

fun retry_world :: "(string \<Rightarrow> ConsumerConfig \<Rightarrow> ('z world_scheme, unit) op) \<Rightarrow> string \<Rightarrow> ConsumerConfig
    \<Rightarrow> nat \<Rightarrow> 'z world_scheme \<Rightarrow> 'z world_scheme" where
  "retry_world create stream cfg 0 w = w"
| "retry_world create stream cfg (Suc n) w = retry_world create stream cfg n (tick (snd (create stream cfg w)))"

definition waits :: "(string \<Rightarrow> ConsumerConfig \<Rightarrow> ('z world_scheme, unit) op) \<Rightarrow> string \<Rightarrow> ConsumerConfig
    \<Rightarrow> 'z world_scheme \<Rightarrow> bool" where
  "waits create stream cfg w \<longleftrightarrow>
     (case create stream cfg w of (Inl e, w1) \<Rightarrow> errors_Is e jetstream_ErrStreamNotFound \<and> \<not> ctx_done w1
      | (Inr _, _) \<Rightarrow> False)"

lemma provision_unfold:
  "provision_loop create stream cfg interval slept w =
     (if waits create stream cfg w
      then provision_loop create stream cfg interval (slept + interval) (tick (snd (create stream cfg w)))
      else Some (case create stream cfg w of
          (Inr c, w1) \<Rightarrow> (Inr c, slept, w1)
        | (Inl e, w1) \<Rightarrow> (Inl (if errors_Is e jetstream_ErrStreamNotFound
             then Wrap (''stream never appeared: '' @ stream) (Sentinel ctx_Err)
             else Wrap (''provision consumer '' @ cc_Durable cfg) e), slept, w1)))"
  by (subst provision_loop.simps) (auto simp: waits_def split: prod.splits sum.splits)

lemma provision_stops:
  assumes "\<forall>k<n. waits create stream cfg (retry_world create stream cfg k w)"
    and "\<not> waits create stream cfg (retry_world create stream cfg n w)"
  shows "\<exists>r w'. provision_loop create stream cfg interval slept w = Some (r, slept + int n * interval, w') \<and>
    (r = Inr () \<longleftrightarrow> fst (create stream cfg (retry_world create stream cfg n w)) = Inr ())"
  using assms
proof (induction n arbitrary: slept w)
  case 0
  then show ?case by (subst provision_unfold) (auto split: prod.splits sum.splits)
next
  case (Suc n)
  have "waits create stream cfg w" using Suc.prems(1) by auto
  moreover have "\<forall>k<n. waits create stream cfg (retry_world create stream cfg k (tick (snd (create stream cfg w))))"
    using Suc.prems(1) by (metis Suc_less_eq retry_world.simps(2))
  ultimately show ?case
    using Suc.IH [of "tick (snd (create stream cfg w))" "slept + interval"] Suc.prems(2)
    by (subst provision_unfold) (auto simp: algebra_simps)
qed

lemma provision_stopped:
  assumes "provision_loop create stream cfg interval slept w = Some y"
  shows "\<exists>n. \<not> waits create stream cfg (retry_world create stream cfg n w)"
proof (rule provision_loop.raw_induct [OF _ assms], goal_cases)
  case (1 loop create stream cfg interval slept w y)
  show ?case
  proof (cases "waits create stream cfg w")
    case False
    then show ?thesis by (intro exI [of _ 0]) simp
  next
    case True
    then have "loop create stream cfg interval (slept + interval) (tick (snd (create stream cfg w))) = Some y"
      using 1(2) by (auto simp: waits_def split: prod.splits sum.splits)
    from 1(1) [OF this] obtain n
      where "\<not> waits create stream cfg (retry_world create stream cfg n (tick (snd (create stream cfg w))))" ..
    then show ?thesis by (intro exI [of _ "Suc n"]) simp
  qed
qed

lemma provision_stops_first:
  assumes "\<exists>n. \<not> waits create stream cfg (retry_world create stream cfg n w)"
  shows "\<exists>n r w'. (\<forall>k<n. waits create stream cfg (retry_world create stream cfg k w)) \<and>
    \<not> waits create stream cfg (retry_world create stream cfg n w) \<and>
    provision_loop create stream cfg interval slept w = Some (r, slept + int n * interval, w') \<and>
    (r = Inr () \<longleftrightarrow> fst (create stream cfg (retry_world create stream cfg n w)) = Inr ())"
proof -
  let ?stop = "\<lambda>n. \<not> waits create stream cfg (retry_world create stream cfg n w)"
  have "?stop (LEAST n. ?stop n)" using assms by (rule LeastI_ex)
  moreover have "\<forall>k < (LEAST n. ?stop n). \<not> ?stop k" using not_less_Least by blast
  ultimately show ?thesis using provision_stops [of "LEAST n. ?stop n" create stream cfg w interval slept] by blast
qed

text \<open>A start that succeeds leaves all three consumers with their handlers.\<close>

lemma consume_all_subs:
  "consume_all plan s w = ((None, s'), w') \<Longrightarrow>
    sub_subs s' = sub_subs s @ List.map (\<lambda>(_, cfg, h). (cc_FilterSubject cfg, h)) plan \<and> sub_hub s' = sub_hub s"
proof (induction plan s w rule: consume_all.induct)
  case (2 stream cfg h rest s w)
  obtain r w1 where call: "ext_call (\<lambda>w. (Inr () :: error + unit, w)) w = (r, w1)"
    by (cases "ext_call (\<lambda>w. (Inr () :: error + unit, w)) w")
  show ?case
  proof (cases r)
    case (Inl e)
    with 2(2) call show ?thesis by simp
  next
    case (Inr u)
    then have run: "consume_all rest (s\<lparr>sub_subs := sub_subs s @ [(cc_FilterSubject cfg, h)]\<rparr>) w1 = ((None, s'), w')"
      using 2(2) call by simp
    show ?thesis using 2(1) [OF call [symmetric] Inr run] by simp
  qed
qed simp

lemma Start_started:
  assumes "Subscriber_Start create cfg (NewSubscriber hub) w = Some ((None, s), w')"
  shows "started s \<and> sub_hub s = hub"
proof -
  obtain w1 where "consume_all (consumer_plan cfg) (NewSubscriber hub) w1 = ((None, s), w')"
    using assms by (auto simp: Subscriber_Start_def split: option.splits prod.splits sum.splits)
  from consume_all_subs [OF this] show ?thesis
    by (simp add: started_def consumer_plan_def NewSubscriber_def MessageCreatedConsumer_def
        RoomMembershipChangedConsumer_def RoomUpdatedConsumer_def DefaultConsumerConfig_def)
qed

section \<open>What becomes of the published events\<close>

lemma subjects_differ:
  "ws_SubjectMessageCreated \<noteq> ws_SubjectRoomMembershipChanged" "ws_SubjectMessageCreated \<noteq> ws_SubjectRoomUpdated"
  "ws_SubjectRoomMembershipChanged \<noteq> ws_SubjectRoomUpdated"
  by (simp_all add: consumer_names)

lemma deliver_started:
  assumes "started s"
  shows "deliver_event (ws_SubjectMessageCreated, d) s = s\<lparr>sub_hub := snd (handleMessageCreated (Some d) (sub_hub s))\<rparr>"
    and "deliver_event (ws_SubjectRoomMembershipChanged, d) s =
      s\<lparr>sub_hub := snd (handleRoomMembershipChanged (Some d) (sub_hub s))\<rparr>"
    and "deliver_event (ws_SubjectRoomUpdated, d) s = s\<lparr>sub_hub := snd (handleRoomUpdated (Some d) (sub_hub s))\<rparr>"
    and "sub \<notin> {ws_SubjectMessageCreated, ws_SubjectRoomMembershipChanged, ws_SubjectRoomUpdated} \<Longrightarrow>
      deliver_event (sub, d) s = s"
  using assms subjects_differ by (auto simp: deliver_event_def started_def)

lemma same_subjects:
  "SubjectMessageCreated = ws_SubjectMessageCreated" "SubjectMembershipChange = ws_SubjectRoomMembershipChanged"
  "SubjectRoomUpdated = ws_SubjectRoomUpdated"
  by (simp_all add: consumer_names SubjectMessageCreated_def SubjectMembershipChange_def SubjectRoomUpdated_def)

lemma unheard_subjects:
  "SubjectRoomCreated \<notin> {ws_SubjectMessageCreated, ws_SubjectRoomMembershipChanged, ws_SubjectRoomUpdated}"
  "SubjectRoomDeleted \<notin> {ws_SubjectMessageCreated, ws_SubjectRoomMembershipChanged, ws_SubjectRoomUpdated}"
  by (simp_all add: consumer_names SubjectRoomCreated_def SubjectRoomDeleted_def)

text \<open>The names of the members of the published documents against the fields that are read.\<close>

lemmas published_defs = message_created_payload_def room_event_msg.simps recipient_strs_def

lemma read_same: "key_matches k k"
  by (simp add: key_matches_def)

lemma read_message_created:
  "decode_MessageCreatedEvent (Some (message_created_payload U m ids)) =
    Some \<lparr>mce_MessageID = uuid_String U (sm_ID m), mce_RoomID = uuid_String U (sm_RoomID m), mce_UserID = [],
      mce_Content = JNull\<rparr>"
proof -
  have "\<not> key_matches ''message_id'' ''created_at''" "\<not> key_matches ''message_id'' ''recipient_ids''"
    "\<not> key_matches ''message_id'' ''room_id''" "\<not> key_matches ''message_id'' ''sender_id''" "\<not> key_matches ''message_id'' ''type''"
    "\<not> key_matches ''room_id'' ''created_at''" "\<not> key_matches ''room_id'' ''message_id''"
    "\<not> key_matches ''room_id'' ''recipient_ids''" "\<not> key_matches ''room_id'' ''sender_id''" "\<not> key_matches ''room_id'' ''type''"
    "\<not> key_matches ''user_id'' ''created_at''" "\<not> key_matches ''user_id'' ''message_id''"
    "\<not> key_matches ''user_id'' ''recipient_ids''" "\<not> key_matches ''user_id'' ''room_id''"
    "\<not> key_matches ''user_id'' ''sender_id''" "\<not> key_matches ''user_id'' ''type''"
    "\<not> key_matches ''content'' ''created_at''" "\<not> key_matches ''content'' ''message_id''"
    "\<not> key_matches ''content'' ''recipient_ids''" "\<not> key_matches ''content'' ''room_id''"
    "\<not> key_matches ''content'' ''sender_id''" "\<not> key_matches ''content'' ''type''"
    by (simp_all add: key_matches_def ascii_lower_def)
  then show ?thesis
    by (simp add: decode_MessageCreatedEvent_def message_created_payload_def json_members_def read_same)
qed

lemma read_membership:
  "decode_RoomMembershipChangedEvent (Some (snd (room_event_msg U (MembershipChanged rid uid action ids)))) =
    Some \<lparr>rme_RoomID = uuid_String U rid, rme_UserID = uuid_String U uid, rme_Joined = False\<rparr>"
proof -
  have "\<not> key_matches ''room_id'' ''action''" "\<not> key_matches ''room_id'' ''recipient_ids''" "\<not> key_matches ''room_id'' ''user_id''"
    "\<not> key_matches ''user_id'' ''action''" "\<not> key_matches ''user_id'' ''recipient_ids''" "\<not> key_matches ''user_id'' ''room_id''"
    "\<not> key_matches ''joined'' ''action''" "\<not> key_matches ''joined'' ''recipient_ids''" "\<not> key_matches ''joined'' ''room_id''"
    "\<not> key_matches ''joined'' ''user_id''"
    by (simp_all add: key_matches_def ascii_lower_def)
  then show ?thesis
    by (simp add: decode_RoomMembershipChangedEvent_def json_members_def read_same)
qed

lemma read_updated:
  "decode_RoomUpdatedEvent (Some (snd (room_event_msg U (RoomUpdated rid name ids)))) =
    Some \<lparr>rue_RoomID = uuid_String U rid, rue_UpdatedBy = []\<rparr>"
proof -
  have "\<not> key_matches ''room_id'' ''name''" "\<not> key_matches ''room_id'' ''recipient_ids''"
    "\<not> key_matches ''updated_by'' ''name''" "\<not> key_matches ''updated_by'' ''recipient_ids''" "\<not> key_matches ''updated_by'' ''room_id''"
    by (simp_all add: key_matches_def ascii_lower_def)
  then show ?thesis
    by (simp add: decode_RoomUpdatedEvent_def json_members_def read_same)
qed

text \<open>A frame of the three kinds as the clients get it.\<close>

definition message_frame :: "string \<Rightarrow> string \<Rightarrow> string \<Rightarrow> json \<Rightarrow> Envelope" where
  "message_frame mid rid uid content =
     \<lparr>env_Type = TypeMessageCreated, env_Payload = Some (JObj [(''message_id'', JStr mid), (''room_id'', JStr rid),
        (''user_id'', JStr uid), (''content'', content)])\<rparr>"

definition membership_frame :: "string \<Rightarrow> string \<Rightarrow> bool \<Rightarrow> Envelope" where
  "membership_frame rid uid joined =
     \<lparr>env_Type = TypeRoomMembershipChange, env_Payload = Some (JObj [(''room_id'', JStr rid), (''user_id'', JStr uid),
        (''joined'', JBool joined)])\<rparr>"

definition updated_frame :: "string \<Rightarrow> string \<Rightarrow> Envelope" where
  "updated_frame rid uid =
     \<lparr>env_Type = TypeRoomUpdated, env_Payload = Some (JObj [(''room_id'', JStr rid), (''updated_by'', JStr uid)])\<rparr>"

lemmas frame_defs = message_frame_def membership_frame_def updated_frame_def

lemma relay_message_event:
  assumes "started s"
  shows "deliver_event (message_event U m ids) s =
    s\<lparr>sub_hub := hub_BroadcastToRoom (uuid_String U (sm_RoomID m))
        (message_frame (uuid_String U (sm_ID m)) (uuid_String U (sm_RoomID m)) [] JNull) (sub_hub s)\<rparr>"
  by (simp add: message_event_def same_subjects deliver_started [OF assms] handleMessageCreated_def
      read_message_created marshal_MessageCreatedPayload_def message_frame_def)

lemma relay_room_event:
  assumes "started s"
  shows "deliver_event (room_event_msg U ev) s =
    (case ev of
       MembershipChanged rid uid action ids \<Rightarrow>
         s\<lparr>sub_hub := hub_BroadcastToRoom (uuid_String U rid)
             (membership_frame (uuid_String U rid) (uuid_String U uid) False) (sub_hub s)\<rparr>
     | RoomUpdated rid name ids \<Rightarrow>
         s\<lparr>sub_hub := hub_BroadcastToRoom (uuid_String U rid) (updated_frame (uuid_String U rid) []) (sub_hub s)\<rparr>
     | _ \<Rightarrow> s)"
proof (cases ev)
  case (MembershipChanged rid uid action ids)
  then show ?thesis
    using read_membership [of U rid uid action ids]
    by (simp add: same_subjects deliver_started [OF assms] handleRoomMembershipChanged_def
        marshal_RoomMembershipChangedPayload_def membership_frame_def)
next
  case (RoomUpdated rid name ids)
  then show ?thesis
    using read_updated [of U rid name ids]
    by (simp add: same_subjects deliver_started [OF assms] handleRoomUpdated_def marshal_RoomUpdatedPayload_def
        updated_frame_def)
qed (use unheard_subjects in \<open>simp_all add: deliver_started(4) [OF assms]\<close>)

section \<open>Properties\<close>

text \<open>A stream that is there: every consumer is created at once.\<close>

definition ready_streams :: "string \<Rightarrow> ConsumerConfig \<Rightarrow> ('z world_scheme, unit) op" where
  "ready_streams stream cfg w = (Inr (), w)"

definition quiet_world :: world where
  "quiet_world = \<lparr>env = \<lparr>fault_at = (\<lambda>_. Works), clock_at = (\<lambda>n. int n), uuid_at = (\<lambda>n. word_of_nat n),
     cancelled_at = (\<lambda>_. False)\<rparr>, calls = 0, published = []\<rparr>"

definition ws_subscriber_config :: SubscriberConfig where
  "ws_subscriber_config = \<lparr>sc_MaxDeliver = 5, sc_AckWait = 30000000, sc_RetryWait = 2000000\<rparr>"

lemma ready_start:
  "\<exists>s. Subscriber_Start ready_streams ws_subscriber_config (NewSubscriber hub) quiet_world = Some ((None, s), tick (tick (tick quiet_world)))"
proof -
  have one: "ProvisionConsumerWithRetry ready_streams stream cfg d w = Some (Inr (), 0, w)"
    for stream cfg d and w :: world
    unfolding ProvisionConsumerWithRetry_def by (subst provision_unfold) (simp add: waits_def ready_streams_def)
  have call: "ext_call (\<lambda>w. (Inr () :: error + unit, w)) w = (Inr (), tick w)" if "env w = env quiet_world" for w :: world
    using that by (simp add: ext_call_def quiet_world_def)
  show ?thesis
    by (simp add: Subscriber_Start_def consumer_plan_def one call)
qed

text \<open>C38: What the clients get of an event is not what happened.  Once \<open>Start\<close> has succeeded, the
  frame of a new message never names its sender and never has its content (the publisher sends
  \<open>sender_id\<close> and no content, the subscriber reads \<open>user_id\<close> and \<open>content\<close>); a change of membership
  always reads as a departure; a renamed room does not say by whom; and the creation and the
  deletion of a room reach nobody.\<close>

theorem relay_loses_fields:
  assumes "Subscriber_Start create cfg (NewSubscriber hub) w = Some ((None, s), w')"
  shows "sub_hub (deliver_event (message_event U m ids) s) =
      hub_BroadcastToRoom (uuid_String U (sm_RoomID m))
        (message_frame (uuid_String U (sm_ID m)) (uuid_String U (sm_RoomID m)) '''' JNull) hub \<and>
    sub_hub (deliver_event (room_event_msg U ev) s) =
      (case ev of
         MembershipChanged rid uid action _ \<Rightarrow>
           hub_BroadcastToRoom (uuid_String U rid) (membership_frame (uuid_String U rid) (uuid_String U uid) False) hub
       | RoomUpdated rid _ _ \<Rightarrow> hub_BroadcastToRoom (uuid_String U rid) (updated_frame (uuid_String U rid) '''') hub
       | RoomCreated _ _ \<Rightarrow> hub
       | RoomDeleted _ _ \<Rightarrow> hub)"
proof -
  from Start_started [OF assms] have s: "started s" "sub_hub s = hub" by simp_all
  show ?thesis
    unfolding relay_message_event [OF s(1)] relay_room_event [OF s(1)] by (cases ev) (simp_all add: s(2))
qed

theorem relay_loses_fields_witness:
  "\<exists>s. sub_hub (deliver_event (room_event_msg sample_uuids (MembershipChanged 10 2 ''added'' [1, 2])) s) =
      hub_BroadcastToRoom (uuid_String sample_uuids 10)
        (membership_frame (uuid_String sample_uuids 10) (uuid_String sample_uuids 2) False) (new_actor 8)"
proof -
  obtain s where start: "Subscriber_Start ready_streams ws_subscriber_config (NewSubscriber (new_actor 8)) quiet_world =
      Some ((None, s), tick (tick (tick quiet_world)))"
    using ready_start by blast
  then show ?thesis
    using relay_loses_fields [OF start, of sample_uuids _ _ "MembershipChanged 10 2 ''added'' [1, 2]"]
    by (auto simp del: room_event_msg.simps)
qed

text \<open>Waiting for a stream returns exactly when some attempt finds it, fails otherwise, or finds
  the caller cancelled; it reports success exactly when that attempt succeeded, and it has slept
  once between two attempts.\<close>

theorem provision_returns:
  "case ProvisionConsumerWithRetry create stream cfg d w of
     None \<Rightarrow> \<forall>n. waits create stream cfg (retry_world create stream cfg n w)
   | Some (r, slept, w') \<Rightarrow>
       \<exists>n. (\<forall>k<n. waits create stream cfg (retry_world create stream cfg k w)) \<and>
         \<not> waits create stream cfg (retry_world create stream cfg n w) \<and> slept = int n * retry_interval d \<and>
         (r = Inr () \<longleftrightarrow> fst (create stream cfg (retry_world create stream cfg n w)) = Inr ())"
proof (cases "\<exists>n. \<not> waits create stream cfg (retry_world create stream cfg n w)")
  case True
  from provision_stops_first [OF this, of "retry_interval d" 0] obtain n r w'
    where "\<forall>k<n. waits create stream cfg (retry_world create stream cfg k w)"
      "\<not> waits create stream cfg (retry_world create stream cfg n w)"
      "ProvisionConsumerWithRetry create stream cfg d w = Some (r, int n * retry_interval d, w')"
      "r = Inr () \<longleftrightarrow> fst (create stream cfg (retry_world create stream cfg n w)) = Inr ()"
    by (auto simp: ProvisionConsumerWithRetry_def)
  then show ?thesis by (simp only: option.case prod.case) blast
next
  case False
  then have "ProvisionConsumerWithRetry create stream cfg d w = None"
    using provision_stopped [of create stream cfg "retry_interval d" 0 w]
    by (cases "provision_loop create stream cfg (retry_interval d) 0 w") (auto simp: ProvisionConsumerWithRetry_def)
  with False show ?thesis by simp
qed

theorem provision_returns_witness:
  "\<exists>w'. ProvisionConsumerWithRetry ready_streams StreamRoom (RoomUpdatedConsumer 5 30000000) 0 quiet_world =
      Some (Inr (), 0, w')"
proof -
  have ready: "\<not> waits ready_streams stream cfg w" "fst (ready_streams stream cfg w) = Inr ()" for stream cfg and w :: world
    by (simp_all add: waits_def ready_streams_def)
  have zero: "(\<forall>k. \<not> k < n) \<longleftrightarrow> n = 0" for n :: nat by (cases n) auto
  show ?thesis
    using provision_returns [where create = ready_streams and d = 0 and stream = StreamRoom
        and cfg = "RoomUpdatedConsumer 5 30000000" and w = quiet_world]
    by (cases "ProvisionConsumerWithRetry ready_streams StreamRoom (RoomUpdatedConsumer 5 30000000) 0 quiet_world")
      (auto simp: ready zero)
qed

end
