(* ===== verification/Usernames.thy ===== *)
theory Usernames
  imports World
begin

text \<open>
  \<open>services/shared/pkg/username.go\<close> with the word lists of \<open>adjectives.go\<close> and \<open>nounces.go\<close>, in pieces.

  A random number is taken from the environment, which may be any number below the bound.  Every name
  is short enough for the column \<open>VARCHAR(50)\<close> and has no NUL.
\<close>

section \<open>The words\<close>

definition Adjectives_1 :: "string list" where
  "Adjectives_1 = [
    ''able'', ''above'', ''absolute'', ''accepted'', ''accurate'', ''active'', ''actual'', ''adapted'',
    ''adapting'', ''adequate'', ''adjusted'', ''advanced'', ''alert'', ''alive'', ''allowed'',
    ''allowing'', ''amazed'', ''amazing'', ''amusing'', ''apparent'', ''artistic'', ''assured'',
    ''assuring'', ''awaited'', ''awake'', ''aware'', ''balanced'', ''becoming'', ''beloved'', ''better'',
    ''big'', ''blessed'', ''bold'', ''boss'', ''brave'', ''brief'', ''bright'', ''bursting'', ''busy'',
    ''calm'', ''capable'', ''capital'', ''careful'', ''caring'', ''casual'', ''causal'', ''central'',
    ''certain'', ''champion'', ''charmed'', ''charming'', ''cheerful'', ''chief'', ''choice'', ''civil'',
    ''classic'', ''clean'', ''clear'', ''clever'', ''climbing'', ''close'', ''closing'', ''coherent'',
    ''comic'', ''communal'', ''complete'', ''composed'', ''concise'', ''concrete'', ''content'', ''cool'',
    ''correct'', ''cosmic'', ''crack'', ''creative'', ''credible'', ''crisp'', ''crucial'', ''cuddly'',
    ''cunning'', ''curious'', ''current'', ''cute'', ''daring'', ''darling'', ''dashing'', ''dear'',
    ''decent'', ''deciding'', ''deep'', ''definite'', ''delicate'', ''desired'', ''destined'', ''devoted'',
    ''direct'', ''discrete'', ''distinct'', ''diverse'', ''divine'', ''dominant'', ''driven'', ''driving'',
    ''dynamic'', ''eager'', ''easy'', ''electric'', ''elegant'', ''emerging'', ''eminent'', ''enabled'',
    ''enabling'', ''endless'', ''engaged'', ''engaging'', ''enhanced'', ''enjoyed'', ''enormous'',
    ''enough'', ''epic'', ''equal'', ''equipped'', ''eternal'', ''ethical'', ''evident'', ''evolved'',
    ''evolving'', ''exact'', ''excited'', ''exciting'', ''exotic'', ''expert'', ''factual'', ''fair'',
    ''faithful'', ''famous'', ''fancy'', ''fast'', ''feasible'', ''fine'', ''finer'', ''firm'', ''first'',
    ''fitting'', ''fleet'']"

definition Adjectives_2 :: "string list" where
  "Adjectives_2 = [
    ''flexible'', ''flowing'', ''fluent'', ''flying'', ''fond'', ''frank'', ''free'', ''fresh'', ''full'',
    ''fun'', ''funky'', ''funny'', ''game'', ''generous'', ''gentle'', ''genuine'', ''giving'', ''glad'',
    ''glorious'', ''glowing'', ''golden'', ''good'', ''gorgeous'', ''grand'', ''grateful'', ''great'',
    ''growing'', ''grown'', ''guided'', ''guiding'', ''handy'', ''happy'', ''hardy'', ''harmless'',
    ''healthy'', ''helped'', ''helpful'', ''helping'', ''heroic'', ''hip'', ''holy'', ''honest'',
    ''hopeful'', ''hot'', ''huge'', ''humane'', ''humble'', ''humorous'', ''ideal'', ''immense'',
    ''immortal'', ''immune'', ''improved'', ''included'', ''infinite'', ''informed'', ''innocent'',
    ''inspired'', ''integral'', ''intense'', ''intent'', ''internal'', ''intimate'', ''inviting'',
    ''joint'', ''just'', ''keen'', ''key'', ''kind'', ''knowing'', ''known'', ''large'', ''lasting'',
    ''leading'', ''learning'', ''legal'', ''legible'', ''lenient'', ''liberal'', ''light'', ''liked'',
    ''literate'', ''live'', ''living'', ''logical'', ''loved'', ''loving'', ''loyal'', ''lucky'',
    ''magical'', ''magnetic'', ''main'', ''major'', ''many'', ''massive'', ''master'', ''mature'',
    ''maximum'', ''measured'', ''meet'', ''merry'', ''mighty'', ''mint'', ''model'', ''modern'',
    ''modest'', ''moral'', ''more'', ''moved'', ''moving'', ''musical'', ''mutual'', ''national'',
    ''native'', ''natural'', ''nearby'', ''neat'', ''needed'', ''neutral'', ''next'', ''nice'', ''noble'',
    ''normal'', ''notable'', ''noted'', ''novel'', ''obliging'', ''open'', ''optimal'', ''optimum'',
    ''organic'', ''oriented'', ''outgoing'', ''patient'', ''peaceful'', ''perfect'', ''picked'',
    ''pleasant'', ''pleased'', ''pleasing'', ''poetic'', ''polished'', ''polite'', ''popular'',
    ''positive'']"

definition Adjectives_3 :: "string list" where
  "Adjectives_3 = [
    ''possible'', ''powerful'', ''precious'', ''precise'', ''premium'', ''prepared'', ''present'',
    ''pretty'', ''primary'', ''prime'', ''pro'', ''probable'', ''profound'', ''promoted'', ''prompt'',
    ''proper'', ''proud'', ''proven'', ''pumped'', ''pure'', ''quality'', ''quick'', ''quiet'', ''rapid'',
    ''rare'', ''rational'', ''ready'', ''real'', ''refined'', ''regular'', ''related'', ''relative'',
    ''relaxed'', ''relaxing'', ''relevant'', ''relieved'', ''renewed'', ''renewing'', ''resolved'',
    ''rested'', ''rich'', ''right'', ''robust'', ''romantic'', ''ruling'', ''sacred'', ''safe'', ''saved'',
    ''saving'', ''secure'', ''select'', ''selected'', ''sensible'', ''settled'', ''settling'', ''sharing'',
    ''sharp'', ''shining'', ''simple'', ''sincere'', ''singular'', ''skilled'', ''smart'', ''smashing'',
    ''smiling'', ''smooth'', ''social'', ''solid'', ''sought'', ''sound'', ''special'', ''splendid'',
    ''square'', ''stable'', ''star'', ''steady'', ''sterling'', ''still'', ''stirred'', ''stirring'',
    ''striking'', ''strong'', ''stunning'', ''subtle'', ''suitable'', ''suited'', ''summary'', ''sunny'',
    ''super'', ''superb'', ''supreme'', ''sweeping'', ''sweet'', ''talented'', ''teaching'', ''tender'',
    ''thankful'', ''thorough'', ''tidy'', ''tight'', ''together'', ''tolerant'', ''top'', ''topical'',
    ''tops'', ''touched'', ''touching'', ''tough'', ''true'', ''trusted'', ''trusting'', ''trusty'',
    ''ultimate'', ''unbiased'', ''uncommon'', ''unique'', ''upward'', ''usable'', ''useful'', ''valid'',
    ''valued'', ''vast'', ''verified'', ''viable'', ''vital'', ''wanted'', ''warm'', ''wealthy'',
    ''welcome'', ''welcomed'', ''well'', ''whole'', ''willing'', ''winning'', ''wired'', ''wise'',
    ''witty'', ''wondrous'', ''workable'', ''working'', ''worthy'']"

definition Adjectives :: "string list" where
  "Adjectives = Adjectives_1 @ Adjectives_2 @ Adjectives_3"

definition Nouns_1 :: "string list" where
  "Nouns_1 = [
    ''3d-man'', ''abomination'', ''abyss'', ''agent'', ''air-walker'', ''amazi-girl'', ''american-eagle'',
    ''amethyst'', ''amphibian'', ''ancient-one'', ''andromeda'', ''annihilus'', ''anole'', ''anthem'',
    ''ant-man'', ''alchemist'', ''apocalypse'', ''aquagirl'', ''aquaman'', ''arachne'', ''arcade'',
    ''arcana'', ''archangel'', ''arclight'', ''ares'', ''argent'', ''arisia'', ''armadillo'', ''armor'',
    ''armory'', ''arrowette'', ''arsenal'', ''arsenic'', ''artemis'', ''artiee'', ''asgardian'', ''aspen'',
    ''atlas'', ''atom'', ''atomic'', ''avalanche'', ''azazel'', ''azrael'', ''aztec'', ''ballistic'',
    ''banshee'', ''barb'', ''barbarella'', ''baroness'', ''barracuda'', ''bastion'', ''batgirl'',
    ''batman'', ''battle'', ''batwoman'', ''bazooka'', ''beach-head'', ''beak'', ''beast'', ''bebop'',
    ''becatron'', ''bedlam'', ''beef'', ''beetle'', ''bella'', ''belphegor'', ''bengal'', ''bette'',
    ''binary'', ''bionic'', ''bishop'', ''bizarro'', ''blackbat'', ''black-bird'', ''black-bolt'',
    ''black-canary'', ''black-cat'', ''black-crow'', ''blackheart'', ''black-knight'', ''blackout'',
    ''black-panther'', ''black-queen'', ''black-tarantula'', ''black-widow'', ''blade'', ''blastaar'',
    ''blazing-skull'', ''blindfold'', ''blink'', ''blitzkrieg'', ''blizzard'', ''blob'', ''blockbuster'',
    ''blok'', ''bloke'', ''blonde'', ''bloodaxe'', ''bloodberry'', ''bloodscream'', ''bloodstorm'',
    ''bloodstrike'', ''blood-wraith'', ''bloom'', ''blossom'', ''blue'', ''blue-beetle'', ''blue-blade'',
    ''blue-marvel'', ''blue-shield'', ''bluestreak'', ''blur'', ''boom'', ''boomer'', ''boomerang'',
    ''booster'', ''bounty'', ''bronze-tiger'', ''brother-voodoo'', ''bruce-wayne'', ''bubbles'', ''bug'',
    ''bulldozer'', ''bulleteer'', ''bulletgirl'', ''bullseye'', ''bumblebee'', ''burnout'', ''bushwacker'',
    ''buttercup'', ''butterfly'', ''cable'', ''calamity'', ''calendar'', ''caliban'', ''callisto'',
    ''calypso'', ''cammi'', ''cammy'', ''cannonball'', ''captain'', ''captain-america'',
    ''captain-britain'', ''captain-cross'', ''captain-flint'']"

definition Nouns_2 :: "string list" where
  "Nouns_2 = [
    ''captain-marvel'', ''captain-midlands'', ''captain-planet'', ''captain-stacy'', ''captain-universe'',
    ''cardiac'', ''caretaker'', ''carnage'', ''cat'', ''catseye'', ''catwoman'', ''cerebro'',
    ''chameleon'', ''changeling'', ''chase'', ''chat'', ''cherry'', ''chimera'', ''choice'',
    ''chronomancer'', ''circuit'', ''cleopatra'', ''cloak'', ''clobber'', ''clobberella'', ''clover'',
    ''coagula'', ''cobalt-man'', ''cobra'', ''cobweb'', ''colleen'', ''colossus'', ''colt'', ''comedian'',
    ''comet'', ''conan'', ''constrictor'', ''contessa'', ''controller'', ''copperhead'', ''copycat'',
    ''cornelius'', ''corsair'', ''cosmo'', ''cottonmouth'', ''countess'', ''crane'', ''crazy'',
    ''crossbones'', ''crystal'', ''cyber'', ''cybergirl'', ''cyblade'', ''cyborg'', ''cyclone'',
    ''cyclops'', ''cypher'', ''dagger'', ''damage-control'', ''daredevil'', ''darkhawk'', ''dark-phoenix'',
    ''darkstar'', ''darwin'', ''dawn'', ''dawnstar'', ''dazzler'', ''dead'', ''dead-girl'', ''deadpool'',
    ''death'', ''deathbird'', ''deathcry'', ''deathlok'', ''deathstrike'', ''deep'', ''defenders'',
    ''demogoblin'', ''destine'', ''destiny'', ''detective-soap'', ''devastator'', ''devil-dinosaur'',
    ''diablo'', ''diamond'', ''diamondback'', ''doctor'', ''doctor-doom'', ''doctor-faustus'',
    ''doctor-mindbender'', ''doctor-octopus'', ''doctor-spectrum'', ''doctor-strange'', ''doll'',
    ''dollar'', ''dolphin'', ''domino'', ''donatello'', ''doomsday'', ''doorman'', ''doppelganger'',
    ''dormammu'', ''dove'', ''dracula'', ''dragonfly'', ''dragon-lord'', ''dragon-man'', ''dragonna'',
    ''drax'', ''dream'', ''dumb'', ''dusk'', ''dust'', ''dyna'', ''dynamite'', ''earthquake'', ''echo'',
    ''ego'', ''elasti-girl'', ''electra'', ''electro'', ''elektra'', ''elite'', ''elixir'', ''elongated'',
    ''empath'', ''empowered'', ''empress'', ''enchantress'', ''energizer'', ''epoch'', ''eradicator'',
    ''eternals'', ''eternity'', ''excalibur'', ''exodus'', ''expediter'', ''ezekiel'', ''fairchild'',
    ''faith'', ''falcon'', ''fallen'', ''fallen-one'', ''famine'', ''fantomah'']"

definition Nouns_3 :: "string list" where
  "Nouns_3 = [
    ''fantomette'', ''fantomex'', ''fat-cobra'', ''fathom'', ''fenris'', ''feral'', ''fever'', ''fire'',
    ''firebird'', ''firebrand'', ''firedrake'', ''firefly'', ''firelord'', ''firestar'', ''firestorm'',
    ''fixer'', ''flaberella'', ''flamebird'', ''flash'', ''flatman'', ''flint'', ''flora'', ''forearm'',
    ''forerunner'', ''forge'', ''forgotten-one'', ''freak'', ''free'', ''freefall'', ''frenzy'',
    ''frog-man'', ''fury'', ''galactus'', ''galvatron'', ''gambit'', ''gamma-corps'', ''gamora'',
    ''gangbuster'', ''ganymede'', ''garganta'', ''gargoyle'', ''gargoyles'', ''gateway'', ''gauntlet'',
    ''genesis'', ''ghost'', ''ghost-rider'', ''giant-girl'', ''giant-man'', ''git-hoskins'', ''gladiator'',
    ''glitter'', ''glory'', ''golden-guardian'', ''goliath'', ''gorilla-man'', ''grandmaster'',
    ''graphics'', ''gravity'', ''green-arrow'', ''green-goblin'', ''green-lantern'', ''grey-gargoyle'',
    ''greymalkin'', ''grim-reaper'', ''groot'', ''guardian'', ''guardsmen'', ''gunslinger'', ''gwen'',
    ''gwen-stacy'', ''hairball'', ''hammerhead'', ''hardball'', ''harpoon'', ''haven'', ''havok'',
    ''hawk'', ''hawkeye'', ''hawkgirl'', ''hawkman'', ''hawkwoman'', ''heather'', ''hellboy'', ''hellcat'',
    ''hercules'', ''hiroim'', ''hitman'', ''hobgoblin'', ''holy'', ''hooded'', ''horridus'', ''howard'',
    ''hulk'', ''hulkling'', ''human-cannonball'', ''human-fly'', ''human-robot'', ''human-target'',
    ''human-torch'', ''humbug'', ''huntara'', ''huntress'', ''husk'', ''hussar'', ''hydra'', ''hydro-man'',
    ''hyperion'', ''hypno-hustler'', ''ice'', ''iceman'', ''impossible-man'', ''impulse'',
    ''in-betweener'', ''indigo'', ''inertia'', ''infragirl'', ''inhumans'', ''ink'', ''insect'',
    ''invisible'', ''invisible-woman'', ''iron'', ''iron-fist'', ''iron-lad'', ''iron-man'',
    ''iron-monger'', ''jackpot'', ''jaguar'', ''jigsaw'', ''joker'', ''jolt'', ''joystick'', ''jubilee'',
    ''judomaster'', ''juggernaut'', ''jungle'', ''juniper'', ''justice'', ''karate'', ''karatecha'',
    ''karma'', ''katana'', ''kid-colt'', ''killer-shrike'']"

definition Nouns_4 :: "string list" where
  "Nouns_4 = [
    ''killmonger'', ''kinetix'', ''king-bedlam'', ''king-cobra'', ''kingpin'', ''kitty'', ''klaw'',
    ''knockout'', ''komodo'', ''kree'', ''kronos'', ''lady'', ''lady-bullseye'', ''lady-deathstrike'',
    ''ladyhawk'', ''lady-mastermind'', ''lady-shiva'', ''lanolin'', ''la-nuit'', ''laurel'', ''lavagirl'',
    ''lava-man'', ''layla'', ''layla-miller'', ''leader'', ''leatherhead'', ''leatherneck'', ''legion'',
    ''leonardo'', ''leopardon'', ''lester'', ''lettuce'', ''liberty'', ''lifeguard'', ''lightning'',
    ''lightspeed'', ''lilandra'', ''lilith'', ''lime'', ''lionheart'', ''little'', ''living-lightning'',
    ''living-mummy'', ''lizard'', ''lockheed'', ''lockjaw'', ''longshot'', ''looker'', ''lord-hawal'',
    ''lord-tyger'', ''luckman'', ''madame-hydra'', ''madame-masque'', ''madame-web'', ''maddog'',
    ''madripoor'', ''madrox'', ''mad-thinker'', ''maestro'', ''magik'', ''maginty'', ''magma'',
    ''magneto'', ''magus'', ''malice'', ''mandarin'', ''mandrill'', ''mandroid'', ''manhunter'',
    ''manitou'', ''manta'', ''man-thing'', ''mantis'', ''man-wolf'', ''marionette'', ''marrow'',
    ''martian'', ''master-chief'', ''mastermind'', ''master-mold'', ''mathemanic'', ''mauler'',
    ''maximum'', ''maximus'', ''medusa'', ''mega-man'', ''megatron'', ''menace'', ''mentor'', ''mephisto'',
    ''metal-master'', ''metamorpho'', ''meteorite'', ''michaelangelo'', ''microbe'', ''microchip'',
    ''micro-macro'', ''micromax'', ''midnight'', ''mighty'', ''mimic'', ''mindworm'', ''mint'',
    ''miracleman'', ''mirage'', ''miss-america'', ''mister-fantastic'', ''mister-fear'', ''mister-freeze'',
    ''mister-hyde'', ''mister-sinister'', ''misty'', ''misty-knight'', ''mockingbird'', ''molecule-man'',
    ''mole-man'', ''molten-man'', ''mongoose'', ''mongu'', ''monster-badoon'', ''monstress'',
    ''moondragon'', ''moon-knight'', ''moonstar'', ''moonstone'', ''morbius'', ''multiple-man'',
    ''mysterio'', ''mystique'', ''nebula'', ''negative'', ''nemesis'', ''neon'', ''network'',
    ''new-goblin'', ''newton-destine'', ''nextwave'', ''night'', ''nightcat'', ''nightcrawler'',
    ''nighthawk'', ''nightmare'', ''night-nurse'', ''nightshade'', ''nightstar'']"

definition Nouns_5 :: "string list" where
  "Nouns_5 = [
    ''night-thrasher'', ''nightveil'', ''nightwing'', ''nitro'', ''nocturne'', ''nomad'', ''northstar'',
    ''nova'', ''nuke'', ''odin'', ''ogun'', ''old-lace'', ''omega-flight'', ''omega-red'',
    ''omega-sentinel'', ''onslaught'', ''onyx'', ''oracle'', ''orion'', ''outlaw-kid'', ''overlord'',
    ''owl'', ''owlman'', ''owlwoman'', ''paladin'', ''pandemic'', ''pantha'', ''panty-man'',
    ''paper-doll'', ''parasite'', ''patch'', ''patriot'', ''payback'', ''penance'', ''penguin'',
    ''pestilence'', ''phalanx'', ''phantom'', ''phoenix'', ''photon'', ''piledriver'', ''plastic'',
    ''plasma'', ''poison'', ''polaris'', ''post'', ''power'', ''power-man'', ''princess'', ''prism'',
    ''prodigy'', ''professor-monster'', ''psycho-man'', ''psylocke'', ''punisher'', ''puppet-master'',
    ''purifiers'', ''purple-man'', ''pyro'', ''quasar'', ''queen'', ''quicksilver'', ''radioactive-man'',
    ''rage'', ''raider'', ''rainbow'', ''rainmaker'', ''rampage'', ''random'', ''raphael'', ''raptor'',
    ''rapture'', ''rat-king'', ''reaper'', ''red-ghost'', ''red-hulk'', ''red-shift'', ''red-skull'',
    ''redwing'', ''red-wolf'', ''reptil'', ''rescue'', ''retro-girl'', ''revanche'', ''reverse'',
    ''rhino'', ''ricochet'', ''rictor'', ''riddler'', ''risque'', ''robin-hood'', ''rocket'',
    ''rocket-raccoon'', ''rocket-racer'', ''rockslide'', ''rogue'', ''roland-deschain'', ''sailor'',
    ''sandman'', ''santa-claus'', ''saracen'', ''sasquatch'', ''satana'', ''satellite'', ''saturn'',
    ''sauron'', ''savant'', ''scalphunter'', ''scarecrow'', ''scarlet'', ''scarlet-spider'',
    ''scarlet-witch'', ''scorpion'', ''scourge'', ''scrambler'', ''scream'', ''screwball'', ''secret'',
    ''sentinel'', ''sentinels'', ''sentry'', ''sepulchre'', ''ser-duncan'', ''serpentor'', ''shadow'',
    ''shadowcat'', ''shadoweyes'', ''shadow-king'', ''shaman'', ''shamrock'', ''shocker'', ''shockwave'',
    ''shooting-star'', ''shotgun'', ''shredder'', ''shriek'', ''shrinking'', ''siege'', ''silhouette'',
    ''silver'', ''silver-centurion'', ''silverclaw'', ''silver-fox'', ''silvermane'', ''silver-sable'']"

definition Nouns_6 :: "string list" where
  "Nouns_6 = [
    ''silver-samurai'', ''silver-surfer'', ''sinister-six'', ''siren'', ''skullbuster'', ''skyrocket'',
    ''slapstick'', ''slayback'', ''sleeper'', ''sleepwalker'', ''slipstream'', ''smasher'',
    ''smiling-tiger'', ''snake-eyes'', ''snowbird'', ''songbird'', ''spartan'', ''spectrum'',
    ''speedball'', ''speed-demon'', ''speedy'', ''spellbinder'', ''sphinx'', ''spider'', ''spider-girl'',
    ''spider-ham'', ''spider-man'', ''spider-woman'', ''spiral'', ''spirit'', ''spitfire'', ''spoiler'',
    ''spot'', ''sprite'', ''spy'', ''spyke'', ''squirrel'', ''squirrel-girl'', ''starbolt'',
    ''star-brand'', ''stardust'', ''starfire'', ''starfox'', ''stargirl'', ''starhawk'', ''star-lord'',
    ''star-spangled'', ''starwoman'', ''steel'', ''steel-serpent'', ''stilt-man'', ''stinger'',
    ''stingray'', ''stone-men'', ''storm'', ''stormtrooper'', ''stranger'', ''stripperella'',
    ''strong-guy'', ''stryfe'', ''stunner'', ''sub-mariner'', ''sugar-man'', ''sunfire'', ''sunset-bain'',
    ''sunspot'', ''supergirl'', ''supergran'', ''superman'', ''supernaut'', ''superwoman'', ''swift'',
    ''switch'', ''swordsman'', ''synch'', ''tag'', ''talisman'', ''talkback'', ''talon'', ''talos'',
    ''tank'', ''tara'', ''tarantula'', ''tarot'', ''taskmaster'', ''tattoo'', ''tecna'', ''tempest'',
    ''tenebrous'', ''terror'', ''terry'', ''the-anarchist'', ''the-call'', ''the-captain'',
    ''the-executioner'', ''the-fallen'', ''the-fury'', ''the-hand'', ''the-hood'', ''the-hunter'',
    ''the-leader'', ''the-phantom'', ''the-professor'', ''the-punisher'', ''the-rocketeer'',
    ''the-shadow'', ''the-spike'', ''the-stranger'', ''the-wasp'', ''thing'', ''thunder'', ''thunderball'',
    ''thunderbird'', ''thunderbolt'', ''tiger'', ''tiger-shark'', ''timeslip'', ''tinkerer'', ''titaness'',
    ''titania'', ''titanium-man'', ''toad'', ''toad-men'', ''tombstone'', ''tomorrow-man'', ''toxin'',
    ''trauma'', ''triathlon'', ''triceraton'', ''triplicate'', ''triton'', ''tsunami'', ''turbo'',
    ''two-face'', ''tyrannus'', ''ultimatum'', ''ultimo'', ''ultra'', ''ultra-adaptoid'', ''ultragirl'',
    ''ultrawoman'', ''ultron'', ''unicorn'', ''unknown-soldier'', ''valkyrie'']"

definition Nouns_7 :: "string list" where
  "Nouns_7 = [
    ''vampirella'', ''vampiro'', ''vanisher'', ''vapor'', ''vector'', ''velocity'', ''vengeance'',
    ''venom'', ''venus'', ''vermin'', ''vigilante'', ''vindicator'', ''violations'', ''violet'', ''viper'',
    ''virtuous'', ''vision'', ''vivisector'', ''vixen'', ''vogue'', ''void'', ''voodoo'', ''vulcan'',
    ''vulture'', ''wallflower'', ''wallop'', ''wallow'', ''warbird'', ''warbound'', ''warhawk'',
    ''warlock'', ''war-machine'', ''warpath'', ''warstar'', ''wasp'', ''watchmen'', ''weapon-omega'',
    ''weapon-x'', ''wendigo'', ''whirl-girl'', ''whirlwind'', ''whistler'', ''white-queen'',
    ''white-tiger'', ''whizzer'', ''wiccan'', ''widget'', ''wild'', ''wildcat'', ''wind-dancer'',
    ''winged'', ''winter-soldier'', ''witchblade'', ''witchfire'', ''wolfpack'', ''wolfsbane'',
    ''wolverine'', ''wonder'', ''wonder-man'', ''wonder-woman'', ''wraith'', ''wrecker'', ''x-ray'',
    ''yellow-claw'', ''yellowjacket'', ''zombie'']"

definition Nouns :: "string list" where
  "Nouns = Nouns_1 @ Nouns_2 @ Nouns_3 @ Nouns_4 @ Nouns_5 @ Nouns_6 @ Nouns_7"

section \<open>Generating a name\<close>

text \<open>\<open>rand.Int(rand.Reader, big.NewInt(n))\<close>.\<close>

definition rand_Int :: "nat \<Rightarrow> ('z world_scheme, nat) op" where
  "rand_Int n w = ext_call (\<lambda>w'. (Inr (unat (uuid_in w) mod n), w')) w"

definition GenerateUsername :: "('z world_scheme, string) op" where
  "GenerateUsername =
     tryE (rand_Int (length Adjectives)) fail
       (\<lambda>adjIdx. tryE (rand_Int (length Nouns)) fail
         (\<lambda>nounIdx. ret (Adjectives ! adjIdx @ ''-'' @ Nouns ! nounIdx)))"

section \<open>Lemmas\<close>

lemma words_fit:
  "list_all (fits 8) Adjectives_1"
  "list_all (fits 8) Adjectives_2"
  "list_all (fits 8) Adjectives_3"
  "list_all (fits 17) Nouns_1"
  "list_all (fits 17) Nouns_2"
  "list_all (fits 17) Nouns_3"
  "list_all (fits 17) Nouns_4"
  "list_all (fits 17) Nouns_5"
  "list_all (fits 17) Nouns_6"
  "list_all (fits 17) Nouns_7"
  by (simp_all add: fits_def no_nul_def Adjectives_1_def Adjectives_2_def Adjectives_3_def Nouns_1_def Nouns_2_def Nouns_3_def Nouns_4_def Nouns_5_def Nouns_6_def Nouns_7_def)

lemma Adjectives_ok: "list_all (fits 8) Adjectives" "Adjectives \<noteq> []"
  unfolding Adjectives_def list_all_append by (simp_all add: words_fit) (simp add: Adjectives_1_def)

lemma Nouns_ok: "list_all (fits 17) Nouns" "Nouns \<noteq> []"
  unfolding Nouns_def list_all_append by (simp_all add: words_fit) (simp add: Nouns_1_def)

lemma nth_word: "list_all P xs \<Longrightarrow> xs \<noteq> [] \<Longrightarrow> P (xs ! (i mod length xs))"
  by (simp add: list_all_length)

lemma wp_rand_Int:
  assumes "\<And>x. \<not> calm w \<Longrightarrow> E (External x) (tick w)" and "Q (unat (uuid_in w) mod n) (tick w)"
  shows "wp (rand_Int n) Q E w"
  using assms by (auto simp: wp_def rand_Int_def ext_call_def split: fault.splits)

lemma name_fits: "fits 8 a \<Longrightarrow> fits 17 b \<Longrightarrow> fits 26 (a @ ''-'' @ b)"
  by (auto simp: fits_def no_nul_def)

text \<open>A name is an adjective, a dash and a noun; drawing one takes two calls and changes nothing.\<close>

definition is_username :: "string \<Rightarrow> bool" where
  "is_username s \<longleftrightarrow> (\<exists>i j. i < length Adjectives \<and> j < length Nouns \<and> s = Adjectives ! i @ ''-'' @ Nouns ! j)"

lemma username_fits: "is_username s \<Longrightarrow> fits 26 s"
  using Adjectives_ok(1) Nouns_ok(1) name_fits unfolding is_username_def list_all_length by metis

definition drawn_name :: "environment \<Rightarrow> nat \<Rightarrow> string" where
  "drawn_name E n = Adjectives ! (unat (uuid_at E n) mod length Adjectives) @ ''-'' @ Nouns ! (unat (uuid_at E (Suc n)) mod length Nouns)"

lemma drawn_is_username: "is_username (drawn_name E n)"
  using Adjectives_ok(2) Nouns_ok(2) unfolding is_username_def drawn_name_def by (intro exI conjI) simp_all

lemma wp_GenerateUsername:
  assumes "\<And>x. \<not> calm w \<Longrightarrow> E (External x) (tick w)" and "\<And>x. \<not> calm w \<Longrightarrow> E (External x) (tick (tick w))"
    and "Q (drawn_name (env w) (calls w)) (tick (tick w))"
  shows "wp GenerateUsername Q E w"
  unfolding GenerateUsername_def wp_simps
  by (intro wp_rand_Int) (use assms in \<open>auto simp: wp_simps drawn_name_def uuid_in_def intro: wp_rand_Int\<close>)

end
