(* ===== verification/UserRepo.thy ===== *)
theory UserRepo
  imports Usernames
begin

text \<open>
  \<open>services/user/internal/repository/user.go\<close>: the profiles in the table \<open>users\<close>.

  Seen from outside they are a map from ids.  \<open>user_store\<close> is the contract of the repository as a
  locale; it is interpreted on the repository of the code.  Creating a profile is two checks and an
  insertion, each a statement of its own: what happens when another request inserts in between is
  \<open>insert_race\<close>.
\<close>

section \<open>The table\<close>

record User =
  usr_ID :: uuid
  usr_Username :: string
  usr_DisplayName :: string
  usr_AvatarURL :: "string option"
  usr_Bio :: "string option"
  usr_CreatedAt :: time
  usr_UpdatedAt :: time

type_synonym user_table = "User list"

record user_world = world +
  user_db :: user_table

definition put_users :: "user_table \<Rightarrow> 'z user_world_scheme \<Rightarrow> 'z user_world_scheme" where
  "put_users db w = w\<lparr>user_db := db\<rparr>"

definition user_pool :: "(user_table, 'a) stmt \<Rightarrow> ('z user_world_scheme, 'a) op" where
  "user_pool s = pool_call user_db put_users s"

definition sql_id_exists :: "uuid \<Rightarrow> (user_table, bool) stmt" where
  "sql_id_exists i t u db = Inr (i \<in> set (List.map usr_ID db), db)"

definition sql_username_exists :: "string \<Rightarrow> (user_table, bool) stmt" where
  "sql_username_exists s t u db =
     (if \<not> no_nul s then Inl (External (PgError ''22021'')) else Inr (s \<in> set (List.map usr_Username db), db))"

text \<open>The columns are \<open>username VARCHAR(50) UNIQUE\<close> and \<open>display_name VARCHAR(100)\<close>.\<close>

definition sql_insert_user :: "uuid \<Rightarrow> string \<Rightarrow> string \<Rightarrow> (user_table, User) stmt" where
  "sql_insert_user i username displayName t u db =
     (case (varchar 50 username, varchar 100 displayName) of
        (Inl e, _) \<Rightarrow> Inl e
      | (Inr _, Inl e) \<Rightarrow> Inl e
      | (Inr name, Inr shown) \<Rightarrow>
          if i \<in> set (List.map usr_ID db) \<or> name \<in> set (List.map usr_Username db) then Inl (External (PgError ''23505''))
          else let user = \<lparr>usr_ID = i, usr_Username = name, usr_DisplayName = shown, usr_AvatarURL = None, usr_Bio = None,
                           usr_CreatedAt = t, usr_UpdatedAt = t\<rparr>
               in Inr (user, db @ [user]))"

definition sql_user_by_id :: "uuid \<Rightarrow> (user_table, User option) stmt" where
  "sql_user_by_id i t u db = Inr (find (\<lambda>r. usr_ID r = i) db, db)"

definition sql_users_by_ids :: "uuid list \<Rightarrow> (user_table, User list) stmt" where
  "sql_users_by_ids ids t u db = Inr (filter (\<lambda>r. usr_ID r \<in> set ids) db, db)"

text \<open>The update is put together from the columns that are given; an empty text clears a column that may
  be null.\<close>

datatype user_column = display_name | avatar_url | bio

definition set_clauses :: "string option \<Rightarrow> string option \<Rightarrow> string option \<Rightarrow> (user_column \<times> string option) list" where
  "set_clauses displayName avatarURL bioText =
     (case displayName of None \<Rightarrow> [] | Some x \<Rightarrow> [(display_name, Some x)]) @
     (case avatarURL of None \<Rightarrow> [] | Some x \<Rightarrow> [(avatar_url, if x = [] then None else Some x)]) @
     (case bioText of None \<Rightarrow> [] | Some x \<Rightarrow> [(bio, if x = [] then None else Some x)])"

fun set_column :: "user_column \<Rightarrow> string option \<Rightarrow> User \<Rightarrow> error + User" where
  "set_column display_name None r = Inl (External (PgError ''23502''))"
| "set_column display_name (Some x) r =
     (case varchar 100 x of Inl e \<Rightarrow> Inl e | Inr y \<Rightarrow> Inr (r\<lparr>usr_DisplayName := y\<rparr>))"
| "set_column avatar_url v r = Inr (r\<lparr>usr_AvatarURL := v\<rparr>)"
| "set_column bio v r = Inr (r\<lparr>usr_Bio := v\<rparr>)"

fun set_columns :: "(user_column \<times> string option) list \<Rightarrow> User \<Rightarrow> error + User" where
  "set_columns [] r = Inr r"
| "set_columns ((c, v) # cvs) r = (case set_column c v r of Inl e \<Rightarrow> Inl e | Inr r' \<Rightarrow> set_columns cvs r')"

definition sql_update_user :: "uuid \<Rightarrow> (user_column \<times> string option) list \<Rightarrow> (user_table, User option) stmt" where
  "sql_update_user i clauses t u db =
     (if list_ex (\<lambda>(c, v). case v of None \<Rightarrow> False | Some x \<Rightarrow> \<not> no_nul x) clauses then Inl (External (PgError ''22021''))
      else (case find (\<lambda>r. usr_ID r = i) db of
              None \<Rightarrow> Inr (None, db)
            | Some r \<Rightarrow>
                (case set_columns clauses (r\<lparr>usr_UpdatedAt := t\<rparr>) of
                   Inl e \<Rightarrow> Inl e
                 | Inr r' \<Rightarrow> Inr (Some r', List.map (\<lambda>x. if usr_ID x = i then r' else x) db))))"

section \<open>The repository\<close>

definition pgUser_checkUserExistsByID :: "uuid \<Rightarrow> ('z user_world_scheme, bool) op" where
  "pgUser_checkUserExistsByID i = user_pool (sql_id_exists i)"

definition pgUser_checkUsernameExists :: "string \<Rightarrow> ('z user_world_scheme, bool) op" where
  "pgUser_checkUsernameExists s = user_pool (sql_username_exists s)"

definition pgUser_insert :: "uuid \<Rightarrow> string \<Rightarrow> string \<Rightarrow> ('z user_world_scheme, User) op" where
  "pgUser_insert i username displayName =
     tryE (user_pool (sql_insert_user i username displayName))
       (\<lambda>e. if errors_Is e pgx_ErrNoRows
            then tryE (pgUser_checkUsernameExists username)
                   (\<lambda>checkErr. fail (Wrap ''check username collision'' checkErr))
                   (\<lambda>taken. if taken then fail (Sentinel userRepo_ErrUsernameAlreadyExists)
                            else fail (Sentinel userRepo_ErrUserAlreadyExists))
            else fail (Wrap ''create user'' e))
       ret"

definition pgUser_CreateUser :: "uuid \<Rightarrow> string \<Rightarrow> string \<Rightarrow> ('z user_world_scheme, User) op" where
  "pgUser_CreateUser i username displayName =
     tryE (pgUser_checkUserExistsByID i) (\<lambda>e. fail (Wrap ''check existing user'' e))
       (\<lambda>existingByID. if existingByID then fail (Sentinel userRepo_ErrUserAlreadyExists)
          else tryE (pgUser_checkUsernameExists username) (\<lambda>e. fail (Wrap ''check username'' e))
            (\<lambda>existingByUsername. if existingByUsername then fail (Sentinel userRepo_ErrUsernameAlreadyExists)
               else pgUser_insert i username displayName))"

definition pgUser_GetUserByID :: "uuid \<Rightarrow> ('z user_world_scheme, User) op" where
  "pgUser_GetUserByID i =
     tryE (user_pool (one_row (sql_user_by_id i)))
       (\<lambda>e. if errors_Is e pgx_ErrNoRows then fail (Sentinel userRepo_ErrUserNotFound)
            else fail (Wrap ''get user by id'' e))
       ret"

fun scan_users :: "User list \<Rightarrow> ('z world_scheme, User list) op" where
  "scan_users [] = tryE rows_Err (\<lambda>e. fail (Wrap ''iterate users'' e)) (\<lambda>_. ret [])"
| "scan_users (r # rs) =
     tryE rows_Scan (\<lambda>e. fail (Wrap ''scan user'' e)) (\<lambda>_. tryE (scan_users rs) fail (\<lambda>users. ret (r # users)))"

definition pgUser_GetUsersByIDs :: "uuid list \<Rightarrow> ('z user_world_scheme, User list) op" where
  "pgUser_GetUsersByIDs ids =
     (if ids = [] then ret []
      else tryE (user_pool (sql_users_by_ids ids)) (\<lambda>e. fail (Wrap ''get users by ids'' e)) scan_users)"

definition pgUser_UpdateUser :: "uuid \<Rightarrow> string option \<Rightarrow> string option \<Rightarrow> string option \<Rightarrow> ('z user_world_scheme, User) op" where
  "pgUser_UpdateUser i displayName avatarURL bioText =
     tryE (user_pool (one_row (sql_update_user i (set_clauses displayName avatarURL bioText))))
       (\<lambda>e. if errors_Is e pgx_ErrNoRows then fail (Sentinel userRepo_ErrUserNotFound)
            else fail (Wrap ''update user'' e))
       ret"

record 'w UserRepository =
  urepo_CreateUser :: "uuid \<Rightarrow> string \<Rightarrow> string \<Rightarrow> ('w, User) op"
  urepo_GetUserByID :: "uuid \<Rightarrow> ('w, User) op"
  urepo_GetUsersByIDs :: "uuid list \<Rightarrow> ('w, User list) op"
  urepo_UpdateUser :: "uuid \<Rightarrow> string option \<Rightarrow> string option \<Rightarrow> string option \<Rightarrow> ('w, User) op"

definition pgUserRepository :: "('z user_world_scheme) UserRepository" where
  "pgUserRepository =
     \<lparr>urepo_CreateUser = pgUser_CreateUser, urepo_GetUserByID = pgUser_GetUserByID,
      urepo_GetUsersByIDs = pgUser_GetUsersByIDs, urepo_UpdateUser = pgUser_UpdateUser\<rparr>"

section \<open>The contract\<close>

text \<open>What every operation leaves alone, and what an update does to a profile.\<close>

definition same_bus :: "'z world_scheme \<Rightarrow> 'z world_scheme \<Rightarrow> bool" where
  "same_bus w w' \<longleftrightarrow> env w' = env w \<and> calls w \<le> calls w' \<and> published w' = published w"

lemma same_bus_refl [simp]: "same_bus w w" "same_bus w (tick w)"
  by (simp_all add: same_bus_def)

lemma same_bus_trans: "same_bus w w' \<Longrightarrow> same_bus w' w'' \<Longrightarrow> same_bus w w''"
  by (simp add: same_bus_def)

definition edited :: "string option \<Rightarrow> string option \<Rightarrow> string option \<Rightarrow> User \<Rightarrow> User \<Rightarrow> bool" where
  "edited displayName avatarURL bioText old u \<longleftrightarrow>
     usr_ID u = usr_ID old \<and> usr_Username u = usr_Username old \<and> usr_CreatedAt u = usr_CreatedAt old \<and>
     (case displayName of None \<Rightarrow> usr_DisplayName u = usr_DisplayName old | Some x \<Rightarrow> varchar 100 x = Inr (usr_DisplayName u)) \<and>
     usr_AvatarURL u = (case avatarURL of None \<Rightarrow> usr_AvatarURL old | Some x \<Rightarrow> if x = [] then None else Some x) \<and>
     usr_Bio u = (case bioText of None \<Rightarrow> usr_Bio old | Some x \<Rightarrow> if x = [] then None else Some x)"

definition edit_ok :: "string option \<Rightarrow> string option \<Rightarrow> string option \<Rightarrow> bool" where
  "edit_ok displayName avatarURL bioText \<longleftrightarrow> pred_option (fits 100) displayName \<and> pred_option no_nul avatarURL \<and> pred_option no_nul bioText"

definition user_added :: "(uuid \<rightharpoonup> User) \<Rightarrow> string \<Rightarrow> User \<Rightarrow> (uuid \<rightharpoonup> User) \<Rightarrow> bool" where
  "user_added m name u m' \<longleftrightarrow> m (usr_ID u) = None \<and> (\<forall>v \<in> ran m. usr_Username v \<noteq> usr_Username u) \<and>
     m' = m(usr_ID u \<mapsto> u) \<and> (fits 50 name \<longrightarrow> usr_Username u = name)"

locale user_store =
  fixes repo :: "('z world_scheme) UserRepository" and users :: "'z world_scheme \<Rightarrow> uuid \<rightharpoonup> User"
    and invar :: "'z world_scheme \<Rightarrow> bool"
  assumes idle: "invar w \<Longrightarrow> users (tick w) = users w \<and> invar (tick w)"
    and own_id: "invar w \<Longrightarrow> users w i = Some u \<Longrightarrow> usr_ID u = i"
    and own_name: "invar w \<Longrightarrow> users w i = Some u \<Longrightarrow> users w j = Some v \<Longrightarrow> usr_Username u = usr_Username v \<Longrightarrow> i = j"
    and get: "invar w \<Longrightarrow> wp (urepo_GetUserByID repo i)
      (\<lambda>u w'. invar w' \<and> same_bus w w' \<and> users w' = users w \<and> users w i = Some u)
      (\<lambda>e w'. invar w' \<and> same_bus w w' \<and> users w' = users w \<and>
         (\<forall>s. errors_Is e s \<longrightarrow> s = userRepo_ErrUserNotFound \<and> users w i = None) \<and>
         (calm w \<longrightarrow> errors_Is e userRepo_ErrUserNotFound)) w"
    and get_many: "invar w \<Longrightarrow> wp (urepo_GetUsersByIDs repo ids)
      (\<lambda>us w'. invar w' \<and> same_bus w w' \<and> users w' = users w \<and> distinct us \<and> set us = {u. \<exists>i \<in> set ids. users w i = Some u})
      (\<lambda>e w'. invar w' \<and> same_bus w w' \<and> users w' = users w \<and> \<not> calm w) w"
    and create: "invar w \<Longrightarrow> wp (urepo_CreateUser repo i name shown)
      (\<lambda>u w'. invar w' \<and> same_bus w w' \<and> usr_ID u = i \<and> user_added (users w) name u (users w'))
      (\<lambda>e w'. invar w' \<and> same_bus w w' \<and>
         (users w' = users w \<or> \<not> calm w \<and> (\<exists>u. usr_ID u = i \<and> user_added (users w) name u (users w')) \<and> (\<forall>s. \<not> errors_Is e s)) \<and>
         (\<forall>s. errors_Is e s \<longrightarrow>
            s = userRepo_ErrUserAlreadyExists \<and> users w i \<noteq> None \<or>
            s = userRepo_ErrUsernameAlreadyExists \<and> users w i = None \<and> (\<exists>v \<in> ran (users w). usr_Username v = name)) \<and>
         (calm w \<and> fits 50 name \<and> fits 100 shown \<longrightarrow> (\<exists>s. errors_Is e s))) w"
    and update: "invar w \<Longrightarrow> wp (urepo_UpdateUser repo i d a b)
      (\<lambda>u w'. invar w' \<and> same_bus w w' \<and> (\<exists>old. users w i = Some old \<and> edited d a b old u \<and> users w' = (users w)(i \<mapsto> u)))
      (\<lambda>e w'. invar w' \<and> same_bus w w' \<and>
         (users w' = users w \<or> \<not> calm w \<and> (\<exists>old u. users w i = Some old \<and> edited d a b old u \<and> users w' = (users w)(i \<mapsto> u))) \<and>
         (\<forall>s. errors_Is e s \<longrightarrow> s = userRepo_ErrUserNotFound \<and> users w i = None) \<and>
         (calm w \<and> edit_ok d a b \<longrightarrow> errors_Is e userRepo_ErrUserNotFound)) w"

section \<open>Postgres provides it\<close>

definition users_ok :: "user_table \<Rightarrow> bool" where
  "users_ok db \<longleftrightarrow> distinct (List.map usr_ID db) \<and> distinct (List.map usr_Username db)"

definition pg_users :: "'z user_world_scheme \<Rightarrow> uuid \<rightharpoonup> User" where
  "pg_users w = (\<lambda>i. find (\<lambda>r. usr_ID r = i) (user_db w))"

definition pg_users_ok :: "'z user_world_scheme \<Rightarrow> bool" where
  "pg_users_ok w \<longleftrightarrow> users_ok (user_db w)"

lemma put_users_simps [simp]:
  "user_db (put_users db w) = db" "env (put_users db w) = env w" "calls (put_users db w) = calls w"
  "published (put_users db w) = published w" "user_db (tick w) = user_db w"
  by (simp_all add: put_users_def tick_def)

lemma same_bus_put [simp]: "same_bus w (put_users db (tick w))"
  by (simp add: same_bus_def)

lemma pg_users_Some: "users_ok (user_db w) \<Longrightarrow> pg_users w i = Some u \<longleftrightarrow> u \<in> set (user_db w) \<and> usr_ID u = i"
  unfolding pg_users_def users_ok_def by (auto simp: find_key_Some_iff)

lemma pg_users_None: "pg_users w i = None \<longleftrightarrow> i \<notin> usr_ID ` set (user_db w)"
  by (simp add: pg_users_def find_key_None_iff)

lemma ran_pg_users: "users_ok (user_db w) \<Longrightarrow> ran (pg_users w) = set (user_db w)"
  by (auto simp: ran_def pg_users_Some)

lemma pg_users_tick [simp]: "pg_users (tick w) = pg_users w" "pg_users_ok (tick w) = pg_users_ok w"
  by (simp_all add: pg_users_def pg_users_ok_def)

lemma put_same_users [simp]: "pg_users (put_users (user_db w) w') = pg_users w" "pg_users_ok (put_users (user_db w) w') = pg_users_ok w"
  by (simp_all add: pg_users_def pg_users_ok_def)

lemma wp_user_pool:
  assumes "\<And>x. \<not> calm w \<Longrightarrow> E (External x) (tick w)"
    and "\<And>x t u a db. \<not> calm w \<Longrightarrow> s t u (user_db w) = Inr (a, db) \<Longrightarrow> E (External x) (put_users db (tick w))"
    and "\<And>t u e. s t u (user_db w) = Inl e \<Longrightarrow> E e (tick w)"
    and "\<And>t u a db. s t u (user_db w) = Inr (a, db) \<Longrightarrow> Q a (put_users db (tick w))"
  shows "wp (user_pool s) Q E w"
  unfolding user_pool_def by (rule wp_pool_call) (use assms in simp_all)

text \<open>An insertion that works, and one that does not.\<close>

lemma insert_user_Inr:
  assumes "sql_insert_user i name shown t u db = Inr (a, db')" and "users_ok db"
  shows "users_ok db' \<and> db' = db @ [a] \<and> usr_ID a = i \<and> i \<notin> usr_ID ` set db \<and> usr_Username a \<notin> usr_Username ` set db \<and>
    (fits 50 name \<longrightarrow> usr_Username a = name)"
  using assms by (auto simp: sql_insert_user_def users_ok_def Let_def varchar_short split: sum.splits if_splits)

lemma insert_user_Inl:
  assumes "sql_insert_user i name shown t u db = Inl e"
  shows "(\<exists>c. e = External (PgError c)) \<and> (fits 50 name \<and> fits 100 shown \<longrightarrow>
    (i \<in> usr_ID ` set db \<or> name \<in> usr_Username ` set db) \<and> e = External (PgError ''23505''))"
  using assms by (auto simp: sql_insert_user_def varchar_def fits_def Let_def split: sum.splits if_splits)

lemma set_columns_edit:
  assumes "set_columns (set_clauses d a b) (r\<lparr>usr_UpdatedAt := t\<rparr>) = Inr r'"
  shows "edited d a b r r'"
  using assms by (auto simp: set_clauses_def edited_def split: option.splits sum.splits)

lemma set_columns_ok: "edit_ok d a b \<Longrightarrow> \<exists>r'. set_columns (set_clauses d a b) r = Inr r'"
  by (auto simp: edit_ok_def set_clauses_def varchar_short split: option.splits)

lemma clauses_clean: "edit_ok d a b \<Longrightarrow> \<not> list_ex (\<lambda>(c, v). case v of None \<Rightarrow> False | Some x \<Rightarrow> \<not> no_nul x) (set_clauses d a b)"
  by (auto simp: edit_ok_def set_clauses_def fits_def split: option.splits)

lemma put_users_same [simp]: "put_users (user_db w) (tick w) = tick w" "put_users (user_db w) (tick (tick w)) = tick (tick w)"
  by (simp_all add: put_users_def tick_def)

lemma wp_user_read:
  assumes "\<And>t u. s t u (user_db w) = Inr (a, user_db w)"
    and "\<And>x. \<not> calm w \<Longrightarrow> E (External x) (tick w)" and "Q a (tick w)"
  shows "wp (user_pool s) Q E w"
  by (rule wp_user_pool) (use assms in simp_all)

lemma get_law:
  assumes ok: "pg_users_ok w"
  shows "wp (pgUser_GetUserByID i)
      (\<lambda>u w'. pg_users_ok w' \<and> same_bus w w' \<and> pg_users w' = pg_users w \<and> pg_users w i = Some u)
      (\<lambda>e w'. pg_users_ok w' \<and> same_bus w w' \<and> pg_users w' = pg_users w \<and>
         (\<forall>s. errors_Is e s \<longrightarrow> s = userRepo_ErrUserNotFound \<and> pg_users w i = None) \<and>
         (calm w \<longrightarrow> errors_Is e userRepo_ErrUserNotFound)) w"
  unfolding pgUser_GetUserByID_def wp_simps
  by (rule wp_user_pool)
    (use ok in \<open>auto simp: wp_simps one_row_Inr one_row_Inl sql_user_by_id_def pg_users_def [of w]\<close>)

lemma scan_users_wp:
  "wp (scan_users rs) (\<lambda>us w'. us = rs \<and> same_bus w w' \<and> user_db w' = user_db w) (\<lambda>_ w'. same_bus w w' \<and> user_db w' = user_db w \<and> \<not> calm w) w"
proof (induction rs arbitrary: w)
  case Nil
  show ?case
    unfolding scan_users.simps wp_simps rows_Err_def by (rule wp_idle_call) simp_all
next
  case (Cons r rs)
  show ?case
    unfolding scan_users.simps wp_simps rows_Scan_def
  proof (rule wp_idle_call, goal_cases)
    case (1 x)
    then show ?case by simp
  next
    case 2
    show ?case
      by (rule wp_mono [OF Cons.IH]) (auto intro: same_bus_trans [OF same_bus_refl(2)])
  qed
qed

lemma get_many_law:
  assumes ok: "pg_users_ok w"
  shows "wp (pgUser_GetUsersByIDs ids)
      (\<lambda>us w'. pg_users_ok w' \<and> same_bus w w' \<and> pg_users w' = pg_users w \<and> distinct us \<and> set us = {u. \<exists>i \<in> set ids. pg_users w i = Some u})
      (\<lambda>e w'. pg_users_ok w' \<and> same_bus w w' \<and> pg_users w' = pg_users w \<and> \<not> calm w) w"
proof (cases "ids = []")
  case True
  then show ?thesis using ok by (simp add: pgUser_GetUsersByIDs_def wp_ret)
next
  case False
  have db: "users_ok (user_db w)" using ok by (simp add: pg_users_ok_def)
  have rows: "set (filter (\<lambda>r. usr_ID r \<in> set ids) (user_db w)) = {u. \<exists>i \<in> set ids. pg_users w i = Some u}"
    using pg_users_Some [OF db] by auto
  have once: "distinct (filter (\<lambda>r. usr_ID r \<in> set ids) (user_db w))" using db by (simp add: users_ok_def distinct_map)
  have same: "pg_users_ok w' \<and> pg_users w' = pg_users w" if "user_db w' = user_db w" for w' :: "'a user_world_scheme"
    using that ok by (simp add: pg_users_ok_def pg_users_def)
  show ?thesis
    unfolding pgUser_GetUsersByIDs_def wp_simps
  proof (simp only: False if_False,
      rule wp_user_read [where a = "filter (\<lambda>r. usr_ID r \<in> set ids) (user_db w)"], goal_cases)
    case 3
    show ?case
    proof (rule wp_mono [OF scan_users_wp], goal_cases)
      case (1 us w')
      then have us: "us = filter (\<lambda>r. usr_ID r \<in> set ids) (user_db w)" and w': "same_bus (tick w) w'" "user_db w' = user_db w" by simp_all
      show ?case unfolding us using same [OF w'(2)] same_bus_trans [OF same_bus_refl(2) w'(1)] once rows by blast
    next
      case (2 e w')
      then have w': "same_bus (tick w) w'" "user_db w' = user_db w" "\<not> calm w" by simp_all
      show ?case using same [OF w'(2)] same_bus_trans [OF same_bus_refl(2) w'(1)] w'(3) by blast
    qed
  qed (use ok in \<open>simp_all add: sql_users_by_ids_def wp_simps\<close>)
qed

lemma insert_law:
  assumes ok: "pg_users_ok w"
  shows "wp (pgUser_insert i name shown)
      (\<lambda>u w'. pg_users_ok w' \<and> same_bus w w' \<and> usr_ID u = i \<and> user_added (pg_users w) name u (pg_users w'))
      (\<lambda>e w'. pg_users_ok w' \<and> same_bus w w' \<and> (\<forall>s. \<not> errors_Is e s) \<and>
         (pg_users w' = pg_users w \<or> \<not> calm w \<and> (\<exists>u. usr_ID u = i \<and> user_added (pg_users w) name u (pg_users w'))) \<and>
         (calm w \<and> fits 50 name \<and> fits 100 shown \<longrightarrow> i \<in> usr_ID ` set (user_db w) \<or> name \<in> usr_Username ` set (user_db w))) w"
proof -
  have db: "users_ok (user_db w)" using ok by (simp add: pg_users_ok_def)
  have new: "pg_users_ok (put_users db' (tick w)) \<and> usr_ID u = i \<and> user_added (pg_users w) name u (pg_users (put_users db' (tick w)))"
    if "sql_insert_user i name shown t x (user_db w) = Inr (u, db')" for t x u db'
  proof -
    note row = insert_user_Inr [OF that db]
    have "pg_users (put_users db' (tick w)) = (pg_users w)(usr_ID u \<mapsto> u)"
      using row find_snoc_fresh [of usr_ID u "user_db w"] by (auto simp: pg_users_def fun_eq_iff)
    then show ?thesis using row by (auto simp: pg_users_ok_def user_added_def pg_users_None ran_pg_users [OF db] image_iff)
  qed
  show ?thesis
    unfolding pgUser_insert_def wp_simps
  proof (rule wp_user_pool, goal_cases)
    case (2 x t u a db')
    then show ?case using new [OF 2(2)] by auto
  next
    case (3 t u e)
    then show ?case using insert_user_Inl [OF 3] ok by (auto simp: image_iff)
  next
    case (4 t u a db')
    then show ?case using new [OF 4] by auto
  qed (use ok in auto)
qed

text \<open>Another request has inserted the id or the name since the checks: the violation of the constraint is not
  told apart from other errors.\<close>

lemma insert_race:
  assumes "fault_at (env w) (calls w) = Works" and "fits 50 name" and "fits 100 shown"
    and "i \<in> usr_ID ` set (user_db w) \<or> name \<in> usr_Username ` set (user_db w)"
  shows "pgUser_insert i name shown w = (Inl (Wrap ''create user'' (External (PgError ''23505''))), tick w)"
  using assms by (simp add: pgUser_insert_def tryE_def fail_def user_pool_def pool_call_def ext_call_def run_stmt_def tick_def
      sql_insert_user_def varchar_short)

lemma create_law:
  assumes ok: "pg_users_ok w"
  shows "wp (pgUser_CreateUser i name shown)
      (\<lambda>u w'. pg_users_ok w' \<and> same_bus w w' \<and> usr_ID u = i \<and> user_added (pg_users w) name u (pg_users w'))
      (\<lambda>e w'. pg_users_ok w' \<and> same_bus w w' \<and>
         (pg_users w' = pg_users w \<or> \<not> calm w \<and> (\<exists>u. usr_ID u = i \<and> user_added (pg_users w) name u (pg_users w')) \<and> (\<forall>s. \<not> errors_Is e s)) \<and>
         (\<forall>s. errors_Is e s \<longrightarrow>
            s = userRepo_ErrUserAlreadyExists \<and> pg_users w i \<noteq> None \<or>
            s = userRepo_ErrUsernameAlreadyExists \<and> pg_users w i = None \<and> (\<exists>v \<in> ran (pg_users w). usr_Username v = name)) \<and>
         (calm w \<and> fits 50 name \<and> fits 100 shown \<longrightarrow> (\<exists>s. errors_Is e s))) w"
proof -
  have db: "users_ok (user_db w)" using ok by (simp add: pg_users_ok_def)
  let ?taken = "name \<in> set (List.map usr_Username (user_db w))" and ?there = "i \<in> set (List.map usr_ID (user_db w))"
  have name: "wp (pgUser_checkUsernameExists name)
      (\<lambda>b w'. w' = tick (tick w) \<and> b = ?taken) (\<lambda>e w'. w' = tick (tick w) \<and> (\<exists>x. e = External x) \<and> \<not> (calm w \<and> no_nul name)) (tick w)"
    unfolding pgUser_checkUsernameExists_def
    by (rule wp_user_pool) (auto simp: sql_username_exists_def split: if_splits)
  have ins: "wp (pgUser_insert i name shown)
      (\<lambda>u w'. pg_users_ok w' \<and> same_bus w w' \<and> usr_ID u = i \<and> user_added (pg_users w) name u (pg_users w'))
      (\<lambda>e w'. pg_users_ok w' \<and> same_bus w w' \<and> (\<forall>s. \<not> errors_Is e s) \<and>
         (pg_users w' = pg_users w \<or> \<not> calm w \<and> (\<exists>u. usr_ID u = i \<and> user_added (pg_users w) name u (pg_users w'))) \<and>
         (calm w \<and> fits 50 name \<and> fits 100 shown \<longrightarrow> i \<in> usr_ID ` set (user_db w) \<or> name \<in> usr_Username ` set (user_db w))) (tick (tick w))"
    by (rule wp_mono [OF insert_law]) (use ok same_bus_trans [of w "tick (tick w)"] in \<open>auto simp: same_bus_def\<close>)
  show ?thesis
    unfolding pgUser_CreateUser_def wp_simps
    unfolding pgUser_checkUserExistsByID_def
  proof (rule wp_user_read [where a = ?there], goal_cases)
    case 3
    show ?case
    proof (cases ?there)
      case True
      then show ?thesis using ok by (auto simp: pg_users_None)
    next
      case False
      then have free: "pg_users w i = None" by (simp add: pg_users_None)
      show ?thesis
      proof (simp only: False if_False, rule wp_mono [OF name], goal_cases)
        case (1 b w1)
        then show ?case
        proof (cases ?taken)
          case True
          then show ?thesis using 1 ok free by (auto simp: ran_pg_users [OF db] same_bus_def)
        next
          case False
          show ?thesis using 1 False \<open>\<not> ?there\<close>
            by (simp only: simp_thms if_False) (rule wp_mono [OF ins], auto)
        qed
      next
        case (2 e w1)
        then show ?case using ok by (auto simp: fits_def same_bus_def)
      qed
    qed
  qed (use ok in \<open>auto simp: sql_id_exists_def\<close>)
qed

lemma update_law:
  assumes ok: "pg_users_ok w"
  shows "wp (pgUser_UpdateUser i d a b)
      (\<lambda>u w'. pg_users_ok w' \<and> same_bus w w' \<and> (\<exists>old. pg_users w i = Some old \<and> edited d a b old u \<and> pg_users w' = (pg_users w)(i \<mapsto> u)))
      (\<lambda>e w'. pg_users_ok w' \<and> same_bus w w' \<and>
         (pg_users w' = pg_users w \<or> \<not> calm w \<and> (\<exists>old u. pg_users w i = Some old \<and> edited d a b old u \<and> pg_users w' = (pg_users w)(i \<mapsto> u))) \<and>
         (\<forall>s. errors_Is e s \<longrightarrow> s = userRepo_ErrUserNotFound \<and> pg_users w i = None) \<and>
         (calm w \<and> edit_ok d a b \<longrightarrow> errors_Is e userRepo_ErrUserNotFound)) w"
proof -
  have db: "users_ok (user_db w)" using ok by (simp add: pg_users_ok_def)
  let ?s = "sql_update_user i (set_clauses d a b)"
  have hit: "\<exists>old. pg_users w i = Some old \<and> edited d a b old u \<and> pg_users_ok (put_users db' (tick w)) \<and>
      pg_users (put_users db' (tick w)) = (pg_users w)(i \<mapsto> u)"
    if run: "?s t x (user_db w) = Inr (Some u, db')" for t x u db'
  proof -
    obtain old where old: "find (\<lambda>r. usr_ID r = i) (user_db w) = Some old"
        "set_columns (set_clauses d a b) (old\<lparr>usr_UpdatedAt := t\<rparr>) = Inr u" "db' = List.map (\<lambda>x. if usr_ID x = i then u else x) (user_db w)"
      using run by (auto simp: sql_update_user_def split: if_splits option.splits sum.splits)
    have ed: "edited d a b old u" using set_columns_edit [OF old(2)] .
    have same: "usr_ID (if usr_ID x = i then u else x) = usr_ID x" "usr_Username (if usr_ID x = i then u else x) = usr_Username x"
      if "x \<in> set (user_db w)" for x
      using ed find_SomeD [OF old(1)] that db by (auto simp: edited_def users_ok_def distinct_map inj_on_def)
    have "List.map usr_ID db' = List.map usr_ID (user_db w)" "List.map usr_Username db' = List.map usr_Username (user_db w)"
      using same by (simp_all add: old(3))
    then have "users_ok db'" using db by (simp add: users_ok_def)
    moreover have "find (\<lambda>r. usr_ID r = j) db' = (if j = i then Some u else find (\<lambda>r. usr_ID r = j) (user_db w))" for j
    proof (cases "j = i")
      case True
      have "u \<in> set db' \<and> usr_ID u = i" using find_SomeD [OF old(1)] ed by (auto simp: old(3) edited_def)
      then show ?thesis using True \<open>users_ok db'\<close> find_key_Some_iff [of usr_ID db' i u] by (simp add: users_ok_def)
    next
      case False
      have uid: "usr_ID u = i" using find_SomeD [OF old(1)] ed by (simp add: edited_def)
      have "find (\<lambda>r. usr_ID r = j) (List.map (\<lambda>x. if usr_ID x = i then u else x) xs) = find (\<lambda>r. usr_ID r = j) xs" for xs
        by (induction xs) (use False uid in auto)
      then show ?thesis using False by (simp add: old(3))
    qed
    ultimately show ?thesis using old(1) ed by (auto simp: pg_users_ok_def pg_users_def fun_eq_iff)
  qed
  have none: "pg_users w i = None \<and> db' = user_db w" if "?s t x (user_db w) = Inr (None, db')" for t x db'
    using that by (auto simp: sql_update_user_def pg_users_def split: if_splits option.splits sum.splits)
  have never: "edit_ok d a b \<Longrightarrow> set_columns (set_clauses d a b) r \<noteq> Inl e" for r e
    using set_columns_ok [of d a b r] by auto
  have bad: "\<not> edit_ok d a b \<and> (\<forall>s. \<not> errors_Is e s)" if "?s t x (user_db w) = Inl e" for t x e
  proof (intro conjI)
    show "\<not> edit_ok d a b"
      using that clauses_clean [of d a b] never by (auto simp: sql_update_user_def split: if_splits option.splits sum.splits)
    have "set_columns cvs r = Inl e \<Longrightarrow> \<not> errors_Is e s" for cvs r s
      by (induction cvs r rule: set_columns.induct)
        (auto simp: varchar_def elim!: set_column.elims split: sum.splits if_splits)
    then show "\<forall>s. \<not> errors_Is e s" using that by (auto simp: sql_update_user_def split: if_splits option.splits sum.splits)
  qed
  show ?thesis
    unfolding pgUser_UpdateUser_def wp_simps
  proof (rule wp_user_pool, goal_cases)
    case (2 x t u r db')
    then show ?case using hit [of t u r db'] by (auto simp: one_row_Inr wp_simps)
  next
    case (3 t u e)
    then consider "?s t u (user_db w) = Inl e" | "e = Sentinel pgx_ErrNoRows" "pg_users w i = None"
      using none by (auto simp: one_row_Inl)
    then show ?case using bad ok by cases (auto simp: wp_simps)
  next
    case (4 t u r db')
    then show ?case using hit [of t u r db'] by (auto simp: one_row_Inr wp_simps)
  qed (use ok in \<open>auto simp: wp_simps\<close>)
qed

interpretation pgu: user_store pgUserRepository pg_users pg_users_ok
proof
  fix w :: "'z user_world_scheme" and i j u v
  assume ok: "pg_users_ok w"
  then have db: "users_ok (user_db w)" by (simp add: pg_users_ok_def)
  show "pg_users (tick w) = pg_users w \<and> pg_users_ok (tick w)" using ok by simp
  show "pg_users w i = Some u \<Longrightarrow> usr_ID u = i" using pg_users_Some [OF db] by simp
  show "pg_users w i = Some u \<Longrightarrow> pg_users w j = Some v \<Longrightarrow> usr_Username u = usr_Username v \<Longrightarrow> i = j"
    using pg_users_Some [OF db] db by (auto simp: users_ok_def distinct_map inj_on_def)
qed (simp_all only: pgUserRepository_def UserRepository.select_convs get_law get_many_law create_law update_law)

end
