(* ===== verification/UserService.thy ===== *)
theory UserService
  imports UserRepo Auth Subscriber
begin

text \<open>
  The user service: \<open>services/user/internal/service/user.go\<close> (profiles with a generated name),
  \<open>handler/user.go\<close> and \<open>nats/subscriber.go\<close>, which creates a profile for every event
  \<open>auth.user.registered\<close> and asks for the event again when that fails.
\<close>

section \<open>The service\<close>

record sUser =
  su_ID :: uuid
  su_Username :: string
  su_DisplayName :: string
  su_AvatarURL :: "string option"
  su_Bio :: "string option"
  su_CreatedAt :: time
  su_UpdatedAt :: time

definition toUser :: "User \<Rightarrow> sUser" where
  "toUser r = \<lparr>su_ID = usr_ID r, su_Username = usr_Username r, su_DisplayName = usr_DisplayName r,
     su_AvatarURL = usr_AvatarURL r, su_Bio = usr_Bio r, su_CreatedAt = usr_CreatedAt r, su_UpdatedAt = usr_UpdatedAt r\<rparr>"

record 'w userService =
  us_userRepo :: "'w UserRepository"

definition NewUserService :: "'w UserRepository \<Rightarrow> 'w userService" where
  "NewUserService repo = \<lparr>us_userRepo = repo\<rparr>"

definition maxAttempts :: nat where
  "maxAttempts = 3"

fun create_attempts :: "('z world_scheme) UserRepository \<Rightarrow> uuid \<Rightarrow> nat \<Rightarrow> ('z world_scheme, sUser) op" where
  "create_attempts repo userID 0 = fail (Errorf ''failed to generate unique username'')"
| "create_attempts repo userID (Suc n) =
     tryE GenerateUsername (\<lambda>e. fail (Wrap ''generate username'' e))
       (\<lambda>username.
          tryE (urepo_CreateUser repo userID username username)
            (\<lambda>e. if errors_Is e userRepo_ErrUserAlreadyExists
                 then tryE (urepo_GetUserByID repo userID) (\<lambda>e'. fail (Wrap ''get existing user'' e')) (\<lambda>existing. ret (toUser existing))
                 else if errors_Is e userRepo_ErrUsernameAlreadyExists then create_attempts repo userID n
                 else fail (Wrap ''create user'' e))
            (\<lambda>user. ret (toUser user)))"

definition userService_CreateUser :: "('z world_scheme) userService \<Rightarrow> uuid \<Rightarrow> string \<Rightarrow> ('z world_scheme, sUser) op" where
  "userService_CreateUser s userID email = create_attempts (us_userRepo s) userID maxAttempts"

definition userService_GetUser :: "('z world_scheme) userService \<Rightarrow> uuid \<Rightarrow> ('z world_scheme, sUser) op" where
  "userService_GetUser s userID =
     tryE (urepo_GetUserByID (us_userRepo s) userID)
       (\<lambda>e. if errors_Is e userRepo_ErrUserNotFound then fail (Sentinel userSvc_ErrUserNotFound) else fail (Wrap ''get user'' e))
       (\<lambda>user. ret (toUser user))"

definition userService_GetUsers :: "('z world_scheme) userService \<Rightarrow> uuid list \<Rightarrow> ('z world_scheme, sUser list) op" where
  "userService_GetUsers s userIDs =
     tryE (urepo_GetUsersByIDs (us_userRepo s) userIDs) (\<lambda>e. fail (Wrap ''get users'' e)) (\<lambda>users. ret (List.map toUser users))"

definition userService_UpdateUser :: "('z world_scheme) userService \<Rightarrow> uuid \<Rightarrow> string option \<Rightarrow> string option \<Rightarrow> string option
    \<Rightarrow> ('z world_scheme, sUser) op" where
  "userService_UpdateUser s userID displayName avatarURL bioText =
     tryE (urepo_UpdateUser (us_userRepo s) userID displayName avatarURL bioText)
       (\<lambda>e. if errors_Is e userRepo_ErrUserNotFound then fail (Sentinel userSvc_ErrUserNotFound) else fail (Wrap ''update user'' e))
       (\<lambda>user. ret (toUser user))"

section \<open>The handler\<close>

record pUser =
  pu_UserId :: string
  pu_Username :: string
  pu_DisplayName :: string
  pu_AvatarUrl :: "string option"
  pu_Bio :: "string option"
  pu_CreatedAt :: time
  pu_UpdatedAt :: time

definition userToProto :: "uuid_lib \<Rightarrow> sUser \<Rightarrow> pUser" where
  "userToProto U u = \<lparr>pu_UserId = uuid_String U (su_ID u), pu_Username = su_Username u, pu_DisplayName = su_DisplayName u,
     pu_AvatarUrl = su_AvatarURL u, pu_Bio = su_Bio u, pu_CreatedAt = su_CreatedAt u, pu_UpdatedAt = su_UpdatedAt u\<rparr>"

definition usersToProto :: "uuid_lib \<Rightarrow> sUser list \<Rightarrow> pUser list" where
  "usersToProto U users = mapper_Slice (userToProto U) users"

record UpdateUserRequest =
  uur_UserId :: string
  uur_DisplayName :: "string option"
  uur_AvatarUrl :: "string option"
  uur_Bio :: "string option"

record 'w userHandler =
  uh_svc :: "'w userService"
  uh_uuid :: uuid_lib
  uh_violations :: "string list \<Rightarrow> string"

definition userHandler_GetUser :: "('z world_scheme) userHandler \<Rightarrow> string \<Rightarrow> ('z world_scheme, pUser) op" where
  "userHandler_GetUser h userId =
     validate (uh_violations h) (min_len_violations [(''user_id'', userId)])
     (parse_id (uh_uuid h) userId ''invalid user_id'' (\<lambda>userID.
        tryE (userService_GetUser (uh_svc h) userID)
          (\<lambda>e. if errors_Is e userSvc_ErrUserNotFound then fail (Code_Error CodeNotFound ''user not found'')
               else fail (CodeInternal_Wrap e))
          (\<lambda>user. ret (userToProto (uh_uuid h) user))))"

fun parse_ids :: "uuid_lib \<Rightarrow> string list \<Rightarrow> uuid list option" where
  "parse_ids U [] = Some []"
| "parse_ids U (s # ss) =
     (case uuid_Parse U s of None \<Rightarrow> None
      | Some i \<Rightarrow> (case parse_ids U ss of None \<Rightarrow> None | Some ids \<Rightarrow> Some (i # ids)))"

definition userHandler_GetUsersByIds :: "('z world_scheme) userHandler \<Rightarrow> string list \<Rightarrow> ('z world_scheme, pUser list) op" where
  "userHandler_GetUsersByIds h userIds =
     validate (uh_violations h) (if userIds = [] then [''user_ids''] else [])
     (case parse_ids (uh_uuid h) userIds of
        None \<Rightarrow> fail (Code_Error CodeInvalidArgument ''invalid user_id'')
      | Some ids \<Rightarrow>
          tryE (userService_GetUsers (uh_svc h) ids) (\<lambda>e. fail (CodeInternal_Wrap e))
            (\<lambda>users. ret (usersToProto (uh_uuid h) users)))"

definition userHandler_UpdateUser :: "('z world_scheme) userHandler \<Rightarrow> UpdateUserRequest \<Rightarrow> ('z world_scheme, pUser) op" where
  "userHandler_UpdateUser h req =
     validate (uh_violations h) (min_len_violations [(''user_id'', uur_UserId req)])
     (parse_id (uh_uuid h) (uur_UserId req) ''invalid user_id'' (\<lambda>userID.
        tryE (userService_UpdateUser (uh_svc h) userID (uur_DisplayName req) (uur_AvatarUrl req) (uur_Bio req))
          (\<lambda>e. if errors_Is e userSvc_ErrUserNotFound then fail (Code_Error CodeNotFound ''user not found'')
               else fail (CodeInternal_Wrap e))
          (\<lambda>user. ret (userToProto (uh_uuid h) user))))"

section \<open>The subscriber\<close>

definition StreamAuth :: string where "StreamAuth = ''AUTH''"
definition SubjectAuthUserRegistered :: string where "SubjectAuthUserRegistered = ''auth.user.registered''"
definition ConsumerUserRegistered :: string where "ConsumerUserRegistered = ''user-svc-auth-registered''"

definition UserRegisteredConsumer :: "int \<Rightarrow> time \<Rightarrow> ConsumerConfig" where
  "UserRegisteredConsumer maxDeliver ackWait =
     DefaultConsumerConfig ConsumerUserRegistered SubjectAuthUserRegistered maxDeliver ackWait"

text \<open>What the handler does with the message: acknowledged, asked for again, or given up.\<close>

datatype user_fate = Ack | Nak | Term

definition decode_registered :: "json option \<Rightarrow> (string \<times> string) option" where
  "decode_registered data =
     (case Option.bind data json_members of
        None \<Rightarrow> None
      | Some kvs \<Rightarrow>
          (case (json_field set_string ''user_id'' [] kvs, json_field set_string ''email'' [] kvs) of
             (Some u, Some e) \<Rightarrow> Some (u, e)
           | _ \<Rightarrow> None))"

definition user_handleMessage :: "uuid_lib \<Rightarrow> ('z world_scheme) userService \<Rightarrow> json option \<Rightarrow> 'z world_scheme \<Rightarrow> user_fate \<times> 'z world_scheme" where
  "user_handleMessage U s data w =
     (case decode_registered data of
        None \<Rightarrow> (Term, w)
      | Some (userIDStr, email) \<Rightarrow>
          (case uuid_Parse U userIDStr of
             None \<Rightarrow> (Term, w)
           | Some userID \<Rightarrow>
               (case userService_CreateUser s userID email w of
                  (Inl e, w') \<Rightarrow> (Nak, w')
                | (Inr _, w') \<Rightarrow> (Ack, w'))))"

text \<open>\<open>Start\<close>: the consumer is provisioned, then it gets the handler.\<close>

definition user_Start :: "(string \<Rightarrow> ConsumerConfig \<Rightarrow> ('z world_scheme, unit) op) \<Rightarrow> SubscriberConfig \<Rightarrow> 'z world_scheme
    \<Rightarrow> ((error + ConsumerConfig) \<times> 'z world_scheme) option" where
  "user_Start create cfg w =
     (let consumer = UserRegisteredConsumer (sc_MaxDeliver cfg) (sc_AckWait cfg)
      in case ProvisionConsumerWithRetry create StreamAuth consumer (sc_RetryWait cfg) w of
           None \<Rightarrow> None
         | Some (Inl e, _, w1) \<Rightarrow> Some (Inl e, w1)
         | Some (Inr _, _, w1) \<Rightarrow> Some (tryE (ext_call (\<lambda>w. (Inr (), w))) fail (\<lambda>_. ret consumer) w1))"

section \<open>Creating a profile\<close>

text \<open>What a call can have done for the user \<open>i\<close>: nothing, or a new profile with a generated name.\<close>

definition profile_made :: "(uuid \<rightharpoonup> User) \<Rightarrow> uuid \<Rightarrow> (uuid \<rightharpoonup> User) \<Rightarrow> bool" where
  "profile_made m i m' \<longleftrightarrow> m' = m \<or>
     m i = None \<and> (\<exists>u. m' = m(i \<mapsto> u) \<and> usr_ID u = i \<and> is_username (usr_Username u) \<and> (\<forall>v \<in> ran m. usr_Username v \<noteq> usr_Username u))"

lemma profile_made_refl [simp]: "profile_made m i m"
  by (simp add: profile_made_def)

lemma username_column: "is_username s \<Longrightarrow> fits 50 s \<and> fits 100 s"
  using username_fits [of s] by (simp add: fits_def)

lemma profile_from_added:
  assumes "user_added m (drawn_name E n) u m'"
  shows "profile_made m (usr_ID u) m' \<and> m' (usr_ID u) = Some u"
  using assms username_column [OF drawn_is_username, of E n] drawn_is_username [of E n]
  by (auto simp: user_added_def profile_made_def)

context user_store
begin

lemma create_attempts_spec:
  "invar w \<Longrightarrow> wp (create_attempts repo i n)
    (\<lambda>su w'. invar w' \<and> same_bus w w' \<and> profile_made (users w) i (users w') \<and> (\<exists>u. users w' i = Some u \<and> su = toUser u))
    (\<lambda>e w'. invar w' \<and> same_bus w w' \<and> profile_made (users w) i (users w') \<and>
       (calm w \<and> 0 < n \<longrightarrow> users w i = None \<and> (\<exists>v \<in> ran (users w). usr_Username v = drawn_name (env w) (calls w)))) w"
proof (induction n arbitrary: w)
  case 0
  then show ?case by (simp add: wp_fail)
next
  case (Suc n)
  let ?w2 = "tick (tick w)" and ?name = "drawn_name (env w) (calls w)"
  have w1: "invar (tick w)" "users (tick w) = users w" using idle [OF Suc.prems] by simp_all
  have w2: "invar ?w2" "users ?w2 = users w" using idle [OF w1(1)] w1(2) by simp_all
  have bus: "same_bus w w'" if "same_bus ?w2 w'" for w' using that by (simp add: same_bus_def)
  note fit = username_column [OF drawn_is_username, of "env w" "calls w"]
  show ?case
    unfolding create_attempts.simps wp_tryE
  proof (rule wp_GenerateUsername, goal_cases)
    case 3
    show ?case
    proof (rule wp_mono [OF create [OF w2(1), of i ?name ?name]], goal_cases)
      case (1 u w')
      then show ?case using profile_from_added [of "users w" "env w" "calls w" u "users w'"] w2 bus by (auto simp: wp_ret)
    next
      case (2 e w')
      then have w': "invar w'" "same_bus ?w2 w'" and kept: "profile_made (users w) i (users w')"
        using profile_from_added [of "users w" "env w" "calls w" _ "users w'"] w2(2) by auto
      have calm: "calm w' = calm w" using w'(2) calm_same_env [of w' w] by (simp add: same_bus_def)
      note verdict = 2 [simplified w2(2)]
      show ?case
      proof (cases "errors_Is e userRepo_ErrUserAlreadyExists")
        case True
        then have same: "users w i \<noteq> None" "users w' = users w" using verdict by blast+
        have "wp (urepo_GetUserByID repo i)
            (\<lambda>u w''. invar w'' \<and> same_bus w w'' \<and> profile_made (users w) i (users w'') \<and> users w'' i = Some u)
            (\<lambda>e w''. invar w'' \<and> same_bus w w'' \<and> profile_made (users w) i (users w'') \<and> \<not> calm w) w'"
          by (rule wp_mono [OF get [OF w'(1), of i]]) (use same calm w'(2) bus same_bus_trans in \<open>auto simp: same_bus_def\<close>)
        then show ?thesis
          unfolding wp_If wp_tryE
          by (simp only: True if_True, elim wp_mono) (auto simp: wp_simps)
      next
        case False
        show ?thesis
        proof (cases "errors_Is e userRepo_ErrUsernameAlreadyExists")
          case True
          then have same: "users w' = users w" "users w i = None" "\<exists>v \<in> ran (users w). usr_Username v = ?name"
            using verdict by blast+
          show ?thesis
            unfolding wp_If
            by (simp only: False True if_True if_False, rule wp_mono [OF Suc.IH [OF w'(1)]])
              (use same bus w'(2) same_bus_trans [of ?w2 w'] in auto)
        next
          case other: False
          have "\<not> calm w" using verdict fit False other by auto
          then show ?thesis using False other w' kept bus by (simp add: wp_fail)
        qed
      qed
    qed
  qed (use Suc.prems w1 w2 in \<open>auto simp: wp_fail same_bus_def\<close>)
qed

end

section \<open>The event of a registration\<close>

lemma decode_event: "decode_registered (Some (snd (registered_event L a))) = Some (uuid_String (lib_uuid L) (acc_ID a), acc_Email a)"
  by (simp add: decode_registered_def registered_event_def json_members_def key_matches_def ascii_lower_def)

text \<open>What JetStream promises of a consumer that acknowledges each message: a message is delivered
  again when it was refused (\<open>Nak\<close>) or when no answer arrives in \<open>AckWait\<close>, and not more than
  \<open>MaxDeliver\<close> times (no bound when that is not positive).  A delivery is the environment in which it is
  handled and whether the answer of the handler arrives.\<close>

fun deliveries :: "uuid_lib \<Rightarrow> ('z world_scheme) userService \<Rightarrow> json option \<Rightarrow> (environment \<times> bool) list \<Rightarrow> 'z world_scheme
    \<Rightarrow> user_fate list \<times> 'z world_scheme" where
  "deliveries U s data [] w = ([], w)"
| "deliveries U s data ((E, arrives) # Ds) w =
     (case user_handleMessage U s data (w\<lparr>env := E\<rparr>) of (f, w1) \<Rightarrow>
        if f \<noteq> Nak \<and> arrives then ([f], w1)
        else (case deliveries U s data Ds w1 of (fs, w2) \<Rightarrow> (f # fs, w2)))"

definition at_most_MaxDeliver :: "ConsumerConfig \<Rightarrow> 'd list \<Rightarrow> 'd list" where
  "at_most_MaxDeliver c Ds = (if cc_MaxDeliver c > 0 then take (nat (cc_MaxDeliver c)) Ds else Ds)"

lemma deliveries_length: "length (fst (deliveries U s data Ds w)) \<le> length Ds"
  by (induction U s data Ds w rule: deliveries.induct) (auto split: prod.splits)

lemma at_most_MaxDeliver_length: "0 < cc_MaxDeliver c \<Longrightarrow> length (at_most_MaxDeliver c Ds) \<le> nat (cc_MaxDeliver c)"
  by (simp add: at_most_MaxDeliver_def)

lemma profile_made_trans: "profile_made m i m' \<Longrightarrow> profile_made m' i m'' \<Longrightarrow> profile_made m i m''"
  by (auto simp: profile_made_def)

lemma pg_users_env [simp]: "pg_users (w\<lparr>env := E\<rparr>) = pg_users w" "pg_users_ok (w\<lparr>env := E\<rparr>) = pg_users_ok w"
  by (simp_all add: pg_users_def pg_users_ok_def)

text \<open>One delivery.\<close>

lemma delivery:
  fixes w w' :: "'z user_world_scheme"
  assumes "uuid_lib_ok (lib_uuid L)" and "pg_users_ok w"
    and run: "user_handleMessage (lib_uuid L) (NewUserService pgUserRepository) (Some (snd (registered_event L a))) w = (f, w')"
  shows "pg_users_ok w' \<and> profile_made (pg_users w) (acc_ID a) (pg_users w') \<and> f \<noteq> Term \<and>
    (f = Ack \<longrightarrow> pg_users w' (acc_ID a) \<noteq> None) \<and>
    (f = Nak \<and> calm w \<longrightarrow> pg_users w (acc_ID a) = None \<and> (\<exists>v \<in> ran (pg_users w). usr_Username v = drawn_name (env w) (calls w)))"
proof -
  have parse: "uuid_Parse (lib_uuid L) (uuid_String (lib_uuid L) (acc_ID a)) = Some (acc_ID a)"
    using assms(1) by (simp add: uuid_lib_ok_def)
  obtain r w1 where create: "create_attempts pgUserRepository (acc_ID a) maxAttempts w = (r, w1)" by fastforce
  have "w' = w1 \<and> f = (case r of Inl _ \<Rightarrow> Nak | Inr _ \<Rightarrow> Ack)"
    using run create unfolding user_handleMessage_def decode_event
    by (auto simp: parse userService_CreateUser_def NewUserService_def split: sum.splits)
  then show ?thesis
    using wpD [OF pgu.create_attempts_spec [OF assms(2)] create] by (cases r) (auto simp: maxAttempts_def)
qed

text \<open>A delivery that meets no failure and draws no name that is taken.\<close>

definition sound_delivery :: "(uuid \<rightharpoonup> User) \<Rightarrow> environment \<times> bool \<Rightarrow> bool" where
  "sound_delivery m d \<longleftrightarrow> snd d \<and>
     (\<forall>n. fault_at (fst d) n = Works \<and> \<not> cancelled_at (fst d) n \<and> (\<forall>v \<in> ran m. usr_Username v \<noteq> drawn_name (fst d) n))"

lemma deliveries_profile:
  fixes w w1 :: "'z user_world_scheme"
  assumes "uuid_lib_ok (lib_uuid L)"
    and "pg_users_ok w1" and "profile_made (pg_users w) (acc_ID a) (pg_users w1)"
  shows "case deliveries (lib_uuid L) (NewUserService pgUserRepository) (Some (snd (registered_event L a))) Ds w1 of (fates, w') \<Rightarrow>
    pg_users_ok w' \<and> profile_made (pg_users w) (acc_ID a) (pg_users w') \<and> set fates \<subseteq> {Ack, Nak} \<and>
    (Ack \<in> set fates \<or> pg_users w1 (acc_ID a) \<noteq> None \<longrightarrow> pg_users w' (acc_ID a) \<noteq> None) \<and>
    ((\<exists>d \<in> set Ds. sound_delivery (pg_users w) d) \<longrightarrow> fates \<noteq> [] \<and> last fates = Ack)"
  using assms(2,3)
proof (induction Ds arbitrary: w1)
  case (Cons d Ds)
  obtain E arrives where d: "d = (E, arrives)" by (cases d)
  obtain f w2 where run: "user_handleMessage (lib_uuid L) (NewUserService pgUserRepository) (Some (snd (registered_event L a))) (w1\<lparr>env := E\<rparr>) = (f, w2)"
    by fastforce
  note step = delivery [OF assms(1) _ run]
  have w2: "pg_users_ok w2" "profile_made (pg_users w1) (acc_ID a) (pg_users w2)" "f = Ack \<or> f = Nak"
    using step Cons.prems by (cases f; simp)+
  have made: "profile_made (pg_users w) (acc_ID a) (pg_users w2)" by (rule profile_made_trans [OF Cons.prems(2) w2(2)])
  have stays: "pg_users w1 (acc_ID a) \<noteq> None \<Longrightarrow> pg_users w2 (acc_ID a) \<noteq> None"
    using w2(2) by (auto simp: profile_made_def)
  have ack: "f = Ack \<Longrightarrow> pg_users w2 (acc_ID a) \<noteq> None" using step Cons.prems by simp
  have sound: "f = Ack" if "sound_delivery (pg_users w) (E, arrives)"
  proof (rule ccontr)
    assume "f \<noteq> Ack"
    then have nak: "f = Nak" using w2(3) by simp
    have "calm (w1\<lparr>env := E\<rparr>)" using that unfolding calm_def sound_delivery_def by simp
    then have "pg_users w1 (acc_ID a) = None" "\<exists>v \<in> ran (pg_users w1). usr_Username v = drawn_name E (calls w1)"
      using step Cons.prems(1) nak by auto
    moreover from this(1) have "pg_users w1 = pg_users w" using Cons.prems(2) by (auto simp: profile_made_def)
    ultimately show False using that by (auto simp: sound_delivery_def)
  qed
  show ?case
  proof (cases "f \<noteq> Nak \<and> arrives")
    case True
    then show ?thesis using w2 made ack run by (auto simp: d)
  next
    case False
    then show ?thesis using Cons.IH [OF w2(1) made] stays ack w2(3) run
      sound by (auto simp: d sound_delivery_def split: prod.splits)
  qed
qed simp

text \<open>C8: A registration gets its profile.  The event \<open>auth.user.registered\<close> that the auth service
  publishes is delivered to the user service again when it is refused or its answer does not arrive, up to
  \<open>MaxDeliver\<close> times, and anything may fail each time.  If one of these deliveries meets no failure, draws no
  name that is taken and its answer arrives, the message ends acknowledged and the user with the id of the
  account has a profile; after the last delivery it is given up.  However often it was delivered, an
  acknowledgement means that the profile is there, at most that one profile was made, with a generated name
  nobody else has, and no other profile changed.  (ADR-010 has 5 for \<open>MaxDeliver\<close>;
  \<open>services/user/docs/events.md\<close> derives the name from the email, ADR-015 and the code draw it.)\<close>

theorem profile_eventually:
  assumes "uuid_lib_ok (lib_uuid L)" and "pg_users_ok w"
  shows "let Ds' = at_most_MaxDeliver (UserRegisteredConsumer maxDeliver ackWait) Ds in
    case deliveries (lib_uuid L) (NewUserService pgUserRepository) (Some (snd (registered_event L a))) Ds' w of (fates, w') \<Rightarrow>
      pg_users_ok w' \<and> profile_made (pg_users w) (acc_ID a) (pg_users w') \<and> set fates \<subseteq> {Ack, Nak} \<and>
      (0 < maxDeliver \<longrightarrow> length fates \<le> nat maxDeliver) \<and>
      (Ack \<in> set fates \<longrightarrow> pg_users w' (acc_ID a) \<noteq> None) \<and>
      ((\<exists>d \<in> set Ds'. sound_delivery (pg_users w) d) \<longrightarrow>
         fates \<noteq> [] \<and> last fates = Ack \<and> pg_users w' (acc_ID a) \<noteq> None)"
proof -
  let ?Ds = "at_most_MaxDeliver (UserRegisteredConsumer maxDeliver ackWait) Ds"
  obtain fates w' where run: "deliveries (lib_uuid L) (NewUserService pgUserRepository) (Some (snd (registered_event L a))) ?Ds w = (fates, w')"
    by fastforce
  have "cc_MaxDeliver (UserRegisteredConsumer maxDeliver ackWait) = maxDeliver"
    by (simp add: UserRegisteredConsumer_def DefaultConsumerConfig_def)
  with at_most_MaxDeliver_length [of "UserRegisteredConsumer maxDeliver ackWait" Ds]
  have "0 < maxDeliver \<Longrightarrow> length fates \<le> nat maxDeliver"
    using deliveries_length [of "lib_uuid L" "NewUserService pgUserRepository" "Some (snd (registered_event L a))" ?Ds w] run by simp
  moreover have "fates \<noteq> [] \<Longrightarrow> last fates = Ack \<Longrightarrow> Ack \<in> set fates" by (metis last_in_set)
  ultimately show ?thesis
    using deliveries_profile [OF assms(1,2) profile_made_refl, of a ?Ds] run by (simp add: Let_def)
qed

section \<open>Requests\<close>

definition user_handler :: "uuid_lib \<Rightarrow> (string list \<Rightarrow> string) \<Rightarrow> ('z user_world_scheme) userHandler" where
  "user_handler U texts = \<lparr>uh_svc = NewUserService pgUserRepository, uh_uuid = U, uh_violations = texts\<rparr>"

lemma user_handler_sel [simp]:
  "uh_svc (user_handler U texts) = NewUserService pgUserRepository" "uh_uuid (user_handler U texts) = U"
  "us_userRepo (NewUserService repo) = repo"
  by (simp_all add: user_handler_def NewUserService_def)

lemma wp_parse_id [wp_simps]:
  "wp (parse_id U s msg k) Q E w \<longleftrightarrow>
    (case uuid_Parse U s of None \<Rightarrow> E (Code_Error CodeInvalidArgument msg) w | Some i \<Rightarrow> wp (k i) Q E w)"
  by (simp add: parse_id_def wp_simps split: option.splits)

lemma user_id_valid: "min_len_violations [(''user_id'', s)] = [] \<longleftrightarrow> s \<noteq> []"
  by (simp add: min_len_violations_def)

lemma update_spec:
  assumes "pg_users_ok w"
  shows "wp (userHandler_UpdateUser (user_handler U texts) req)
    (\<lambda>p w'. pg_users_ok w' \<and> same_bus w w' \<and> uur_UserId req \<noteq> [] \<and> (\<exists>i old u. uuid_Parse U (uur_UserId req) = Some i \<and> pg_users w i = Some old \<and>
       edited (uur_DisplayName req) (uur_AvatarUrl req) (uur_Bio req) old u \<and> pg_users w' = (pg_users w)(i \<mapsto> u) \<and>
       p = userToProto U (toUser u)))
    (\<lambda>e w'. pg_users_ok w' \<and> same_bus w w' \<and>
       (pg_users w' = pg_users w \<or> (\<exists>i old u. uuid_Parse U (uur_UserId req) = Some i \<and> pg_users w i = Some old \<and>
          edited (uur_DisplayName req) (uur_AvatarUrl req) (uur_Bio req) old u \<and> pg_users w' = (pg_users w)(i \<mapsto> u))) \<and>
       (uur_UserId req = [] \<or> uuid_Parse U (uur_UserId req) = None \<longrightarrow> answers CodeInvalidArgument (Inl e)) \<and>
       (\<forall>i. uur_UserId req \<noteq> [] \<and> uuid_Parse U (uur_UserId req) = Some i \<and> calm w \<and>
          edit_ok (uur_DisplayName req) (uur_AvatarUrl req) (uur_Bio req) \<longrightarrow> pg_users w i = None \<and> answers CodeNotFound (Inl e))) w"
proof (cases "uur_UserId req = [] \<or> uuid_Parse U (uur_UserId req) = None")
  case True
  then show ?thesis using assms
    by (auto simp: userHandler_UpdateUser_def wp_simps user_id_valid)
next
  case False
  then obtain i where i: "uur_UserId req \<noteq> []" "uuid_Parse U (uur_UserId req) = Some i" by auto
  show ?thesis
    unfolding userHandler_UpdateUser_def user_handler_sel wp_validate user_id_valid wp_parse_id i(2) option.case
      userService_UpdateUser_def wp_tryE
  proof (simp only: i(1) simp_thms if_True, rule wp_mono [OF pgu.update [OF assms]], goal_cases)
    case (1 u w')
    then show ?case by (auto simp: wp_simps)
  next
    case (2 e w')
    then show ?case by (auto simp: wp_simps)
  qed
qed

lemma get_spec:
  assumes "pg_users_ok w"
  shows "wp (userHandler_GetUser (user_handler U texts) s)
    (\<lambda>p w'. pg_users_ok w' \<and> same_bus w w' \<and> pg_users w' = pg_users w \<and>
       (\<exists>i u. uuid_Parse U s = Some i \<and> pg_users w i = Some u \<and> p = userToProto U (toUser u)))
    (\<lambda>e w'. pg_users_ok w' \<and> same_bus w w' \<and> pg_users w' = pg_users w \<and>
       (calm w \<longrightarrow> (if s = [] \<or> uuid_Parse U s = None then answers CodeInvalidArgument (Inl e)
          else answers CodeNotFound (Inl e) \<and> pg_users w (the (uuid_Parse U s)) = None))) w"
proof (cases "s = [] \<or> uuid_Parse U s = None")
  case True
  then show ?thesis using assms
    by (auto simp: userHandler_GetUser_def wp_simps user_id_valid)
next
  case False
  then obtain i where i: "s \<noteq> []" "uuid_Parse U s = Some i" by auto
  show ?thesis
    unfolding userHandler_GetUser_def user_handler_sel wp_validate user_id_valid wp_parse_id i(2) option.case
      userService_GetUser_def wp_tryE
  proof (simp only: i(1) simp_thms if_True, rule wp_mono [OF pgu.get [OF assms]], goal_cases)
    case (1 u w')
    then show ?case by (auto simp: wp_simps)
  next
    case (2 e w')
    then show ?case by (auto simp: wp_simps)
  qed
qed

text \<open>C32: Editing a profile and reading it.  Whatever fails, an answered update changed the profile of that
  user only, in the fields that were given (an empty text clears the picture and the description, the name of
  the account and its id stay), and answers it as it is now.  When nothing fails and the texts fit, an update of a user
  without profile is \<open>NOT_FOUND\<close>, any other one is answered, and reading the profile afterwards answers the same.\<close>

theorem update_then_get:
  assumes "pg_users_ok w" and "uur_UserId req \<noteq> []" and "uuid_Parse U (uur_UserId req) = Some i"
  shows "case userHandler_UpdateUser (user_handler U texts) req w of (r, w') \<Rightarrow>
    (\<forall>j. j \<noteq> i \<longrightarrow> pg_users w' j = pg_users w j) \<and>
    (\<forall>p. r = Inr p \<longrightarrow> (\<exists>old u. pg_users w i = Some old \<and> pg_users w' i = Some u \<and>
       edited (uur_DisplayName req) (uur_AvatarUrl req) (uur_Bio req) old u \<and> p = userToProto U (toUser u))) \<and>
    (calm w \<and> edit_ok (uur_DisplayName req) (uur_AvatarUrl req) (uur_Bio req) \<longrightarrow>
       (if pg_users w i = None then answers CodeNotFound r
        else \<exists>p. r = Inr p \<and> fst (userHandler_GetUser (user_handler U texts) (uur_UserId req) w') = Inr p))"
proof (cases "userHandler_UpdateUser (user_handler U texts) req w")
  case (Pair r w')
  note spec = wpD [OF update_spec [OF assms(1), of U texts req] Pair]
  show ?thesis
  proof (cases r)
    case (Inl e)
    then show ?thesis using spec Pair assms(2,3) by auto
  next
    case (Inr p)
    then obtain old u where u: "pg_users_ok w'" "same_bus w w'" "pg_users w i = Some old"
        "edited (uur_DisplayName req) (uur_AvatarUrl req) (uur_Bio req) old u" "pg_users w' = (pg_users w)(i \<mapsto> u)"
        "p = userToProto U (toUser u)"
      using spec assms(3) by auto
    obtain r2 w2 where get: "userHandler_GetUser (user_handler U texts) (uur_UserId req) w' = (r2, w2)" by fastforce
    have "r2 = Inr p" if "calm w"
    proof -
      have "calm w'" using that u(2) calm_same_env [of w' w] by (simp add: same_bus_def)
      then show ?thesis using wpD [OF get_spec [OF u(1)] get] assms(2,3) u by (cases r2) auto
    qed
    then show ?thesis using u Inr Pair get by auto
  qed
qed


section \<open>Sequences of requests and events\<close>

datatype user_request = EventMsg "json option" | GetUserCall string | GetUsersCall "string list" | UpdateUserCall UpdateUserRequest

definition serve_user :: "uuid_lib \<Rightarrow> (string list \<Rightarrow> string) \<Rightarrow> user_request \<Rightarrow> 'z user_world_scheme \<Rightarrow> 'z user_world_scheme" where
  "serve_user U texts req w =
     (case req of
        EventMsg data \<Rightarrow> snd (user_handleMessage U (NewUserService pgUserRepository) data w)
      | GetUserCall s \<Rightarrow> snd (userHandler_GetUser (user_handler U texts) s w)
      | GetUsersCall ss \<Rightarrow> snd (userHandler_GetUsersByIds (user_handler U texts) ss w)
      | UpdateUserCall r \<Rightarrow> snd (userHandler_UpdateUser (user_handler U texts) r w))"

text \<open>Profiles are kept: none disappears, and none changes its id, its name or its time of creation.\<close>

definition same_person :: "User \<Rightarrow> User \<Rightarrow> bool" where
  "same_person u v \<longleftrightarrow> usr_ID v = usr_ID u \<and> usr_Username v = usr_Username u \<and> usr_CreatedAt v = usr_CreatedAt u"

definition profiles_kept :: "(uuid \<rightharpoonup> User) \<Rightarrow> (uuid \<rightharpoonup> User) \<Rightarrow> bool" where
  "profiles_kept m m' \<longleftrightarrow>
     (\<forall>i. case m i of
        Some u \<Rightarrow> (\<exists>v. m' i = Some v \<and> same_person u v)
      | None \<Rightarrow> (\<forall>v. m' i = Some v \<longrightarrow> usr_ID v = i \<and> is_username (usr_Username v)))"

lemma profiles_kept_refl [simp]: "profiles_kept m m"
  by (auto simp: profiles_kept_def same_person_def split: option.splits)

lemma profiles_kept_trans:
  assumes "profiles_kept m m'" and "profiles_kept m' m''"
  shows "profiles_kept m m''"
  unfolding profiles_kept_def
proof
  fix i
  have step: "case m i of Some u \<Rightarrow> (\<exists>v. m' i = Some v \<and> same_person u v) | None \<Rightarrow> (\<forall>v. m' i = Some v \<longrightarrow> usr_ID v = i \<and> is_username (usr_Username v))"
      "case m' i of Some u \<Rightarrow> (\<exists>v. m'' i = Some v \<and> same_person u v) | None \<Rightarrow> (\<forall>v. m'' i = Some v \<longrightarrow> usr_ID v = i \<and> is_username (usr_Username v))"
    using assms by (auto simp: profiles_kept_def)
  show "case m i of Some u \<Rightarrow> (\<exists>v. m'' i = Some v \<and> same_person u v) | None \<Rightarrow> (\<forall>v. m'' i = Some v \<longrightarrow> usr_ID v = i \<and> is_username (usr_Username v))"
    using step by (cases "m i"; cases "m' i") (auto simp: same_person_def)
qed

lemma made_kept: "profile_made m i m' \<Longrightarrow> profiles_kept m m'"
  by (auto simp: profile_made_def profiles_kept_def same_person_def split: option.splits if_splits)

lemma edited_kept: "m i = Some old \<Longrightarrow> edited d a b old u \<Longrightarrow> profiles_kept m (m(i \<mapsto> u))"
  by (auto simp: profiles_kept_def same_person_def edited_def split: option.splits if_splits)

lemma serve_user_kept:
  assumes ok: "pg_users_ok w"
  shows "pg_users_ok (serve_user U texts req w) \<and> profiles_kept (pg_users w) (pg_users (serve_user U texts req w))"
proof (cases req)
  case (EventMsg data)
  have "pg_users_ok w' \<and> profiles_kept (pg_users w) (pg_users w')"
    if "create_attempts pgUserRepository i n w = (r, w')" for i n r w'
    using wpD [OF pgu.create_attempts_spec [OF ok] that] by (cases r) (auto dest: made_kept)
  then show ?thesis using ok
    by (auto simp: EventMsg serve_user_def user_handleMessage_def userService_CreateUser_def split: option.splits prod.splits sum.splits)
next
  case (GetUserCall s)
  obtain r w' where "userHandler_GetUser (user_handler U texts) s w = (r, w')" by fastforce
  with wpD [OF get_spec [OF ok] this] show ?thesis by (cases r) (auto simp: GetUserCall serve_user_def)
next
  case (GetUsersCall ss)
  have "wp (userHandler_GetUsersByIds (user_handler U texts) ss)
      (\<lambda>_ w'. pg_users_ok w' \<and> pg_users w' = pg_users w) (\<lambda>_ w'. pg_users_ok w' \<and> pg_users w' = pg_users w) w"
    unfolding userHandler_GetUsersByIds_def user_handler_sel userService_GetUsers_def wp_simps
    using ok by (auto split: option.splits intro!: wp_mono [OF pgu.get_many [OF ok]])
  then show ?thesis
    by (cases "userHandler_GetUsersByIds (user_handler U texts) ss w") (auto simp: GetUsersCall serve_user_def wp_def split: sum.splits)
next
  case (UpdateUserCall r)
  obtain x w' where "userHandler_UpdateUser (user_handler U texts) r w = (x, w')" by fastforce
  with wpD [OF update_spec [OF ok] this] show ?thesis
    by (cases x) (auto simp: UpdateUserCall serve_user_def dest: edited_kept)
qed

text \<open>C33: The table of profiles is well formed for ever.  Starting without profiles, after any events (also
  malformed or repeated ones) and requests, under any faults, every profile is stored under its own id, no two
  have the same name, every name is an adjective, a dash and a noun that fits its column, and whatever comes
  later no profile disappears or changes its name.  (README and \<open>docs/api.md\<close> add a number to the name,
  \<open>services/user/docs/events.md\<close> takes it from the email; ADR-015 and the code have adjective and noun.)\<close>

theorem profiles_typed:
  assumes "user_db w = []"
  shows "let w1 = fold (serve_user U texts) earlier w; w2 = fold (serve_user U texts) later w1 in
    (\<forall>i u. pg_users w1 i = Some u \<longrightarrow> usr_ID u = i \<and> is_username (usr_Username u) \<and> fits 26 (usr_Username u)) \<and>
    (\<forall>i j u v. pg_users w1 i = Some u \<and> pg_users w1 j = Some v \<and> usr_Username u = usr_Username v \<longrightarrow> i = j) \<and>
    profiles_kept (pg_users w1) (pg_users w2)"
proof -
  have kept: "pg_users_ok (fold (serve_user U texts) reqs x) \<and> profiles_kept (pg_users x) (pg_users (fold (serve_user U texts) reqs x))"
    if "pg_users_ok x" for reqs x
    using that
  proof (induction reqs arbitrary: x)
    case (Cons req reqs)
    have step: "pg_users_ok (serve_user U texts req x)" "profiles_kept (pg_users x) (pg_users (serve_user U texts req x))"
      using serve_user_kept [OF Cons.prems, of U texts req] by simp_all
    show ?case using Cons.IH [OF step(1)] profiles_kept_trans [OF step(2)] by simp
  qed simp
  have start: "pg_users_ok w" "pg_users w = Map.empty"
    using assms by (auto simp: pg_users_ok_def users_ok_def pg_users_def)
  let ?w1 = "fold (serve_user U texts) earlier w"
  have w1: "pg_users_ok ?w1" "profiles_kept (pg_users w) (pg_users ?w1)" using kept [OF start(1)] by simp_all
  have name: "usr_ID u = i \<and> is_username (usr_Username u)" if "pg_users ?w1 i = Some u" for i u
    using w1(2) that start(2) by (auto simp: profiles_kept_def)
  have once: "i = j" if "pg_users ?w1 i = Some u" "pg_users ?w1 j = Some v" "usr_Username u = usr_Username v" for i j u v
    using pgu.own_name [OF w1(1) that] .
  show ?thesis
    unfolding Let_def
    using name once kept [OF w1(1), of later] username_fits by blast
qed

section \<open>A small world\<close>

definition empty_users :: user_world where
  "empty_users = \<lparr>env = auth_env, calls = 0, published = [], user_db = []\<rparr>"

definition ann :: User where
  "ann = \<lparr>usr_ID = 7, usr_Username = ''ann'', usr_DisplayName = ''Ann'', usr_AvatarURL = Some ''x'', usr_Bio = None, usr_CreatedAt = 0, usr_UpdatedAt = 0\<rparr>"

lemma empty_users_simps [simp]: "pg_users_ok empty_users" "pg_users empty_users = Map.empty" "user_db empty_users = []"
  by (auto simp: pg_users_ok_def users_ok_def empty_users_def pg_users_def)

text \<open>The acknowledgement of the first delivery is lost, and the second one fails.\<close>

theorem profile_eventually_witness:
  "case deliveries (lib_uuid sample_libs) (NewUserService pgUserRepository)
      (Some (snd (registered_event sample_libs \<lparr>acc_ID = 7, acc_Email = ''a@b'', acc_PasswordHash = [], acc_CreatedAt = 0, acc_UpdatedAt = 0\<rparr>)))
      (at_most_MaxDeliver (UserRegisteredConsumer 3 30)
        [(auth_env, False), (auth_env\<lparr>fault_at := \<lambda>_. Lost (IOError [])\<rparr>, True), (auth_env, True)]) empty_users of (fates, w') \<Rightarrow>
    last fates = Ack \<and> pg_users w' 7 \<noteq> None"
proof -
  let ?Ds = "[(auth_env, False), (auth_env\<lparr>fault_at := \<lambda>_. Lost (IOError [])\<rparr>, True), (auth_env, True)]"
  have "sound_delivery (pg_users empty_users) (auth_env, True)"
    by (simp add: sound_delivery_def auth_env_def)
  moreover have "(auth_env, True) \<in> set (at_most_MaxDeliver (UserRegisteredConsumer 3 30) ?Ds)"
    by (simp add: at_most_MaxDeliver_def UserRegisteredConsumer_def DefaultConsumerConfig_def numeral_3_eq_3)
  ultimately show ?thesis
    using profile_eventually [of sample_libs empty_users 3 30 ?Ds
        "\<lparr>acc_ID = 7, acc_Email = ''a@b'', acc_PasswordHash = [], acc_CreatedAt = 0, acc_UpdatedAt = 0\<rparr>"] sample_uuids_ok
    by (auto simp: Let_def split: prod.splits)
qed

theorem update_then_get_witness:
  "case userHandler_UpdateUser (user_handler sample_uuids concat) \<lparr>uur_UserId = uuid_String sample_uuids 7, uur_DisplayName = Some ''A'',
      uur_AvatarUrl = Some [], uur_Bio = None\<rparr> (empty_users\<lparr>user_db := [ann]\<rparr>) of (r, w') \<Rightarrow>
    \<exists>p. r = Inr p \<and> pu_AvatarUrl p = None \<and> pu_Username p = ''ann''"
proof -
  let ?w = "empty_users\<lparr>user_db := [ann]\<rparr>"
  have w: "pg_users_ok ?w" "pg_users ?w = [7 \<mapsto> ann]"
    by (auto simp: pg_users_ok_def users_ok_def pg_users_def ann_def)
  have calm: "calm ?w" unfolding calm_def by (simp add: empty_users_def auth_env_def)
  have id: "uuid_String sample_uuids 7 \<noteq> []" "uuid_Parse sample_uuids (uuid_String sample_uuids 7) = Some 7"
    using sample_uuids_ok by (simp_all add: uuid_lib_ok_def)
  show ?thesis
    using update_then_get [of ?w "\<lparr>uur_UserId = uuid_String sample_uuids 7, uur_DisplayName = Some ''A'',
      uur_AvatarUrl = Some [], uur_Bio = None\<rparr>" sample_uuids 7 concat] w calm id
    by (auto simp: edit_ok_def fits_def no_nul_def edited_def ann_def userToProto_def toUser_def split: prod.splits)
qed

theorem profiles_typed_witness:
  "profiles_kept (pg_users empty_users) (pg_users (fold (serve_user sample_uuids concat) [EventMsg None] empty_users))"
  using profiles_typed [of empty_users sample_uuids concat "[]" "[EventMsg None]"] by (simp add: Let_def)

end
