(* ===== verification/Streams.thy ===== *)
theory Streams
  imports Subscriber UserService
begin

text \<open>
  The JetStream streams: \<open>internal/nats/streams.go\<close> of the auth, room and message services, and the rest
  of \<open>services/shared/pkg/nats\<close>.  JetStream itself is a parameter of the functions that provision; a
  subject ending in \<open>.>\<close> stands for all subjects that begin with what is before it.
\<close>

section \<open>Provisioning\<close>

datatype RetentionPolicy = LimitsPolicy | InterestPolicy | WorkQueuePolicy
datatype StorageType = FileStorage | MemoryStorage

record StreamConfig =
  st_Name :: string
  st_Subjects :: "string list"
  st_Retention :: RetentionPolicy
  st_Storage :: StorageType
  st_Replicas :: int

fun ProvisionStreams :: "(StreamConfig \<Rightarrow> ('w, unit) op) \<Rightarrow> StreamConfig list \<Rightarrow> ('w, unit) op" where
  "ProvisionStreams create [] = ret ()"
| "ProvisionStreams create (cfg # streams) =
     tryE (create cfg) (\<lambda>e. fail (Wrap (''provision stream '' @ st_Name cfg) e)) (\<lambda>_. ProvisionStreams create streams)"

definition ProvisionConsumer :: "(string \<Rightarrow> ConsumerConfig \<Rightarrow> ('w, unit) op) \<Rightarrow> string \<Rightarrow> ConsumerConfig \<Rightarrow> ('w, unit) op" where
  "ProvisionConsumer create stream cfg =
     tryE (create stream cfg) (\<lambda>e. fail (Wrap (''provision consumer '' @ cc_Durable cfg) e)) ret"

section \<open>The streams\<close>

definition limits_stream :: "string \<Rightarrow> string \<Rightarrow> StreamConfig" where
  "limits_stream name subject =
     \<lparr>st_Name = name, st_Subjects = [subject], st_Retention = LimitsPolicy, st_Storage = FileStorage, st_Replicas = 1\<rparr>"

definition auth_Streams :: "StreamConfig list" where
  "auth_Streams = [limits_stream ''AUTH'' ''auth.>'']"

definition room_Streams :: "StreamConfig list" where
  "room_Streams = [limits_stream StreamRoom ''room.>'']"

definition message_Streams :: "StreamConfig list" where
  "message_Streams = [limits_stream StreamMessage ''message.>'']"

section \<open>The bus fits together\<close>

text \<open>A subject under a wildcard.\<close>

definition subject_matches :: "string \<Rightarrow> string \<Rightarrow> bool" where
  "subject_matches filter_subject subject \<longleftrightarrow>
     (if 2 \<le> length filter_subject \<and> drop (length filter_subject - 2) filter_subject = ''.>''
      then let prefix = butlast filter_subject in take (length prefix) subject = prefix \<and> length prefix < length subject
      else filter_subject = subject)"

definition stream_holds :: "StreamConfig list \<Rightarrow> string \<Rightarrow> string \<Rightarrow> bool" where
  "stream_holds streams name subject \<longleftrightarrow>
     (\<exists>st \<in> set streams. st_Name st = name \<and> (\<exists>f \<in> set (st_Subjects st). subject_matches f subject))"

definition all_streams :: "StreamConfig list" where
  "all_streams = auth_Streams @ room_Streams @ message_Streams"

lemma stream_holds_eq:
  "stream_holds all_streams name subject \<longleftrightarrow>
     name = ''AUTH'' \<and> subject_matches ''auth.>'' subject \<or> name = StreamRoom \<and> subject_matches ''room.>'' subject \<or>
     name = StreamMessage \<and> subject_matches ''message.>'' subject"
  by (auto simp: stream_holds_def all_streams_def auth_Streams_def room_Streams_def message_Streams_def limits_stream_def)

lemma matching_subjects:
  "subject_matches ''auth.>'' SubjectUserRegistered" "\<not> subject_matches ''auth.>'' SubjectRoomCreated"
  "\<not> subject_matches ''auth.>'' SubjectMembershipChange" "\<not> subject_matches ''auth.>'' SubjectRoomUpdated"
  "\<not> subject_matches ''auth.>'' SubjectRoomDeleted" "\<not> subject_matches ''auth.>'' SubjectMessageCreated"
  "\<not> subject_matches ''room.>'' SubjectUserRegistered" "subject_matches ''room.>'' SubjectRoomCreated"
  "subject_matches ''room.>'' SubjectMembershipChange" "subject_matches ''room.>'' SubjectRoomUpdated"
  "subject_matches ''room.>'' SubjectRoomDeleted" "\<not> subject_matches ''room.>'' SubjectMessageCreated"
  "\<not> subject_matches ''message.>'' SubjectUserRegistered" "\<not> subject_matches ''message.>'' SubjectRoomCreated"
  "\<not> subject_matches ''message.>'' SubjectMembershipChange" "\<not> subject_matches ''message.>'' SubjectRoomUpdated"
  "\<not> subject_matches ''message.>'' SubjectRoomDeleted" "subject_matches ''message.>'' SubjectMessageCreated"
  by code_simp+

text \<open>What is published is kept by the stream of its service, and by no other.\<close>

lemma published_subjects_kept:
  "stream_holds all_streams name SubjectUserRegistered \<longleftrightarrow> name = ''AUTH''"
  "subject \<in> {SubjectRoomCreated, SubjectMembershipChange, SubjectRoomUpdated, SubjectRoomDeleted} \<Longrightarrow>
    stream_holds all_streams name subject \<longleftrightarrow> name = StreamRoom"
  "stream_holds all_streams name SubjectMessageCreated \<longleftrightarrow> name = StreamMessage"
  by (auto simp: stream_holds_eq matching_subjects)

text \<open>Every consumer filters a subject that is kept by the stream it is created on.\<close>

lemma consumed_subjects:
  "ws_SubjectMessageCreated = SubjectMessageCreated" "ws_SubjectRoomMembershipChanged = SubjectMembershipChange"
  "ws_SubjectRoomUpdated = SubjectRoomUpdated" "SubjectAuthUserRegistered = SubjectUserRegistered"
  by code_simp+

lemma consumers_on_streams:
  "\<forall>(stream, cc, h) \<in> set (consumer_plan cfg). stream_holds all_streams stream (cc_FilterSubject cc)"
  "stream_holds all_streams StreamAuth (cc_FilterSubject (UserRegisteredConsumer maxDeliver ackWait))"
  by (simp_all add: consumer_plan_def stream_holds_eq MessageCreatedConsumer_def RoomMembershipChangedConsumer_def RoomUpdatedConsumer_def
      DefaultConsumerConfig_def UserRegisteredConsumer_def StreamAuth_def consumed_subjects matching_subjects)

text \<open>Provisioning stops at the first stream that cannot be made.\<close>

lemma ProvisionStreams_error:
  assumes "ProvisionStreams create streams w = (Inl e, w')"
  shows "\<exists>st e'. st \<in> set streams \<and> e = Wrap (''provision stream '' @ st_Name st) e'"
  using assms
proof (induction streams arbitrary: w)
  case (Cons st streams)
  note run = Cons.prems [unfolded ProvisionStreams.simps]
  from run show ?case
  proof (cases rule: tryE_cases)
    case (error e1 w1)
    then have "e = Wrap (''provision stream '' @ st_Name st) e1" by (simp only: fail_def prod.inject sum.inject simp_thms)
    then show ?thesis by (intro exI [of _ st] exI [of _ e1]) (simp only: list.set_intros simp_thms)
  next
    case (ok x w1)
    then obtain st' e' where "st' \<in> set streams" "e = Wrap (''provision stream '' @ st_Name st') e'" using Cons.IH by blast
    then show ?thesis by (intro exI [of _ st'] exI [of _ e'] conjI list.set_intros(2))
  qed
qed (simp add: ret_def)

end
