(* ===== verification/Interceptors.thy ===== *)
theory Interceptors
  imports World
begin

text \<open>
  The gRPC interceptors of \<open>services/shared/pkg/middleware\<close>, which every service puts in front of its
  handler: a request id, recovery from a panic, logging.  A handler either returns or panics.  The lines
  that are logged are kept beside the world, without the durations and the stack.
\<close>

section \<open>Handlers and their context\<close>

datatype 'a rpc_outcome = Returned "error + 'a" | Panicked

record rpc_ctx =
  rx_incoming :: "(string \<Rightarrow> string list) option"
  rx_requestID :: "string option"
  rx_userID :: "string option"

type_synonym ('w, 'a) rpc_handler = "rpc_ctx \<Rightarrow> 'w \<Rightarrow> 'a rpc_outcome \<times> 'w"

definition MetadataKeyUserID :: string where "MetadataKeyUserID = ''x-user-id''"
definition MetadataKeyRequestID :: string where "MetadataKeyRequestID = ''x-request-id''"

definition rpc_GetUserID :: "rpc_ctx \<Rightarrow> string option" where
  "rpc_GetUserID ctx = rx_userID ctx"

definition rpc_GetRequestID :: "rpc_ctx \<Rightarrow> string option" where
  "rpc_GetRequestID ctx = rx_requestID ctx"

section \<open>The interceptors\<close>

text \<open>A line has the method and the request id; the line of a call that failed the code and the cause
  of its \<open>StatusError\<close>, or the error itself.\<close>

datatype log_line =
    RequestStarted string string
  | RequestCompleted string string bool "Code option" "error option"
  | PanicRecovered string string

type_synonym ('w, 'a) logged_handler = "('w \<times> log_line list, 'a) rpc_handler"

definition log_id :: "rpc_ctx \<Rightarrow> string" where
  "log_id ctx = (case rpc_GetRequestID ctx of None \<Rightarrow> [] | Some rid \<Rightarrow> rid)"

definition completed_line :: "string \<Rightarrow> string \<Rightarrow> error + 'a \<Rightarrow> log_line" where
  "completed_line fullMethod rid r =
     (case r of
        Inr _ \<Rightarrow> RequestCompleted fullMethod rid True None None
      | Inl err \<Rightarrow>
          (case errors_As_StatusError err of
             Some (code, msg, cause) \<Rightarrow>
               RequestCompleted fullMethod rid False (Some code) (Some (case cause of Some e \<Rightarrow> e | None \<Rightarrow> StatusError code msg None))
           | None \<Rightarrow> RequestCompleted fullMethod rid False None (Some err)))"

definition RequestIDInterceptor :: "uuid_lib \<Rightarrow> ('z world_scheme, 'a) logged_handler \<Rightarrow> ('z world_scheme, 'a) logged_handler" where
  "RequestIDInterceptor U handler ctx s =
     (let requestIDs = (case rx_incoming ctx of None \<Rightarrow> [] | Some md \<Rightarrow> md MetadataKeyRequestID);
          requestID = (if 0 < length requestIDs \<and> requestIDs ! 0 \<noteq> [] then requestIDs ! 0 else uuid_String U (uuid_in (fst s)))
      in handler (ctx\<lparr>rx_requestID := Some requestID\<rparr>) s)"

definition LoggingInterceptor :: "string \<Rightarrow> ('w, 'a) rpc_handler \<Rightarrow> ('w, 'a) logged_handler" where
  "LoggingInterceptor fullMethod handler ctx s =
     (case s of (w, lines) \<Rightarrow>
        let rid = log_id ctx; lines1 = lines @ [RequestStarted fullMethod rid]
        in (case handler ctx w of
              (Panicked, w') \<Rightarrow> (Panicked, (w', lines1))
            | (Returned r, w') \<Rightarrow> (Returned r, (w', lines1 @ [completed_line fullMethod rid r]))))"

definition RecoveryInterceptor :: "string \<Rightarrow> ('w, 'a) logged_handler \<Rightarrow> ('w, 'a) logged_handler" where
  "RecoveryInterceptor fullMethod handler ctx s =
     (case handler ctx s of
        (Panicked, (w', lines)) \<Rightarrow>
          (Returned (Inl (GRPCStatus Internal ''internal server error'')), (w', lines @ [PanicRecovered fullMethod (log_id ctx)]))
      | (Returned r, s') \<Rightarrow> (Returned r, s'))"

definition UserIDInterceptor :: "('w, 'a) rpc_handler \<Rightarrow> ('w, 'a) rpc_handler" where
  "UserIDInterceptor handler ctx w =
     (case rx_incoming ctx of
        None \<Rightarrow> handler ctx w
      | Some md \<Rightarrow>
          let userIDs = md MetadataKeyUserID
          in handler (if 0 < length userIDs then ctx\<lparr>rx_userID := Some (userIDs ! 0)\<rparr> else ctx) w)"

text \<open>The chain of \<open>cmd/main.go\<close>.\<close>

definition rpc_chain :: "uuid_lib \<Rightarrow> string \<Rightarrow> ('z world_scheme, 'a) rpc_handler \<Rightarrow> ('z world_scheme, 'a) logged_handler" where
  "rpc_chain U fullMethod handler = RequestIDInterceptor U (RecoveryInterceptor fullMethod (LoggingInterceptor fullMethod handler))"

section \<open>What the chain guarantees\<close>

text \<open>A handler runs with a request id that is not empty, the one that was sent if there is one; a panic
  becomes \<open>INTERNAL\<close>; anything else is passed on.  So the calls between the services, which run the
  operations of the handlers, may leave the chain out.\<close>

definition forwarded_id :: "rpc_ctx \<Rightarrow> string option" where
  "forwarded_id ctx = (case rx_incoming ctx of None \<Rightarrow> None | Some md \<Rightarrow>
     (case md MetadataKeyRequestID of [] \<Rightarrow> None | rid # _ \<Rightarrow> if rid = [] then None else Some rid))"

definition id_for :: "uuid_lib \<Rightarrow> rpc_ctx \<Rightarrow> 'z world_scheme \<Rightarrow> string" where
  "id_for U ctx w = (case forwarded_id ctx of None \<Rightarrow> uuid_String U (uuid_in w) | Some rid \<Rightarrow> rid)"

lemma request_id_of: "RequestIDInterceptor U handler ctx s = handler (ctx\<lparr>rx_requestID := Some (id_for U ctx (fst s))\<rparr>) s"
proof (cases "rx_incoming ctx")
  case (Some md)
  then show ?thesis by (cases "md MetadataKeyRequestID") (simp_all add: RequestIDInterceptor_def forwarded_id_def id_for_def)
qed (simp add: RequestIDInterceptor_def forwarded_id_def id_for_def)

lemma rpc_chain_run:
  "rpc_chain U fullMethod handler ctx (w, lines) =
    (let rid = id_for U ctx w; lines1 = lines @ [RequestStarted fullMethod rid] in
     case handler (ctx\<lparr>rx_requestID := Some rid\<rparr>) w of
       (Panicked, w') \<Rightarrow> (Returned (Inl (GRPCStatus Internal ''internal server error'')), (w', lines1 @ [PanicRecovered fullMethod rid]))
     | (Returned r, w') \<Rightarrow> (Returned r, (w', lines1 @ [completed_line fullMethod rid r])))"
  by (simp add: rpc_chain_def request_id_of RecoveryInterceptor_def LoggingInterceptor_def log_id_def rpc_GetRequestID_def Let_def
      split: prod.splits rpc_outcome.splits)

lemma request_id_nonempty:
  assumes "uuid_lib_ok U"
  shows "id_for U ctx w \<noteq> []"
  using assms by (auto simp: id_for_def forwarded_id_def uuid_lib_ok_def split: option.splits list.splits if_splits)

lemma rpc_chain_transparent:
  "fst (rpc_chain U fullMethod (\<lambda>ctx w. (Returned (fst (m w)), snd (m w))) ctx (w, lines)) = Returned (fst (m w))"
  "fst (snd (rpc_chain U fullMethod (\<lambda>ctx w. (Returned (fst (m w)), snd (m w))) ctx (w, lines))) = snd (m w)"
  by (simp_all add: rpc_chain_run Let_def)

end
