(* ===== verification/WsHandler.thy ===== *)
theory WsHandler
  imports HubActor Valkey RoomHandler
begin

text \<open>
  \<open>services/websocket/internal/handler/ws.go\<close>: a connection from its ticket to its end.

  \<open>HandleWS\<close> consumes a ticket and accepts the connection, which from then on has a wrapper with a
  bounded queue of outgoing frames.  Its three goroutines are the functions \<open>readPump\<close> (over the
  frames that arrive), \<open>writePump_step\<close> (one frame that leaves) and \<open>pingPump_fail\<close>; \<open>hub_case_step\<close>
  is one turn of the hub, whose sends go to the wrappers.  \<open>ws_step\<close> interleaves them.

  A connection is a number, fresh when it is accepted, and belongs to the user of its ticket.
\<close>

section \<open>Configuration and replies\<close>

record ws_config =
  wsc_WriteLimit :: int
  wsc_ReadLimit :: int
  wsc_PingInterval :: time
  wsc_ReadDeadline :: time
  wsc_WriteDeadline :: time
  wsc_WriteBuffer :: nat

record http_response =
  hr_status :: int
  hr_body :: json

text \<open>A \<open>map[string]string\<close> is written with its keys in order.\<close>

definition writeError :: "Code \<Rightarrow> string \<Rightarrow> http_response" where
  "writeError code msg =
     \<lparr>hr_status = ToHTTPCode code, hr_body = JObj [(''code'', JStr code), (''error'', JStr msg)]\<rparr>"

section \<open>The wrapper of a connection\<close>

text \<open>\<open>wc_receiving\<close> says that the write pump waits for a frame, \<open>wc_written\<close> is what went to the socket.\<close>

record wsConnWrapper =
  wc_writeTimeout :: time
  wc_readDeadline :: time
  wc_bufSize :: nat
  wc_outbound :: "json list"
  wc_closed :: bool
  wc_receiving :: bool
  wc_written :: "json list"

definition newWSConnWrapper :: "time \<Rightarrow> time \<Rightarrow> nat \<Rightarrow> wsConnWrapper" where
  "newWSConnWrapper writeTimeout readDeadline bufSize =
     \<lparr>wc_writeTimeout = writeTimeout, wc_readDeadline = readDeadline, wc_bufSize = bufSize, wc_outbound = [],
      wc_closed = False, wc_receiving = False, wc_written = []\<rparr>"

definition closeOutbound :: "wsConnWrapper \<Rightarrow> wsConnWrapper" where
  "closeOutbound c = c\<lparr>wc_closed := True\<rparr>"

text \<open>Sending on the closed channel panics, and the recovered call returns \<open>false\<close>.  Without a buffer
  a frame is taken only by a pump that waits for it.\<close>

definition Send :: "json \<Rightarrow> wsConnWrapper \<Rightarrow> bool \<times> wsConnWrapper" where
  "Send data c =
     (if wc_closed c then (False, c)
      else if length (wc_outbound c) < wc_bufSize c \<or> (wc_receiving c \<and> wc_outbound c = [])
      then (True, c\<lparr>wc_outbound := wc_outbound c @ [data], wc_receiving := False\<rparr>)
      else (False, c))"

section \<open>The state of the service\<close>

text \<open>Beside Valkey: the hub, the wrappers, the number of the next connection, the user each pump
  works for, and the connections that are being closed.\<close>

record ws_world = valkey_world +
  ws_hub :: hub_actor
  ws_conns :: "conn \<Rightarrow> wsConnWrapper"
  ws_next :: conn
  ws_owner :: "conn \<Rightarrow> string"
  ws_closing :: "conn list"

definition hub_do :: "(hub_actor \<Rightarrow> hub_actor) \<Rightarrow> 'z ws_world_scheme \<Rightarrow> 'z ws_world_scheme" where
  "hub_do f w = w\<lparr>ws_hub := f (ws_hub w)\<rparr>"

definition ws_send :: "conn \<Rightarrow> json \<Rightarrow> 'z ws_world_scheme \<Rightarrow> bool \<times> 'z ws_world_scheme" where
  "ws_send conn data w =
     (case Send data (ws_conns w conn) of (sent, c) \<Rightarrow> (sent, w\<lparr>ws_conns := (ws_conns w)(conn := c)\<rparr>))"

section \<open>Accepting a connection\<close>

text \<open>\<open>q_upgradable\<close> is whether \<open>websocket.Accept\<close> succeeds.\<close>

record ws_request =
  q_ticket :: string
  q_room_id :: string
  q_upgradable :: bool

datatype ws_reply = WsRejected http_response | WsNotUpgraded | WsUpgraded conn string

definition ws_validateTicket :: "string \<Rightarrow> ('z valkey_world_scheme, string) op" where
  "ws_validateTicket ticket =
     tryE (vk_do (GETDEL (GatewayWSTicketKey ticket))) fail
       (\<lambda>resp. case ToString resp of Inl e \<Rightarrow> fail e | Inr userID \<Rightarrow> ret userID)"

definition accept_conn :: "ws_config \<Rightarrow> string \<Rightarrow> 'z ws_world_scheme \<Rightarrow> 'z ws_world_scheme" where
  "accept_conn cfg userID w =
     w\<lparr>ws_conns := (ws_conns w)(ws_next w :=
           newWSConnWrapper (wsc_WriteDeadline cfg) (wsc_ReadDeadline cfg) (wsc_WriteBuffer cfg)),
       ws_owner := (ws_owner w)(ws_next w := userID), ws_next := Suc (ws_next w)\<rparr>"

definition HandleWS :: "uuid_lib \<Rightarrow> ws_config \<Rightarrow> ws_request \<Rightarrow> 'z ws_world_scheme \<Rightarrow> ws_reply \<times> 'z ws_world_scheme" where
  "HandleWS U cfg r w =
     (if q_ticket r = [] then (WsRejected (writeError CodeUnauthenticated ''missing ticket''), w)
      else if length (q_ticket r) > 256 then (WsRejected (writeError CodeInvalidArgument ''ticket too long''), w)
      else
        (case ws_validateTicket (q_ticket r) w of
           (Inl e, w1) \<Rightarrow> (WsRejected (writeError CodeUnauthenticated ''invalid or expired ticket''), w1)
         | (Inr userID, w1) \<Rightarrow>
             if q_room_id r \<noteq> [] \<and> uuid_Parse U (q_room_id r) = None
             then (WsRejected (writeError CodeInvalidArgument ''invalid room_id format''), w1)
             else if \<not> q_upgradable r then (WsNotUpgraded, w1)
             else
               let conn = ws_next w1;
                   w2 = accept_conn cfg userID w1
               in (WsUpgraded conn userID,
                   if q_room_id r \<noteq> [] then hub_do (hub_Register conn userID (q_room_id r)) w2 else w2)))"

section \<open>Frames from the client\<close>

text \<open>\<open>json.RawMessage\<close> takes any value, also \<open>null\<close>.  Decoding an absent payload fails.\<close>

fun set_raw :: "json \<Rightarrow> json option \<Rightarrow> json option option" where
  "set_raw v d = Some (Some v)"

definition decode_Envelope :: "json \<Rightarrow> Envelope option" where
  "decode_Envelope j =
     (case json_members j of
        None \<Rightarrow> None
      | Some kvs \<Rightarrow>
          (case (json_field set_string ''type'' [] kvs, json_field set_raw ''payload'' None kvs) of
             (Some t, Some p) \<Rightarrow> Some \<lparr>env_Type = t, env_Payload = p\<rparr>
           | _ \<Rightarrow> None))"

text \<open>\<open>SubscribePayload\<close> and \<open>UnsubscribePayload\<close> have the one field \<open>room_id\<close>.\<close>

definition decode_room_payload :: "json option \<Rightarrow> string option" where
  "decode_room_payload p =
     (case Option.bind p json_members of None \<Rightarrow> None | Some kvs \<Rightarrow> json_field set_string ''room_id'' [] kvs)"

definition error_frame :: "string \<Rightarrow> string \<Rightarrow> json" where
  "error_frame code message =
     marshal_Envelope \<lparr>env_Type = TypeError,
       env_Payload = Some (JObj [(''code'', JStr code), (''message'', JStr message)])\<rparr>"

definition sendError :: "conn \<Rightarrow> string \<Rightarrow> string \<Rightarrow> 'z ws_world_scheme \<Rightarrow> 'z ws_world_scheme" where
  "sendError conn code message w = snd (ws_send conn (error_frame code message) w)"

definition handleMessage :: "uuid_lib \<Rightarrow> conn \<Rightarrow> string \<Rightarrow> Envelope \<Rightarrow> 'z ws_world_scheme \<Rightarrow> 'z ws_world_scheme" where
  "handleMessage U conn userID envelope w =
     (if env_Type envelope = TypeSubscribe then
        (case decode_room_payload (env_Payload envelope) of
           None \<Rightarrow> sendError conn ''invalid_payload'' ''failed to parse subscribe payload'' w
         | Some roomID \<Rightarrow>
             if uuid_Parse U roomID = None then sendError conn ''invalid_room_id'' ''invalid room ID format'' w
             else hub_do (hub_Register conn userID roomID) w)
      else if env_Type envelope = TypeUnsubscribe then
        (case decode_room_payload (env_Payload envelope) of
           None \<Rightarrow> sendError conn ''invalid_payload'' ''failed to parse unsubscribe payload'' w
         | Some roomID \<Rightarrow> hub_do (hub_Unregister conn roomID) w)
      else if env_Type envelope = TypePing then
        snd (ws_send conn (marshal_Envelope \<lparr>env_Type = TypePong, env_Payload = None\<rparr>) w)
      else sendError conn ''unknown_type'' ''unknown message type'' w)"

text \<open>One turn of the loop of \<open>readPump\<close>: a frame is a document, or \<open>None\<close> when it is no JSON.\<close>

definition receive_frame :: "uuid_lib \<Rightarrow> conn \<Rightarrow> string \<Rightarrow> json option \<Rightarrow> 'z ws_world_scheme \<Rightarrow> 'z ws_world_scheme" where
  "receive_frame U conn userID msg w =
     (case Option.bind msg decode_Envelope of
        None \<Rightarrow> sendError conn ''invalid_json'' ''failed to parse message'' w
      | Some envelope \<Rightarrow> handleMessage U conn userID envelope w)"

definition close_outbound_of :: "conn \<Rightarrow> 'z ws_world_scheme \<Rightarrow> 'z ws_world_scheme" where
  "close_outbound_of conn w = w\<lparr>ws_conns := (ws_conns w)(conn := closeOutbound (ws_conns w conn))\<rparr>"

text \<open>The deferred function of \<open>readPump\<close>, when reading has failed or the client has closed.\<close>

definition readPump_exit :: "conn \<Rightarrow> 'z ws_world_scheme \<Rightarrow> 'z ws_world_scheme" where
  "readPump_exit conn w =
     (let w1 = close_outbound_of conn (hub_do (hub_Disconnect conn) w)
      in w1\<lparr>ws_closing := ws_closing w1 @ [conn]\<rparr>)"

fun readPump :: "uuid_lib \<Rightarrow> conn \<Rightarrow> string \<Rightarrow> json option list \<Rightarrow> 'z ws_world_scheme \<Rightarrow> 'z ws_world_scheme" where
  "readPump U conn userID [] w = readPump_exit conn w"
| "readPump U conn userID (msg # msgs) w = readPump U conn userID msgs (receive_frame U conn userID msg w)"

text \<open>One turn of \<open>writePump\<close>: it writes the next frame, and a failure ends it; with nothing to write
  it waits (or ends, when the channel is closed).\<close>

definition writePump_step :: "bool \<Rightarrow> conn \<Rightarrow> 'z ws_world_scheme \<Rightarrow> 'z ws_world_scheme" where
  "writePump_step ok conn w =
     (let c = ws_conns w conn in
      case wc_outbound c of
        [] \<Rightarrow> if wc_closed c then w else w\<lparr>ws_conns := (ws_conns w)(conn := c\<lparr>wc_receiving := True\<rparr>)\<rparr>
      | data # rest \<Rightarrow>
          let w1 = w\<lparr>ws_conns := (ws_conns w)(conn := c\<lparr>wc_outbound := rest,
                 wc_written := (if ok then wc_written c @ [data] else wc_written c)\<rparr>)\<rparr>
          in if ok then w1 else hub_do (hub_Disconnect conn) w1)"

definition pingPump_fail :: "conn \<Rightarrow> 'z ws_world_scheme \<Rightarrow> 'z ws_world_scheme" where
  "pingPump_fail conn w = close_outbound_of conn (hub_do (hub_Disconnect conn) w)"

section \<open>The sends of the hub\<close>

text \<open>A connection whose queue is full, or closed, is closed by a goroutine of its own.\<close>

definition send_or_close :: "conn \<times> json \<Rightarrow> 'z ws_world_scheme \<Rightarrow> 'z ws_world_scheme" where
  "send_or_close cd w =
     (case ws_send (fst cd) (snd cd) w of
        (sent, w1) \<Rightarrow> if sent then w1 else w1\<lparr>ws_closing := ws_closing w1 @ [fst cd]\<rparr>)"

definition hub_case_step :: "hub_case \<Rightarrow> 'z ws_world_scheme \<Rightarrow> 'z ws_world_scheme option" where
  "hub_case_step sel w =
     (case Run_case sel (ws_hub w) of
        None \<Rightarrow> None
      | Some a \<Rightarrow> Some (fold send_or_close (drop (length (ha_out (ws_hub w))) (ha_out a)) (w\<lparr>ws_hub := a\<rparr>)))"

section \<open>Tickets\<close>

lemma validate_grab:
  "grab_token GETDEL GatewayWSTicketKey ticket (now_in w) w =
    (case ws_validateTicket ticket w of (Inl e, w') \<Rightarrow> (None, w') | (Inr u, w') \<Rightarrow> (Some u, w'))"
  by (auto simp: vk_do_grab ws_validateTicket_def tryE_def fail_def ret_def ToString_def split: prod.splits sum.splits option.splits)

lemma validate_world: "env (snd (ws_validateTicket ticket w)) = env w" "calls (snd (ws_validateTicket ticket w)) = Suc (calls w)"
  using vk_do_env(1) [of "GETDEL (GatewayWSTicketKey ticket)" w] vk_do_env(2) [of "GETDEL (GatewayWSTicketKey ticket)" w]
  by (auto simp: ws_validateTicket_def tryE_def fail_def ret_def split: prod.splits sum.splits)

lemma accept_simps [simp]:
  "vk (accept_conn cfg u w) = vk w" "env (accept_conn cfg u w) = env w" "calls (accept_conn cfg u w) = calls w"
  "ws_hub (accept_conn cfg u w) = ws_hub w"
  "vk (hub_do f w) = vk w" "env (hub_do f w) = env w" "calls (hub_do f w) = calls w" "ws_hub (hub_do f w) = f (ws_hub w)"
  by (simp_all add: accept_conn_def hub_do_def)

text \<open>What \<open>HandleWS\<close> does to Valkey and to the number of calls is what the check of the ticket does.\<close>

lemma HandleWS_cases:
  assumes "HandleWS U cfg r w = (reply, w')"
  obtains (early) "w' = w" "\<exists>x. reply = WsRejected x"
    | (checked) e w1 where "ws_validateTicket (q_ticket r) w = (e, w1)" "vk w' = vk w1" "env w' = env w1" "calls w' = calls w1"
      "\<And>c u. reply = WsUpgraded c u \<Longrightarrow> e = Inr u \<and> length (q_ticket r) \<le> 256 \<and>
        (q_room_id r \<noteq> [] \<longrightarrow> uuid_Parse U (q_room_id r) \<noteq> None)"
proof (cases "q_ticket r = [] \<or> 256 < length (q_ticket r)")
  case True
  with assms early show ?thesis by (auto simp: HandleWS_def split: if_splits)
next
  case False
  obtain e w1 where "ws_validateTicket (q_ticket r) w = (e, w1)" by (cases "ws_validateTicket (q_ticket r) w")
  with False assms checked show ?thesis
    by (cases e) (auto simp: HandleWS_def Let_def split: if_splits)
qed

definition ticket_at :: "time \<Rightarrow> 'z valkey_world_scheme \<Rightarrow> string \<Rightarrow> string option" where
  "ticket_at = token_at GatewayWSTicketKey"

lemma HandleWS_ticket:
  assumes "HandleWS U cfg r w = (reply, w')" and "mono (clock_at (env w))"
  shows "env w' = env w" and "now_in w \<le> now_in w'"
    and "reply = WsUpgraded c u \<Longrightarrow> ticket_at (now_in w) w (q_ticket r) = Some u"
    and "reply = WsUpgraded c u \<Longrightarrow> now_in w \<le> t \<Longrightarrow> ticket_at t w' (q_ticket r) = None"
    and "ticket_at (now_in w) w k = None \<Longrightarrow> now_in w \<le> t \<Longrightarrow> ticket_at t w' k = None"
proof -
  have "env w' = env w \<and> calls w \<le> calls w'"
    using assms(1) by (cases rule: HandleWS_cases) (use validate_world [of "q_ticket r" w] in auto)
  then show "env w' = env w" "now_in w \<le> now_in w'"
    using assms(2) by (simp_all add: now_in_def mono_def)
  have same: "ticket_at t w' = ticket_at t w1" if "vk w' = vk w1" for t and w1 :: "'a ws_world_scheme"
    using that by (intro ext) (simp only: ticket_at_def token_at_def)
  note laws = ticket.grab_answers ticket.grab_takes ticket.gone_stays ticket.expired
  show "reply = WsUpgraded c u \<Longrightarrow> ticket_at (now_in w) w (q_ticket r) = Some u"
    using assms(1) laws(1) [of "q_ticket r" "now_in w" w]
    by (cases rule: HandleWS_cases) (auto simp: validate_grab ticket_at_def)
  show "reply = WsUpgraded c u \<Longrightarrow> now_in w \<le> t \<Longrightarrow> ticket_at t w' (q_ticket r) = None"
    using assms(1) laws(2) [of "now_in w" t "q_ticket r" w]
    by (cases rule: HandleWS_cases) (auto simp: validate_grab ticket_at_def token_at_def)
  show "ticket_at (now_in w) w k = None \<Longrightarrow> now_in w \<le> t \<Longrightarrow> ticket_at t w' k = None"
    using assms(1)
  proof (cases rule: HandleWS_cases)
    case early
    then show "ticket_at (now_in w) w k = None \<Longrightarrow> now_in w \<le> t \<Longrightarrow> ticket_at t w' k = None"
      using laws(4) by (auto simp: ticket_at_def)
  next
    case (checked e w1)
    then have "snd (grab_token GETDEL GatewayWSTicketKey (q_ticket r) (now_in w) w) = w1"
      by (cases e) (simp_all add: validate_grab)
    then show "ticket_at (now_in w) w k = None \<Longrightarrow> now_in w \<le> t \<Longrightarrow> ticket_at t w' k = None"
      using laws(3) [of "now_in w" w k t "q_ticket r"] same [OF checked(2)] by (simp add: ticket_at_def)
  qed
qed

text \<open>The tickets of the requests that are accepted, the requests served one after the other.\<close>

fun accepted :: "uuid_lib \<Rightarrow> ws_config \<Rightarrow> ws_request list \<Rightarrow> 'z ws_world_scheme \<Rightarrow> string list" where
  "accepted U cfg [] w = []"
| "accepted U cfg (r # rs) w =
     (case HandleWS U cfg r w of
        (WsUpgraded _ _, w') \<Rightarrow> q_ticket r # accepted U cfg rs w'
      | (_, w') \<Rightarrow> accepted U cfg rs w')"

lemma accepted_gone:
  assumes "mono (clock_at (env w))" and "ticket_at (now_in w) w k = None"
  shows "k \<notin> set (accepted U cfg reqs w)"
  using assms
proof (induction reqs arbitrary: w)
  case (Cons r reqs)
  obtain reply w' where run: "HandleWS U cfg r w = (reply, w')" by (cases "HandleWS U cfg r w")
  note step = HandleWS_ticket [OF run Cons.prems(1)]
  have "k \<notin> set (accepted U cfg reqs w')"
    using Cons.IH [of w'] step(1,2) step(5) [OF Cons.prems(2)] Cons.prems(1) by simp
  moreover have "q_ticket r \<noteq> k" if "reply = WsUpgraded c u" for c u
    using step(3) [OF that] Cons.prems(2) by auto
  ultimately show ?case by (auto simp: run split: ws_reply.splits)
qed simp

lemma accepted_once: "mono (clock_at (env w)) \<Longrightarrow> distinct (accepted U cfg reqs w)"
proof (induction reqs arbitrary: w)
  case (Cons r reqs)
  obtain reply w' where run: "HandleWS U cfg r w = (reply, w')" by (cases "HandleWS U cfg r w")
  note step = HandleWS_ticket [OF run Cons.prems]
  have "q_ticket r \<notin> set (accepted U cfg reqs w')" if "reply = WsUpgraded c u" for c u
    using step(1,2) step(4) [OF that] Cons.prems by (intro accepted_gone) auto
  moreover have "distinct (accepted U cfg reqs w')" using Cons step(1) by simp
  ultimately show ?case by (auto simp: run split: ws_reply.splits)
qed simp

section \<open>The service as a whole\<close>

definition hub_free :: "hub_actor \<Rightarrow> bool" where
  "hub_free a \<longleftrightarrow> has_room a (ha_register a) \<and> has_room a (ha_unregister a) \<and> has_room a (ha_disconnect a) \<and>
     has_room a (ha_broadcast a)"

text \<open>The gateway stores tickets with a user; everything else is a goroutine of the service.\<close>

inductive ws_step :: "uuid_lib \<Rightarrow> ws_config \<Rightarrow> 'z ws_world_scheme \<Rightarrow> 'z ws_world_scheme \<Rightarrow> bool" for U cfg where
  issue: "userID \<noteq> [] \<Longrightarrow> ws_step U cfg w (save_token GatewayWSTicketKey ticket userID secs t w)"
| accept: "hub_free (ws_hub w) \<Longrightarrow> ws_step U cfg w (snd (HandleWS U cfg r w))"
| frame: "hub_free (ws_hub w) \<Longrightarrow> conn < ws_next w \<Longrightarrow> ws_step U cfg w (receive_frame U conn (ws_owner w conn) msg w)"
| read_end: "hub_free (ws_hub w) \<Longrightarrow> conn < ws_next w \<Longrightarrow> ws_step U cfg w (readPump_exit conn w)"
| write_turn: "hub_free (ws_hub w) \<Longrightarrow> conn < ws_next w \<Longrightarrow> ws_step U cfg w (writePump_step ok conn w)"
| ping: "hub_free (ws_hub w) \<Longrightarrow> conn < ws_next w \<Longrightarrow> ws_step U cfg w (pingPump_fail conn w)"
| event: "hub_free (ws_hub w) \<Longrightarrow> ws_step U cfg w (hub_do (hub_BroadcastToRoom roomID envelope) w)"
| run: "hub_case_step sel w = Some w' \<Longrightarrow> ws_step U cfg w w'"

definition ws_start :: "nat \<Rightarrow> environment \<Rightarrow> ws_world" where
  "ws_start bufferSize E =
     \<lparr>env = E, calls = 0, published = [], vk = Map.empty, ws_hub = new_actor bufferSize,
      ws_conns = (\<lambda>_. newWSConnWrapper 0 0 0), ws_next = 0, ws_owner = (\<lambda>_. []), ws_closing = []\<rparr>"

definition ws_reach :: "uuid_lib \<Rightarrow> ws_config \<Rightarrow> nat \<Rightarrow> environment \<Rightarrow> ws_world \<Rightarrow> bool" where
  "ws_reach U cfg bufferSize E w \<longleftrightarrow> (ws_step U cfg)\<^sup>*\<^sup>* (ws_start bufferSize E) w"

text \<open>The events that have reached or may reach the tables are about accepted connections, under
  their users, and their rooms are valid ids.\<close>

definition all_events :: "hub_actor \<Rightarrow> hub_event set" where
  "all_events a = set (ha_served a) \<union> set (pending_registrations a) \<union> set (pending_unregistrations a) \<union>
     set (pending_disconnections a)"

fun event_conn :: "hub_event \<Rightarrow> conn" where
  "event_conn (Registration c _ _) = c"
| "event_conn (Unregistration c _) = c"
| "event_conn (Disconnection c) = c"

fun room_valid :: "uuid_lib \<Rightarrow> hub_event \<Rightarrow> bool" where
  "room_valid U (Registration _ _ r) \<longleftrightarrow> uuid_Parse U r \<noteq> None"
| "room_valid U _ \<longleftrightarrow> True"

definition tickets_ok :: "valkey \<Rightarrow> bool" where
  "tickets_ok db \<longleftrightarrow> (\<forall>k v e. db (GatewayWSTicketKey k) = Some (v, e) \<longrightarrow> vk_text v \<noteq> [])"

definition wrapper_ok :: "wsConnWrapper \<Rightarrow> bool" where
  "wrapper_ok c \<longleftrightarrow> length (wc_outbound c) \<le> max 1 (wc_bufSize c) \<and> (wc_receiving c \<longrightarrow> wc_outbound c = [])"

definition ws_inv :: "uuid_lib \<Rightarrow> 'z ws_world_scheme \<Rightarrow> bool" where
  "ws_inv U w \<longleftrightarrow> actor_inv (ws_owner w) (ws_hub w) \<and> tickets_ok (vk w) \<and>
     (\<forall>e \<in> all_events (ws_hub w). event_conn e < ws_next w \<and> room_valid U e) \<and>
     (\<forall>c. wrapper_ok (ws_conns w c)) \<and> (\<forall>c < ws_next w. ws_owner w c \<noteq> [])"

lemma Send_ok: "wrapper_ok c \<Longrightarrow> wrapper_ok (snd (Send data c))"
  by (auto simp: wrapper_ok_def Send_def)

lemma ws_send_simps [simp]:
  "ws_hub (snd (ws_send conn data w)) = ws_hub w" "vk (snd (ws_send conn data w)) = vk w"
  "ws_next (snd (ws_send conn data w)) = ws_next w" "ws_owner (snd (ws_send conn data w)) = ws_owner w"
  "ws_closing (snd (ws_send conn data w)) = ws_closing w"
  "ws_conns (snd (ws_send conn data w)) = (ws_conns w)(conn := snd (Send data (ws_conns w conn)))"
  "fst (ws_send conn data w) = fst (Send data (ws_conns w conn))"
  by (simp_all add: ws_send_def split: prod.splits)

lemma inv_send: "ws_inv U w \<Longrightarrow> ws_inv U (snd (ws_send conn data w))"
  by (simp add: ws_inv_def Send_ok)

lemma inv_closing: "ws_inv U w \<Longrightarrow> ws_inv U (w\<lparr>ws_closing := cs\<rparr>)"
  by (simp add: ws_inv_def)

lemma inv_conns: "ws_inv U w \<Longrightarrow> wrapper_ok c \<Longrightarrow> ws_inv U (w\<lparr>ws_conns := (ws_conns w)(conn := c)\<rparr>)"
  by (simp add: ws_inv_def)

lemma inv_sends: "ws_inv U w \<Longrightarrow> ws_inv U (fold send_or_close sends w)"
  by (induction sends arbitrary: w) (simp_all add: send_or_close_def inv_send inv_closing split: prod.splits,
    metis inv_closing inv_send snd_conv)

text \<open>A step of the hub within the service.\<close>

lemma inv_hub:
  assumes "ws_inv U w" and "actor_inv (ws_owner w) a"
    and "\<And>e. e \<in> all_events a \<Longrightarrow> e \<in> all_events (ws_hub w) \<or> event_conn e < ws_next w \<and> room_valid U e"
  shows "ws_inv U (w\<lparr>ws_hub := a\<rparr>)"
  using assms by (auto simp: ws_inv_def)

lemma all_events_calls:
  "all_events (hub_Register c u r a) = insert (Registration c u r) (all_events a)"
  "all_events (hub_Unregister c r a) = insert (Unregistration c r) (all_events a)"
  "all_events (hub_Disconnect c a) = insert (Disconnection c) (all_events a)"
  "all_events (hub_BroadcastToRoom r e a) = all_events a"
  by (auto simp: all_events_def caller_defs pending_defs)

lemma all_events_run: "Run_case sel a = Some a' \<Longrightarrow> all_events a' = all_events a"
  by (cases sel) (auto simp: all_events_def pending_defs split: list.splits)

lemma inv_run: "ws_inv U w \<Longrightarrow> hub_case_step sel w = Some w' \<Longrightarrow> ws_inv U w'"
proof -
  assume inv: "ws_inv U w" and step: "hub_case_step sel w = Some w'"
  obtain a where a: "Run_case sel (ws_hub w) = Some a" and w': "w' = fold send_or_close (drop (length (ha_out (ws_hub w))) (ha_out a)) (w\<lparr>ws_hub := a\<rparr>)"
    using step by (auto simp: hub_case_step_def split: option.splits)
  have "actor_inv (ws_owner w) a" using inv a Run_case_inv by (auto simp: ws_inv_def)
  then have "ws_inv U (w\<lparr>ws_hub := a\<rparr>)" using inv all_events_run [OF a] by (intro inv_hub) auto
  then show "ws_inv U w'" unfolding w' by (rule inv_sends)
qed

lemma inv_call:
  assumes inv: "ws_inv U w" and step: "hub_step (ws_owner w) (ws_hub w) a"
    and "\<And>e. e \<in> all_events a \<Longrightarrow> e \<in> all_events (ws_hub w) \<or> event_conn e < ws_next w \<and> room_valid U e"
  shows "ws_inv U (w\<lparr>ws_hub := a\<rparr>)"
  using assms(3) hub_step_inv [OF step] inv by (intro inv_hub [OF inv]) (auto simp: ws_inv_def)

lemma inv_calls:
  assumes inv: "ws_inv U w" and free: "hub_free (ws_hub w)" and conn: "conn < ws_next w"
  shows "uuid_Parse U r \<noteq> None \<Longrightarrow> ws_inv U (hub_do (hub_Register conn (ws_owner w conn) r) w)"
    and "ws_inv U (hub_do (hub_Unregister conn r) w)"
    and "ws_inv U (hub_do (hub_Disconnect conn) w)"
proof -
  have "ws_owner w conn \<noteq> []" using inv conn by (simp add: ws_inv_def)
  then show "uuid_Parse U r \<noteq> None \<Longrightarrow> ws_inv U (hub_do (hub_Register conn (ws_owner w conn) r) w)"
    using free conn unfolding hub_do_def
    by (intro inv_call [OF inv] hub_step.register) (auto simp: hub_free_def all_events_calls)
  show "ws_inv U (hub_do (hub_Unregister conn r) w)"
    using free conn unfolding hub_do_def
    by (intro inv_call [OF inv] hub_step.unregister) (auto simp: hub_free_def all_events_calls)
  show "ws_inv U (hub_do (hub_Disconnect conn) w)"
    using free conn unfolding hub_do_def
    by (intro inv_call [OF inv] hub_step.disconnect) (auto simp: hub_free_def all_events_calls)
qed

lemma inv_close: "ws_inv U w \<Longrightarrow> ws_inv U (close_outbound_of conn w)"
  unfolding close_outbound_of_def by (rule inv_conns) (simp_all add: ws_inv_def wrapper_ok_def closeOutbound_def)

lemma inv_frame:
  assumes inv: "ws_inv U w" and free: "hub_free (ws_hub w)" and conn: "conn < ws_next w"
  shows "ws_inv U (receive_frame U conn (ws_owner w conn) msg w)"
proof -
  have err: "ws_inv U (sendError conn code message w)" for code message
    unfolding sendError_def by (rule inv_send [OF inv])
  note calls = inv_calls [OF assms]
  have "ws_inv U (handleMessage U conn (ws_owner w conn) envelope w)" for envelope
    unfolding handleMessage_def by (auto intro: err calls inv_send [OF inv] split: option.split)
  then show ?thesis unfolding receive_frame_def by (auto intro: err split: option.split)
qed

lemma inv_accept:
  assumes inv: "ws_inv U w" and u: "userID \<noteq> []"
  shows "ws_inv U (accept_conn cfg userID w)"
proof -
  have fresh: "event_conn e \<noteq> ws_next w" if "e \<in> all_events (ws_hub w)" for e
    using inv that by (auto simp: ws_inv_def)
  have "owned_event ((ws_owner w)(ws_next w := userID)) e"
    if "owned_event (ws_owner w) e" "e \<in> all_events (ws_hub w)" for e
    using that(1) fresh [OF that(2)] by (cases e) auto
  then have "actor_inv ((ws_owner w)(ws_next w := userID)) (ws_hub w)"
    using inv by (auto simp: ws_inv_def actor_inv_def all_events_def)
  moreover have "wrapper_ok (newWSConnWrapper a b n)" for a b n by (simp add: wrapper_ok_def newWSConnWrapper_def)
  ultimately show ?thesis using inv u by (auto simp: ws_inv_def accept_conn_def less_Suc_eq)
qed

lemma tickets_grab:
  assumes "tickets_ok (vk w)"
  shows "tickets_ok (vk (snd (ws_validateTicket k w)))" and "ws_validateTicket k w = (Inr u, w') \<Longrightarrow> u \<noteq> []"
proof -
  obtain r w1 where run: "grab_token GETDEL GatewayWSTicketKey k (now_in w) w = (r, w1)"
    by (cases "grab_token GETDEL GatewayWSTicketKey k (now_in w) w")
  have w1: "snd (ws_validateTicket k w) = w1" "ws_validateTicket k w = (Inr u, w') \<Longrightarrow> r = Some u"
    using run by (auto simp: validate_grab split: prod.splits sum.splits)
  have "vk w1 = vk w \<or> (\<exists>db. vk w1 = db \<and> (\<forall>j. j \<noteq> GatewayWSTicketKey k \<longrightarrow> db j = vk w j) \<and>
      (db (GatewayWSTicketKey k) = None \<or> db (GatewayWSTicketKey k) = vk w (GatewayWSTicketKey k)))"
    using run by (cases rule: grab_token_cases [OF disjI1 [OF refl] inj_keys(2), of k "now_in w" w]) auto
  then show "tickets_ok (vk (snd (ws_validateTicket k w)))"
    using assms unfolding w1(1) tickets_ok_def by (metis option.distinct(1))
  show "u \<noteq> []" if "ws_validateTicket k w = (Inr u, w')"
  proof -
    have "ticket_at (now_in w) w k = Some u"
      using ticket.grab_answers [of k "now_in w" w] run w1(2) [OF that] by (auto simp: ticket_at_def)
    then show ?thesis
      using assms unfolding tickets_ok_def
      by (auto simp: ticket_at_def token_at_def live_def split: option.splits if_splits) blast+
  qed
qed

lemma inv_handle:
  assumes inv: "ws_inv U w" and free: "hub_free (ws_hub w)"
  shows "ws_inv U (snd (HandleWS U cfg r w))"
proof (cases "q_ticket r = [] \<or> 256 < length (q_ticket r)")
  case True
  with inv show ?thesis by (auto simp: HandleWS_def)
next
  case False
  obtain e w1 where run: "ws_validateTicket (q_ticket r) w = (e, w1)" by (cases "ws_validateTicket (q_ticket r) w")
  have same: "ws_hub w1 = ws_hub w \<and> ws_next w1 = ws_next w \<and> ws_owner w1 = ws_owner w \<and> ws_conns w1 = ws_conns w"
    using arg_cong [OF run, of snd]
    by (auto simp: ws_validateTicket_def vk_do_def pool_call_def ext_call_def run_stmt_def tryE_def fail_def ret_def
        put_vk_def tick_def GETDEL_def ToString_def split: fault.splits option.splits)
  have "tickets_ok (vk w1)" "\<And>u. e = Inr u \<Longrightarrow> u \<noteq> []"
    using tickets_grab [of w "q_ticket r"] run inv by (auto simp: ws_inv_def)
  then have inv1: "ws_inv U w1" using inv same by (simp add: ws_inv_def)
  have "ws_inv U (hub_do (hub_Register (ws_next w1) u room) (accept_conn cfg u w1))"
    if "e = Inr u" "uuid_Parse U room \<noteq> None" for u room
    using inv_calls(1) [OF inv_accept [OF inv1, of u cfg], of "ws_next w1" room] that free same \<open>\<And>u. e = Inr u \<Longrightarrow> u \<noteq> []\<close>
    by (simp add: accept_conn_def)
  then show ?thesis
    using False run inv1 inv_accept [OF inv1] \<open>\<And>u. e = Inr u \<Longrightarrow> u \<noteq> []\<close>
    by (cases e) (auto simp: HandleWS_def Let_def)
qed

lemma ws_step_inv: "ws_step U cfg w w' \<Longrightarrow> ws_inv U w \<Longrightarrow> ws_inv U w'"
proof (induction rule: ws_step.induct)
  case (issue userID w ticket secs t)
  then show ?case
    by (auto simp: save_token_def run_stmt_def SET_EX_def ws_inv_def tickets_ok_def put_vk_def vk_text_def
        GatewayWSTicketKey_def)
next
  case (read_end w conn)
  then show ?case unfolding readPump_exit_def Let_def by (intro inv_closing inv_close inv_calls(3))
next
  case (write_turn w conn ok)
  let ?c = "ws_conns w conn"
  have c: "wrapper_ok ?c" using write_turn by (simp add: ws_inv_def)
  then have pop: "wrapper_ok (?c\<lparr>wc_outbound := rest, wc_written := x\<rparr>)" if "wc_outbound ?c = data # rest" for data rest x
    using that by (auto simp: wrapper_ok_def)
  show ?case
  proof (cases "wc_outbound ?c")
    case Nil
    then have "wrapper_ok (?c\<lparr>wc_receiving := True\<rparr>)" by (simp add: wrapper_ok_def)
    then show ?thesis using Nil write_turn by (simp add: writePump_step_def Let_def inv_conns)
  next
    case (Cons data rest)
    let ?w1 = "w\<lparr>ws_conns := (ws_conns w)(conn := ?c\<lparr>wc_outbound := rest,
        wc_written := (if ok then wc_written ?c @ [data] else wc_written ?c)\<rparr>)\<rparr>"
    have "ws_inv U ?w1" using write_turn pop [OF Cons] by (intro inv_conns) auto
    then show ?thesis using inv_calls(3) [of U ?w1 conn] write_turn Cons by (cases ok) (simp_all add: writePump_step_def Let_def)
  qed
next
  case (ping w conn)
  then show ?case unfolding pingPump_fail_def by (intro inv_close inv_calls(3))
next
  case (event w roomID envelope)
  then show ?case unfolding hub_do_def
    by (intro inv_call hub_step.broadcast) (auto simp: hub_free_def all_events_calls)
qed (simp_all add: inv_handle inv_frame inv_run)

lemma ws_start_inv: "ws_inv U (ws_start n E)"
  using hub_reach_inv [OF reach_new, of "\<lambda>_. []" n]
  by (simp add: ws_inv_def ws_start_def tickets_ok_def all_events_def new_actor_def pending_defs wrapper_ok_def
      newWSConnWrapper_def)

lemma ws_reach_inv: "ws_reach U cfg n E w \<Longrightarrow> ws_inv U w"
proof -
  have "(ws_step U cfg)\<^sup>*\<^sup>* (ws_start n E) w \<Longrightarrow> ws_inv U w"
    by (induction rule: rtranclp_induct) (blast intro: ws_start_inv ws_step_inv)+
  then show "ws_reach U cfg n E w \<Longrightarrow> ws_inv U w" by (simp add: ws_reach_def)
qed

lemma ws_inv_subs:
  assumes "ws_inv U w"
  shows "hub_ok (ha_hub (ws_hub w))" and "subs (ha_hub (ws_hub w)) = {(c, r). listens (ha_served (ws_hub w)) c r}"
    and "(c, r) \<in> subs (ha_hub (ws_hub w)) \<Longrightarrow> c < ws_next w \<and> h_userIDs (ha_hub (ws_hub w)) c = Some (ws_owner w c) \<and>
      uuid_Parse U r \<noteq> None"
proof -
  let ?evs = "ha_served (ws_hub w)"
  have inv: "actor_inv (ws_owner w) (ws_hub w)" using assms by (simp add: ws_inv_def)
  then have own: "owned (ws_owner w) (fold hub_apply ?evs NewHub) \<and> subs (fold hub_apply ?evs NewHub) = {(c, r). listens ?evs c r}"
    by (intro hs.from_start NewHub_owned NewHub_ok(2)) (auto simp: actor_inv_def)
  then show ok: "hub_ok (ha_hub (ws_hub w))" and subs: "subs (ha_hub (ws_hub w)) = {(c, r). listens ?evs c r}"
    using inv by (simp_all add: actor_inv_def owned_def)
  have reg: "listens evs c r \<Longrightarrow> \<exists>u. Registration c u r \<in> set evs" for evs
  proof (induction evs rule: rev_induct)
    case (snoc e evs)
    then show ?case by (cases e) (auto simp: listens_def split: if_splits)
  qed (simp add: listens_def)
  assume s: "(c, r) \<in> subs (ha_hub (ws_hub w))"
  then obtain u where "Registration c u r \<in> set ?evs" using reg subs by auto
  then have "Registration c u r \<in> all_events (ws_hub w)" by (simp add: all_events_def)
  then have "event_conn (Registration c u r) < ws_next w \<and> room_valid U (Registration c u r)"
    using assms unfolding ws_inv_def by blast
  moreover have "h_userIDs (ha_hub (ws_hub w)) c \<in> {None, Some (ws_owner w c)}"
    using own inv by (simp add: owned_def actor_inv_def)
  moreover have "h_userIDs (ha_hub (ws_hub w)) c \<noteq> None" using subs_user [OF ok s] by auto
  ultimately show "c < ws_next w \<and> h_userIDs (ha_hub (ws_hub w)) c = Some (ws_owner w c) \<and> uuid_Parse U r \<noteq> None"
    by simp
qed

text \<open>Sending to distinct connections: each wrapper sees its own send only.\<close>

lemma sends_distinct:
  assumes "distinct (List.map fst sends)"
  shows "ws_conns (fold send_or_close sends w) c =
      (case map_of sends c of None \<Rightarrow> ws_conns w c | Some d \<Rightarrow> snd (Send d (ws_conns w c)))"
    and "ws_closing (fold send_or_close sends w) =
      ws_closing w @ List.map fst (filter (\<lambda>(c, d). \<not> fst (Send d (ws_conns w c))) sends)"
    and "ws_hub (fold send_or_close sends w) = ws_hub w"
proof -
  have one: "ws_conns (send_or_close (c, d) w) = (ws_conns w)(c := snd (Send d (ws_conns w c)))"
    "ws_closing (send_or_close (c, d) w) = (if fst (Send d (ws_conns w c)) then ws_closing w else ws_closing w @ [c])"
    "ws_hub (send_or_close (c, d) w) = ws_hub w" for c d and w :: "'a ws_world_scheme"
    by (cases "ws_send c d w"; use ws_send_simps [of c d w] in \<open>auto simp: send_or_close_def\<close>)+
  show "ws_conns (fold send_or_close sends w) c =
      (case map_of sends c of None \<Rightarrow> ws_conns w c | Some d \<Rightarrow> snd (Send d (ws_conns w c)))"
    using assms
  proof (induction sends arbitrary: w)
    case (Cons x sends)
    obtain c' d where x: "x = (c', d)" by (cases x)
    then have "map_of sends c' = None" using Cons.prems by (auto simp: map_of_eq_None_iff)
    then show ?case using Cons x by (auto simp: one split: option.splits)
  qed simp
  show "ws_closing (fold send_or_close sends w) =
      ws_closing w @ List.map fst (filter (\<lambda>(c, d). \<not> fst (Send d (ws_conns w c))) sends)"
    using assms
  proof (induction sends arbitrary: w)
    case (Cons x sends)
    obtain c' d where x: "x = (c', d)" by (cases x)
    have "a \<noteq> c'" if "(a, b) \<in> set sends" for a b using Cons.prems x that by force
    then have "filter (\<lambda>(c, e). \<not> fst (Send e (if c = c' then snd (Send d (ws_conns w c')) else ws_conns w c))) sends =
        filter (\<lambda>(c, e). \<not> fst (Send e (ws_conns w c))) sends"
      by (intro filter_cong) auto
    then show ?case using Cons x by (simp add: one)
  qed simp
  show "ws_hub (fold send_or_close sends w) = ws_hub w"
  proof (induction sends arbitrary: w)
    case (Cons x sends)
    then show ?case by (cases x) (simp add: one)
  qed simp
qed

text \<open>One broadcast and the wrappers.\<close>

lemma Send_takes: "fst (Send d c) \<longleftrightarrow>
    \<not> wc_closed c \<and> (length (wc_outbound c) < wc_bufSize c \<or> wc_receiving c \<and> wc_outbound c = [])"
  by (simp add: Send_def)

lemma broadcast_effect:
  assumes "ws_reach U cfg bufferSize E w" and "hub_case_step CaseBroadcast w = Some w'"
  shows "\<exists>msg rest. ha_broadcast (ws_hub w) = msg # rest \<and> ha_broadcast (ws_hub w') = rest \<and>
    (\<forall>c. let listening = listens (ha_served (ws_hub w)) c (bm_RoomID msg);
             sent = Send (marshal_Envelope (bm_Envelope msg)) (ws_conns w c)
         in ws_conns w' c = (if listening \<and> fst sent
              then (ws_conns w c)\<lparr>wc_outbound := wc_outbound (ws_conns w c) @ [marshal_Envelope (bm_Envelope msg)],
                     wc_receiving := False\<rparr>
              else ws_conns w c) \<and>
            (c \<in> set (drop (length (ws_closing w)) (ws_closing w')) \<longleftrightarrow> listening \<and> \<not> fst sent))"
proof -
  have inv: "ws_inv U w" using assms(1) by (rule ws_reach_inv)
  note hub = ws_inv_subs(1,2) [OF inv]
  obtain msg rest where q: "ha_broadcast (ws_hub w) = msg # rest"
    using assms(2) by (auto simp: hub_case_step_def split: option.splits list.splits)
  let ?sends = "sendToRoom (bm_RoomID msg) (bm_Envelope msg) (ha_hub (ws_hub w))"
  let ?data = "marshal_Envelope (bm_Envelope msg)"
  have w': "w' = fold send_or_close ?sends (w\<lparr>ws_hub := (ws_hub w)\<lparr>ha_broadcast := rest, ha_out := ha_out (ws_hub w) @ ?sends\<rparr>\<rparr>)"
    using assms(2) q by (simp add: hub_case_step_def)
  have dist: "distinct (List.map fst ?sends)" using sendToRoom_once [OF hub(1)] .
  have rest: "ha_broadcast (ws_hub w') = rest" unfolding w' sends_distinct(3) [OF dist] by simp
  have targets: "c \<in> fst ` set ?sends \<longleftrightarrow> listens (ha_served (ws_hub w)) c (bm_RoomID msg)" for c
    using sendToRoom_targets [OF hub(1), of "bm_RoomID msg" "bm_Envelope msg"] hub(2) by simp
  have to: "map_of ?sends c = (if listens (ha_served (ws_hub w)) c (bm_RoomID msg) then Some ?data else None)" for c
  proof (cases "map_of ?sends c")
    case None
    then have "c \<notin> fst ` set ?sends" by (simp add: map_of_eq_None_iff)
    then show ?thesis using None targets by simp
  next
    case (Some d)
    then have d: "(c, d) \<in> set ?sends" by (rule map_of_SomeD)
    then have "d = ?data" by (rule sendToRoom_data)
    moreover have "c \<in> fst ` set ?sends" using d by force
    ultimately show ?thesis using Some targets by simp
  qed
  have snd_Send: "snd (Send d c) = (if fst (Send d c) then c\<lparr>wc_outbound := wc_outbound c @ [d], wc_receiving := False\<rparr> else c)" for d c
    by (simp add: Send_def)
  have mem: "(c, d) \<in> set ?sends \<longleftrightarrow> listens (ha_served (ws_hub w)) c (bm_RoomID msg) \<and> d = ?data" for c d
    using to [of c] map_of_eq_Some_iff [OF dist, of c d] by (auto split: if_splits)
  have conns: "ws_conns w' c = (if listens (ha_served (ws_hub w)) c (bm_RoomID msg) then snd (Send ?data (ws_conns w c)) else ws_conns w c)" for c
    unfolding w' sends_distinct(1) [OF dist] to by simp
  have closing: "drop (length (ws_closing w)) (ws_closing w') = List.map fst (filter (\<lambda>(c, d). \<not> fst (Send d (ws_conns w c))) ?sends)"
    unfolding w' sends_distinct(2) [OF dist] by simp
  have "c \<in> set (drop (length (ws_closing w)) (ws_closing w')) \<longleftrightarrow>
      (\<exists>d. (c, d) \<in> set ?sends \<and> \<not> fst (Send d (ws_conns w c)))" for c
    unfolding closing by force
  then have "c \<in> set (drop (length (ws_closing w)) (ws_closing w')) \<longleftrightarrow>
      listens (ha_served (ws_hub w)) c (bm_RoomID msg) \<and> \<not> fst (Send ?data (ws_conns w c))" for c
    unfolding mem by auto
  then show ?thesis
    by (intro exI [of _ msg] exI [of _ rest]) (simp add: q Let_def conns snd_Send rest)
qed

section \<open>Properties\<close>

text \<open>C6: A ticket lets in at most one connection: of any requests to \<open>HandleWS\<close>, served one after
  the other while the clock does not run back and whatever the network does, no two with the same
  ticket are accepted; and an accepted one had a live ticket of at most 256 characters and belongs
  to its user.\<close>

theorem ws_ticket_once:
  assumes "mono (clock_at (env w))"
  shows "distinct (accepted U cfg reqs w) \<and>
    (\<forall>r c u w'. HandleWS U cfg r w = (WsUpgraded c u, w') \<longrightarrow>
       ticket_at (now_in w) w (q_ticket r) = Some u \<and> length (q_ticket r) \<le> 256 \<and>
       ticket_at (now_in w') w' (q_ticket r) = None)"
proof (intro conjI allI impI)
  show "distinct (accepted U cfg reqs w)" using assms by (rule accepted_once)
  fix r c u w' assume run: "HandleWS U cfg r w = (WsUpgraded c u, w')"
  note step = HandleWS_ticket [OF run assms]
  show "ticket_at (now_in w) w (q_ticket r) = Some u" using step(3) by simp
  show "ticket_at (now_in w') w' (q_ticket r) = None" using step(2,4) by simp
  show "length (q_ticket r) \<le> 256" using run by (cases rule: HandleWS_cases) auto
qed

text \<open>C19: In every state the websocket service can reach, whoever listens is an accepted connection
  under the user of its ticket, the room is a valid id, no queue of outgoing frames is longer than
  its buffer (one frame when it has none), and the tables of the hub are consistent.\<close>

theorem ws_reachable:
  assumes "ws_reach U cfg bufferSize E w"
  shows "hub_ok (ha_hub (ws_hub w)) \<and>
    (\<forall>c r. (c, r) \<in> subs (ha_hub (ws_hub w)) \<longrightarrow>
       c < ws_next w \<and> h_userIDs (ha_hub (ws_hub w)) c = Some (ws_owner w c) \<and> uuid_Parse U r \<noteq> None) \<and>
    (\<forall>c. length (wc_outbound (ws_conns w c)) \<le> max 1 (wc_bufSize (ws_conns w c)))"
proof -
  have inv: "ws_inv U w" using assms by (rule ws_reach_inv)
  then show ?thesis using ws_inv_subs [OF inv] by (auto simp: ws_inv_def wrapper_ok_def)
qed

text \<open>C35: One broadcast, as the hub serves it in a reachable state: every listening connection that is
  not closed and whose queue is shorter than its buffer, or empty while its write pump waits for a frame,
  gets the frame once, at the end of the queue; every other listening connection is closed and its queue
  unchanged; no one else is touched, and the broadcast is taken off the queue of the hub.  A slow client does not
  hold up the others.\<close>

theorem ws_broadcast:
  assumes "ws_reach U cfg bufferSize E w" and "hub_case_step CaseBroadcast w = Some w'"
  shows "\<exists>msg rest. ha_broadcast (ws_hub w) = msg # rest \<and> ha_broadcast (ws_hub w') = rest \<and>
    (\<forall>c. let listening = listens (ha_served (ws_hub w)) c (bm_RoomID msg);
             takes = \<not> wc_closed (ws_conns w c) \<and>
               (length (wc_outbound (ws_conns w c)) < wc_bufSize (ws_conns w c) \<or>
                wc_receiving (ws_conns w c) \<and> wc_outbound (ws_conns w c) = [])
         in ws_conns w' c = (if listening \<and> takes
              then (ws_conns w c)\<lparr>wc_outbound := wc_outbound (ws_conns w c) @ [marshal_Envelope (bm_Envelope msg)],
                     wc_receiving := False\<rparr>
              else ws_conns w c) \<and>
            (c \<in> set (drop (length (ws_closing w)) (ws_closing w')) \<longleftrightarrow> listening \<and> \<not> takes))"
  using broadcast_effect [OF assms] unfolding Let_def Send_takes .

definition subscribe_json :: "string \<Rightarrow> json" where
  "subscribe_json roomID =
     JObj [(''type'', JStr TypeSubscribe), (''payload'', JObj [(''room_id'', JStr roomID)])]"

lemma receive_subscribe:
  assumes "uuid_Parse U roomID \<noteq> None"
  shows "receive_frame U conn userID (Some (subscribe_json roomID)) w = hub_do (hub_Register conn userID roomID) w"
proof -
  have "key_matches k k" for k by (simp add: key_matches_def)
  moreover have "\<not> key_matches ''type'' ''payload''" "\<not> key_matches ''payload'' ''type''"
    by (simp_all add: key_matches_def ascii_lower_def)
  ultimately show ?thesis using assms
    by (auto simp: receive_frame_def decode_Envelope_def subscribe_json_def json_members_def handleMessage_def
        decode_room_payload_def)
qed

lemma subscribe_reach:
  assumes "ws_reach U cfg bufferSize E w" and "hub_free (ws_hub w)" and "ha_register (ws_hub w) = []"
    and "conn < ws_next w" and "uuid_Parse U roomID \<noteq> None"
  shows "\<exists>w'. hub_case_step CaseRegister (receive_frame U conn (ws_owner w conn) (Some (subscribe_json roomID)) w) = Some w' \<and>
    ws_reach U cfg bufferSize E w' \<and> (conn, roomID) \<in> subs (ha_hub (ws_hub w'))"
proof -
  let ?w1 = "receive_frame U conn (ws_owner w conn) (Some (subscribe_json roomID)) w"
  note w1 = receive_subscribe [OF assms(5), of conn "ws_owner w conn" w]
  have "ws_step U cfg w ?w1" using assms(2,4) by (rule ws_step.frame)
  moreover obtain w' where w': "hub_case_step CaseRegister ?w1 = Some w'"
    unfolding w1 by (auto simp: hub_case_step_def hub_do_def hub_Register_def assms(3))
  ultimately have reach: "ws_reach U cfg bufferSize E w'"
    using assms(1) ws_step.run [OF w'] unfolding ws_reach_def by (meson rtranclp.rtrancl_into_rtrancl)
  have "ha_served (ws_hub w') = ha_served (ws_hub w) @ [Registration conn (ws_owner w conn) roomID]"
    using w' unfolding w1 by (auto simp: hub_case_step_def hub_do_def hub_Register_def assms(3))
  then have "listens (ha_served (ws_hub w')) conn roomID" by (simp add: listens_def)
  then have "(conn, roomID) \<in> subs (ha_hub (ws_hub w'))"
    using ws_inv_subs(2) [OF ws_reach_inv [OF reach]] by simp
  with w' reach show ?thesis by blast
qed

text \<open>C39: Nobody asks whether a user belongs to a room: in a reachable state in which the hub keeps up,
  a \<open>subscribe\<close> frame with any valid room id makes the connection listen to that room, whoever its
  user is, so every later broadcast there is sent to it (until it leaves).\<close>

theorem subscribe_unchecked:
  assumes "ws_reach U cfg bufferSize E w" and "hub_free (ws_hub w)" and "ha_register (ws_hub w) = []"
    and "conn < ws_next w" and "uuid_Parse U roomID \<noteq> None"
  shows "\<exists>w'. hub_case_step CaseRegister (receive_frame U conn (ws_owner w conn) (Some (subscribe_json roomID)) w) = Some w' \<and>
    ws_reach U cfg bufferSize E w' \<and> (conn, roomID) \<in> subs (ha_hub (ws_hub w'))"
  using assms by (rule subscribe_reach)

section \<open>Witnesses\<close>

definition sample_ws_config :: ws_config where
  "sample_ws_config = \<lparr>wsc_WriteLimit = 4096, wsc_ReadLimit = 4096, wsc_PingInterval = 30 * second,
     wsc_ReadDeadline = 35 * second, wsc_WriteDeadline = 35 * second, wsc_WriteBuffer = 2\<rparr>"

definition sample_env :: environment where
  "sample_env = \<lparr>fault_at = (\<lambda>_. Works), clock_at = (\<lambda>n. int n), uuid_at = (\<lambda>n. word_of_nat n), cancelled_at = (\<lambda>_. False)\<rparr>"

definition ticket_request :: ws_request where
  "ticket_request = \<lparr>q_ticket = ''t1'', q_room_id = [], q_upgradable = True\<rparr>"

definition with_ticket :: ws_world where
  "with_ticket = save_token GatewayWSTicketKey ''t1'' ''ann'' 30 0 (ws_start 8 sample_env)"

lemma with_ticket_reach: "ws_reach U cfg 8 sample_env with_ticket"
  unfolding ws_reach_def with_ticket_def by (rule r_into_rtranclp) (rule ws_step.issue, simp)

text \<open>The connection that is accepted with the ticket.\<close>

definition joined :: ws_world where
  "joined = snd (HandleWS sample_uuids sample_ws_config ticket_request with_ticket)"

lemma joined_run:
  "HandleWS sample_uuids sample_ws_config ticket_request with_ticket = (WsUpgraded 0 ''ann'', joined)"
  "ws_next joined = 1" "ws_hub joined = new_actor 8" "ws_owner joined 0 = ''ann''"
  "ws_conns joined 0 = newWSConnWrapper (35 * second) (35 * second) 2"
  by (simp_all add: joined_def HandleWS_def ticket_request_def ws_validateTicket_def tryE_def vk_do_def pool_call_def
      ext_call_def run_stmt_def with_ticket_def save_token_def SET_EX_def ws_start_def sample_env_def put_vk_def tick_def
      GETDEL_def live_def ToString_def vk_text_def ret_def second_def now_in_def accept_conn_def sample_ws_config_def)

lemma joined_reach: "ws_reach sample_uuids sample_ws_config 8 sample_env joined"
proof -
  have "hub_free (ws_hub with_ticket)"
    by (simp add: with_ticket_def save_token_def run_stmt_def SET_EX_def put_vk_def ws_start_def new_actor_def hub_free_def)
  then have "ws_step sample_uuids sample_ws_config with_ticket joined" unfolding joined_def by (rule ws_step.accept)
  then show ?thesis using with_ticket_reach [of sample_uuids sample_ws_config] unfolding ws_reach_def by (meson rtranclp.rtrancl_into_rtrancl)
qed

theorem ws_ticket_once_witness:
  "distinct (accepted sample_uuids sample_ws_config [ticket_request, ticket_request] with_ticket) \<and>
    ticket_at (now_in joined) joined ''t1'' = None"
proof -
  have "mono (clock_at (env with_ticket))"
    by (simp add: with_ticket_def save_token_def run_stmt_def SET_EX_def put_vk_def ws_start_def sample_env_def mono_def)
  note once = ws_ticket_once [OF this, of sample_uuids sample_ws_config "[ticket_request, ticket_request]"]
  have "ticket_at (now_in joined) joined (q_ticket ticket_request) = None" using once joined_run(1) by blast
  moreover have "q_ticket ticket_request = ''t1''" by (simp add: ticket_request_def)
  ultimately show ?thesis using once by simp
qed

theorem ws_reachable_witness:
  "hub_ok (ha_hub (ws_hub joined)) \<and> length (wc_outbound (ws_conns joined 0)) \<le> 2"
  using ws_reachable [OF joined_reach] joined_run(5) by (simp add: newWSConnWrapper_def)

theorem subscribe_unchecked_witness:
  "\<exists>w'. hub_case_step CaseRegister (receive_frame sample_uuids 0 ''ann'' (Some (subscribe_json ''uuuuuuuuuuu'')) joined) = Some w' \<and>
    (0, ''uuuuuuuuuuu'') \<in> subs (ha_hub (ws_hub w'))"
proof -
  have "uuid_Parse sample_uuids ''uuuuuuuuuuu'' \<noteq> None" by (simp add: sample_uuids_def)
  from subscribe_unchecked [OF joined_reach _ _ _ this, of 0] show ?thesis
    by (auto simp: joined_run hub_free_def new_actor_def)
qed

text \<open>The connection listens and a broadcast is waiting.\<close>

definition subscribed_world :: ws_world where
  "subscribed_world = the (hub_case_step CaseRegister (receive_frame sample_uuids 0 ''ann'' (Some (subscribe_json ''uuuuuuuuuuu'')) joined))"

definition listening_world :: ws_world where
  "listening_world = hub_do (hub_BroadcastToRoom ''uuuuuuuuuuu'' \<lparr>env_Type = TypePong, env_Payload = None\<rparr>) subscribed_world"

lemma subscribed_hub:
  "ws_hub subscribed_world = (new_actor 8)\<lparr>ha_hub := addConn 0 ''ann'' ''uuuuuuuuuuu'' NewHub,
     ha_calls := [Registration 0 ''ann'' ''uuuuuuuuuuu''], ha_served := [Registration 0 ''ann'' ''uuuuuuuuuuu'']\<rparr>"
  "ws_conns subscribed_world 0 = newWSConnWrapper (35 * second) (35 * second) 2"
  using receive_subscribe [of sample_uuids "''uuuuuuuuuuu''" 0 "''ann''" joined]
  by (simp_all add: subscribed_world_def sample_uuids_def hub_case_step_def hub_do_def hub_Register_def joined_run new_actor_def)

lemma subscribed_free: "hub_free (ws_hub subscribed_world)" "ha_broadcast (ws_hub subscribed_world) = []"
  by (simp_all add: subscribed_hub hub_free_def new_actor_def)

lemma subscribed_reach: "ws_reach sample_uuids sample_ws_config 8 sample_env subscribed_world"
proof -
  obtain w1 where w1: "hub_case_step CaseRegister (receive_frame sample_uuids 0 ''ann'' (Some (subscribe_json ''uuuuuuuuuuu'')) joined) = Some w1"
      "ws_reach sample_uuids sample_ws_config 8 sample_env w1"
    using subscribe_reach [OF joined_reach, of 0 "''uuuuuuuuuuu''"]
    by (auto simp: joined_run hub_free_def new_actor_def sample_uuids_def)
  then show ?thesis by (simp add: subscribed_world_def)
qed

lemma listening_reach: "ws_reach sample_uuids sample_ws_config 8 sample_env listening_world"
proof -
  from ws_step.event [OF subscribed_free(1)] have "ws_step sample_uuids sample_ws_config subscribed_world listening_world"
    unfolding listening_world_def .
  with subscribed_reach show ?thesis unfolding ws_reach_def by (meson rtranclp.rtrancl_into_rtrancl)
qed

theorem ws_broadcast_witness:
  "\<exists>w'. hub_case_step CaseBroadcast listening_world = Some w' \<and>
    wc_outbound (ws_conns w' 0) = [marshal_Envelope \<lparr>env_Type = TypePong, env_Payload = None\<rparr>]"
proof -
  let ?envelope = "\<lparr>env_Type = TypePong, env_Payload = None\<rparr>"
  have hub: "ha_broadcast (ws_hub listening_world) = [\<lparr>bm_RoomID = ''uuuuuuuuuuu'', bm_Envelope = ?envelope\<rparr>]"
      "ha_served (ws_hub listening_world) = [Registration 0 ''ann'' ''uuuuuuuuuuu'']"
      "ws_conns listening_world 0 = newWSConnWrapper (35 * second) (35 * second) 2"
    using subscribed_hub by (simp_all add: listening_world_def hub_do_def hub_BroadcastToRoom_def new_actor_def)
  obtain w' where w': "hub_case_step CaseBroadcast listening_world = Some w'"
    using hub(1) by (simp add: hub_case_step_def)
  obtain msg rest where q: "ha_broadcast (ws_hub listening_world) = msg # rest" and
      conns: "ws_conns w' c = (if listens (ha_served (ws_hub listening_world)) c (bm_RoomID msg) \<and>
            \<not> wc_closed (ws_conns listening_world c) \<and>
            (length (wc_outbound (ws_conns listening_world c)) < wc_bufSize (ws_conns listening_world c) \<or>
             wc_receiving (ws_conns listening_world c) \<and> wc_outbound (ws_conns listening_world c) = [])
          then (ws_conns listening_world c)\<lparr>wc_outbound := wc_outbound (ws_conns listening_world c) @ [marshal_Envelope (bm_Envelope msg)],
                 wc_receiving := False\<rparr>
          else ws_conns listening_world c)" for c
    using ws_broadcast [OF listening_reach w'] by (auto simp: Let_def)
  have "msg = \<lparr>bm_RoomID = ''uuuuuuuuuuu'', bm_Envelope = ?envelope\<rparr>" using q hub(1) by simp
  then have "wc_outbound (ws_conns w' 0) = [marshal_Envelope ?envelope]"
    using conns [of 0] by (simp add: hub(2,3) listens_def newWSConnWrapper_def)
  with w' show ?thesis by blast
qed

end
