(* ===== verification/Config.thy ===== *)
theory Config
  imports AuthService WsHandler Subscriber
begin

text \<open>
  Configuration: \<open>services/shared/pkg/config/environment.go\<close> and the \<open>internal/config\<close> of each service.

  \<open>cleanenv.ReadConfig\<close>, which fills a struct from a file and the environment, is a parameter that
  answers nothing when it fails.  \<open>Load\<close> adds the defaults and validates.  The functions named
  \<open>*_settings\<close> are what each \<open>cmd/main.go\<close> hands to the constructors.
\<close>

section \<open>Shared parts\<close>

type_synonym Environment = string

definition EnvDevelopment :: Environment where "EnvDevelopment = ''development''"
definition EnvProduction :: Environment where "EnvProduction = ''production''"

definition Environment_Validate :: "Environment \<Rightarrow> error option" where
  "Environment_Validate e = (if e = EnvDevelopment \<or> e = EnvProduction then None else Some (Errorf (''invalid environment '' @ e)))"

record ServerConfig =
  srv_GRPCPort :: string
  srv_HealthListenAddr :: string

record TimeoutsConfig =
  to_Shutdown :: time
  to_ReadHeader :: time
  to_GRPCGraceful :: time

definition default_to :: "time \<Rightarrow> time \<Rightarrow> time" where
  "default_to d v = (if v = 0 then d else v)"

definition WithDefaults :: "TimeoutsConfig \<Rightarrow> TimeoutsConfig" where
  "WithDefaults t =
     \<lparr>to_Shutdown = default_to (15 * second) (to_Shutdown t), to_ReadHeader = default_to (5 * second) (to_ReadHeader t),
      to_GRPCGraceful = default_to (10 * second) (to_GRPCGraceful t)\<rparr>"

record NATSConfig =
  nats_URL :: string
  nats_User :: string
  nats_Pass :: string
  nats_ReconnectWait :: time
  nats_MaxReconnects :: int
  nats_AckWait :: time
  nats_MaxDeliver :: int
  nats_ConsumerRetryWait :: time

text \<open>The end of every \<open>Load\<close>: the environment, then the checks of the service.\<close>

definition checked :: "Environment \<Rightarrow> ('c \<Rightarrow> error option) \<Rightarrow> 'c \<Rightarrow> error + 'c" where
  "checked e check cfg =
     (case Environment_Validate e of
        Some err \<Rightarrow> Inl (Wrap ''invalid environment'' err)
      | None \<Rightarrow> (case check cfg of Some err \<Rightarrow> Inl (Wrap ''invalid config'' err) | None \<Rightarrow> Inr cfg))"

lemma checked_Inr: "checked e check cfg = Inr c \<longleftrightarrow> Environment_Validate e = None \<and> check cfg = None \<and> c = cfg"
  by (auto simp: checked_def split: option.splits)

section \<open>The services behind gRPC\<close>

record AuthConfig =
  acfg_Env :: Environment
  acfg_LogLevel :: string
  acfg_Server :: ServerConfig
  acfg_Timeouts :: TimeoutsConfig
  acfg_NATS :: NATSConfig
  acfg_DSN :: string
  acfg_CacheAddr :: string
  acfg_CachePass :: string
  acfg_Secret :: string
  acfg_AccessTTL :: time
  acfg_RefreshTTL :: time
  acfg_Requests :: int
  acfg_Window :: time

definition AuthConfig_Validate :: "AuthConfig \<Rightarrow> error option" where
  "AuthConfig_Validate c =
     (if byte_length (acfg_Secret c) < 32 then Some (Errorf ''JWT_SECRET must be at least 32 bytes'')
      else if acfg_AccessTTL c \<le> 0 then Some (Errorf ''JWT_ACCESS_TTL must be positive'')
      else if acfg_RefreshTTL c \<le> 0 then Some (Errorf ''JWT_REFRESH_TTL must be positive'')
      else if acfg_Requests c \<le> 0 then Some (Errorf ''RATE_LIMIT_REQUESTS must be positive'')
      else if acfg_Window c < second then Some (Errorf ''RATE_LIMIT_WINDOW must be at least 1 second'')
      else None)"

definition auth_Load :: "(string \<Rightarrow> AuthConfig option) \<Rightarrow> string \<Rightarrow> error + AuthConfig" where
  "auth_Load readConfig path =
     (case readConfig path of
        None \<Rightarrow> Inl (Wrap ''read config'' (Errorf []))
      | Some cfg \<Rightarrow>
          let cfg = cfg\<lparr>acfg_Timeouts := WithDefaults (acfg_Timeouts cfg), acfg_Window := default_to (60 * second) (acfg_Window cfg)\<rparr>
          in checked (acfg_Env cfg) AuthConfig_Validate cfg)"

definition auth_settings :: "AuthConfig \<Rightarrow> auth_config" where
  "auth_settings c =
     \<lparr>cfg_secret = acfg_Secret c, cfg_accessTTL = acfg_AccessTTL c, cfg_refreshTTL = acfg_RefreshTTL c,
      cfg_limiter = \<lparr>lim_limit = acfg_Requests c, lim_window = acfg_Window c\<rparr>\<rparr>"

text \<open>The user service and the room service have the same configuration.\<close>

record UserConfig =
  ucfg_Env :: Environment
  ucfg_LogLevel :: string
  ucfg_Server :: ServerConfig
  ucfg_Timeouts :: TimeoutsConfig
  ucfg_NATS :: NATSConfig
  ucfg_DSN :: string

definition user_Load :: "(string \<Rightarrow> UserConfig option) \<Rightarrow> string \<Rightarrow> error + UserConfig" where
  "user_Load readConfig path =
     (case readConfig path of
        None \<Rightarrow> Inl (Wrap ''read config'' (Errorf []))
      | Some cfg \<Rightarrow> let cfg = cfg\<lparr>ucfg_Timeouts := WithDefaults (ucfg_Timeouts cfg)\<rparr> in checked (ucfg_Env cfg) (\<lambda>_. None) cfg)"

definition user_settings :: "UserConfig \<Rightarrow> SubscriberConfig" where
  "user_settings c =
     \<lparr>sc_MaxDeliver = nats_MaxDeliver (ucfg_NATS c), sc_AckWait = nats_AckWait (ucfg_NATS c),
      sc_RetryWait = nats_ConsumerRetryWait (ucfg_NATS c)\<rparr>"

record RoomConfig =
  rcfg_Env :: Environment
  rcfg_LogLevel :: string
  rcfg_Server :: ServerConfig
  rcfg_Timeouts :: TimeoutsConfig
  rcfg_NATS :: NATSConfig
  rcfg_DSN :: string

definition room_Load :: "(string \<Rightarrow> RoomConfig option) \<Rightarrow> string \<Rightarrow> error + RoomConfig" where
  "room_Load readConfig path =
     (case readConfig path of
        None \<Rightarrow> Inl (Wrap ''read config'' (Errorf []))
      | Some cfg \<Rightarrow> let cfg = cfg\<lparr>rcfg_Timeouts := WithDefaults (rcfg_Timeouts cfg)\<rparr> in checked (rcfg_Env cfg) (\<lambda>_. None) cfg)"

record MessageConfig =
  mcfg_Env :: Environment
  mcfg_LogLevel :: string
  mcfg_Server :: ServerConfig
  mcfg_Timeouts :: TimeoutsConfig
  mcfg_NATS :: NATSConfig
  mcfg_DSN :: string
  mcfg_RoomAddr :: string
  mcfg_CallTimeout :: time
  mcfg_RetryDelays :: "time list"

definition message_Load :: "(string \<Rightarrow> MessageConfig option) \<Rightarrow> string \<Rightarrow> error + MessageConfig" where
  "message_Load readConfig path =
     (case readConfig path of
        None \<Rightarrow> Inl (Wrap ''read config'' (Errorf []))
      | Some cfg \<Rightarrow> let cfg = cfg\<lparr>mcfg_Timeouts := WithDefaults (mcfg_Timeouts cfg)\<rparr> in checked (mcfg_Env cfg) (\<lambda>_. None) cfg)"

section \<open>The services behind HTTP\<close>

record WebsocketConfig =
  wcfg_Env :: Environment
  wcfg_LogLevel :: string
  wcfg_NATS :: NATSConfig
  wcfg_Port :: string
  wcfg_HubBufferSize :: int
  wcfg_Shutdown :: time
  wcfg_ReadHeader :: time
  wcfg_CacheAddr :: string
  wcfg_CachePass :: string
  wcfg_GatewayURL :: string
  wcfg_WebSocket :: ws_config

definition websocket_Load :: "(string \<Rightarrow> WebsocketConfig option) \<Rightarrow> string \<Rightarrow> error + WebsocketConfig" where
  "websocket_Load readConfig path =
     (case readConfig path of
        None \<Rightarrow> Inl (Wrap ''read config'' (Errorf []))
      | Some cfg \<Rightarrow>
          let cfg = cfg\<lparr>wcfg_Shutdown := default_to (15 * second) (wcfg_Shutdown cfg), wcfg_ReadHeader := default_to (5 * second) (wcfg_ReadHeader cfg)\<rparr>
          in checked (wcfg_Env cfg) (\<lambda>_. None) cfg)"

definition websocket_settings :: "WebsocketConfig \<Rightarrow> SubscriberConfig" where
  "websocket_settings c =
     \<lparr>sc_MaxDeliver = nats_MaxDeliver (wcfg_NATS c), sc_AckWait = nats_AckWait (wcfg_NATS c),
      sc_RetryWait = nats_ConsumerRetryWait (wcfg_NATS c)\<rparr>"

record GatewayConfig =
  gcfg_Env :: Environment
  gcfg_LogLevel :: string
  gcfg_Port :: string
  gcfg_MaxBodySize :: "64 word"
  gcfg_Shutdown :: time
  gcfg_ReadHeader :: time
  gcfg_GRPC :: time
  gcfg_CacheAddr :: string
  gcfg_CachePass :: string
  gcfg_Secret :: string
  gcfg_WSTicketTTL :: time
  gcfg_Requests :: int
  gcfg_Window :: time
  gcfg_Auth :: string
  gcfg_User :: string
  gcfg_Room :: string
  gcfg_Message :: string

definition GatewayConfig_Validate :: "GatewayConfig \<Rightarrow> error option" where
  "GatewayConfig_Validate c =
     (if gcfg_Requests c \<le> 0 then Some (Errorf ''RATE_LIMIT_REQUESTS must be positive'')
      else if gcfg_Window c < second then Some (Errorf ''RATE_LIMIT_WINDOW must be at least 1 second'')
      else None)"

definition gateway_Load :: "(string \<Rightarrow> GatewayConfig option) \<Rightarrow> string \<Rightarrow> error + GatewayConfig" where
  "gateway_Load readConfig path =
     (case readConfig path of
        None \<Rightarrow> Inl (Wrap ''read config'' (Errorf []))
      | Some cfg \<Rightarrow>
          let cfg = cfg\<lparr>gcfg_Shutdown := default_to (15 * second) (gcfg_Shutdown cfg), gcfg_ReadHeader := default_to (5 * second) (gcfg_ReadHeader cfg),
                gcfg_GRPC := default_to (10 * second) (gcfg_GRPC cfg),
                gcfg_Requests := (if gcfg_Requests cfg = 0 then 100 else gcfg_Requests cfg),
                gcfg_Window := default_to (60 * second) (gcfg_Window cfg)\<rparr>
          in checked (gcfg_Env cfg) GatewayConfig_Validate cfg)"

section \<open>What a loaded configuration guarantees\<close>

lemma Seconds_pos: "second \<le> d \<Longrightarrow> 0 < Seconds d"
  by (simp add: Seconds_def second_def)

text \<open>The limits of the two rate limiters are positive and their windows at least a second.\<close>

lemma gateway_Load_limits:
  assumes "gateway_Load readConfig path = Inr cfg"
  shows "0 < gcfg_Requests cfg" and "0 < Seconds (gcfg_Window cfg)"
proof -
  have "GatewayConfig_Validate cfg = None"
    using assms by (auto simp: gateway_Load_def Let_def checked_Inr split: option.splits)
  then show "0 < gcfg_Requests cfg" "0 < Seconds (gcfg_Window cfg)"
    by (auto simp: GatewayConfig_Validate_def intro: Seconds_pos split: if_splits)
qed

lemma auth_Load_limits:
  assumes "auth_Load readConfig path = Inr cfg"
  shows "0 < lim_limit (cfg_limiter (auth_settings cfg))" and "0 < Seconds (lim_window (cfg_limiter (auth_settings cfg)))"
    and "32 \<le> byte_length (cfg_secret (auth_settings cfg))" and "0 < cfg_accessTTL (auth_settings cfg)"
proof -
  have "AuthConfig_Validate cfg = None"
    using assms by (auto simp: auth_Load_def Let_def checked_Inr split: option.splits)
  then show "0 < lim_limit (cfg_limiter (auth_settings cfg))" "0 < Seconds (lim_window (cfg_limiter (auth_settings cfg)))"
    "32 \<le> byte_length (cfg_secret (auth_settings cfg))" "0 < cfg_accessTTL (auth_settings cfg)"
    by (auto simp: AuthConfig_Validate_def auth_settings_def intro: Seconds_pos split: if_splits)
qed

text \<open>The timeouts of a loaded configuration are never zero.\<close>

lemma WithDefaults_nonzero:
  "to_Shutdown (WithDefaults t) \<noteq> 0" "to_ReadHeader (WithDefaults t) \<noteq> 0" "to_GRPCGraceful (WithDefaults t) \<noteq> 0"
  by (simp_all add: WithDefaults_def default_to_def second_def)

end
