(* ===== verification/Gateway.thy ===== *)
theory Gateway
  imports Config MessageHandler UserService
begin

text \<open>
  The gateway: \<open>services/gateway/internal/handler\<close>, \<open>middleware\<close> and the routes of \<open>cmd/main.go\<close>.

  A handler answers a request as an operation whose error is a panic (\<open>Recoverer\<close> turns it into
  500).  The four services are records of client operations, as the handlers hold them; each takes the
  request id that is sent along first.  \<open>protojson\<close> and the printing of the generated structs are
  parameters.  The router itself is a library: a request comes with the registered route it matched and
  the parameters of its path.
\<close>

section \<open>Requests and responses\<close>

text \<open>\<open>Header.Get\<close> and \<open>Query().Get\<close> answer the empty string for what is absent.  A body is the bytes
  that arrive and the error that ends them, if any.\<close>

record http_request =
  hq_header :: "string \<Rightarrow> string"
  hq_cookie :: "string \<Rightarrow> string option"
  hq_query :: "string \<Rightarrow> string"
  hq_body :: "string \<times> external option"

record cookie =
  ck_Name :: string
  ck_Value :: string
  ck_HttpOnly :: bool
  ck_Secure :: bool
  ck_SameSiteNone :: bool
  ck_MaxAge :: int
  ck_Path :: string

record gw_response =
  gr_status :: int
  gr_headers :: "(string \<times> string) list"
  gr_cookies :: "cookie list"
  gr_body :: "json option"

definition WriteHeader :: "int \<Rightarrow> gw_response" where
  "WriteHeader status = \<lparr>gr_status = status, gr_headers = [], gr_cookies = [], gr_body = None\<rparr>"

definition WriteJSON :: "int \<Rightarrow> json \<Rightarrow> gw_response" where
  "WriteJSON status v =
     \<lparr>gr_status = status, gr_headers = [(''Content-Type'', ''application/json'')], gr_cookies = [], gr_body = Some v\<rparr>"

definition with_header :: "string \<Rightarrow> string \<Rightarrow> gw_response \<Rightarrow> gw_response" where
  "with_header k v resp = resp\<lparr>gr_headers := (k, v) # gr_headers resp\<rparr>"

definition with_cookies :: "cookie list \<Rightarrow> gw_response \<Rightarrow> gw_response" where
  "with_cookies cs resp = resp\<lparr>gr_cookies := cs @ gr_cookies resp\<rparr>"

definition codeToMessage :: "Code \<rightharpoonup> string" where
  "codeToMessage = map_of
     [(CodeNotFound, ''resource not found''), (CodeAlreadyExists, ''resource already exists''),
      (CodePermissionDenied, ''permission denied''), (CodeUnauthenticated, ''authentication required''),
      (CodeInvalidArgument, ''invalid request''), (CodeUnavailable, ''service temporarily unavailable''),
      (CodeInternal, ''internal server error''), (CodeRateLimited, ''rate limit exceeded'')]"

definition WriteCode :: "Code \<Rightarrow> gw_response" where
  "WriteCode code = WriteJSON (ToHTTPCode code)
     (JObj [(''error'', JStr (case codeToMessage code of Some m \<Rightarrow> m | None \<Rightarrow> [])), (''code'', JStr code)])"

definition WriteError :: "grpc_lib \<Rightarrow> error \<Rightarrow> gw_response" where
  "WriteError L err =
     (case FromError (status_FromError L) (Some err) of
        (code, ok) \<Rightarrow> WriteCode (if ok then code else CodeInternal))"

text \<open>\<open>WriteProto\<close>, with the result of the marshaler.\<close>

definition WriteProto :: "int \<Rightarrow> json option \<Rightarrow> gw_response" where
  "WriteProto status b = (case b of None \<Rightarrow> WriteCode CodeInternal | Some j \<Rightarrow> WriteJSON status j)"

definition default_maxBodySize :: "64 word" where
  "default_maxBodySize = 2 ^ 20"

definition SetMaxBodySize :: "64 word \<Rightarrow> 64 word \<Rightarrow> 64 word" where
  "SetMaxBodySize n cur = (if 0 < sint n then n else cur)"

text \<open>\<open>io.ReadAll\<close> of a body limited to \<open>limit\<close> bytes: an error past the limit is not seen.\<close>

definition read_limited :: "int \<Rightarrow> string \<times> external option \<Rightarrow> error + string" where
  "read_limited limit body =
     (if limit \<le> int (length (fst body)) then Inr (take (nat limit) (fst body))
      else case snd body of Some x \<Rightarrow> Inl (External x) | None \<Rightarrow> Inr (fst body))"

definition ReadProto :: "64 word \<Rightarrow> (string \<Rightarrow> 'm option) \<Rightarrow> string \<times> external option \<Rightarrow> error + 'm" where
  "ReadProto maxBodySize unmarshal body =
     (case read_limited (sint (maxBodySize + 1)) body of
        Inl e \<Rightarrow> Inl e
      | Inr bytes \<Rightarrow>
          if sint maxBodySize < int (length bytes) then Inl (Code_Error CodeInvalidArgument ''request body too large'')
          else (case unmarshal bytes of
              None \<Rightarrow> Inl (case Code_Wrap CodeInvalidArgument (Some (Errorf [])) of Some e \<Rightarrow> e | None \<Rightarrow> Errorf [])
            | Some msg \<Rightarrow> Inr msg))"

section \<open>The gateway and its clients\<close>

type_synonym outgoing = "string option"

record 'w AuthServiceClient =
  ac_Register :: "outgoing \<Rightarrow> RegisterRequest \<Rightarrow> ('w, AuthResponse) op"
  ac_Login :: "outgoing \<Rightarrow> RegisterRequest \<Rightarrow> ('w, AuthResponse) op"
  ac_Logout :: "outgoing \<Rightarrow> string \<Rightarrow> ('w, unit) op"
  ac_RefreshToken :: "outgoing \<Rightarrow> string \<Rightarrow> ('w, TokenPair) op"

record 'w UserServiceClient =
  uc_GetUser :: "outgoing \<Rightarrow> string \<Rightarrow> ('w, pUser) op"
  uc_UpdateUser :: "outgoing \<Rightarrow> UpdateUserRequest \<Rightarrow> ('w, pUser) op"

record 'w RoomServiceClient =
  rsc_GetUserRooms :: "outgoing \<Rightarrow> string \<Rightarrow> ('w, protoRoom list) op"
  rsc_CreateRoom :: "outgoing \<Rightarrow> CreateRoomRequest \<Rightarrow> ('w, protoRoom) op"
  rsc_GetRoom :: "outgoing \<Rightarrow> string \<Rightarrow> ('w, protoRoom) op"
  rsc_UpdateRoom :: "outgoing \<Rightarrow> UpdateRoomRequest \<Rightarrow> ('w, protoRoom) op"
  rsc_DeleteRoom :: "outgoing \<Rightarrow> DeleteRoomRequest \<Rightarrow> ('w, unit) op"
  rsc_AddMember :: "outgoing \<Rightarrow> AddMemberRequest \<Rightarrow> ('w, unit) op"
  rsc_RemoveMember :: "outgoing \<Rightarrow> RemoveMemberRequest \<Rightarrow> ('w, unit) op"

record 'w MessageServiceClient =
  mc_SendMessage :: "outgoing \<Rightarrow> SendMessageRequest \<Rightarrow> ('w, protoMessage) op"
  mc_GetMessages :: "outgoing \<Rightarrow> GetMessagesRequest \<Rightarrow> ('w, protoMessage list \<times> string option) op"

text \<open>\<open>protojson\<close> for the messages of the gateway, and \<open>encoding/json\<close> for a list of rooms.\<close>

record proto_json =
  pj_RegisterRequest :: "string \<Rightarrow> RegisterRequest option"
  pj_LoginRequest :: "string \<Rightarrow> RegisterRequest option"
  pj_CreateRoomRequest :: "string \<Rightarrow> CreateRoomRequest option"
  pj_UpdateRoomRequest :: "string \<Rightarrow> UpdateRoomRequest option"
  pj_AddMemberRequest :: "string \<Rightarrow> AddMemberRequest option"
  pj_SendMessageRequest :: "string \<Rightarrow> SendMessageRequest option"
  pj_UpdateUserRequest :: "string \<Rightarrow> UpdateUserRequest option"
  pj_Room :: "protoRoom \<Rightarrow> json option"
  pj_Message :: "protoMessage \<Rightarrow> json option"
  pj_Messages :: "protoMessage list \<times> string option \<Rightarrow> json option"
  pj_User :: "pUser \<Rightarrow> json option"
  ej_Rooms :: "protoRoom list \<Rightarrow> json"

record gateway_config =
  gc_secret :: string
  gc_ticketTTL :: time
  gc_requests :: int
  gc_window :: time
  gc_maxBodySize :: "64 word"
  gc_secure :: bool

definition gateway_settings :: "GatewayConfig \<Rightarrow> gateway_config" where
  "gateway_settings c =
     \<lparr>gc_secret = gcfg_Secret c, gc_ticketTTL = gcfg_WSTicketTTL c, gc_requests = gcfg_Requests c, gc_window = gcfg_Window c,
      gc_maxBodySize = SetMaxBodySize (gcfg_MaxBodySize c) default_maxBodySize, gc_secure = True\<rparr>"

record 'w gateway =
  gw_cfg :: gateway_config
  gw_grpc :: grpc_lib
  gw_uuid :: uuid_lib
  gw_jwt :: jwt_lib
  gw_json :: proto_json
  gw_auth :: "'w AuthServiceClient"
  gw_user :: "'w UserServiceClient"
  gw_room :: "'w RoomServiceClient"
  gw_message :: "'w MessageServiceClient"
  gw_ready :: bool

section \<open>The middleware\<close>

text \<open>The values in the context of a request.\<close>

record gw_ctx =
  cx_userID :: "string option"
  cx_requestID :: "string option"

definition no_ctx :: gw_ctx where
  "no_ctx = \<lparr>cx_userID = None, cx_requestID = None\<rparr>"

definition HeaderRequestID :: string where
  "HeaderRequestID = ''X-Request-ID''"

definition GetUserID :: "gw_ctx \<Rightarrow> string option" where
  "GetUserID cx = cx_userID cx"

definition MustGetUserID :: "gw_ctx \<Rightarrow> ('w, string) op" where
  "MustGetUserID cx = (case cx_userID cx of None \<Rightarrow> fail (Errorf ''user ID not found in context'') | Some u \<Rightarrow> ret u)"

definition GetRequestID :: "gw_ctx \<Rightarrow> string option" where
  "GetRequestID cx = cx_requestID cx"

definition InjectRequestIDToOutgoingContext :: "gw_ctx \<Rightarrow> outgoing" where
  "InjectRequestIDToOutgoingContext cx =
     (case GetRequestID cx of None \<Rightarrow> None | Some rid \<Rightarrow> if rid = [] then None else Some rid)"

type_synonym 'w http_handler = "http_request \<Rightarrow> gw_ctx \<Rightarrow> ('w, gw_response) op"

text \<open>\<open>claims["sub"].(string)\<close>; of two equal keys the last counts.\<close>

definition claim_string :: "string \<Rightarrow> claims \<Rightarrow> string option" where
  "claim_string k cl = (case map_of (rev cl) k of Some (JStr s) \<Rightarrow> Some s | _ \<Rightarrow> None)"

definition JWTAuth :: "('z world_scheme) gateway \<Rightarrow> ('z world_scheme) http_handler \<Rightarrow> ('z world_scheme) http_handler" where
  "JWTAuth G next r cx w =
     (let requestID = (if hq_header r HeaderRequestID = [] then uuid_String (gw_uuid G) (uuid_in w)
                       else hq_header r HeaderRequestID);
          reply = (\<lambda>m. tryE m fail (\<lambda>resp. ret (with_header HeaderRequestID requestID resp)))
      in case hq_cookie r ''access_token'' of
           None \<Rightarrow> reply (ret (WriteCode CodeUnauthenticated)) w
         | Some tokenString \<Rightarrow>
             (case jwt_Parse (gw_jwt G) tokenString (gc_secret (gw_cfg G)) (now_in w div second) of
                None \<Rightarrow> reply (ret (WriteCode CodeUnauthenticated)) w
              | Some claims \<Rightarrow>
                  (case claim_string ''sub'' claims of
                     None \<Rightarrow> reply (ret (WriteCode CodeUnauthenticated)) w
                   | Some sub \<Rightarrow>
                       if sub = [] then reply (ret (WriteCode CodeUnauthenticated)) w
                       else reply (next r (cx\<lparr>cx_userID := Some sub, cx_requestID := Some requestID\<rparr>)) w)))"

definition UserRateLimiter :: "('z valkey_world_scheme) gateway \<Rightarrow> ('z valkey_world_scheme) http_handler \<Rightarrow> ('z valkey_world_scheme) http_handler" where
  "UserRateLimiter G next r cx =
     (case GetUserID cx of
        None \<Rightarrow> ret (WriteCode CodeUnauthenticated)
      | Some userID \<Rightarrow>
          let ttlSeconds = Seconds (gc_window (gw_cfg G));
              key = GatewayRateLimitKey ''user'' userID (Itoa ttlSeconds)
          in tryE (vk_do (IncrWithExpiryScript key ttlSeconds))
               (\<lambda>e. next r cx)
               (\<lambda>result. if gc_requests (gw_cfg G) < result then ret (WriteCode CodeRateLimited) else next r cx))"

section \<open>The auth handler\<close>

definition accessTokenMaxAge :: int where
  "accessTokenMaxAge = 900"

definition refreshTokenMaxAge :: int where
  "refreshTokenMaxAge = 60 * 60 * 24 * 30"

definition auth_cookie :: "string \<Rightarrow> string \<Rightarrow> bool \<Rightarrow> bool \<Rightarrow> int \<Rightarrow> string \<Rightarrow> cookie" where
  "auth_cookie name v secure none age path =
     \<lparr>ck_Name = name, ck_Value = v, ck_HttpOnly = True, ck_Secure = secure, ck_SameSiteNone = none,
      ck_MaxAge = age, ck_Path = path\<rparr>"

definition setAuthCookies :: "string \<Rightarrow> string \<Rightarrow> bool \<Rightarrow> cookie list" where
  "setAuthCookies accessToken refreshToken secure =
     [auth_cookie ''access_token'' accessToken secure True accessTokenMaxAge ''/'',
      auth_cookie ''refresh_token'' refreshToken secure True refreshTokenMaxAge ''/auth/session'']"

definition clearAuthCookies :: "bool \<Rightarrow> cookie list" where
  "clearAuthCookies secure =
     [auth_cookie ''access_token'' [] secure False (- 1) ''/'',
      auth_cookie ''refresh_token'' [] secure False (- 1) ''/auth/session'']"

text \<open>Reading the body, asking for the user, calling a service: what the handlers do in turn.\<close>

definition with_body :: "'w gateway \<Rightarrow> (proto_json \<Rightarrow> string \<Rightarrow> 'm option) \<Rightarrow> http_request
    \<Rightarrow> ('m \<Rightarrow> ('w, gw_response) op) \<Rightarrow> ('w, gw_response) op" where
  "with_body G unmarshal r k =
     (case ReadProto (gc_maxBodySize (gw_cfg G)) (unmarshal (gw_json G)) (hq_body r) of
        Inl e \<Rightarrow> ret (WriteError (gw_grpc G) e)
      | Inr req \<Rightarrow> k req)"

definition with_user :: "gw_ctx \<Rightarrow> (string \<Rightarrow> ('w, 'a) op) \<Rightarrow> ('w, 'a) op" where
  "with_user cx k = tryE (MustGetUserID cx) fail k"

definition client_call :: "'w gateway \<Rightarrow> ('w, 'a) op \<Rightarrow> ('a \<Rightarrow> gw_response) \<Rightarrow> ('w, gw_response) op" where
  "client_call G m k = tryE m (\<lambda>e. ret (WriteError (gw_grpc G) e)) (\<lambda>x. ret (k x))"

definition gw_register :: "'w gateway \<Rightarrow> 'w http_handler" where
  "gw_register G r cx =
     with_body G pj_RegisterRequest r (\<lambda>req.
     client_call G (ac_Register (gw_auth G) (InjectRequestIDToOutgoingContext cx) req) (\<lambda>resp.
       with_cookies (setAuthCookies (aresp_AccessToken resp) (aresp_RefreshToken resp) (gc_secure (gw_cfg G)))
         (WriteJSON 200 (JObj [(''user_id'', JStr (aresp_UserId resp))]))))"

definition gw_login :: "'w gateway \<Rightarrow> 'w http_handler" where
  "gw_login G r cx =
     with_body G pj_LoginRequest r (\<lambda>req.
     client_call G (ac_Login (gw_auth G) (InjectRequestIDToOutgoingContext cx) req) (\<lambda>resp.
       with_cookies (setAuthCookies (aresp_AccessToken resp) (aresp_RefreshToken resp) (gc_secure (gw_cfg G)))
         (WriteJSON 200 (JObj [(''user_id'', JStr (aresp_UserId resp))]))))"

definition gw_logout :: "'w gateway \<Rightarrow> 'w http_handler" where
  "gw_logout G r cx =
     (case hq_cookie r ''refresh_token'' of
        None \<Rightarrow> ret (with_cookies (clearAuthCookies (gc_secure (gw_cfg G))) (WriteHeader 204))
      | Some value \<Rightarrow>
          client_call G (ac_Logout (gw_auth G) (InjectRequestIDToOutgoingContext cx) value)
            (\<lambda>_. with_cookies (clearAuthCookies (gc_secure (gw_cfg G))) (WriteHeader 204)))"

definition gw_refresh :: "'w gateway \<Rightarrow> 'w http_handler" where
  "gw_refresh G r cx =
     (case hq_cookie r ''refresh_token'' of
        None \<Rightarrow> ret (WriteCode CodeUnauthenticated)
      | Some value \<Rightarrow>
          client_call G (ac_RefreshToken (gw_auth G) (InjectRequestIDToOutgoingContext cx) value)
            (\<lambda>tp. with_cookies (setAuthCookies (tp_AccessToken tp) (tp_RefreshToken tp) (gc_secure (gw_cfg G)))
               (WriteHeader 204)))"

definition gw_me :: "'w gateway \<Rightarrow> 'w http_handler" where
  "gw_me G r cx = with_user cx (\<lambda>userID. ret (WriteJSON 200 (JObj [(''user_id'', JStr userID)])))"

section \<open>The tickets of the websocket\<close>

definition createTicket :: "('z valkey_world_scheme) gateway \<Rightarrow> ('z valkey_world_scheme) http_handler" where
  "createTicket G r cx =
     with_user cx (\<lambda>userID.
       if userID = [] then ret (WriteCode CodeUnauthenticated)
       else if uuid_Parse (gw_uuid G) userID = None then ret (WriteCode CodeInvalidArgument)
       else (\<lambda>w. let ticket = uuid_String (gw_uuid G) (uuid_in w)
                in tryE (vk_do (SET_EX (GatewayWSTicketKey ticket) userID (Seconds (gc_ticketTTL (gw_cfg G)))))
                     (\<lambda>e. ret (WriteCode CodeInternal))
                     (\<lambda>_. ret (WriteJSON 201 (JObj [(''ticket'', JStr ticket)]))) w))"

definition gw_validateTicket :: "('z valkey_world_scheme) gateway \<Rightarrow> ('z valkey_world_scheme) http_handler" where
  "gw_validateTicket G r cx =
     (let ticket = hq_header r ''X-Ws-Ticket''
      in if ticket = [] then ret (WriteCode CodeUnauthenticated)
         else tryE (vk_do (GETDEL (GatewayWSTicketKey ticket)))
           (\<lambda>e. ret (WriteCode (if IsValkeyNil e then CodeUnauthenticated else CodeInternal)))
           (\<lambda>getResp. case ToString getResp of
              Inl e \<Rightarrow> ret (WriteCode (if IsValkeyNil e then CodeUnauthenticated else CodeInternal))
            | Inr userID \<Rightarrow> ret (with_header ''X-User-Id'' userID (WriteJSON 200 (JObj [(''user_id'', JStr userID)])))))"

section \<open>The room handler\<close>

definition gw_getUserRooms :: "'w gateway \<Rightarrow> 'w http_handler" where
  "gw_getUserRooms G r cx =
     with_user cx (\<lambda>userID.
     client_call G (rsc_GetUserRooms (gw_room G) (InjectRequestIDToOutgoingContext cx) userID)
       (\<lambda>rooms. WriteJSON 200 (if rooms = [] then JNull else ej_Rooms (gw_json G) rooms)))"

definition gw_createRoom :: "'w gateway \<Rightarrow> 'w http_handler" where
  "gw_createRoom G r cx =
     with_body G pj_CreateRoomRequest r (\<lambda>req.
     with_user cx (\<lambda>userID.
     client_call G (rsc_CreateRoom (gw_room G) (InjectRequestIDToOutgoingContext cx) (req\<lparr>crq_CreatedBy := userID\<rparr>))
       (\<lambda>room. WriteProto 201 (pj_Room (gw_json G) room))))"

definition gw_getRoom :: "'w gateway \<Rightarrow> string \<Rightarrow> 'w http_handler" where
  "gw_getRoom G roomID r cx =
     client_call G (rsc_GetRoom (gw_room G) (InjectRequestIDToOutgoingContext cx) roomID)
       (\<lambda>room. WriteProto 200 (pj_Room (gw_json G) room))"

definition gw_updateRoom :: "'w gateway \<Rightarrow> string \<Rightarrow> 'w http_handler" where
  "gw_updateRoom G roomID r cx =
     with_body G pj_UpdateRoomRequest r (\<lambda>req.
     with_user cx (\<lambda>userID.
     client_call G (rsc_UpdateRoom (gw_room G) (InjectRequestIDToOutgoingContext cx)
         (req\<lparr>urq_RoomId := roomID, urq_RequesterId := userID\<rparr>))
       (\<lambda>room. WriteProto 200 (pj_Room (gw_json G) room))))"

definition gw_deleteRoom :: "'w gateway \<Rightarrow> string \<Rightarrow> 'w http_handler" where
  "gw_deleteRoom G roomID r cx =
     with_user cx (\<lambda>userID.
     client_call G (rsc_DeleteRoom (gw_room G) (InjectRequestIDToOutgoingContext cx)
         \<lparr>drq_RoomId = roomID, drq_RequesterId = userID\<rparr>)
       (\<lambda>_. WriteHeader 204))"

definition gw_addMember :: "'w gateway \<Rightarrow> string \<Rightarrow> 'w http_handler" where
  "gw_addMember G roomID r cx =
     with_body G pj_AddMemberRequest r (\<lambda>req.
     with_user cx (\<lambda>userID.
     client_call G (rsc_AddMember (gw_room G) (InjectRequestIDToOutgoingContext cx)
         (req\<lparr>amq_RoomId := roomID, amq_RequesterId := userID\<rparr>))
       (\<lambda>_. WriteHeader 204)))"

definition gw_removeMember :: "'w gateway \<Rightarrow> string \<Rightarrow> string \<Rightarrow> 'w http_handler" where
  "gw_removeMember G roomID memberID r cx =
     with_user cx (\<lambda>userID.
     client_call G (rsc_RemoveMember (gw_room G) (InjectRequestIDToOutgoingContext cx)
         \<lparr>rmq_RoomId = roomID, rmq_UserId = memberID, rmq_RequesterId = userID\<rparr>)
       (\<lambda>_. WriteHeader 204))"

section \<open>The message handler\<close>

definition gw_sendMessage :: "'w gateway \<Rightarrow> string \<Rightarrow> 'w http_handler" where
  "gw_sendMessage G roomID r cx =
     with_body G pj_SendMessageRequest r (\<lambda>req.
     with_user cx (\<lambda>userID.
     client_call G (mc_SendMessage (gw_message G) (InjectRequestIDToOutgoingContext cx)
         (req\<lparr>smq_RoomId := roomID, smq_SenderId := userID\<rparr>))
       (\<lambda>msg. WriteProto 201 (pj_Message (gw_json G) msg))))"

text \<open>\<open>strconv.ParseInt(l, 10, 32)\<close>.\<close>

fun parse_digits :: "int \<Rightarrow> string \<Rightarrow> int option" where
  "parse_digits n [] = Some n"
| "parse_digits n (c # cs) =
     (if 48 \<le> (of_char c :: int) \<and> (of_char c :: int) \<le> 57 then parse_digits (n * 10 + (of_char c - 48)) cs else None)"

definition ParseInt32 :: "string \<Rightarrow> int option" where
  "ParseInt32 s =
     (let (neg, ds) = (case s of [] \<Rightarrow> (False, []) | c # cs \<Rightarrow>
            if c = CHR ''-'' then (True, cs) else if c = CHR ''+'' then (False, cs) else (False, s))
      in if ds = [] then None
         else case parse_digits 0 ds of
           None \<Rightarrow> None
         | Some n \<Rightarrow> let v = (if neg then - n else n) in if - (2 ^ 31) \<le> v \<and> v < 2 ^ 31 then Some v else None)"

definition page_limit :: "string \<Rightarrow> 32 word" where
  "page_limit l =
     (if l = [] then 50
      else case ParseInt32 l of
        None \<Rightarrow> 50
      | Some parsed \<Rightarrow> word_of_int (let p = (if parsed < 1 then 1 else parsed) in if 100 < p then 100 else p))"

definition gw_getMessages :: "'w gateway \<Rightarrow> string \<Rightarrow> 'w http_handler" where
  "gw_getMessages G roomID r cx =
     with_user cx (\<lambda>userID.
       let c = hq_query r ''cursor'';
           req = \<lparr>gmq_RoomId = roomID, gmq_RequesterId = userID, gmq_Cursor = (if c \<noteq> [] then Some c else None),
                  gmq_Limit = page_limit (hq_query r ''limit'')\<rparr>
       in client_call G (mc_GetMessages (gw_message G) (InjectRequestIDToOutgoingContext cx) req)
            (\<lambda>resp. WriteProto 200 (pj_Messages (gw_json G) resp)))"

section \<open>The user handler\<close>

definition gw_getMe :: "'w gateway \<Rightarrow> 'w http_handler" where
  "gw_getMe G r cx =
     with_user cx (\<lambda>userID.
     client_call G (uc_GetUser (gw_user G) (InjectRequestIDToOutgoingContext cx) userID)
       (\<lambda>user. WriteProto 200 (pj_User (gw_json G) user)))"

definition gw_getByID :: "'w gateway \<Rightarrow> string \<Rightarrow> 'w http_handler" where
  "gw_getByID G userID r cx =
     client_call G (uc_GetUser (gw_user G) (InjectRequestIDToOutgoingContext cx) userID)
       (\<lambda>user. WriteProto 200 (pj_User (gw_json G) user))"

definition gw_updateMe :: "'w gateway \<Rightarrow> 'w http_handler" where
  "gw_updateMe G r cx =
     with_body G pj_UpdateUserRequest r (\<lambda>req.
     with_user cx (\<lambda>userID.
     client_call G (uc_UpdateUser (gw_user G) (InjectRequestIDToOutgoingContext cx) (req\<lparr>uur_UserId := userID\<rparr>))
       (\<lambda>user. WriteProto 200 (pj_User (gw_json G) user))))"

section \<open>Health\<close>

definition Health :: gw_response where
  "Health = WriteJSON 200 (JObj [(''status'', JStr ''ok'')])"

definition Ready :: "bool \<Rightarrow> gw_response" where
  "Ready ready = (if \<not> ready then WriteJSON 503 (JObj [(''status'', JStr ''not ready'')])
     else WriteJSON 200 (JObj [(''status'', JStr ''ready'')]))"

definition Health_Middleware :: "bool \<Rightarrow> string \<Rightarrow> gw_response \<Rightarrow> gw_response" where
  "Health_Middleware ready path next =
     (if path = ''/health'' then Health else if path = ''/ready'' then Ready ready else next)"

text \<open>\<open>AwaitReady\<close>: after each interval the context is looked at, then the check runs; the answer is whether
  the service became ready.  It may go on for ever.\<close>

partial_function (option) AwaitReady :: "('z world_scheme \<Rightarrow> bool \<times> 'z world_scheme) \<Rightarrow> 'z world_scheme \<Rightarrow> (bool \<times> 'z world_scheme) option" where
  "AwaitReady checkFn w =
     (if ctx_done w then Some (False, w)
      else case checkFn (tick w) of
        (ok, w') \<Rightarrow> if ok then Some (True, w') else AwaitReady checkFn w')"

section \<open>The routes\<close>

text \<open>A route with the parameters of its path; \<open>pattern\<close> is the method and the path it is registered for.\<close>

datatype route =
    R_register | R_login | R_refresh | R_logout
  | R_me | R_createTicket
  | R_getMe | R_getByID string | R_updateMe
  | R_getUserRooms | R_createRoom | R_getRoom string | R_updateRoom string | R_deleteRoom string
  | R_addMember string | R_removeMember string string
  | R_sendMessage string | R_getMessages string
  | R_validateTicket
  | R_health | R_ready

fun pattern :: "route \<Rightarrow> string \<times> string" where
  "pattern R_register = (''POST'', ''/auth/register'')"
| "pattern R_login = (''POST'', ''/auth/login'')"
| "pattern R_refresh = (''POST'', ''/auth/session/refresh'')"
| "pattern R_logout = (''POST'', ''/auth/session/logout'')"
| "pattern R_me = (''GET'', ''/auth/me'')"
| "pattern R_createTicket = (''POST'', ''/auth/ws-ticket'')"
| "pattern R_getMe = (''GET'', ''/users/me'')"
| "pattern (R_getByID _) = (''GET'', ''/users/{id}'')"
| "pattern R_updateMe = (''PATCH'', ''/users/me'')"
| "pattern R_getUserRooms = (''GET'', ''/rooms'')"
| "pattern R_createRoom = (''POST'', ''/rooms'')"
| "pattern (R_getRoom _) = (''GET'', ''/rooms/{id}'')"
| "pattern (R_updateRoom _) = (''PATCH'', ''/rooms/{id}'')"
| "pattern (R_deleteRoom _) = (''DELETE'', ''/rooms/{id}'')"
| "pattern (R_addMember _) = (''POST'', ''/rooms/{id}/members'')"
| "pattern (R_removeMember _ _) = (''DELETE'', ''/rooms/{id}/members/{userId}'')"
| "pattern (R_sendMessage _) = (''POST'', ''/rooms/{id}/messages'')"
| "pattern (R_getMessages _) = (''GET'', ''/rooms/{id}/messages'')"
| "pattern R_validateTicket = (''GET'', ''/auth/validate'')"
| "pattern R_health = (''*'', ''/health'')"
| "pattern R_ready = (''*'', ''/ready'')"

text \<open>The group with the JWT and the rate limit.\<close>

fun protected :: "route \<Rightarrow> bool" where
  "protected R_register = False"
| "protected R_login = False"
| "protected R_refresh = False"
| "protected R_logout = False"
| "protected R_validateTicket = False"
| "protected R_health = False"
| "protected R_ready = False"
| "protected _ = True"

fun handle :: "('z valkey_world_scheme) gateway \<Rightarrow> route \<Rightarrow> ('z valkey_world_scheme) http_handler" where
  "handle G R_register = gw_register G"
| "handle G R_login = gw_login G"
| "handle G R_refresh = gw_refresh G"
| "handle G R_logout = gw_logout G"
| "handle G R_me = gw_me G"
| "handle G R_createTicket = createTicket G"
| "handle G R_getMe = gw_getMe G"
| "handle G (R_getByID u) = gw_getByID G u"
| "handle G R_updateMe = gw_updateMe G"
| "handle G R_getUserRooms = gw_getUserRooms G"
| "handle G R_createRoom = gw_createRoom G"
| "handle G (R_getRoom i) = gw_getRoom G i"
| "handle G (R_updateRoom i) = gw_updateRoom G i"
| "handle G (R_deleteRoom i) = gw_deleteRoom G i"
| "handle G (R_addMember i) = gw_addMember G i"
| "handle G (R_removeMember i u) = gw_removeMember G i u"
| "handle G (R_sendMessage i) = gw_sendMessage G i"
| "handle G (R_getMessages i) = gw_getMessages G i"
| "handle G R_validateTicket = gw_validateTicket G"
| "handle G R_health = (\<lambda>r cx. ret Health)"
| "handle G R_ready = (\<lambda>r cx. ret (Ready (gw_ready G)))"

text \<open>\<open>chimiddleware.Recoverer\<close>: a panic is answered with 500.\<close>

definition Recoverer :: "('w, gw_response) op \<Rightarrow> 'w \<Rightarrow> gw_response \<times> 'w" where
  "Recoverer m w = (case m w of (Inl _, w') \<Rightarrow> (WriteHeader 500, w') | (Inr resp, w') \<Rightarrow> (resp, w'))"

definition guarded :: "('z valkey_world_scheme) gateway \<Rightarrow> ('z valkey_world_scheme) http_handler \<Rightarrow> ('z valkey_world_scheme) http_handler" where
  "guarded G h = JWTAuth G (UserRateLimiter G h)"

definition gateway_serve :: "('z valkey_world_scheme) gateway \<Rightarrow> route \<Rightarrow> http_request \<Rightarrow> 'z valkey_world_scheme
    \<Rightarrow> gw_response \<times> 'z valkey_world_scheme" where
  "gateway_serve G rt r =
     Recoverer ((if protected rt then guarded G (handle G rt) else handle G rt) r no_ctx)"

section \<open>Who a request is from\<close>

text \<open>The user a request is authenticated as: the subject of the token in its cookie.\<close>

definition bearer :: "('z world_scheme) gateway \<Rightarrow> http_request \<Rightarrow> 'z world_scheme \<Rightarrow> string option" where
  "bearer G r w =
     (case hq_cookie r ''access_token'' of
        None \<Rightarrow> None
      | Some tok \<Rightarrow>
          (case jwt_Parse (gw_jwt G) tok (gc_secret (gw_cfg G)) (now_in w div second) of
             None \<Rightarrow> None
           | Some cl \<Rightarrow> (case claim_string ''sub'' cl of None \<Rightarrow> None | Some sub \<Rightarrow> if sub = [] then None else Some sub)))"

definition request_id :: "('z world_scheme) gateway \<Rightarrow> http_request \<Rightarrow> 'z world_scheme \<Rightarrow> string" where
  "request_id G r w = (if hq_header r HeaderRequestID = [] then uuid_String (gw_uuid G) (uuid_in w) else hq_header r HeaderRequestID)"

definition user_ctx :: "('z world_scheme) gateway \<Rightarrow> http_request \<Rightarrow> 'z world_scheme \<Rightarrow> string \<Rightarrow> gw_ctx" where
  "user_ctx G r w u = \<lparr>cx_userID = Some u, cx_requestID = Some (request_id G r w)\<rparr>"

lemma Recoverer_reply:
  "Recoverer (tryE m fail (\<lambda>resp. ret (f resp))) w =
    (case m w of (Inl e, w') \<Rightarrow> (WriteHeader 500, w') | (Inr resp, w') \<Rightarrow> (f resp, w'))"
  by (auto simp: Recoverer_def tryE_def fail_def ret_def split: prod.splits sum.splits)

text \<open>A protected route is refused without a user; with one the limiter and the handler run for that user.\<close>

lemma serve_protected:
  assumes "protected rt"
  shows "gateway_serve G rt r w =
    (case bearer G r w of
       None \<Rightarrow> (with_header HeaderRequestID (request_id G r w) (WriteCode CodeUnauthenticated), w)
     | Some u \<Rightarrow>
         (case UserRateLimiter G (handle G rt) r (user_ctx G r w u) w of
            (Inl e, w') \<Rightarrow> (WriteHeader 500, w')
          | (Inr resp, w') \<Rightarrow> (with_header HeaderRequestID (request_id G r w) resp, w')))"
proof -
  let ?reply = "\<lambda>m. Recoverer (tryE m fail (\<lambda>resp. ret (with_header HeaderRequestID (request_id G r w) resp))) w"
  have "gateway_serve G rt r w = (case bearer G r w of None \<Rightarrow> ?reply (ret (WriteCode CodeUnauthenticated))
      | Some u \<Rightarrow> ?reply (UserRateLimiter G (handle G rt) r (user_ctx G r w u)))"
    using assms
    by (auto simp: gateway_serve_def guarded_def JWTAuth_def bearer_def request_id_def user_ctx_def Let_def Recoverer_def no_ctx_def
        split: option.splits)
  then show ?thesis by (simp add: Recoverer_reply ret_def split: option.splits)
qed

lemma WriteCode_status: "gr_status (WriteCode c) = ToHTTPCode c" "gr_status (with_header k v resp) = gr_status resp"
  "gr_status (with_cookies cs resp) = gr_status resp" "gr_status (WriteJSON n j) = n" "gr_status (WriteHeader n) = n"
  by (simp_all add: WriteCode_def WriteJSON_def with_header_def with_cookies_def WriteHeader_def)

lemma http_codes:
  "ToHTTPCode CodeUnauthenticated = 401" "ToHTTPCode CodeRateLimited = 429" "ToHTTPCode CodeInternal = 500" "ToHTTPCode CodeInvalidArgument = 400"
  by (simp_all add: ToHTTPCode_def codeToHTTPCode_def code_defs)

section \<open>In whose name the services are called\<close>

text \<open>Two gateways that differ only in what their services do with requests in the name of others.  A
  room and a profile may be read by its id.\<close>

definition same_for :: "string \<Rightarrow> 'w gateway \<Rightarrow> 'w gateway \<Rightarrow> bool" where
  "same_for u G H \<longleftrightarrow>
     gw_cfg H = gw_cfg G \<and> gw_grpc H = gw_grpc G \<and> gw_uuid H = gw_uuid G \<and> gw_jwt H = gw_jwt G \<and> gw_json H = gw_json G \<and>
     uc_GetUser (gw_user H) = uc_GetUser (gw_user G) \<and> rsc_GetRoom (gw_room H) = rsc_GetRoom (gw_room G) \<and>
     (\<forall>rid. rsc_GetUserRooms (gw_room H) rid u = rsc_GetUserRooms (gw_room G) rid u) \<and>
     (\<forall>rid q. uur_UserId q = u \<longrightarrow> uc_UpdateUser (gw_user H) rid q = uc_UpdateUser (gw_user G) rid q) \<and>
     (\<forall>rid q. crq_CreatedBy q = u \<longrightarrow> rsc_CreateRoom (gw_room H) rid q = rsc_CreateRoom (gw_room G) rid q) \<and>
     (\<forall>rid q. urq_RequesterId q = u \<longrightarrow> rsc_UpdateRoom (gw_room H) rid q = rsc_UpdateRoom (gw_room G) rid q) \<and>
     (\<forall>rid q. drq_RequesterId q = u \<longrightarrow> rsc_DeleteRoom (gw_room H) rid q = rsc_DeleteRoom (gw_room G) rid q) \<and>
     (\<forall>rid q. amq_RequesterId q = u \<longrightarrow> rsc_AddMember (gw_room H) rid q = rsc_AddMember (gw_room G) rid q) \<and>
     (\<forall>rid q. rmq_RequesterId q = u \<longrightarrow> rsc_RemoveMember (gw_room H) rid q = rsc_RemoveMember (gw_room G) rid q) \<and>
     (\<forall>rid q. smq_SenderId q = u \<longrightarrow> mc_SendMessage (gw_message H) rid q = mc_SendMessage (gw_message G) rid q) \<and>
     (\<forall>rid q. gmq_RequesterId q = u \<longrightarrow> mc_GetMessages (gw_message H) rid q = mc_GetMessages (gw_message G) rid q)"

lemma with_user_Some: "cx_userID cx = Some u \<Longrightarrow> with_user cx k = k u"
  by (rule ext) (simp add: with_user_def MustGetUserID_def tryE_def ret_def)

lemmas gateway_handlers = gw_me_def createTicket_def gw_getUserRooms_def gw_createRoom_def gw_getRoom_def gw_updateRoom_def
  gw_deleteRoom_def gw_addMember_def gw_removeMember_def gw_sendMessage_def gw_getMessages_def gw_getMe_def gw_getByID_def gw_updateMe_def
lemmas public_handlers = gw_register_def gw_login_def gw_logout_def gw_refresh_def gw_validateTicket_def

lemma handle_same_for:
  assumes "same_for u G H" and "cx_userID cx = Some u" and "protected rt"
  shows "handle H rt r cx = handle G rt r cx"
  using assms unfolding same_for_def
  by (cases rt) (simp_all add: gateway_handlers with_user_Some with_body_def client_call_def Let_def cong: sum.case_cong option.case_cong if_cong)

lemma serve_same_for:
  assumes "protected rt" and "bearer G r w = Some u" and "same_for u G H"
  shows "gateway_serve H rt r w = gateway_serve G rt r w"
proof -
  have eq: "bearer H r w = bearer G r w" "request_id H r w = request_id G r w" "user_ctx H r w u = user_ctx G r w u"
    using assms(3) by (simp_all add: same_for_def bearer_def request_id_def user_ctx_def cong: option.case_cong)
  have h: "handle H rt r (user_ctx G r w u) = handle G rt r (user_ctx G r w u)"
    using assms by (intro handle_same_for) (simp_all add: user_ctx_def)
  have "UserRateLimiter H (handle H rt) r (user_ctx G r w u) = UserRateLimiter G (handle G rt) r (user_ctx G r w u)"
    unfolding UserRateLimiter_def h using assms(3) by (simp add: same_for_def Let_def cong: option.case_cong)
  then show ?thesis using assms(2) unfolding serve_protected [OF assms(1)] eq(1,2) by (simp add: eq(3))
qed


text \<open>A token the auth service signed for a user makes the request that user's until it expires.\<close>

lemma access_claims_sub:
  assumes "uuid_lib_ok U"
  shows "claim_string ''sub'' (access_claims U userID t ttl) = Some (uuid_String U userID)" and "uuid_String U userID \<noteq> []"
  using assms by (simp_all add: claim_string_def access_claims_def token_claims_def uuid_lib_ok_def)

lemma bearer_of_token:
  assumes "uuid_lib_ok U" and "hq_cookie r ''access_token'' = Some tok"
    and "\<And>now. jwt_Parse (gw_jwt G) tok (gc_secret (gw_cfg G)) now = (if now < exp then Some (access_claims U userID t ttl) else None)"
  shows "bearer G r w = (if now_in w div second < exp then Some (uuid_String U userID) else None)"
  using assms(2) access_claims_sub [OF assms(1)] by (simp add: bearer_def assms(3))

section \<open>What a request changes\<close>

text \<open>The services leave the counters of the gateway alone; this is what they are asked for below.\<close>

definition gw_counts :: "'z valkey_world_scheme \<Rightarrow> string \<Rightarrow> string \<Rightarrow> (vk_value \<times> time option) option" where
  "gw_counts w u win = vk w (GatewayRateLimitKey ''user'' u win)"

definition spares :: "'z valkey_world_scheme \<Rightarrow> 'z valkey_world_scheme \<Rightarrow> bool" where
  "spares w w' \<longleftrightarrow> env w' = env w \<and> calls w \<le> calls w' \<and> gw_counts w' = gw_counts w"

lemma spares_rules [steps_intros]: "reflp spares" "transp spares"
  by (auto simp: spares_def reflp_def transp_def)

definition sparing_clients :: "('z valkey_world_scheme) gateway \<Rightarrow> bool" where
  "sparing_clients G \<longleftrightarrow>
     (\<forall>rid q. steps_by spares (ac_Register (gw_auth G) rid q)) \<and> (\<forall>rid q. steps_by spares (ac_Login (gw_auth G) rid q)) \<and>
     (\<forall>rid q. steps_by spares (ac_Logout (gw_auth G) rid q)) \<and> (\<forall>rid q. steps_by spares (ac_RefreshToken (gw_auth G) rid q)) \<and>
     (\<forall>rid q. steps_by spares (uc_GetUser (gw_user G) rid q)) \<and> (\<forall>rid q. steps_by spares (uc_UpdateUser (gw_user G) rid q)) \<and>
     (\<forall>rid q. steps_by spares (rsc_GetUserRooms (gw_room G) rid q)) \<and> (\<forall>rid q. steps_by spares (rsc_CreateRoom (gw_room G) rid q)) \<and>
     (\<forall>rid q. steps_by spares (rsc_GetRoom (gw_room G) rid q)) \<and> (\<forall>rid q. steps_by spares (rsc_UpdateRoom (gw_room G) rid q)) \<and>
     (\<forall>rid q. steps_by spares (rsc_DeleteRoom (gw_room G) rid q)) \<and> (\<forall>rid q. steps_by spares (rsc_AddMember (gw_room G) rid q)) \<and>
     (\<forall>rid q. steps_by spares (rsc_RemoveMember (gw_room G) rid q)) \<and>
     (\<forall>rid q. steps_by spares (mc_SendMessage (gw_message G) rid q)) \<and> (\<forall>rid q. steps_by spares (mc_GetMessages (gw_message G) rid q))"

lemma spares_vk_do:
  assumes "\<And>t u db a db'. c t u db = Inr (a, db') \<Longrightarrow> \<forall>user win. db' (GatewayRateLimitKey ''user'' user win) = db (GatewayRateLimitKey ''user'' user win)"
  shows "steps_by (spares :: 'z valkey_world_scheme \<Rightarrow> _) (vk_do c)"
proof -
  have "spares w (snd (vk_do c w))" for w :: "'z valkey_world_scheme"
  proof -
    have "gw_counts (snd (vk_do c w)) = gw_counts w"
      using assms [of "now_in w" "uuid_in w" "vk w"]
      by (auto simp: gw_counts_def fun_eq_iff vk_do_def pool_call_def ext_call_def run_stmt_def split: fault.splits sum.splits prod.splits)
    then show ?thesis using vk_do_env(1,2) [of c w] by (simp add: spares_def)
  qed
  then show ?thesis by (simp add: steps_by_def)
qed

lemma spares_ticket_commands [steps_intros]:
  "steps_by spares (vk_do (SET_EX (GatewayWSTicketKey k) v secs))" "steps_by spares (vk_do (GETDEL (GatewayWSTicketKey k)))"
  by (rule spares_vk_do; use keys_apart(6) in \<open>auto simp: SET_EX_def GETDEL_def split: if_splits\<close>)+

lemma spares_client_call: "steps_by spares m \<Longrightarrow> steps_by spares (client_call G m k)"
  unfolding client_call_def by (intro steps_intros)

lemma spares_with_user: "(\<And>u. steps_by spares (k u)) \<Longrightarrow> steps_by spares (with_user cx k)"
  unfolding with_user_def MustGetUserID_def by (cases "cx_userID cx") (auto intro!: steps_intros)

lemma spares_with_body: "(\<And>q. steps_by spares (k q)) \<Longrightarrow> steps_by spares (with_body G um r k)"
  unfolding with_body_def by (auto split: sum.splits intro: steps_intros)

lemma spares_createTicket: "steps_by (spares :: 'z valkey_world_scheme \<Rightarrow> _) (createTicket G r cx)"
proof -
  have "spares w (snd (let ticket = uuid_String (gw_uuid G) (uuid_in w)
      in tryE (vk_do (SET_EX (GatewayWSTicketKey ticket) u (Seconds (gc_ticketTTL (gw_cfg G))))) (\<lambda>e. ret (WriteCode CodeInternal) :: ('z valkey_world_scheme, gw_response) op)
           (\<lambda>_. ret (WriteJSON 201 (JObj [(''ticket'', JStr ticket)]))) w))" for u and w :: "'z valkey_world_scheme"
    unfolding Let_def by (rule steps_byD [OF _ surjective_pairing]) (intro steps_intros)
  then show ?thesis
    unfolding createTicket_def by (intro spares_with_user steps_intros) (simp add: steps_by_def)
qed

lemma spares_validateTicket: "steps_by spares (gw_validateTicket G r cx)"
proof -
  have "steps_by spares (case ToString resp of Inl e \<Rightarrow> ret (f e) | Inr u \<Rightarrow> ret (g u))" for resp and f :: "error \<Rightarrow> gw_response" and g
    by (auto split: sum.splits intro: steps_intros)
  then show ?thesis unfolding gw_validateTicket_def Let_def by (intro steps_intros)
qed

lemma spares_handle:
  assumes "sparing_clients G"
  shows "steps_by spares (handle G rt r cx)"
proof -
  note [intro!] = spares_client_call spares_with_user spares_with_body spares_createTicket spares_validateTicket steps_ret [OF spares_rules(1)]
  show ?thesis using assms unfolding sparing_clients_def
    by (cases rt) (auto simp: gateway_handlers(1,3-) public_handlers(1-4) Let_def split: option.splits)
qed


section \<open>The rate limit\<close>

text \<open>A hit of the limiter, and what a protected request does after it.\<close>

definition user_key :: "('z world_scheme) gateway \<Rightarrow> string \<Rightarrow> string" where
  "user_key G u = GatewayRateLimitKey ''user'' u (Itoa (Seconds (gc_window (gw_cfg G))))"

definition gw_hit :: "('z valkey_world_scheme) gateway \<Rightarrow> string \<Rightarrow> time \<Rightarrow> 'z valkey_world_scheme \<Rightarrow> int option \<times> 'z valkey_world_scheme" where
  "gw_hit G = hit_script (user_key G) (Seconds (gc_window (gw_cfg G)))"

text \<open>The limiter has counted the request of the user and it was not refused with 429.\<close>

definition counted_pass :: "('z valkey_world_scheme) gateway \<Rightarrow> string \<Rightarrow> route \<Rightarrow> http_request \<Rightarrow> 'z valkey_world_scheme \<Rightarrow> bool" where
  "counted_pass G u rt r w \<longleftrightarrow> protected rt \<and> bearer G r w = Some u \<and> fst (gw_hit G u (now_in w) w) \<noteq> None \<and>
     gr_status (fst (gateway_serve G rt r w)) \<noteq> 429"

lemma limiter_run:
  "UserRateLimiter G next r (user_ctx G r' w0 u) w =
    (case gw_hit G u (now_in w) w of (n, w1) \<Rightarrow>
       if \<exists>m. n = Some m \<and> gc_requests (gw_cfg G) < m then (Inr (WriteCode CodeRateLimited), w1)
       else next r (user_ctx G r' w0 u) w1)"
proof -
  have "(\<lambda>v. GatewayRateLimitKey ''user'' v (Itoa (Seconds (gc_window (gw_cfg G))))) = user_key G" by (simp add: user_key_def fun_eq_iff)
  then show ?thesis
    by (auto simp: UserRateLimiter_def GetUserID_def user_ctx_def Let_def tryE_def ret_def gw_hit_def vk_do_hit user_key_def
        split: prod.splits sum.splits)
qed

lemma serve_spares:
  assumes "sparing_clients G" and "gateway_serve G rt r w = (resp, w')"
  obtains (open_route) "spares w w'" "\<And>u. \<not> counted_pass G u rt r w"
    | (counted) u n w1 where "gw_hit G u (now_in w) w = (n, w1)" "spares w1 w'" "env w1 = env w" "calls w1 = Suc (calls w)"
      "\<And>v. counted_pass G v rt r w \<Longrightarrow> v = u \<and> (\<exists>m. n = Some m \<and> m \<le> gc_requests (gw_cfg G))"
proof (cases "protected rt \<and> bearer G r w \<noteq> None")
  case False
  have "steps_by spares (if protected rt then guarded G (handle G rt) r no_ctx else handle G rt r no_ctx)" if "\<not> protected rt"
    using that spares_handle [OF assms(1)] by simp
  then have "spares w w'" if "\<not> protected rt"
    using that assms(2) by (auto simp: gateway_serve_def Recoverer_def dest!: steps_byD split: prod.splits sum.splits)
  moreover have "spares w w'" if "protected rt"
    using that assms(2) False by (auto simp: serve_protected reflpD [OF spares_rules(1)])
  ultimately have "spares w w'" by blast
  then show ?thesis using False by (intro open_route) (auto simp: counted_pass_def)
next
  case True
  then obtain u where u: "protected rt" "bearer G r w = Some u" by blast
  obtain n w1 where hit: "gw_hit G u (now_in w) w = (n, w1)" by fastforce
  have w1: "env w1 = env w" "calls w1 = Suc (calls w)"
    using hit vk_do_hit [of "user_key G" "Seconds (gc_window (gw_cfg G))" u w]
      vk_do_env(1,2) [of "IncrWithExpiryScript (user_key G u) (Seconds (gc_window (gw_cfg G)))" w]
    by (auto simp: gw_hit_def split: prod.splits sum.splits)
  have serve: "gateway_serve G rt r w =
      (if \<exists>m. n = Some m \<and> gc_requests (gw_cfg G) < m
       then (with_header HeaderRequestID (request_id G r w) (WriteCode CodeRateLimited), w1)
       else case handle G rt r (user_ctx G r w u) w1 of
          (Inl e, w') \<Rightarrow> (WriteHeader 500, w')
        | (Inr resp, w') \<Rightarrow> (with_header HeaderRequestID (request_id G r w) resp, w'))"
    by (auto simp: serve_protected [OF u(1)] u(2) limiter_run hit)
  have "spares w1 w'"
    using assms(2) spares_handle [OF assms(1), of rt r "user_ctx G r w u"]
    by (auto simp: serve reflpD [OF spares_rules(1)] dest!: steps_byD split: if_splits prod.splits sum.splits)
  moreover have "v = u \<and> (\<exists>m. n = Some m \<and> m \<le> gc_requests (gw_cfg G))" if "counted_pass G v rt r w" for v
  proof -
    have v: "v = u" using that u by (simp add: counted_pass_def)
    have "n \<noteq> None" using that hit v by (simp add: counted_pass_def)
    then obtain m where m: "n = Some m" by blast
    have "\<not> gc_requests (gw_cfg G) < m" using that m by (auto simp: counted_pass_def serve WriteCode_status http_codes)
    with v m show ?thesis by simp
  qed
  ultimately show ?thesis using hit w1 by (intro counted)
qed


text \<open>Requests served one after the other; how many of a user's are counted and let pass.\<close>

fun gateway_after :: "('z valkey_world_scheme) gateway \<Rightarrow> (route \<times> http_request) list \<Rightarrow> 'z valkey_world_scheme \<Rightarrow> 'z valkey_world_scheme" where
  "gateway_after G [] w = w"
| "gateway_after G ((rt, r) # reqs) w = gateway_after G reqs (snd (gateway_serve G rt r w))"

fun passes :: "('z valkey_world_scheme) gateway \<Rightarrow> string \<Rightarrow> (route \<times> http_request) list \<Rightarrow> 'z valkey_world_scheme \<Rightarrow> int" where
  "passes G u [] w = 0"
| "passes G u ((rt, r) # reqs) w =
     (if counted_pass G u rt r w then 1 else 0) + passes G u reqs (snd (gateway_serve G rt r w))"

lemma user_key_window:
  assumes "0 < Seconds (gc_window (gw_cfg G))"
  shows "window_counter (gw_hit G) (tally_at (user_key G)) (Seconds (gc_window (gw_cfg G)) * second) (counters_ok (user_key G))"
proof -
  have "inj (user_key G)" using inj_rate_keys(2) unfolding user_key_def by simp
  then show ?thesis unfolding gw_hit_def using assms by (rule window_counter_script)
qed

lemma spares_counts:
  assumes "spares w w'"
  shows "tally_at (user_key G) w' u = tally_at (user_key G) w u" and "counters_ok (user_key G) w' = counters_ok (user_key G) w"
    and "counters_ok (user_key G) w \<Longrightarrow> counters_ok (user_key G) w'"
proof -
  have "vk w' (user_key G v) = vk w (user_key G v)" for v
    using assms by (simp add: spares_def gw_counts_def user_key_def fun_eq_iff)
  then show "tally_at (user_key G) w' u = tally_at (user_key G) w u" "counters_ok (user_key G) w' = counters_ok (user_key G) w"
    and "counters_ok (user_key G) w \<Longrightarrow> counters_ok (user_key G) w'"
    by (simp_all add: tally_at_def counters_ok_def)
qed

lemma gateway_calls:
  assumes "sparing_clients G"
  shows "env (snd (gateway_serve G rt r w)) = env w" and "calls w \<le> calls (snd (gateway_serve G rt r w))"
    and "calls w \<le> calls (gateway_after G reqs w)"
proof -
  have step: "env (snd (gateway_serve G rt r w)) = env w \<and> calls w \<le> calls (snd (gateway_serve G rt r w))" for rt r w
    by (rule serve_spares [OF assms surjective_pairing, where rt = rt and r = r and w = w]) (auto simp: spares_def)
  then show "env (snd (gateway_serve G rt r w)) = env w" "calls w \<le> calls (snd (gateway_serve G rt r w))" by simp_all
  show "calls w \<le> calls (gateway_after G reqs w)"
  proof (induction reqs arbitrary: w)
    case (Cons req reqs)
    obtain rt r where "req = (rt, r)" by (cases req)
    then show ?case using step [where rt = rt and r = r and w = w] Cons.IH [of "snd (gateway_serve G rt r w)"] by simp
  qed simp
qed

abbreviation served_users :: "('z valkey_world_scheme) gateway \<Rightarrow> string \<Rightarrow> 'z valkey_world_scheme \<Rightarrow> (string \<times> time) list \<Rightarrow> int option list \<Rightarrow> bool" where
  "served_users G \<equiv> window_counter.served (gw_hit G) (tally_at (user_key G)) (counters_ok (user_key G))"

lemma users_served:
  assumes clients: "sparing_clients G" and secs: "0 < Seconds (gc_window (gw_cfg G))" and clock: "mono (clock_at E)"
    and "counters_ok (user_key G) w" and "env w = E"
    and "\<forall>i \<ge> calls w. i < calls (gateway_after G reqs w) \<longrightarrow> clock_at E i < b"
  shows "\<exists>hits rs. served_users G u w hits rs \<and> sorted (map snd hits) \<and> (\<forall>h \<in> set hits. now_in w \<le> snd h \<and> snd h < b) \<and>
    passes G u reqs w \<le> window_counter.let_through (gc_requests (gw_cfg G)) rs"
  using assms(4-6)
proof (induction reqs arbitrary: w)
  case Nil
  show ?case
    by (intro exI [of _ "[]"])
      (auto intro: window_counter.served_none [OF user_key_window [OF secs]] simp: window_counter.let_through_simps [OF user_key_window [OF secs]])
next
  case (Cons req reqs)
  note window = user_key_window [OF secs]
  let ?through = "window_counter.let_through (gc_requests (gw_cfg G))"
  obtain rt r where req: "req = (rt, r)" by (cases req)
  obtain resp w' where run: "gateway_serve G rt r w = (resp, w')" by fastforce
  have step: "env w' = E" "calls w \<le> calls w'" using gateway_calls(1,2) [OF clients, where rt = rt and r = r and w = w] run Cons.prems(2) by simp_all
  then have later: "now_in w \<le> now_in w'" using clock Cons.prems(2) by (simp add: now_in_def monoD)
  have IH: "\<exists>hits rs. served_users G u w' hits rs \<and> sorted (map snd hits) \<and> (\<forall>h \<in> set hits. now_in w \<le> snd h \<and> snd h < b) \<and>
      passes G u reqs w' \<le> ?through rs" if "counters_ok (user_key G) w'"
    using Cons.IH [OF that step(1)] Cons.prems(3) run step(2) later req by force
  from clients run show ?case
  proof (cases rule: serve_spares)
    case open_route
    have inv: "counters_ok (user_key G) w'" using spares_counts(3) [OF open_route(1) Cons.prems(1)] .
    from IH [OF this] obtain hits rs where "served_users G u w' hits rs" and rest: "sorted (map snd hits)"
        "\<forall>h \<in> set hits. now_in w \<le> snd h \<and> snd h < b" "passes G u reqs w' \<le> ?through rs" by blast
    then have "served_users G u w hits rs"
      by (intro window_counter.served_skip [OF window _ inv spares_counts(1) [OF open_route(1)]])
    then show ?thesis using rest run open_route(2) req by (intro exI [of _ hits] exI [of _ rs]) auto
  next
    case (counted v n w1)
    have inv1: "counters_ok (user_key G) w1"
      using window_counter.keeps [OF window Cons.prems(1), of v "now_in w"] counted(1) by simp
    then have inv: "counters_ok (user_key G) w'" by (rule spares_counts(3) [OF counted(2)])
    from IH [OF this] obtain hits rs where "served_users G u w' hits rs" and rest: "sorted (map snd hits)"
        "\<forall>h \<in> set hits. now_in w \<le> snd h \<and> snd h < b" "passes G u reqs w' \<le> ?through rs" by blast
    then have "served_users G u w1 hits rs"
      by (intro window_counter.served_skip [OF window _ inv spares_counts(1) [OF counted(2)]])
    then have "served_users G u w ((v, now_in w) # hits) ((if v = u then [fst (gw_hit G v (now_in w) w)] else []) @ rs)"
      using counted(1) by (intro window_counter.served_hit [OF window]) simp
    moreover have "now_in w < b"
      using Cons.prems(2,3) counted(2,4) gateway_calls(3) [OF clients, where w = w' and reqs = reqs] run req by (simp add: now_in_def spares_def)
    moreover have "passes G u (req # reqs) w \<le> ?through ((if v = u then [fst (gw_hit G v (now_in w) w)] else []) @ rs)"
      using rest(3) run req counted(1) counted(5) [of u] by (auto simp: window_counter.let_through_simps [OF window])
    ultimately show ?thesis using rest(1,2)
      by (intro exI [of _ "(v, now_in w) # hits"] exI) auto
  qed
qed

text \<open>C14: The rate limit of the gateway, with any configuration that \<open>Load\<close> accepts.  However requests of all
  users and routes are mixed, in a time shorter than the window at most twice the limit of one user's
  requests to protected routes are counted and not refused with 429; when Valkey fails to count one, it
  is let pass.\<close>

theorem gateway_rate_limit:
  assumes "gateway_Load readConfig path = Inr cfg" and "gw_cfg G = gateway_settings cfg"
    and "sparing_clients G" and "counters_ok (user_key G) w" and "mono (clock_at (env w))"
    and "\<forall>i \<ge> calls w. i < calls (gateway_after G reqs w) \<longrightarrow>
      clock_at (env w) i < now_in w + Seconds (gcfg_Window cfg) * second"
  shows "passes G u reqs w \<le> 2 * gcfg_Requests cfg"
proof -
  have gc: "gc_requests (gw_cfg G) = gcfg_Requests cfg" "gc_window (gw_cfg G) = gcfg_Window cfg"
    using assms(2) by (simp_all add: gateway_settings_def)
  have secs: "0 < Seconds (gc_window (gw_cfg G))" and limit: "0 \<le> gc_requests (gw_cfg G)"
    using gateway_Load_limits [OF assms(1)] gc by simp_all
  note window = user_key_window [OF secs]
  obtain hits rs where hits: "served_users G u w hits rs" "sorted (map snd hits)"
      "\<forall>h \<in> set hits. now_in w \<le> snd h \<and> snd h < now_in w + Seconds (gc_window (gw_cfg G)) * second"
      "passes G u reqs w \<le> window_counter.let_through (gc_requests (gw_cfg G)) rs"
    using users_served [OF assms(3) secs assms(5,4) refl assms(6) [folded gc(2)]] by blast
  have positive: "0 \<le> n" if "tally_at (user_key G) w u = Some (n, e)" for n e
  proof -
    have "counter_entry (vk w (user_key G u))" using assms(4) by (simp add: counters_ok_def)
    then show ?thesis by (cases rule: counter_entry_cases) (use that in \<open>simp_all add: tally_at_def\<close>)
  qed
  have "window_counter.let_through (gc_requests (gw_cfg G)) rs \<le> 2 * gc_requests (gw_cfg G)"
    by (rule window_counter.twice_limit [OF window hits(1) assms(4) limit hits(2,3)]) (rule positive)
  with hits(4) gc(1) show ?thesis by linarith
qed


end
