(* ===== verification/Sessions.thy ===== *)
theory Sessions
  imports Gateway AuthRequests WsHandler
begin

text \<open>
  The gateway in front of the auth service and of the websocket service: a login through the gateway
  and the requests made with its cookie; a ticket from the gateway and the connection opened with it.
\<close>

section \<open>Sessions\<close>

text \<open>The client of the auth service, over gRPC, on its handler.\<close>

definition NewAuthServiceClient :: "grpc_lib \<Rightarrow> ('z world_scheme) authHandler \<Rightarrow> ('z world_scheme) AuthServiceClient" where
  "NewAuthServiceClient L h =
     \<lparr>ac_Register = (\<lambda>_ req. grpc_call L (authHandler_Register h req)), ac_Login = (\<lambda>_ req. grpc_call L (authHandler_Login h req)),
      ac_Logout = (\<lambda>_ k. grpc_call L (authHandler_Logout h k)), ac_RefreshToken = (\<lambda>_ k. grpc_call L (authHandler_RefreshToken h k))\<rparr>"

lemma error_status: "400 \<le> gr_status (WriteError L e)"
proof -
  obtain c ok where f: "FromError (status_FromError L) (Some e) = (c, ok)" by fastforce
  then have "c \<in> set known_codes" using FromError_known [of "status_FromError L" e] by simp
  moreover have "CodeInternal \<in> set known_codes" by (simp add: known_codes_def)
  ultimately have "(if ok then c else CodeInternal) \<in> set known_codes" by simp
  then have "400 \<le> ToHTTPCode (if ok then c else CodeInternal)"
    by (elim known_code_cases [THEN disjE] disjE) (simp_all add: ToHTTPCode_def codeToHTTPCode_def code_defs)
  then show ?thesis by (simp add: WriteError_def f WriteCode_status)
qed

text \<open>A handler that reads a body and calls a service answers below 400 only when both worked.\<close>

lemma client_reply:
  assumes "Recoverer (with_body G um r (\<lambda>q. client_call G (m q) k)) w = (resp, w')" and "gr_status resp < 400"
  obtains q x where "ReadProto (gc_maxBodySize (gw_cfg G)) (um (gw_json G)) (hq_body r) = Inr q" "m q w = (Inr x, w')" "resp = k x"
proof (cases "ReadProto (gc_maxBodySize (gw_cfg G)) (um (gw_json G)) (hq_body r)")
  case (Inl e)
  then show ?thesis using assms error_status [of "gw_grpc G" e] by (simp add: with_body_def Recoverer_def ret_def)
next
  case (Inr q)
  have "Recoverer (client_call G (m q) k) w = (resp, w')" using assms(1) Inr by (simp add: with_body_def)
  then show ?thesis using assms(2) that [OF Inr] error_status [of "gw_grpc G"]
    by (auto simp: Recoverer_def client_call_def tryE_def ret_def split: prod.splits sum.splits)
      (meson leD)+
qed

lemma grpc_call_Inr:
  assumes "grpc_call L m w = (Inr x, w')"
  shows "m (tick w) = (Inr x, w')"
  using assms by (auto simp: grpc_call_def split: fault.splits prod.splits sum.splits)

text \<open>A login that is answered with 200, and what its access token is good for.\<close>

lemma login_session:
  fixes G :: "('z auth_world_scheme) gateway"
  assumes "uuid_lib_ok (lib_uuid L)" and "jwt_ok (lib_jwt L)" and "pg_accounts_ok w"
    and auth: "gw_auth G = NewAuthServiceClient R (auth_handler L C pgAccountRepository mail txt)"
    and same: "gw_jwt G = lib_jwt L" "gc_secret (gw_cfg G) = cfg_secret C"
    and run: "gateway_serve G R_login r w = (resp, w1)" "gr_status resp = 200"
  shows "\<exists>req a access refresh n. ReadProto (gc_maxBodySize (gw_cfg G)) (pj_LoginRequest (gw_json G)) (hq_body r) = Inr req \<and>
    pg_accounts w (ar_Email req) = Some a \<and> bcrypt_Compare (lib_bcrypt L) (acc_PasswordHash a) (ar_Password req) \<and>
    gr_body resp = Some (JObj [(''user_id'', JStr (uuid_String (lib_uuid L) (acc_ID a)))]) \<and>
    gr_cookies resp = setAuthCookies access refresh (gc_secure (gw_cfg G)) \<and> calls w \<le> n \<and> n < calls w1 \<and>
    (\<forall>r2 (w2 :: 'z auth_world_scheme). hq_cookie r2 ''access_token'' = Some access \<longrightarrow>
       bearer G r2 w2 = (if now_in w2 div second < (clock_at (env w) n + cfg_accessTTL C) div second
         then Some (uuid_String (lib_uuid L) (acc_ID a)) else None))"
proof -
  let ?H = "auth_handler L C pgAccountRepository mail txt"
  have "Recoverer (gw_login G r no_ctx) w = (resp, w1)" using run(1) by (simp add: gateway_serve_def)
  then obtain req x where q: "ReadProto (gc_maxBodySize (gw_cfg G)) (pj_LoginRequest (gw_json G)) (hq_body r) = Inr req"
      "grpc_call R (authHandler_Login ?H req) w = (Inr x, w1)"
      "resp = with_cookies (setAuthCookies (aresp_AccessToken x) (aresp_RefreshToken x) (gc_secure (gw_cfg G)))
         (WriteJSON 200 (JObj [(''user_id'', JStr (aresp_UserId x))]))"
    unfolding gw_login_def using run(2) by (auto simp: auth NewAuthServiceClient_def elim!: client_reply)
  have ok: "pg_accounts_ok (tick w)" "pg_accounts (tick w) = pg_accounts w"
    using assms(3) accounts_tick [of w] by (simp_all add: pg_accounts_ok_def tick_def)
  obtain a tp where a: "pg_accounts w (ar_Email req) = Some a" "bcrypt_Compare (lib_bcrypt L) (acc_PasswordHash a) (ar_Password req)"
      "x = responseToProto (lib_uuid L) (toAccount a) tp" "granted L C (acc_ID a) (tick w) tp w1"
    using wpD [OF pga.login_handler_wp [OF ok(1) assms(2), of C mail "txt" req] grpc_call_Inr [OF q(2)]] ok(2) by auto
  obtain n where n: "Suc (calls w) < n" "n < calls w1"
      "\<And>now. jwt_Parse (gw_jwt G) (tp_AccessToken tp) (gc_secret (gw_cfg G)) now =
        (if now < (clock_at (env w) n + cfg_accessTTL C) div second
         then Some (access_claims (lib_uuid L) (acc_ID a) (clock_at (env w) n) (cfg_accessTTL C)) else None)"
    using granted_good [OF a(4) assms(2)] unfolding good_tokens_def same by auto
  have "bearer G r2 w2 = (if now_in w2 div second < (clock_at (env w) n + cfg_accessTTL C) div second
      then Some (uuid_String (lib_uuid L) (acc_ID a)) else None)"
    if "hq_cookie r2 ''access_token'' = Some (tp_AccessToken tp)" for r2 and w2 :: "'z auth_world_scheme"
    by (rule bearer_of_token [OF assms(1) that n(3)])
  then show ?thesis using q(1,3) a(1-3) n(1,2)
    by (intro exI [of _ req] exI [of _ a] exI [of _ "tp_AccessToken tp"] exI [of _ "tp_RefreshToken tp"] exI [of _ n])
      (simp add: responseToProto_def toAccount_def with_cookies_def WriteJSON_def)
qed

text \<open>C5: A session.  A login through the gateway is answered 200 only with the password of the account; the
  access token it sets makes a later request that user's, and no one else's, until it expires.  For any
  request to a protected route: without a valid token it is refused with 401 and nothing happens, and
  with one the services are asked for nothing in the name of another user than that of the token.\<close>

theorem gateway_session:
  fixes G :: "('z auth_world_scheme) gateway"
  assumes "uuid_lib_ok (lib_uuid L)" and "jwt_ok (lib_jwt L)" and "pg_accounts_ok w"
    and "gw_auth G = NewAuthServiceClient R (auth_handler L C pgAccountRepository mail txt)"
    and "gw_jwt G = lib_jwt L" and "gc_secret (gw_cfg G) = cfg_secret C"
    and "gateway_serve G R_login r w = (resp, w1)" and "gr_status resp = 200"
  shows "(\<exists>req a access refresh n. ReadProto (gc_maxBodySize (gw_cfg G)) (pj_LoginRequest (gw_json G)) (hq_body r) = Inr req \<and>
      pg_accounts w (ar_Email req) = Some a \<and> bcrypt_Compare (lib_bcrypt L) (acc_PasswordHash a) (ar_Password req) \<and>
      gr_body resp = Some (JObj [(''user_id'', JStr (uuid_String (lib_uuid L) (acc_ID a)))]) \<and>
      gr_cookies resp = setAuthCookies access refresh (gc_secure (gw_cfg G)) \<and> calls w \<le> n \<and> n < calls w1 \<and>
      (\<forall>r2 (w2 :: 'z auth_world_scheme). hq_cookie r2 ''access_token'' = Some access \<longrightarrow>
         bearer G r2 w2 = (if now_in w2 div second < (clock_at (env w) n + cfg_accessTTL C) div second
           then Some (uuid_String (lib_uuid L) (acc_ID a)) else None))) \<and>
    (\<forall>rt r2 (w2 :: 'z auth_world_scheme). protected rt \<longrightarrow>
       (case bearer G r2 w2 of
          None \<Rightarrow> gr_status (fst (gateway_serve G rt r2 w2)) = 401 \<and> snd (gateway_serve G rt r2 w2) = w2
        | Some u \<Rightarrow> \<forall>H. same_for u G H \<longrightarrow> gateway_serve H rt r2 w2 = gateway_serve G rt r2 w2))"
proof (intro conjI allI impI)
  fix rt r2 and w2 :: "'z auth_world_scheme"
  assume rt: "protected rt"
  show "case bearer G r2 w2 of
      None \<Rightarrow> gr_status (fst (gateway_serve G rt r2 w2)) = 401 \<and> snd (gateway_serve G rt r2 w2) = w2
    | Some u \<Rightarrow> \<forall>H. same_for u G H \<longrightarrow> gateway_serve H rt r2 w2 = gateway_serve G rt r2 w2"
  proof (cases "bearer G r2 w2")
    case None
    then show ?thesis using rt by (simp add: serve_protected WriteCode_status http_codes)
  next
    case (Some u)
    then show ?thesis using serve_same_for [OF rt Some] by simp
  qed
qed (rule login_session [OF assms])

section \<open>The way of an error\<close>

text \<open>An error of a service reaches the client of the gateway as the status of its code.\<close>

lemma service_error:
  assumes "grpc_status_ok (status_FromError L)" and "c \<in> set known_codes"
  shows "WriteError L (rpc_status L (StatusError c msg cause)) = WriteCode c"
proof -
  have "status_FromError L (rpc_status L (StatusError c msg cause)) = Some (ToGRPCCode c)"
    using assms(1) by (simp add: grpc_status_ok_def rpc_status_def GRPCStatus_of_def)
  from ToGRPCCode_inverse [where sfe = "status_FromError L" and e = "rpc_status L (StatusError c msg cause)", OF assms(2) this] show ?thesis by (simp add: WriteError_def)
qed

lemma client_error:
  assumes "grpc_status_ok (status_FromError (gw_grpc G))" and "c \<in> set known_codes" and "fault_at (env w) (calls w) = Works"
    and "m (tick w) = (r, w')" and "answers c r"
  shows "Recoverer (client_call G (grpc_call (gw_grpc G) m) k) w = (WriteCode c, w')"
  using assms(3-5) service_error [OF assms(1,2)]
  by (auto simp: answers_def Recoverer_def client_call_def tryE_def grpc_call_def ret_def)

text \<open>C22: What a login through the gateway answers when nothing fails: 400 to an invalid request, 503 past the limit
  of attempts, 200 when the account exists and the password matches, and otherwise 401, with the same body
  for an unknown address and for a wrong password.\<close>

theorem gateway_login:
  fixes G :: "('z auth_world_scheme) gateway"
  assumes "pg_accounts_ok w" and "jwt_ok (lib_jwt L)" and "grpc_status_ok (status_FromError (gw_grpc G))"
    and auth: "gw_auth G = NewAuthServiceClient (gw_grpc G) (auth_handler L C pgAccountRepository mail txt)"
    and body: "ReadProto (gc_maxBodySize (gw_cfg G)) (pj_LoginRequest (gw_json G)) (hq_body r) = Inr req"
    and calm: "auth_calm C ActionLogin (ar_Email req) (tick w)" and "no_nul (ar_Email req)"
  shows "case gateway_serve G R_login r w of (resp, w') \<Rightarrow>
    pg_accounts w' = pg_accounts w \<and>
    (if credential_violations mail req \<noteq> [] then resp = WriteCode CodeInvalidArgument
     else if over_limit C ActionLogin (ar_Email req) (tick w) then resp = WriteCode CodeUnavailable
     else if \<exists>a. pg_accounts w (ar_Email req) = Some a \<and> bcrypt_Compare (lib_bcrypt L) (acc_PasswordHash a) (ar_Password req)
     then gr_status resp = 200
     else resp = WriteCode CodeUnauthenticated)"
proof -
  let ?m = "authHandler_Login (auth_handler L C pgAccountRepository mail txt) req"
  let ?k = "\<lambda>x. with_cookies (setAuthCookies (aresp_AccessToken x) (aresp_RefreshToken x) (gc_secure (gw_cfg G)))
         (WriteJSON 200 (JObj [(''user_id'', JStr (aresp_UserId x))]))"
  have ok: "pg_accounts_ok (tick w)" "pg_accounts (tick w) = pg_accounts w"
    using assms(1) accounts_tick [of w] by (simp_all add: pg_accounts_ok_def tick_def)
  have works: "fault_at (env w) (calls w) = Works"
    using calm unfolding auth_calm_def by simp
  have serve: "gateway_serve G R_login r w = Recoverer (client_call G (grpc_call (gw_grpc G) ?m) ?k) w"
    by (simp add: gateway_serve_def gw_login_def with_body_def body auth NewAuthServiceClient_def)
  obtain x w' where x: "?m (tick w) = (x, w')" by fastforce
  note spec = wpD [OF pga.login_handler_wp [OF ok(1) assms(2), of C mail "txt" req] x]
  have same: "pg_accounts w' = pg_accounts w" using spec ok(2) by (cases x) auto
  have codes: "CodeInvalidArgument \<in> set known_codes" "CodeUnavailable \<in> set known_codes" "CodeUnauthenticated \<in> set known_codes"
    by (simp_all add: known_codes_def)
  show ?thesis
  proof (cases x)
    case (Inr resp)
    then have "gateway_serve G R_login r w = (?k resp, w')"
      using x works by (simp add: serve Recoverer_def client_call_def tryE_def grpc_call_def ret_def)
    then show ?thesis using spec Inr same ok(2) calm by (auto simp: WriteCode_status auth_calm_def)
  next
    case (Inl e)
    have reply: "gateway_serve G R_login r w = (WriteCode c, w')" if "answers c x" "c \<in> set known_codes" for c
      unfolding serve
      by (rule client_error [where c = c and k = ?k and m = ?m and w = w and G = G and r = x and w' = w']) (use assms(3) that works x in simp_all)
    show ?thesis
      using spec Inl same ok(2) calm assms(7)
      by (auto simp: pga.may_enter_def dest!: reply [unfolded Inl, OF _ codes(1)] reply [unfolded Inl, OF _ codes(2)] reply [unfolded Inl, OF _ codes(3)] split: if_splits)
  qed
qed

section \<open>Tickets\<close>

lemma vk_do_Inr:
  assumes "vk_do c w = (Inr x, w')"
  shows "\<exists>db. c (now_in w) (uuid_in w) (vk w) = Inr (x, db) \<and> w' = put_vk db (tick w)"
  using assms by (auto simp: vk_do_def pool_call_def ext_call_def run_stmt_def split: fault.splits sum.splits prod.splits)

text \<open>A ticket that was handed out.\<close>

lemma ticket_created:
  assumes "gateway_serve G R_createTicket r w = (resp, w1)" and "gr_status resp = 201"
  obtains u n where "bearer G r w = Some u" "uuid_Parse (gw_uuid G) u \<noteq> None" "calls w \<le> n" "n < calls w1"
    "gr_body resp = Some (JObj [(''ticket'', JStr (uuid_String (gw_uuid G) (uuid_at (env w) n)))])"
    "vk w1 (GatewayWSTicketKey (uuid_String (gw_uuid G) (uuid_at (env w) n))) =
       Some (VStr u, Some (clock_at (env w) n + Seconds (gc_ticketTTL (gw_cfg G)) * second))"
proof -
  have rt: "protected R_createTicket" by simp
  obtain u where u: "bearer G r w = Some u"
    using assms by (cases "bearer G r w") (auto simp: serve_protected [OF rt] WriteCode_status http_codes)
  obtain m w2 where hit: "gw_hit G u (now_in w) w = (m, w2)" by fastforce
  have w2: "env w2 = env w" "calls w2 = Suc (calls w)"
    using hit vk_do_hit [of "user_key G" "Seconds (gc_window (gw_cfg G))" u w]
      vk_do_env(1,2) [of "IncrWithExpiryScript (user_key G u) (Seconds (gc_window (gw_cfg G)))" w]
    by (auto simp: gw_hit_def split: prod.splits sum.splits)
  let ?t = "uuid_String (gw_uuid G) (uuid_in w2)"
  let ?set = "vk_do (SET_EX (GatewayWSTicketKey ?t) u (Seconds (gc_ticketTTL (gw_cfg G)))) w2"
  have cx: "cx_userID (user_ctx G r w u) = Some u" by (simp add: user_ctx_def)
  have "uuid_Parse (gw_uuid G) u \<noteq> None \<and> fst ?set = Inr () \<and> w1 = snd ?set \<and> gr_body resp = Some (JObj [(''ticket'', JStr ?t)])"
    using assms
    by (auto simp: serve_protected [OF rt] u limiter_run hit createTicket_def with_user_Some [OF cx] Let_def tryE_def ret_def
        WriteCode_status http_codes with_header_def WriteJSON_def WriteCode_def
        split: if_splits prod.splits sum.splits)
  then obtain db where "SET_EX (GatewayWSTicketKey ?t) u (Seconds (gc_ticketTTL (gw_cfg G))) (now_in w2) (uuid_in w2) (vk w2) = Inr ((), db)"
      and rest: "w1 = put_vk db (tick w2)" "uuid_Parse (gw_uuid G) u \<noteq> None" "gr_body resp = Some (JObj [(''ticket'', JStr ?t)])"
    using vk_do_Inr by (metis prod.collapse)
  then have "vk w1 (GatewayWSTicketKey ?t) = Some (VStr u, Some (now_in w2 + Seconds (gc_ticketTTL (gw_cfg G)) * second))"
    by (auto simp: SET_EX_def split: if_splits)
  then show ?thesis using that [of u "calls w2"] u rest w2 by (simp add: now_in_def uuid_in_def)
qed

text \<open>Presenting a ticket when Valkey answers.\<close>

lemma present_ticket:
  assumes "q_ticket q \<noteq> []" and "length (q_ticket q) \<le> 256" and "fault_at (env w) (calls w) = Works"
  shows "fst (HandleWS U cfg q w) =
    (case ticket_at (now_in w) w (q_ticket q) of
       None \<Rightarrow> WsRejected (writeError CodeUnauthenticated ''invalid or expired ticket'')
     | Some u \<Rightarrow>
         if q_room_id q \<noteq> [] \<and> uuid_Parse U (q_room_id q) = None then WsRejected (writeError CodeInvalidArgument ''invalid room_id format'')
         else if \<not> q_upgradable q then WsNotUpgraded else WsUpgraded (ws_next w) u)"
  using assms
  by (auto simp: HandleWS_def Let_def ws_validateTicket_def tryE_def fail_def ret_def vk_do_def pool_call_def ext_call_def run_stmt_def
      GETDEL_def ToString_def ticket_at_def token_at_def put_vk_def tick_def split: option.splits)

lemma validate_ticket:
  assumes "hq_header rv ''X-Ws-Ticket'' = ticket" and "ticket \<noteq> []" and "fault_at (env w) (calls w) = Works"
    and "ticket_at (now_in w) w ticket = Some u"
  shows "gateway_serve G R_validateTicket rv w =
    (with_header ''X-User-Id'' u (WriteJSON 200 (JObj [(''user_id'', JStr u)])),
     put_vk ((vk w)(GatewayWSTicketKey ticket := None)) (tick w))"
  using assms
  by (auto simp: gateway_serve_def Recoverer_def gw_validateTicket_def Let_def tryE_def ret_def vk_do_def pool_call_def ext_call_def
      run_stmt_def GETDEL_def ToString_def ticket_at_def token_at_def)

text \<open>C21: The ticket of a user.  The gateway hands a ticket to the bearer of a valid token only; in any later
  state in which it has not been used and when Valkey answers, presenting it to the websocket service
  opens a connection of exactly that user until the ticket expires, and is refused with 401 afterwards.
  When the ticket is validated at the gateway first, as the proxy in front of the websocket service does,
  that validation names the user, and the connection itself is then always refused.\<close>

theorem ticket_session:
  fixes G :: "('z ws_world_scheme) gateway"
  assumes "uuid_lib_ok (gw_uuid G)" and "gateway_serve G R_createTicket r w = (resp, w1)" and "gr_status resp = 201"
  shows "\<exists>u n. bearer G r w = Some u \<and> calls w \<le> n \<and> n < calls w1 \<and>
    (let ticket = uuid_String (gw_uuid G) (uuid_at (env w) n);
         expiry = clock_at (env w) n + Seconds (gc_ticketTTL (gw_cfg G)) * second
     in gr_body resp = Some (JObj [(''ticket'', JStr ticket)]) \<and>
       (\<forall>(w2 :: 'z ws_world_scheme) q U cfg.
          vk w2 (GatewayWSTicketKey ticket) = vk w1 (GatewayWSTicketKey ticket) \<and> fault_at (env w2) (calls w2) = Works \<and>
          q_ticket q = ticket \<and> length ticket \<le> 256 \<and> q_upgradable q \<and> (q_room_id q = [] \<or> uuid_Parse U (q_room_id q) \<noteq> None) \<longrightarrow>
          fst (HandleWS U cfg q w2) =
            (if now_in w2 < expiry then WsUpgraded (ws_next w2) u
             else WsRejected (writeError CodeUnauthenticated ''invalid or expired ticket''))) \<and>
       (\<forall>(w2 :: 'z ws_world_scheme) rv.
          vk w2 (GatewayWSTicketKey ticket) = vk w1 (GatewayWSTicketKey ticket) \<and> fault_at (env w2) (calls w2) = Works \<and>
          hq_header rv ''X-Ws-Ticket'' = ticket \<and> now_in w2 < expiry \<longrightarrow>
          (case gateway_serve G R_validateTicket rv w2 of (answer, w3) \<Rightarrow>
             gr_status answer = 200 \<and> (''X-User-Id'', u) \<in> set (gr_headers answer) \<and>
             (\<forall>q U cfg. q_ticket q = ticket \<and> length ticket \<le> 256 \<and> fault_at (env w3) (calls w3) = Works \<longrightarrow>
                fst (HandleWS U cfg q w3) = WsRejected (writeError CodeUnauthenticated ''invalid or expired ticket'')))))"
  using assms(2,3)
proof (cases rule: ticket_created)
  case (1 u n)
  let ?ticket = "uuid_String (gw_uuid G) (uuid_at (env w) n)"
  let ?expiry = "clock_at (env w) n + Seconds (gc_ticketTTL (gw_cfg G)) * second"
  have some: "?ticket \<noteq> []" using assms(1) by (simp add: uuid_lib_ok_def)
  have held: "ticket_at (now_in w2) w2 ?ticket = (if now_in w2 < ?expiry then Some u else None)"
    if "vk w2 (GatewayWSTicketKey ?ticket) = vk w1 (GatewayWSTicketKey ?ticket)" for w2 :: "'z ws_world_scheme"
    using that 1(6) by (simp add: ticket_at_def token_at_def live_def vk_text_def)
  have gone: "ticket_at t (put_vk ((vk w2)(GatewayWSTicketKey ?ticket := None)) (tick w2)) ?ticket = None" for t and w2 :: "'z ws_world_scheme"
    by (simp add: ticket_at_def token_at_def live_def)
  show ?thesis
    unfolding Let_def
  proof (intro exI [of _ u] exI [of _ n] conjI allI impI, goal_cases)
    case (5 w2 q U cfg)
    then show ?case using present_ticket [of q w2 U cfg] some held [of w2] by auto
  next
    case (6 w2 rv)
    then have "gateway_serve G R_validateTicket rv w2 =
        (with_header ''X-User-Id'' u (WriteJSON 200 (JObj [(''user_id'', JStr u)])),
         put_vk ((vk w2)(GatewayWSTicketKey ?ticket := None)) (tick w2))"
      by (intro validate_ticket) (auto simp: some held)
    moreover have "fst (HandleWS U cfg q (put_vk ((vk w2)(GatewayWSTicketKey ?ticket := None)) (tick w2))) =
        WsRejected (writeError CodeUnauthenticated ''invalid or expired ticket'')"
      if "q_ticket q = ?ticket" "length ?ticket \<le> 256" "fault_at (env w2) (Suc (calls w2)) = Works" for q U cfg
      using that some by (subst present_ticket) (simp_all add: gone)
    ultimately show ?case by (auto simp: with_header_def WriteJSON_def)
  qed (use 1 in simp_all)
qed


section \<open>A small gateway\<close>

definition no_service :: "'r \<Rightarrow> 'q \<Rightarrow> ('w, 'a) op" where
  "no_service rid q = fail (Errorf [])"

definition no_auth :: "'w AuthServiceClient" where
  "no_auth = \<lparr>ac_Register = no_service, ac_Login = no_service, ac_Logout = no_service, ac_RefreshToken = no_service\<rparr>"

definition sample_json :: proto_json where
  "sample_json = \<lparr>pj_RegisterRequest = \<lambda>_. None, pj_LoginRequest = \<lambda>_. Some sample_credentials, pj_CreateRoomRequest = \<lambda>_. None,
     pj_UpdateRoomRequest = \<lambda>_. None, pj_AddMemberRequest = \<lambda>_. None, pj_SendMessageRequest = \<lambda>_. None, pj_UpdateUserRequest = \<lambda>_. None,
     pj_Room = \<lambda>_. None, pj_Message = \<lambda>_. None, pj_Messages = \<lambda>_. None, pj_User = \<lambda>_. None, ej_Rooms = \<lambda>_. JNull\<rparr>"

definition sample_gateway_config :: GatewayConfig where
  "sample_gateway_config =
     \<lparr>gcfg_Env = EnvProduction, gcfg_LogLevel = ''info'', gcfg_Port = ''8080'', gcfg_MaxBodySize = 0, gcfg_Shutdown = 30 * second,
      gcfg_ReadHeader = 5 * second, gcfg_GRPC = 10 * second, gcfg_CacheAddr = [], gcfg_CachePass = [], gcfg_Secret = ''s'',
      gcfg_WSTicketTTL = 30 * second, gcfg_Requests = 5, gcfg_Window = 60 * second, gcfg_Auth = [], gcfg_User = [], gcfg_Room = [],
      gcfg_Message = []\<rparr>"

lemma sample_config_loads: "gateway_Load (\<lambda>_. Some sample_gateway_config) path = Inr sample_gateway_config"
  by (simp add: gateway_Load_def checked_Inr default_to_def sample_gateway_config_def Environment_Validate_def GatewayConfig_Validate_def second_def)

definition sample_gateway :: "'w AuthServiceClient \<Rightarrow> 'w gateway" where
  "sample_gateway A =
     \<lparr>gw_cfg = gateway_settings sample_gateway_config,
      gw_grpc = sample_grpc, gw_uuid = sample_uuids, gw_jwt = sample_jwt, gw_json = sample_json, gw_auth = A,
      gw_user = \<lparr>uc_GetUser = no_service, uc_UpdateUser = no_service\<rparr>,
      gw_room = \<lparr>rsc_GetUserRooms = no_service, rsc_CreateRoom = no_service, rsc_GetRoom = no_service, rsc_UpdateRoom = no_service,
        rsc_DeleteRoom = no_service, rsc_AddMember = no_service, rsc_RemoveMember = no_service\<rparr>,
      gw_message = \<lparr>mc_SendMessage = no_service, mc_GetMessages = no_service\<rparr>, gw_ready = True\<rparr>"

definition sample_token :: string where
  "sample_token = the (jwt_Sign sample_jwt (access_claims sample_uuids 7 0 (60 * second)) ''s'')"

definition sample_http :: http_request where
  "sample_http = \<lparr>hq_header = \<lambda>_. [], hq_cookie = [''access_token'' \<mapsto> sample_token], hq_query = \<lambda>_. [], hq_body = ([], None)\<rparr>"

lemma sample_gateway_simps [simp]:
  "gw_jwt (sample_gateway A) = sample_jwt" "gw_uuid (sample_gateway A) = sample_uuids" "gc_secret (gw_cfg (sample_gateway A)) = ''s''"
  "gw_auth (sample_gateway A) = A" "gw_grpc (sample_gateway A) = sample_grpc" "gc_requests (gw_cfg (sample_gateway A)) = 5" "Seconds (gc_window (gw_cfg (sample_gateway A))) = 60"
  "Seconds (gc_ticketTTL (gw_cfg (sample_gateway A))) = 30" "hq_body sample_http = ([], None)"
  "ReadProto (gc_maxBodySize (gw_cfg (sample_gateway A))) (pj_LoginRequest (gw_json (sample_gateway A))) ([], None) = Inr sample_credentials"
  by (simp_all add: sample_gateway_def gateway_settings_def sample_gateway_config_def SetMaxBodySize_def Seconds_def second_def sample_http_def ReadProto_def read_limited_def default_maxBodySize_def sample_json_def)

lemma sample_bearer: "bearer (sample_gateway A) sample_http w = (if now_in w div second < 60 then Some (uuid_String sample_uuids 7) else None)"
proof -
  obtain tok where tok: "jwt_Sign sample_jwt (token_claims (uuid_String sample_uuids 7) 60 0) ''s'' = Some tok"
      "\<forall>now. jwt_Parse sample_jwt tok ''s'' now = (if now < 60 then Some (token_claims (uuid_String sample_uuids 7) 60 0) else None)"
    using sample_jwt_ok unfolding jwt_ok_def by blast
  have claims: "access_claims sample_uuids 7 0 (60 * second) = token_claims (uuid_String sample_uuids 7) 60 0"
    by (simp add: access_claims_def second_def)
  show ?thesis
    by (rule bearer_of_token [OF sample_uuids_ok, where tok = tok and userID = 7 and t = 0 and ttl = "60 * second"])
      (use tok in \<open>simp_all add: sample_http_def sample_token_def claims\<close>)
qed

lemma sample_sparing: "sparing_clients (sample_gateway no_auth)"
  by (simp add: sparing_clients_def sample_gateway_def no_auth_def no_service_def steps_intros)

theorem gateway_rate_limit_witness:
  "passes (sample_gateway no_auth) (uuid_String sample_uuids 7) (replicate 30 (R_me, sample_http)) token_world \<le> 10"
proof -
  have "counters_ok (user_key (sample_gateway no_auth)) token_world"
    using not_sym [OF keys_apart(2)] by (simp add: counters_ok_def user_key_def token_world_def counter_entry_def)
  moreover have "clock_at (env token_world) i = 0" for i by (simp add: token_world_def auth_env_def)
  ultimately show ?thesis
    using gateway_rate_limit [OF sample_config_loads _ sample_sparing, of token_world "replicate 30 (R_me, sample_http)" "uuid_String sample_uuids 7"]
    by (simp add: second_def sample_gateway_def sample_gateway_config_def Seconds_def)
qed


definition sample_auth_client :: "auth_world AuthServiceClient" where
  "sample_auth_client = NewAuthServiceClient sample_grpc (auth_handler sample_libs sample_auth_config pgAccountRepository (\<lambda>_. True) concat)"

theorem gateway_session_witness:
  "\<exists>resp w1 access. gateway_serve (sample_gateway sample_auth_client) R_login sample_http one_account = (resp, w1) \<and>
    gr_body resp = Some (JObj [(''user_id'', JStr (uuid_String sample_uuids 7))]) \<and>
    bearer (sample_gateway sample_auth_client) (sample_http\<lparr>hq_cookie := [''access_token'' \<mapsto> access]\<rparr>) one_account = Some (uuid_String sample_uuids 7)"
proof -
  let ?H = "auth_handler sample_libs sample_auth_config pgAccountRepository (\<lambda>_. True) concat"
  let ?G = "sample_gateway sample_auth_client"
  have match: "bcrypt_Compare (lib_bcrypt sample_libs) ''password'' ''password''" by (simp add: sample_libs_def sample_bcrypt_def)
  have w: "pg_accounts_ok (tick one_account)" "pg_accounts (tick one_account) = pg_accounts one_account"
    "vk (tick one_account) = Map.empty" "calm (tick one_account)"
    using sample_auth_worlds(2) accounts_tick [of one_account] by (simp_all only: pg_accounts_ok_def accounts_tick put_vk_simps sample_vk calm_simps sample_auth_calm)
      (simp_all add: tick_def)
  obtain x w1 where x: "authHandler_Login ?H sample_credentials (tick one_account) = (x, w1)" by fastforce
  then obtain resp where "x = Inr resp"
    using wpD [OF pga.login_handler_wp [OF w(1), of sample_libs sample_auth_config "\<lambda>_. True" concat sample_credentials] x]
      auth_calm_fresh [OF w(4,3), of ActionLogin "''a@b''"] w(2) match
    by (cases x) (auto simp: pga.may_enter_def)
  moreover have "fault_at (env one_account) (calls one_account) = Works" by (rule calm_simps(1)) simp
  ultimately have call: "grpc_call sample_grpc (authHandler_Login ?H sample_credentials) one_account = (Inr resp, w1)"
    using x by (simp add: grpc_call_def)
  obtain reply w2 where run: "gateway_serve ?G R_login sample_http one_account = (reply, w2)" by fastforce
  have ok: "gr_status reply = 200"
    using run call
    by (auto simp: gateway_serve_def gw_login_def with_body_def client_call_def sample_auth_client_def NewAuthServiceClient_def Recoverer_def
        tryE_def ret_def with_cookies_def WriteJSON_def)
  have early: "now_in one_account div second < (clock_at (env one_account) n + cfg_accessTTL sample_auth_config) div second" for n
    by (simp add: now_in_def one_account_def no_accounts_def auth_env_def sample_auth_config_def second_def)
  have same: "gw_jwt ?G = lib_jwt sample_libs" "gc_secret (gw_cfg ?G) = cfg_secret sample_auth_config" "uuid_lib_ok (lib_uuid sample_libs)"
    using sample_uuids_ok by (simp_all add: sample_libs_def sample_auth_config_def)
  have auth: "gw_auth ?G = NewAuthServiceClient sample_grpc ?H" by (simp add: sample_auth_client_def)
  obtain req a access n where a: "ReadProto (gc_maxBodySize (gw_cfg ?G)) (pj_LoginRequest (gw_json ?G)) (hq_body sample_http) = Inr req"
      "pg_accounts one_account (ar_Email req) = Some a"
      "gr_body reply = Some (JObj [(''user_id'', JStr (uuid_String (lib_uuid sample_libs) (acc_ID a)))])"
      "\<forall>r2 v. hq_cookie r2 ''access_token'' = Some access \<longrightarrow> bearer ?G r2 v = (if now_in v div second <
        (clock_at (env one_account) n + cfg_accessTTL sample_auth_config) div second
        then Some (uuid_String (lib_uuid sample_libs) (acc_ID a)) else None)"
    using gateway_session [OF same(3) sample_libs_ok(1) sample_auth_worlds(2) auth same(1,2) run ok, THEN conjunct1] by blast
  have "req = sample_credentials" using a(1) by simp
  then have "acc_ID a = 7" using a(2) by auto
  moreover have "bearer ?G (sample_http\<lparr>hq_cookie := [''access_token'' \<mapsto> access]\<rparr>) one_account = Some (uuid_String (lib_uuid sample_libs) (acc_ID a))"
    using a(4) early [of n] by simp
  ultimately show ?thesis using run a(3) by auto
qed

lemma sample_grpc_ok: "grpc_status_ok (status_FromError sample_grpc)"
  by (simp add: grpc_status_ok_def sample_grpc_def GRPCStatus_of_def)

theorem gateway_login_witness:
  "fst (gateway_serve (sample_gateway sample_auth_client) R_login sample_http no_accounts) = WriteCode CodeUnauthenticated"
proof -
  let ?H = "auth_handler sample_libs sample_auth_config pgAccountRepository (\<lambda>_. True) concat"
  let ?G = "sample_gateway sample_auth_client"
  have w: "pg_accounts_ok no_accounts" "pg_accounts no_accounts = Map.empty" "vk (tick no_accounts) = Map.empty" "calm (tick no_accounts)"
    by (simp_all only: sample_auth_worlds put_vk_simps sample_vk calm_simps sample_auth_calm)
  have auth: "gw_auth ?G = NewAuthServiceClient (gw_grpc ?G) ?H" by (simp add: sample_auth_client_def)
  have req: "ReadProto (gc_maxBodySize (gw_cfg ?G)) (pj_LoginRequest (gw_json ?G)) (hq_body sample_http) = Inr sample_credentials" by simp
  obtain resp w1 where run: "gateway_serve ?G R_login sample_http no_accounts = (resp, w1)" by fastforce
  show ?thesis
    using gateway_login [OF w(1) sample_libs_ok(1) _ auth req] sample_grpc_ok auth_calm_fresh [OF w(4,3), of ActionLogin "''a@b''"] w(2) run
    by simp
qed

definition ticket_world :: ws_world where
  "ticket_world = ws_start 8 \<lparr>fault_at = \<lambda>_. Works, clock_at = \<lambda>n. int n, uuid_at = \<lambda>n. of_nat (n + 1), cancelled_at = \<lambda>_. False\<rparr>"

lemma ticket_world_simps [simp]:
  "vk ticket_world = Map.empty" "fault_at (env ticket_world) n = Works" "calls ticket_world = 0" "now_in ticket_world = 0"
  by (simp_all add: ticket_world_def ws_start_def now_in_def)

lemma ticket_world_create: "gr_status (fst (gateway_serve (sample_gateway no_auth) R_createTicket sample_http ticket_world)) = 201"
proof -
  let ?G = "sample_gateway no_auth :: ws_world gateway"
  have u: "bearer ?G sample_http ticket_world = Some (uuid_String sample_uuids 7)" by (simp add: sample_bearer)
  have cx: "cx_userID (user_ctx ?G r w v) = Some v" for r w v by (simp add: user_ctx_def)
  have parse: "uuid_Parse sample_uuids (uuid_String sample_uuids 7) = Some 7" "uuid_String sample_uuids 7 \<noteq> []"
    using sample_uuids_ok by (simp_all add: uuid_lib_ok_def)
  have rt: "protected R_createTicket" by simp
  have hit: "gw_hit ?G v 0 ticket_world = (Some 1, put_vk [user_key ?G v \<mapsto> (VInt 1, Some (60 * second))] (tick ticket_world))" for v
    by (simp add: gw_hit_def hit_script_def ext_call_def run_stmt_def vk_cmd_defs live_def)
  show ?thesis
    by (simp add: serve_protected [OF rt] u limiter_run hit createTicket_def with_user_Some [OF cx] parse Let_def tryE_def ret_def
      vk_do_def pool_call_def ext_call_def run_stmt_def SET_EX_def WriteCode_status)
qed

theorem ticket_session_witness:
  "\<exists>resp w1 ticket. gateway_serve (sample_gateway no_auth) R_createTicket sample_http ticket_world = (resp, w1) \<and>
    gr_body resp = Some (JObj [(''ticket'', JStr ticket)])"
proof -
  obtain resp w1 where run: "gateway_serve (sample_gateway no_auth) R_createTicket sample_http ticket_world = (resp, w1)" by fastforce
  have ok: "uuid_lib_ok (gw_uuid (sample_gateway no_auth))" and "gr_status resp = 201"
    using sample_uuids_ok ticket_world_create run by simp_all
  from ticket_session [OF ok(1) run this(2)] run show ?thesis by (auto simp: Let_def)
qed


end
