(* ===== verification/Loggers.thy ===== *)
theory Loggers
  imports Config
begin

text \<open>
  \<open>shared/pkg/logger\<close>: the levels, the logger a process makes, and the logger a context carries.

  Of \<open>log/slog\<close> the code uses the JSON handler, which writes a line for a record whose level is at
  least the handler's, and nothing for others; the text of a line is not modelled.  A context is the list of
  the values that were put into it, the latest first, as \<open>Value\<close> searches it.
\<close>

section \<open>Levels\<close>

datatype Level = LevelDebug | LevelInfo | LevelWarn | LevelError

text \<open>The numbers of \<open>slog\<close>.\<close>

fun severity :: "Level \<Rightarrow> int" where
  "severity LevelDebug = -4"
| "severity LevelInfo = 0"
| "severity LevelWarn = 4"
| "severity LevelError = 8"

definition ParseLevel :: "string \<Rightarrow> Level \<times> error option" where
  "ParseLevel s =
     (let t = List.map ascii_lower s
      in if t = ''debug'' then (LevelDebug, None)
         else if t = ''info'' then (LevelInfo, None)
         else if t = ''warn'' then (LevelWarn, None)
         else if t = ''error'' then (LevelError, None)
         else (LevelInfo, Some (Errorf (''unknown log level '' @ s))))"

text \<open>A text that is no level is an error, and means \<open>info\<close>.\<close>

lemma ParseLevel_error: "ParseLevel s = (level, Some e) \<Longrightarrow> level = LevelInfo"
  by (auto simp: ParseLevel_def Let_def split: if_splits)

lemma ParseLevel_known:
  "snd (ParseLevel s) = None \<longleftrightarrow> List.map ascii_lower s \<in> {''debug'', ''info'', ''warn'', ''error''}"
  by (simp add: ParseLevel_def Let_def)

section \<open>Loggers\<close>

text \<open>Where a logger writes to; \<open>Sink\<close> is any other writer, known by a number.\<close>

datatype writer = Stdout | Sink nat

record Options =
  opt_Level :: Level
  opt_Output :: "writer option"

record Logger =
  handler_Level :: Level
  handler_Output :: writer

definition logger_New :: "Options \<Rightarrow> Logger" where
  "logger_New opts =
     (let output = (case opt_Output opts of None \<Rightarrow> Stdout | Some out \<Rightarrow> out)
      in \<lparr>handler_Level = opt_Level opts, handler_Output = output\<rparr>)"

text \<open>The writer that gets the line of a record, if any does.\<close>

definition line_to :: "Logger \<Rightarrow> Level \<Rightarrow> writer option" where
  "line_to l level = (if severity (handler_Level l) \<le> severity level then Some (handler_Output l) else None)"

text \<open>Errors are written by every logger, and a record that one logger writes every more verbose one writes, too.\<close>

lemma line_to_error: "line_to l LevelError = Some (handler_Output l)"
  by (cases "handler_Level l") (simp_all add: line_to_def)

lemma line_to_verbose:
  assumes "severity (opt_Level opts') \<le> severity (opt_Level opts)" and "line_to (logger_New opts) level \<noteq> None"
  shows "line_to (logger_New opts') level \<noteq> None"
  using assms by (simp add: line_to_def logger_New_def Let_def split: if_splits)

section \<open>Loggers in contexts\<close>

text \<open>The key is a type of the package, so no other package can put a value under it.  A logger is a
  pointer, which may be nil (\<open>None\<close>).\<close>

datatype context_key = ContextKey | OtherKey nat

datatype context_value = LoggerValue "Logger option" | OtherValue nat

type_synonym ctx = "(context_key \<times> context_value) list"

definition WithContext :: "ctx \<Rightarrow> Logger option \<Rightarrow> ctx" where
  "WithContext ctx logger = (ContextKey, LoggerValue logger) # ctx"

definition FromContext :: "Logger \<Rightarrow> ctx \<Rightarrow> Logger option" where
  "FromContext slog_Default ctx =
     (case map_of ctx ContextKey of
        Some (LoggerValue logger) \<Rightarrow> logger
      | _ \<Rightarrow> Some slog_Default)"

text \<open>The latest logger is found, whatever else is put into the context after it; without one it is the
  default.\<close>

lemma FromContext_WithContext:
  assumes "\<forall>kv \<in> set later. fst kv \<noteq> ContextKey"
  shows "FromContext d (later @ WithContext ctx logger) = logger"
proof -
  have "map_of later ContextKey = None" using assms by (force simp: map_of_eq_None_iff)
  then show ?thesis by (simp add: FromContext_def WithContext_def map_add_def)
qed

lemma FromContext_default: "\<forall>kv \<in> set ctx. fst kv \<noteq> ContextKey \<Longrightarrow> FromContext d ctx = Some d"
proof -
  assume "\<forall>kv \<in> set ctx. fst kv \<noteq> ContextKey"
  then have "map_of ctx ContextKey = None" by (force simp: map_of_eq_None_iff)
  then show ?thesis by (simp add: FromContext_def)
qed

end
