(* ===== verification/Lifecycle.thy ===== *)
theory Lifecycle
  imports Streams Gateway AuthRequests Loggers
begin

text \<open>
  The processes: \<open>run\<close> of every \<open>cmd/main.go\<close>, with the functions of \<open>shared/pkg/nats\<close>
  that connect.

  A process leaves a trace of what it did.  A step that opens something carries the rest of the function as
  its argument, so that the deferred closing comes after the rest, however the rest ends.  While the servers
  run, what happens to them is a record \<open>ending\<close>: which error the main goroutine receives first, if not the
  signal, and how long stopping takes.  \<open>None\<close> is a run that does not return.
\<close>

section \<open>Traces\<close>

datatype resource =
    PgPool string
  | ValkeyClient string string
  | NatsConn string string string time int
  | GrpcConn string

datatype server = GrpcServer | HealthServer | HttpServer

text \<open>What a process does; \<open>Registered\<close> is what its server serves.\<close>

datatype 's action =
    LogLevel Level
  | Opened resource
  | Closed resource
  | Pinged resource
  | JetStreamReady
  | Provisioned "StreamConfig list"
  | HubRunning
  | Subscribed
  | Registered 's
  | Reflection
  | Listening server string
  | Serving server string
  | SetReady
  | Stopped server
  | ForceStopped server

record 's process = world +
  trace :: "'s action list"

definition did :: "'s action \<Rightarrow> ('s, 'z) process_scheme \<Rightarrow> ('s, 'z) process_scheme" where
  "did a w = w\<lparr>trace := trace w @ [a]\<rparr>"

text \<open>How \<open>run\<close> ends, and the exit status of \<open>main\<close>.\<close>

datatype outcome = RunOk | RunErr error | RunPanic

definition main_exit :: "outcome \<Rightarrow> nat" where
  "main_exit r = (case r of RunOk \<Rightarrow> 0 | RunErr _ \<Rightarrow> 1 | RunPanic \<Rightarrow> 2)"

type_synonym 'w proc = "'w \<Rightarrow> (outcome \<times> 'w) option"

section \<open>Steps of a process\<close>

definition doing :: "'s action \<Rightarrow> ('s, 'z) process_scheme proc \<Rightarrow> ('s, 'z) process_scheme proc" where
  "doing a p w = p (did a w)"

text \<open>\<open>if err := m; err != nil { return wrap err }\<close>.\<close>

definition trying :: "(error \<Rightarrow> error) \<Rightarrow> ('w, 'a) op \<Rightarrow> 'w proc \<Rightarrow> 'w proc" where
  "trying wrap m p w = (case m w of (Inl e, w') \<Rightarrow> Some (RunErr (wrap e), w') | (Inr _, w') \<Rightarrow> p w')"

definition calling :: "(error \<Rightarrow> error) \<Rightarrow> 's action \<Rightarrow> ('s, 'z) process_scheme proc \<Rightarrow> ('s, 'z) process_scheme proc" where
  "calling wrap a p = trying wrap (ext_call (\<lambda>w. (Inr (), w))) (doing a p)"

text \<open>\<open>r, err := open(...)\<close>, \<open>return wrap err\<close>, \<open>defer r.Close()\<close>; an attempt that reports an error leaves nothing
  open.\<close>

definition with_open :: "(error \<Rightarrow> error) \<Rightarrow> resource \<Rightarrow> ('s, 'z) process_scheme proc \<Rightarrow> ('s, 'z) process_scheme proc" where
  "with_open wrap r p =
     trying wrap (ext_call (\<lambda>w. (Inr (), w)))
       (\<lambda>w. case p (did (Opened r) w) of None \<Rightarrow> None | Some (res, w') \<Rightarrow> Some (res, did (Closed r) w'))"

text \<open>A step that may wait for ever.\<close>

definition awaiting :: "(error \<Rightarrow> error) \<Rightarrow> ('w \<Rightarrow> ((error + 'a) \<times> 'w) option) \<Rightarrow> ('a \<Rightarrow> 'w proc) \<Rightarrow> 'w proc" where
  "awaiting wrap m p w =
     (case m w of None \<Rightarrow> None | Some (Inl e, w') \<Rightarrow> Some (RunErr (wrap e), w') | Some (Inr x, w') \<Rightarrow> p x w')"

section \<open>Shared parts\<close>

definition config_path :: "string \<Rightarrow> string" where
  "config_path configPath = (if configPath = [] then ''config.yaml'' else configPath)"

definition log_level :: "string \<Rightarrow> Level" where
  "log_level s = (case ParseLevel s of (logLevel, None) \<Rightarrow> logLevel | (_, Some _) \<Rightarrow> LevelInfo)"

definition configured :: "(error + 'c) \<Rightarrow> ('c \<Rightarrow> string) \<Rightarrow> ('c \<Rightarrow> ('s, 'z) process_scheme proc) \<Rightarrow> ('s, 'z) process_scheme proc" where
  "configured load level p w =
     (case load of Inl e \<Rightarrow> Some (RunErr (Wrap ''load config'' e), w) | Inr cfg \<Rightarrow> doing (LogLevel (log_level (level cfg))) (p cfg) w)"

text \<open>\<open>Connect\<close> and \<open>New\<close> of the nats package; each wraps the error of its library, and the caller wraps that.\<close>

definition nats_conn :: "NATSConfig \<Rightarrow> resource" where
  "nats_conn cfg = NatsConn (nats_URL cfg) (nats_User cfg) (nats_Pass cfg) (nats_ReconnectWait cfg) (nats_MaxReconnects cfg)"

definition nats_Connect :: "(error \<Rightarrow> error) \<Rightarrow> NATSConfig \<Rightarrow> ('s, 'z) process_scheme proc \<Rightarrow> ('s, 'z) process_scheme proc" where
  "nats_Connect wrap cfg = with_open (\<lambda>e. wrap (Wrap ''connect to nats'' e)) (nats_conn cfg)"

definition nats_New :: "(error \<Rightarrow> error) \<Rightarrow> ('s, 'z) process_scheme proc \<Rightarrow> ('s, 'z) process_scheme proc" where
  "nats_New wrap = calling (\<lambda>e. wrap (Wrap ''create jetstream context'' e)) JetStreamReady"

definition postgres :: "string \<Rightarrow> ('s, 'z) process_scheme proc \<Rightarrow> ('s, 'z) process_scheme proc" where
  "postgres dsn p = with_open (Wrap ''connect to postgres'') (PgPool dsn) (calling (Wrap ''ping postgres'') (Pinged (PgPool dsn)) p)"

definition provisioning :: "(StreamConfig \<Rightarrow> (('s, 'z) process_scheme, unit) op) \<Rightarrow> StreamConfig list
    \<Rightarrow> ('s, 'z) process_scheme proc \<Rightarrow> ('s, 'z) process_scheme proc" where
  "provisioning create streams p =
     trying (Wrap ''provision nats streams'') (ProvisionStreams create streams) (doing (Provisioned streams) p)"

definition reflected :: "Environment \<Rightarrow> ('s, 'z) process_scheme proc \<Rightarrow> ('s, 'z) process_scheme proc" where
  "reflected e p = (if e = EnvDevelopment then doing Reflection p else p)"

text \<open>What happens while the servers run.\<close>

record ending =
  first_error :: "(server \<times> error) option"
  graceful_takes :: "time option"
  shutdown_takes :: "time option"

definition within :: "time option \<Rightarrow> time \<Rightarrow> bool" where
  "within takes limit = (case takes of None \<Rightarrow> False | Some t \<Rightarrow> t < limit)"

text \<open>From the listeners to the end of \<open>run\<close>; the texts are those of the errors.\<close>

record texts =
  tx_grpcListen :: string
  tx_healthListen :: string
  tx_grpcServe :: string
  tx_healthServe :: string

definition grpc_wait :: "texts \<Rightarrow> TimeoutsConfig \<Rightarrow> ending \<Rightarrow> ('s, 'z) process_scheme proc" where
  "grpc_wait tx t E w =
     (case first_error E of
        Some (s, e) \<Rightarrow>
          (case graceful_takes E of
             None \<Rightarrow> None
           | Some _ \<Rightarrow> Some (RunErr (Wrap ''server error'' (Wrap (if s = GrpcServer then tx_grpcServe tx else tx_healthServe tx) e)),
               did (Stopped GrpcServer) w))
      | None \<Rightarrow>
          let w1 = did (if within (graceful_takes E) (to_GRPCGraceful t) then Stopped GrpcServer else ForceStopped GrpcServer) w
          in Some (RunOk, if within (shutdown_takes E) (to_Shutdown t) then did (Stopped HealthServer) w1 else w1))"

definition grpc_servers :: "texts \<Rightarrow> ServerConfig \<Rightarrow> TimeoutsConfig \<Rightarrow> ending \<Rightarrow> ('s, 'z) process_scheme proc" where
  "grpc_servers tx srv t E =
     calling (Wrap (tx_grpcListen tx)) (Listening GrpcServer ('':'' @ srv_GRPCPort srv))
    (calling (Wrap (tx_healthListen tx)) (Listening HealthServer (srv_HealthListenAddr srv))
    (doing (Serving GrpcServer ('':'' @ srv_GRPCPort srv))
    (doing (Serving HealthServer (srv_HealthListenAddr srv))
    (doing SetReady
    (grpc_wait tx t E)))))"

text \<open>The end of \<open>run\<close> behind HTTP: the server listens in a goroutine of its own.\<close>

definition http_wait :: "time \<Rightarrow> ending \<Rightarrow> ('s, 'z) process_scheme proc" where
  "http_wait shutdown E w =
     (case first_error E of
        Some (_, e) \<Rightarrow> Some (RunErr e, w)
      | None \<Rightarrow> Some (RunOk, if within (shutdown_takes E) shutdown then did (Stopped HttpServer) w else w))"

section \<open>The processes\<close>

definition common_texts :: texts where
  "common_texts = \<lparr>tx_grpcListen = ''grpc listen'', tx_healthListen = ''health listen'', tx_grpcServe = ''grpc serve'', tx_healthServe = ''health serve''\<rparr>"

definition message_texts :: texts where
  "message_texts = \<lparr>tx_grpcListen = ''create grpc listener'', tx_healthListen = ''create health listener'',
     tx_grpcServe = ''gRPC server error'', tx_healthServe = ''health server error''\<rparr>"

definition auth_run :: "auth_libs \<Rightarrow> (string \<Rightarrow> bool) \<Rightarrow> (string list \<Rightarrow> string) \<Rightarrow> (string \<Rightarrow> AuthConfig option) \<Rightarrow> string
    \<Rightarrow> (StreamConfig \<Rightarrow> ((('v auth_world_scheme) authHandler, 'z) process_scheme, unit) op) \<Rightarrow> ending
    \<Rightarrow> (('v auth_world_scheme) authHandler, 'z) process_scheme proc" where
  "auth_run L mail txt readConfig path create E =
     configured (auth_Load readConfig (config_path path)) acfg_LogLevel (\<lambda>cfg.
     postgres (acfg_DSN cfg)
    (with_open (Wrap ''connect to valkey'') (ValkeyClient (acfg_CacheAddr cfg) (acfg_CachePass cfg))
    (nats_Connect (Wrap ''connect to nats'') (acfg_NATS cfg)
    (nats_New (Wrap ''create jetstream context'')
    (provisioning create auth_Streams
    (calling (Wrap ''create auth handler'') (Registered (auth_handler L (auth_settings cfg) pgAccountRepository mail txt))
    (reflected (acfg_Env cfg)
    (grpc_servers common_texts (acfg_Server cfg) (acfg_Timeouts cfg) E))))))))"

definition room_run :: "uuid_lib \<Rightarrow> (string list \<Rightarrow> string) \<Rightarrow> (string \<Rightarrow> RoomConfig option) \<Rightarrow> string
    \<Rightarrow> (StreamConfig \<Rightarrow> ((('v room_world_scheme) roomHandler, 'z) process_scheme, unit) op) \<Rightarrow> ending
    \<Rightarrow> (('v room_world_scheme) roomHandler, 'z) process_scheme proc" where
  "room_run U txt readConfig path create E =
     configured (room_Load readConfig (config_path path)) rcfg_LogLevel (\<lambda>cfg.
     postgres (rcfg_DSN cfg)
    (nats_Connect (Wrap ''connect to nats'') (rcfg_NATS cfg)
    (nats_New (Wrap ''create jetstream context'')
    (provisioning create room_Streams
    (calling (Wrap ''create room handler'') (Registered (room_handler U txt))
    (reflected (rcfg_Env cfg)
    (grpc_servers common_texts (rcfg_Server cfg) (rcfg_Timeouts cfg) E)))))))"

definition message_run :: "grpc_lib \<Rightarrow> uuid_lib \<Rightarrow> (string list \<Rightarrow> string) \<Rightarrow> (string \<Rightarrow> MessageConfig option) \<Rightarrow> string
    \<Rightarrow> (StreamConfig \<Rightarrow> ((('v message_world_scheme) messageHandler, 'z) process_scheme, unit) op) \<Rightarrow> ending
    \<Rightarrow> (('v message_world_scheme) messageHandler, 'z) process_scheme proc" where
  "message_run R U txt readConfig path create E =
     configured (message_Load readConfig (config_path path)) mcfg_LogLevel (\<lambda>cfg.
     postgres (mcfg_DSN cfg)
    (nats_Connect (Wrap ''connect to nats'') (mcfg_NATS cfg)
    (nats_New (Wrap ''create jetstream'')
    (provisioning create message_Streams
    (with_open (Wrap ''create room client'') (GrpcConn (mcfg_RoomAddr cfg))
    (calling (Wrap ''create message handler'') (Registered (message_handler R U (mcfg_RetryDelays cfg) txt))
    (reflected (mcfg_Env cfg)
    (grpc_servers message_texts (mcfg_Server cfg) (mcfg_Timeouts cfg) E))))))))"

definition user_run :: "uuid_lib \<Rightarrow> (string list \<Rightarrow> string) \<Rightarrow> (string \<Rightarrow> UserConfig option) \<Rightarrow> string
    \<Rightarrow> (string \<Rightarrow> ConsumerConfig \<Rightarrow> ((('v user_world_scheme) userHandler, 'z) process_scheme, unit) op) \<Rightarrow> ending
    \<Rightarrow> (('v user_world_scheme) userHandler, 'z) process_scheme proc" where
  "user_run U txt readConfig path create E =
     configured (user_Load readConfig (config_path path)) ucfg_LogLevel (\<lambda>cfg.
     postgres (ucfg_DSN cfg)
    (nats_Connect (Wrap ''connect to nats'') (ucfg_NATS cfg)
    (nats_New (Wrap ''create jetstream context'')
    (calling (Wrap ''create user handler'') (Registered (user_handler U txt))
    (reflected (ucfg_Env cfg)
    (awaiting (Wrap ''start NATS subscriber'') (user_Start create (user_settings cfg)) (\<lambda>_.
     doing Subscribed
    (grpc_servers common_texts (ucfg_Server cfg) (ucfg_Timeouts cfg) E))))))))"

text \<open>The websocket service: a channel of negative size panics, before its goroutine starts.  What is served is
  the subscriber that has started and the handler.\<close>

definition websocket_Start :: "(string \<Rightarrow> ConsumerConfig \<Rightarrow> ('z world_scheme, unit) op) \<Rightarrow> SubscriberConfig \<Rightarrow> Subscriber
    \<Rightarrow> 'z world_scheme \<Rightarrow> ((error + Subscriber) \<times> 'z world_scheme) option" where
  "websocket_Start create cfg s w =
     (case Subscriber_Start create cfg s w of
        None \<Rightarrow> None
      | Some ((Some e, _), w1) \<Rightarrow> Some (Inl e, w1)
      | Some ((None, s1), w1) \<Rightarrow> Some (Inr s1, w1))"

definition new_hub :: "int \<Rightarrow> (hub_actor \<Rightarrow> 'w proc) \<Rightarrow> 'w proc" where
  "new_hub bufferSize p w = (if bufferSize < 0 then Some (RunPanic, w) else p (new_actor (nat bufferSize)) w)"

type_synonym ws_served = "Subscriber \<times> (ws_request \<Rightarrow> ws_world \<Rightarrow> ws_reply \<times> ws_world)"

definition websocket_run :: "uuid_lib \<Rightarrow> (string \<Rightarrow> WebsocketConfig option) \<Rightarrow> string
    \<Rightarrow> (string \<Rightarrow> ConsumerConfig \<Rightarrow> ((ws_served, 'z) process_scheme, unit) op) \<Rightarrow> ending
    \<Rightarrow> (ws_served, 'z) process_scheme proc" where
  "websocket_run U readConfig path create E =
     configured (websocket_Load readConfig (config_path path)) wcfg_LogLevel (\<lambda>cfg.
     let cache = ValkeyClient (wcfg_CacheAddr cfg) (wcfg_CachePass cfg) in
     with_open id cache
    (calling id (Pinged cache)
    (nats_Connect id (wcfg_NATS cfg)
    (nats_New id
    (new_hub (wcfg_HubBufferSize cfg) (\<lambda>hub.
     doing HubRunning
    (awaiting id (websocket_Start create (websocket_settings cfg) (NewSubscriber hub)) (\<lambda>sub.
     doing Subscribed
    (doing (Registered (sub, HandleWS U (wcfg_WebSocket cfg)))
    (doing (Serving HttpServer ('':'' @ wcfg_Port cfg))
    (doing SetReady
    (http_wait (wcfg_Shutdown cfg) E))))))))))))"

text \<open>The gateway; its clients are those of the four connections.\<close>

definition gateway_run :: "grpc_lib \<Rightarrow> uuid_lib \<Rightarrow> jwt_lib \<Rightarrow> proto_json \<Rightarrow> (string \<Rightarrow> 'v AuthServiceClient) \<Rightarrow> (string \<Rightarrow> 'v UserServiceClient)
    \<Rightarrow> (string \<Rightarrow> 'v RoomServiceClient) \<Rightarrow> (string \<Rightarrow> 'v MessageServiceClient)
    \<Rightarrow> (string \<Rightarrow> GatewayConfig option) \<Rightarrow> string \<Rightarrow> ending \<Rightarrow> ('v gateway, 'z) process_scheme proc" where
  "gateway_run R U J pj auth user room message readConfig path E =
     configured (gateway_Load readConfig (config_path path)) gcfg_LogLevel (\<lambda>cfg.
     let cache = ValkeyClient (gcfg_CacheAddr cfg) (gcfg_CachePass cfg);
         G = \<lparr>gw_cfg = gateway_settings cfg, gw_grpc = R, gw_uuid = U, gw_jwt = J, gw_json = pj,
           gw_auth = auth (gcfg_Auth cfg), gw_user = user (gcfg_User cfg), gw_room = room (gcfg_Room cfg),
           gw_message = message (gcfg_Message cfg), gw_ready = True\<rparr> in
     with_open id cache
    (calling id (Pinged cache)
    (with_open id (GrpcConn (gcfg_Auth cfg))
    (with_open id (GrpcConn (gcfg_User cfg))
    (with_open id (GrpcConn (gcfg_Room cfg))
    (with_open id (GrpcConn (gcfg_Message cfg))
    (doing SetReady
    (doing (Registered G)
    (doing (Serving HttpServer ('':'' @ gcfg_Port cfg))
    (http_wait (gcfg_Shutdown cfg) E))))))))))"

text \<open>The deadline of a call of the gateway.\<close>

definition timeoutInterceptor :: "time \<Rightarrow> time \<Rightarrow> time option \<Rightarrow> time" where
  "timeoutInterceptor timeout now deadline = (case deadline of None \<Rightarrow> now + timeout | Some d \<Rightarrow> min d (now + timeout))"

text \<open>The sidecar is a placeholder that answers its health checks.\<close>

definition envOr :: "(string \<Rightarrow> string) \<Rightarrow> string \<Rightarrow> string \<Rightarrow> string" where
  "envOr getenv key fallback = (if getenv key \<noteq> [] then getenv key else fallback)"

definition okHandler :: "int \<times> string" where
  "okHandler = (200, ''ok'')"

definition sidecar_mux :: "string \<Rightarrow> (int \<times> string) option" where
  "sidecar_mux path = (if path = ''/health'' \<or> path = ''/ready'' then Some okHandler else None)"

definition runPlaceholderServer :: "(string \<Rightarrow> string) \<Rightarrow> string \<Rightarrow> string \<Rightarrow> ending \<Rightarrow> (unit, 'z) process_scheme proc" where
  "runPlaceholderServer getenv envKey fallbackPort E =
     doing (Serving HttpServer ('':'' @ envOr getenv envKey fallbackPort))
      (\<lambda>w. case first_error E of
           Some (_, e) \<Rightarrow> Some (RunErr e, w)
         | None \<Rightarrow> if within (shutdown_takes E) (5 * second) then Some (RunOk, did (Stopped HttpServer) w)
             else Some (RunErr (Errorf ''failed to shut down placeholder service''), w))"

section \<open>How a run goes\<close>

text \<open>What is closed at the end of what was done, last opened first.\<close>

fun closings :: "'s action list \<Rightarrow> 's action list" where
  "closings [] = []"
| "closings (Opened r # as) = closings as @ [Closed r]"
| "closings (_ # as) = closings as"

text \<open>A run follows a plan: it does the steps of the plan in order as far as it comes; a run that does not come
  to the end of the plan does nothing else and fails; one that does goes on as \<open>Q\<close> says; and then everything
  that was opened is closed, in reverse order.\<close>

definition follows :: "'s action list \<Rightarrow> (outcome \<Rightarrow> 's action list \<Rightarrow> bool) \<Rightarrow> ('s, 'z) process_scheme
    \<Rightarrow> outcome \<times> ('s, 'z) process_scheme \<Rightarrow> bool" where
  "follows plan Q w x \<longleftrightarrow>
     (\<exists>k tail. trace (snd x) = trace w @ take k plan @ tail @ closings (take k plan) \<and>
        (if k < length plan then tail = [] \<and> fst x \<noteq> RunOk else Q (fst x) tail))"

definition runs_as :: "(error + 'c) \<Rightarrow> ('c \<Rightarrow> 's action list) \<Rightarrow> ('c \<Rightarrow> outcome \<Rightarrow> 's action list \<Rightarrow> bool)
    \<Rightarrow> ('s, 'z) process_scheme \<Rightarrow> outcome \<times> ('s, 'z) process_scheme \<Rightarrow> bool" where
  "runs_as load plan Q w x \<longleftrightarrow>
     (case load of Inl e \<Rightarrow> x = (RunErr (Wrap ''load config'' e), w) | Inr cfg \<Rightarrow> follows (plan cfg) (Q cfg) w x)"

definition starts :: "'s action list \<Rightarrow> (outcome \<Rightarrow> 's action list \<Rightarrow> bool) \<Rightarrow> ('s, 'z) process_scheme proc \<Rightarrow> bool" where
  "starts plan Q p \<longleftrightarrow> (\<forall>w x. p w = Some x \<longrightarrow> follows plan Q w x)"

definition silent :: "(('s, 'z) process_scheme \<Rightarrow> 'a \<times> ('s, 'z) process_scheme) \<Rightarrow> bool" where
  "silent m \<longleftrightarrow> (\<forall>w. trace (snd (m w)) = trace w)"

text \<open>How the servers end.  Only the signal ends a run with success; then the gRPC server was stopped,
  by force if it took too long.\<close>

definition grpc_ending :: "ServerConfig \<Rightarrow> TimeoutsConfig \<Rightarrow> ending \<Rightarrow> outcome \<Rightarrow> 's action list \<Rightarrow> bool" where
  "grpc_ending srv t E res tail \<longleftrightarrow>
     (\<exists>stops. tail = [Serving GrpcServer ('':'' @ srv_GRPCPort srv), Serving HealthServer (srv_HealthListenAddr srv), SetReady] @ stops \<and>
        (res = RunOk \<longleftrightarrow> first_error E = None) \<and> res \<noteq> RunPanic \<and>
        (Stopped GrpcServer \<in> set stops \<or> ForceStopped GrpcServer \<in> set stops) \<and>
        (ForceStopped GrpcServer \<in> set stops \<longleftrightarrow> res = RunOk \<and> \<not> within (graceful_takes E) (to_GRPCGraceful t)) \<and>
        (Stopped HealthServer \<in> set stops \<longleftrightarrow> res = RunOk \<and> within (shutdown_takes E) (to_Shutdown t)))"

definition http_ending :: "time \<Rightarrow> ending \<Rightarrow> 's action list \<Rightarrow> outcome \<Rightarrow> 's action list \<Rightarrow> bool" where
  "http_ending shutdown E begun res tail \<longleftrightarrow>
     (\<exists>stops. tail = begun @ stops \<and> (res = RunOk \<longleftrightarrow> first_error E = None) \<and> res \<noteq> RunPanic \<and>
        stops = (if res = RunOk \<and> within (shutdown_takes E) shutdown then [Stopped HttpServer] else []))"

section \<open>The plans\<close>

definition first_steps :: "string \<Rightarrow> string \<Rightarrow> 's action list" where
  "first_steps level dsn = [LogLevel (log_level level), Opened (PgPool dsn), Pinged (PgPool dsn)]"

definition last_steps :: "Environment \<Rightarrow> 's action list \<Rightarrow> ServerConfig \<Rightarrow> 's action list" where
  "last_steps e steps srv =
     (if e = EnvDevelopment then [Reflection] else []) @ steps @
     [Listening GrpcServer ('':'' @ srv_GRPCPort srv), Listening HealthServer (srv_HealthListenAddr srv)]"

definition auth_plan :: "auth_libs \<Rightarrow> (string \<Rightarrow> bool) \<Rightarrow> (string list \<Rightarrow> string) \<Rightarrow> AuthConfig
    \<Rightarrow> (('v auth_world_scheme) authHandler) action list" where
  "auth_plan L mail txt cfg =
     first_steps (acfg_LogLevel cfg) (acfg_DSN cfg) @
     [Opened (ValkeyClient (acfg_CacheAddr cfg) (acfg_CachePass cfg)), Opened (nats_conn (acfg_NATS cfg)), JetStreamReady,
      Provisioned auth_Streams, Registered (auth_handler L (auth_settings cfg) pgAccountRepository mail txt)] @
     last_steps (acfg_Env cfg) [] (acfg_Server cfg)"

definition room_plan :: "uuid_lib \<Rightarrow> (string list \<Rightarrow> string) \<Rightarrow> RoomConfig \<Rightarrow> (('v room_world_scheme) roomHandler) action list" where
  "room_plan U txt cfg =
     first_steps (rcfg_LogLevel cfg) (rcfg_DSN cfg) @
     [Opened (nats_conn (rcfg_NATS cfg)), JetStreamReady, Provisioned room_Streams, Registered (room_handler U txt)] @
     last_steps (rcfg_Env cfg) [] (rcfg_Server cfg)"

definition message_plan :: "grpc_lib \<Rightarrow> uuid_lib \<Rightarrow> (string list \<Rightarrow> string) \<Rightarrow> MessageConfig
    \<Rightarrow> (('v message_world_scheme) messageHandler) action list" where
  "message_plan R U txt cfg =
     first_steps (mcfg_LogLevel cfg) (mcfg_DSN cfg) @
     [Opened (nats_conn (mcfg_NATS cfg)), JetStreamReady, Provisioned message_Streams, Opened (GrpcConn (mcfg_RoomAddr cfg)),
      Registered (message_handler R U (mcfg_RetryDelays cfg) txt)] @
     last_steps (mcfg_Env cfg) [] (mcfg_Server cfg)"

definition user_plan :: "uuid_lib \<Rightarrow> (string list \<Rightarrow> string) \<Rightarrow> UserConfig \<Rightarrow> (('v user_world_scheme) userHandler) action list" where
  "user_plan U txt cfg =
     first_steps (ucfg_LogLevel cfg) (ucfg_DSN cfg) @
     [Opened (nats_conn (ucfg_NATS cfg)), JetStreamReady, Registered (user_handler U txt)] @
     last_steps (ucfg_Env cfg) [Subscribed] (ucfg_Server cfg)"

definition websocket_plan :: "WebsocketConfig \<Rightarrow> ws_served action list" where
  "websocket_plan cfg =
     (let cache = ValkeyClient (wcfg_CacheAddr cfg) (wcfg_CachePass cfg)
      in [LogLevel (log_level (wcfg_LogLevel cfg)), Opened cache, Pinged cache, Opened (nats_conn (wcfg_NATS cfg)), JetStreamReady,
          HubRunning, Subscribed])"

definition gateway_plan :: "GatewayConfig \<Rightarrow> ('v gateway) action list" where
  "gateway_plan cfg =
     (let cache = ValkeyClient (gcfg_CacheAddr cfg) (gcfg_CachePass cfg)
      in [LogLevel (log_level (gcfg_LogLevel cfg)), Opened cache, Pinged cache] @
         List.map (\<lambda>addr. Opened (GrpcConn addr)) [gcfg_Auth cfg, gcfg_User cfg, gcfg_Room cfg, gcfg_Message cfg])"

section \<open>Each step of a plan\<close>

lemma trace_simps [simp]:
  "trace (did a w) = trace w @ [a]" "trace (tick w) = trace w"
  by (simp_all add: did_def tick_def)

lemma silent_simps [simp]: "silent (ext_call (\<lambda>w. (Inr (), w)))"
  by (simp add: silent_def ext_call_def split: fault.splits)

lemma startsD: "starts plan Q p \<Longrightarrow> p w = Some x \<Longrightarrow> follows plan Q w x"
  unfolding starts_def by blast

lemma follows_failed: "plan \<noteq> [] \<Longrightarrow> res \<noteq> RunOk \<Longrightarrow> trace w' = trace w \<Longrightarrow> follows plan Q w (res, w')"
  unfolding follows_def by (intro exI [of _ 0] exI [of _ "[]"]) simp

lemma follows_Cons:
  assumes "follows plan Q w1 (res, w2)" and "trace w1 = trace w @ [a]" and "trace w' = trace w2 @ closings [a]"
  shows "follows (a # plan) Q w (res, w')"
proof -
  obtain k tail where k: "trace w2 = trace w1 @ take k plan @ tail @ closings (take k plan)"
      "if k < length plan then tail = [] \<and> res \<noteq> RunOk else Q res tail"
    using assms(1) [unfolded follows_def fst_conv snd_conv] by (elim exE conjE)
  have "closings (a # take k plan) = closings (take k plan) @ closings [a]" by (cases a) simp_all
  then show ?thesis
    using k assms(2,3) unfolding follows_def by (intro exI [of _ "Suc k"] exI [of _ tail]) simp
qed

lemma follows_same: "follows plan Q w1 x \<Longrightarrow> trace w1 = trace w \<Longrightarrow> follows plan Q w x"
  by (simp add: follows_def)

lemma starts_doing:
  assumes "starts plan Q p" and "closings [a] = []"
  shows "starts (a # plan) Q (doing a p)"
  unfolding starts_def
proof (intro allI impI)
  fix w x assume "doing a p w = Some x"
  then show "follows (a # plan) Q w x"
    using startsD [OF assms(1), of "did a w" x] assms(2) follows_Cons [of plan Q "did a w" "fst x" "snd x" w a "snd x"]
    by (simp add: doing_def)
qed

lemma starts_trying:
  assumes "starts plan Q p" and "silent m" and "plan \<noteq> []"
  shows "starts plan Q (trying wrap m p)"
  unfolding starts_def
proof (intro allI impI)
  fix w x assume run: "trying wrap m p w = Some x"
  obtain r w1 where m: "m w = (r, w1)" by fastforce
  have same: "trace w1 = trace w" using assms(2) m by (metis silent_def snd_conv)
  show "follows plan Q w x"
  proof (cases r)
    case (Inl e)
    then show ?thesis using run m same assms(3) follows_failed [of plan "RunErr (wrap e)" w1 w Q] by (auto simp: trying_def)
  next
    case (Inr y)
    then have "p w1 = Some x" using run m by (simp add: trying_def)
    then show ?thesis using startsD [OF assms(1)] same follows_same by metis
  qed
qed

lemma starts_calling:
  assumes "starts plan Q p" and "closings [a] = []"
  shows "starts (a # plan) Q (calling wrap a p)"
  unfolding calling_def by (intro starts_trying starts_doing assms) simp_all

lemma starts_with_open:
  assumes "starts plan Q p"
  shows "starts (Opened r # plan) Q (with_open wrap r p)"
  unfolding with_open_def
proof (rule starts_trying)
  show "starts (Opened r # plan) Q (\<lambda>w. case p (did (Opened r) w) of None \<Rightarrow> None | Some (res, w') \<Rightarrow> Some (res, did (Closed r) w'))"
    unfolding starts_def
  proof (intro allI impI)
    fix w x
    assume "(case p (did (Opened r) w) of None \<Rightarrow> None | Some (res, w') \<Rightarrow> Some (res, did (Closed r) w')) = Some x"
    then obtain res w' where run: "p (did (Opened r) w) = Some (res, w')" "x = (res, did (Closed r) w')"
      by (auto split: option.splits)
    then show "follows (Opened r # plan) Q w x"
      using startsD [OF assms run(1)] follows_Cons [of plan Q "did (Opened r) w" res w' w "Opened r" "did (Closed r) w'"] by simp
  qed
qed simp_all

lemma starts_reflected:
  assumes "starts plan Q p"
  shows "starts ((if e = EnvDevelopment then [Reflection] else []) @ plan) Q (reflected e p)"
  using starts_doing [OF assms, of Reflection] assms by (simp add: reflected_def)

lemma starts_awaiting:
  assumes "\<And>y. K y \<Longrightarrow> starts plan Q (p y)" and "plan \<noteq> []"
    and "\<And>w r w'. m w = Some (r, w') \<Longrightarrow> trace w' = trace w \<and> (case r of Inl e \<Rightarrow> True | Inr y \<Rightarrow> K y)"
  shows "starts plan Q (awaiting wrap m p)"
  unfolding starts_def
proof (intro allI impI)
  fix w x assume run: "awaiting wrap m p w = Some x"
  then obtain r w1 where m: "m w = Some (r, w1)" by (auto simp: awaiting_def split: option.splits)
  note m1 = assms(3) [OF m]
  show "follows plan Q w x"
  proof (cases r)
    case (Inl e)
    then show ?thesis using run m m1 assms(2) follows_failed [of plan "RunErr (wrap e)" w1 w Q] by (auto simp: awaiting_def)
  next
    case (Inr y)
    then have "p y w1 = Some x" "K y" using run m m1 by (simp_all add: awaiting_def)
    then show ?thesis using startsD [OF assms(1)] m1 follows_same by metis
  qed
qed

lemmas starts_rules = starts_doing starts_calling starts_with_open starts_reflected

lemma configured_runs:
  assumes "\<And>cfg. load = Inr cfg \<Longrightarrow> starts (plan cfg) (Q cfg) (doing (LogLevel (log_level (level cfg))) (p cfg))"
    and "configured load level p w = Some x"
  shows "runs_as load plan Q w x"
  using assms(2) startsD [OF assms(1)] by (cases load) (auto simp: runs_as_def configured_def)


section \<open>The processes follow their plans\<close>

lemma starts_Nil:
  assumes "\<And>w x. p w = Some x \<Longrightarrow> \<exists>tail. trace (snd x) = trace w @ tail \<and> Q (fst x) tail"
  shows "starts [] Q p"
  unfolding starts_def
proof (intro allI impI)
  fix w x assume "p w = Some x"
  from assms [OF this] obtain tail where "trace (snd x) = trace w @ tail \<and> Q (fst x) tail" ..
  then show "follows [] Q w x" unfolding follows_def by (intro exI [of _ 0] exI [of _ tail]) simp
qed

lemma silentD: "silent m \<Longrightarrow> m w = (r, w') \<Longrightarrow> trace w' = trace w"
  unfolding silent_def by (metis snd_conv)

lemma silent_provision:
  assumes "\<forall>c. silent (create c)"
  shows "silent (ProvisionStreams create streams)"
proof (induction streams)
  case (Cons st streams)
  have "trace w' = trace w" if "ProvisionStreams create (st # streams) w = (r, w')" for w r w'
    using that unfolding ProvisionStreams.simps
  proof (cases rule: tryE_cases)
    case (error e w1)
    then show ?thesis using silentD [of "create st" w "Inl e" w1] assms by (simp only: fail_def prod.inject)
  next
    case (ok x w1)
    then show ?thesis using silentD [of "create st" w "Inr x" w1] silentD [OF Cons.IH ok(2)] assms by simp
  qed
  then show ?case unfolding silent_def by (metis prod.collapse)
qed (simp add: silent_def ret_def)

lemma provision_loop_trace:
  fixes w :: "('s, 'z) process_scheme"
  assumes "\<forall>s c. silent (create s c)" and "provision_loop create stream cfg interval slept w = Some y"
  shows "trace (snd (snd y)) = trace w"
proof -
  have "(\<forall>s c. silent (create s c)) \<longrightarrow> trace (snd (snd y)) = trace w"
  proof (rule provision_loop.raw_induct [OF _ assms(2)], intro impI, goal_cases)
    case (1 loop create stream cfg interval slept w y)
    obtain r w1 where c: "create stream cfg w = (r, w1)" by fastforce
    have same: "trace w1 = trace w" using silentD [of "create stream cfg" w r w1] 1(3) c by blast
    have "snd (snd y) = w1 \<or> loop create stream cfg interval (slept + interval) (tick w1) = Some y"
      using 1(2) c by (auto split: sum.splits if_splits)
    then show ?case
    proof
      assume "loop create stream cfg interval (slept + interval) (tick w1) = Some y"
      from 1(1) [OF this] 1(3) same show ?thesis by (simp del: split_paired_All)
    qed (simp add: same)
  qed
  then show ?thesis using assms(1) by blast
qed

lemma ext_unit_trace: "ext_call (\<lambda>w. (Inr (), w)) w = (r, w') \<Longrightarrow> trace w' = trace w"
  using silent_simps by (metis silent_def snd_conv)

lemma user_Start_trace:
  fixes w :: "('s, 'z) process_scheme"
  assumes "\<forall>s c. silent (create s c)" and "user_Start create cfg w = Some (r, w')"
  shows "trace w' = trace w"
  using assms(2) provision_loop_trace [OF assms(1)]
  by (fastforce simp: user_Start_def ProvisionConsumerWithRetry_def Let_def tryE_def fail_def ret_def
      dest: ext_unit_trace split: option.splits sum.splits prod.splits)

lemma provision_all_trace:
  fixes w :: "('s, 'z) process_scheme"
  assumes "\<forall>s c. silent (create s c)"
  shows "provision_all create d plan w = Some (r, w') \<Longrightarrow> trace w' = trace w"
proof (induction plan arbitrary: w)
  case (Cons a plan)
  obtain stream cfg h where a: "a = (stream, cfg, h)" by (cases a)
  show ?case
    using Cons a provision_loop_trace [OF assms]
    by (fastforce simp: ProvisionConsumerWithRetry_def split: option.splits sum.splits prod.splits)
qed simp

lemma consume_all_trace:
  fixes w :: "('s, 'z) process_scheme"
  shows "trace (snd (consume_all plan s w)) = trace w"
proof (induction plan arbitrary: s w)
  case (Cons a plan)
  obtain stream cfg h where a: "a = (stream, cfg, h)" by (cases a)
  show ?case using a Cons by (auto dest: ext_unit_trace split: sum.splits prod.splits)
qed simp

lemma websocket_Start_runs:
  fixes w :: "('s, 'z) process_scheme"
  assumes "\<forall>s c. silent (create s c)" and "websocket_Start create cfg (NewSubscriber hub) w = Some (r, w')"
  shows "trace w' = trace w \<and> (case r of Inl e \<Rightarrow> True | Inr sub \<Rightarrow> started sub \<and> sub_hub sub = hub)"
proof -
  obtain e s where run: "Subscriber_Start create cfg (NewSubscriber hub) w = Some ((e, s), w')"
      "r = (case e of Some e \<Rightarrow> Inl e | None \<Rightarrow> Inr s)"
    using assms(2) by (auto simp: websocket_Start_def split: option.splits)
  obtain r1 w1 where all: "provision_all create (sc_RetryWait cfg) (consumer_plan cfg) w = Some (r1, w1)"
    using run(1) by (auto simp: Subscriber_Start_def split: option.splits)
  have "trace w' = trace w"
    using run(1) all provision_all_trace [OF assms(1) all] consume_all_trace [of "consumer_plan cfg" "NewSubscriber hub" w1]
    by (cases r1) (auto simp: Subscriber_Start_def)
  moreover have "started s \<and> sub_hub s = hub" if "e = None"
    using Start_started [OF run(1) [unfolded that]] by simp
  ultimately show ?thesis using run(2) by (cases e) simp_all
qed

lemma starts_grpc_servers:
  "starts [Listening GrpcServer ('':'' @ srv_GRPCPort srv), Listening HealthServer (srv_HealthListenAddr srv)]
     (grpc_ending srv t E) (grpc_servers tx srv t E)"
  unfolding grpc_servers_def
  by (intro starts_calling starts_Nil)
    (auto simp: doing_def grpc_wait_def grpc_ending_def Let_def split: option.splits if_splits)

lemmas starts_listening = starts_grpc_servers [unfolded append_Cons append_Nil]

lemma starts_provisioning:
  assumes "starts plan Q p" and "\<forall>c. silent (create c)"
  shows "starts (Provisioned streams # plan) Q (provisioning create streams p)"
  unfolding provisioning_def by (rule starts_trying) (simp_all add: starts_doing assms silent_provision)

lemma starts_postgres: "starts plan Q p \<Longrightarrow> starts (Opened (PgPool dsn) # Pinged (PgPool dsn) # plan) Q (postgres dsn p)"
  unfolding postgres_def by (intro starts_with_open starts_calling) simp_all

lemma starts_nats:
  "starts plan Q p \<Longrightarrow> starts (Opened (nats_conn cfg) # JetStreamReady # plan) Q (nats_Connect f cfg (nats_New g p))"
  unfolding nats_Connect_def nats_New_def by (intro starts_with_open starts_calling) simp_all

lemmas process_rules = starts_doing starts_postgres starts_nats starts_with_open starts_provisioning starts_calling starts_reflected
lemmas plan_defs = auth_plan_def room_plan_def message_plan_def user_plan_def first_steps_def last_steps_def append_Cons append_Nil

lemma auth_runs:
  assumes "\<forall>c. silent (create c)" and "auth_run L mail txt readConfig path create E w = Some x"
  shows "runs_as (auth_Load readConfig (config_path path)) (auth_plan L mail txt)
    (\<lambda>cfg. grpc_ending (acfg_Server cfg) (acfg_Timeouts cfg) E) w x"
  using assms(2) unfolding auth_run_def
  by (rule configured_runs [rotated], unfold plan_defs, intro process_rules starts_listening assms(1)) simp_all


lemma room_runs:
  assumes "\<forall>c. silent (create c)" and "room_run U txt readConfig path create E w = Some x"
  shows "runs_as (room_Load readConfig (config_path path)) (room_plan U txt)
    (\<lambda>cfg. grpc_ending (rcfg_Server cfg) (rcfg_Timeouts cfg) E) w x"
  using assms(2) unfolding room_run_def
  by (rule configured_runs [rotated], unfold plan_defs, intro process_rules starts_listening assms(1)) simp_all

lemma message_runs:
  assumes "\<forall>c. silent (create c)" and "message_run R U txt readConfig path create E w = Some x"
  shows "runs_as (message_Load readConfig (config_path path)) (message_plan R U txt)
    (\<lambda>cfg. grpc_ending (mcfg_Server cfg) (mcfg_Timeouts cfg) E) w x"
  using assms(2) unfolding message_run_def
  by (rule configured_runs [rotated], unfold plan_defs, intro process_rules starts_listening assms(1)) simp_all

lemma starts_awaiting_any:
  assumes "starts plan Q p" and "plan \<noteq> []" and "\<And>w r w'. m w = Some (r, w') \<Longrightarrow> trace w' = trace w"
  shows "starts plan Q (awaiting wrap m (\<lambda>_. p))"
  using assms by (intro starts_awaiting [where K = "\<lambda>_. True"]) (auto split: sum.splits)

lemma user_runs:
  assumes "\<forall>s c. silent (create s c)" and "user_run U txt readConfig path create E w = Some x"
  shows "runs_as (user_Load readConfig (config_path path)) (user_plan U txt)
    (\<lambda>cfg. grpc_ending (ucfg_Server cfg) (ucfg_Timeouts cfg) E) w x"
  using assms(2) unfolding user_run_def
  by (rule configured_runs [rotated], unfold plan_defs, intro process_rules starts_awaiting_any starts_listening)
    (simp_all add: user_Start_trace [OF assms(1)])

lemma starts_new_hub:
  assumes "starts plan Q (p (new_actor (nat n)))" and "plan \<noteq> []"
  shows "starts plan Q (new_hub n p)"
  unfolding starts_def
proof (intro allI impI)
  fix w x assume "new_hub n p w = Some x"
  then show "follows plan Q w x"
    using startsD [OF assms(1)] follows_failed [OF assms(2), of RunPanic w w Q] by (auto simp: new_hub_def split: if_splits)
qed

text \<open>The websocket service serves a subscriber with all its handlers, on the hub that was made.\<close>

definition websocket_ending :: "uuid_lib \<Rightarrow> WebsocketConfig \<Rightarrow> ending \<Rightarrow> outcome \<Rightarrow> ws_served action list \<Rightarrow> bool" where
  "websocket_ending U cfg E res tail \<longleftrightarrow>
     (\<exists>sub. started sub \<and> sub_hub sub = new_actor (nat (wcfg_HubBufferSize cfg)) \<and>
        http_ending (wcfg_Shutdown cfg) E
          [Registered (sub, HandleWS U (wcfg_WebSocket cfg)), Serving HttpServer ('':'' @ wcfg_Port cfg), SetReady] res tail)"

lemma http_wait_ends:
  "http_wait shutdown E w = Some x \<Longrightarrow> \<exists>stops. trace (snd x) = trace w @ stops \<and> http_ending shutdown E begun (fst x) (begun @ stops)"
  by (auto simp: http_wait_def http_ending_def split: option.splits if_splits)

lemma websocket_runs:
  assumes "\<forall>s c. silent (create s c)" and "websocket_run U readConfig path create E w = Some x"
  shows "runs_as (websocket_Load readConfig (config_path path)) websocket_plan (\<lambda>cfg. websocket_ending U cfg E) w x"
proof -
  have served: "starts [] (websocket_ending U cfg E)
      (doing (Registered (sub, HandleWS U (wcfg_WebSocket cfg)))
      (doing (Serving HttpServer ('':'' @ wcfg_Port cfg)) (doing SetReady (http_wait (wcfg_Shutdown cfg) E))))"
    if "started sub \<and> sub_hub sub = new_actor (nat (wcfg_HubBufferSize cfg))" for sub cfg
  proof (rule starts_Nil, goal_cases)
    case (1 w x)
    let ?begun = "[Registered (sub, HandleWS U (wcfg_WebSocket cfg)), Serving HttpServer ('':'' @ wcfg_Port cfg), SetReady]"
    obtain stops where "trace (snd x) = trace w @ ?begun @ stops" "http_ending (wcfg_Shutdown cfg) E ?begun (fst x) (?begun @ stops)"
      using http_wait_ends [OF 1 [unfolded doing_def], of ?begun] by auto
    with that show ?case unfolding websocket_ending_def by blast
  qed
  show ?thesis
    using assms(2) unfolding websocket_run_def Let_def
    by (rule configured_runs [rotated], unfold websocket_plan_def Let_def,
        intro process_rules starts_new_hub starts_awaiting [where K = "\<lambda>sub. started sub \<and> sub_hub sub = new_actor (nat (wcfg_HubBufferSize cfg))" for cfg]
          served)
      (use websocket_Start_runs [OF assms(1)] in auto)
qed


text \<open>The gateway serves its routes with the configuration that was loaded.\<close>

definition gateway_served :: "grpc_lib \<Rightarrow> uuid_lib \<Rightarrow> jwt_lib \<Rightarrow> proto_json \<Rightarrow> GatewayConfig \<Rightarrow> 'v gateway \<Rightarrow> bool" where
  "gateway_served R U J pj cfg G \<longleftrightarrow>
     gw_cfg G = gateway_settings cfg \<and> gw_grpc G = R \<and> gw_uuid G = U \<and> gw_jwt G = J \<and> gw_json G = pj \<and> gw_ready G"

definition gateway_ending :: "grpc_lib \<Rightarrow> uuid_lib \<Rightarrow> jwt_lib \<Rightarrow> proto_json \<Rightarrow> GatewayConfig \<Rightarrow> ending \<Rightarrow> outcome
    \<Rightarrow> ('v gateway) action list \<Rightarrow> bool" where
  "gateway_ending R U J pj cfg E res tail \<longleftrightarrow>
     (\<exists>G. gateway_served R U J pj cfg G \<and>
        http_ending (gcfg_Shutdown cfg) E [SetReady, Registered G, Serving HttpServer ('':'' @ gcfg_Port cfg)] res tail)"

lemma gateway_runs:
  fixes auth :: "string \<Rightarrow> 'v AuthServiceClient"
  assumes "gateway_run R U J pj auth user room message readConfig path E w = Some x"
  shows "runs_as (gateway_Load readConfig (config_path path)) gateway_plan (\<lambda>cfg. gateway_ending R U J pj cfg E) w x"
proof -
  have served: "starts [] (gateway_ending R U J pj cfg E)
      (doing SetReady (doing (Registered G) (doing (Serving HttpServer ('':'' @ gcfg_Port cfg)) (http_wait (gcfg_Shutdown cfg) E))))"
    if "gateway_served R U J pj cfg G" for G :: "'v gateway" and cfg
  proof (rule starts_Nil, goal_cases)
    case (1 w x)
    let ?begun = "[SetReady, Registered G, Serving HttpServer ('':'' @ gcfg_Port cfg)]"
    obtain stops where "trace (snd x) = trace w @ ?begun @ stops" "http_ending (gcfg_Shutdown cfg) E ?begun (fst x) (?begun @ stops)"
      using http_wait_ends [OF 1 [unfolded doing_def], of ?begun] by auto
    with that show ?case unfolding gateway_ending_def by blast
  qed
  show ?thesis
    using assms unfolding gateway_run_def Let_def
    by (rule configured_runs [rotated], unfold gateway_plan_def Let_def list.map append_Cons append_Nil,
        intro process_rules served [unfolded append_Cons append_Nil]) (simp_all add: gateway_served_def)
qed

section \<open>Runs that return\<close>

definition returns :: "'w proc \<Rightarrow> bool" where
  "returns p \<longleftrightarrow> (\<forall>w. p w \<noteq> None)"

lemma returns_steps:
  "returns p \<Longrightarrow> returns (doing a p)"
  "returns p \<Longrightarrow> returns (trying wrap m p)"
  "returns p \<Longrightarrow> returns (calling wrap a p)"
  "returns p \<Longrightarrow> returns (reflected e p)"
  "(\<And>cfg. returns (k cfg)) \<Longrightarrow> returns (configured load level k)"
  by (auto simp: returns_def doing_def trying_def calling_def reflected_def configured_def split: sum.splits prod.splits)

lemma returns_with_open:
  assumes "returns p"
  shows "returns (with_open wrap r p)"
  unfolding with_open_def
proof (rule returns_steps(2))
  have "p w \<noteq> None" for w using assms by (simp add: returns_def)
  then show "returns (\<lambda>w. case p (did (Opened r) w) of None \<Rightarrow> None | Some (res, w') \<Rightarrow> Some (res, did (Closed r) w'))"
    by (auto simp: returns_def split: option.split)
qed

lemma returns_waits:
  "graceful_takes E \<noteq> None \<Longrightarrow> returns (grpc_wait tx t E)" "returns (http_wait shutdown E)"
  by (auto simp: returns_def grpc_wait_def http_wait_def Let_def split: option.splits)

text \<open>The processes that wait for no stream return once the requests under way end, and the gateway in any case.\<close>

lemma processes_return:
  "graceful_takes E \<noteq> None \<Longrightarrow> returns (auth_run L mail txt auth_file path make_auth E)"
  "graceful_takes E \<noteq> None \<Longrightarrow> returns (room_run U txt room_file path make_room E)"
  "graceful_takes E \<noteq> None \<Longrightarrow> returns (message_run R U txt message_file path make_message E)"
  "returns (gateway_run R U J pj auth user room message gateway_file path E)"
  unfolding auth_run_def room_run_def message_run_def gateway_run_def Let_def postgres_def nats_Connect_def nats_New_def
    provisioning_def grpc_servers_def
  by (intro returns_steps returns_with_open returns_waits; assumption)+

text \<open>An error of a server while a request never ends: the process hangs, since this stop has no time limit.\<close>

lemma grpc_wait_hangs:
  assumes "first_error E \<noteq> None" and "graceful_takes E = None"
  shows "grpc_wait tx t E w = None"
  using assms by (auto simp: grpc_wait_def)

text \<open>C36: A process starts in the order of its plan and cleans up behind itself.  Whatever fails, a run of a
  service either reports that its configuration cannot be loaded and has done nothing, or does a prefix of
  its plan: when it does not come to the end of the plan it fails without having served anything or having
  called itself ready; when it does, it serves the handlers that were built from its checked configuration,
  calls itself ready once, and ends with success exactly when the signal ended it.  In every case
  everything that was opened is closed before the run returns, in reverse order.  The gateway always
  returns, and the services that wait for no stream do when the requests under way come to an end.\<close>

theorem processes_run:
  assumes "\<forall>c. silent (make_auth c)" and "\<forall>c. silent (make_room c)" and "\<forall>c. silent (make_message c)"
    and "\<forall>s c. silent (consume_user s c)" and "\<forall>s c. silent (consume_ws s c)"
  shows "(\<forall>w x. auth_run L mail txt auth_file path make_auth E w = Some x \<longrightarrow>
      runs_as (auth_Load auth_file (config_path path)) (auth_plan L mail txt)
        (\<lambda>cfg. grpc_ending (acfg_Server cfg) (acfg_Timeouts cfg) E) w x) \<and>
    (\<forall>w x. room_run U txt room_file path make_room E w = Some x \<longrightarrow>
      runs_as (room_Load room_file (config_path path)) (room_plan U txt)
        (\<lambda>cfg. grpc_ending (rcfg_Server cfg) (rcfg_Timeouts cfg) E) w x) \<and>
    (\<forall>w x. message_run R U txt message_file path make_message E w = Some x \<longrightarrow>
      runs_as (message_Load message_file (config_path path)) (message_plan R U txt)
        (\<lambda>cfg. grpc_ending (mcfg_Server cfg) (mcfg_Timeouts cfg) E) w x) \<and>
    (\<forall>w x. user_run U txt user_file path consume_user E w = Some x \<longrightarrow>
      runs_as (user_Load user_file (config_path path)) (user_plan U txt)
        (\<lambda>cfg. grpc_ending (ucfg_Server cfg) (ucfg_Timeouts cfg) E) w x) \<and>
    (\<forall>w x. websocket_run U ws_file path consume_ws E w = Some x \<longrightarrow>
      runs_as (websocket_Load ws_file (config_path path)) websocket_plan (\<lambda>cfg. websocket_ending U cfg E) w x) \<and>
    (\<forall>w x. gateway_run R U J pj auth user room message gateway_file path E w = Some x \<longrightarrow>
      runs_as (gateway_Load gateway_file (config_path path)) gateway_plan (\<lambda>cfg. gateway_ending R U J pj cfg E) w x) \<and>
    (graceful_takes E \<noteq> None \<longrightarrow> returns (auth_run L mail txt auth_file path make_auth E) \<and>
      returns (room_run U txt room_file path make_room E) \<and> returns (message_run R U txt message_file path make_message E)) \<and>
    returns (gateway_run R U J pj auth user room message gateway_file path E)"
  by (intro conjI allI impI)
    (assumption | rule processes_return | erule auth_runs [OF assms(1)] room_runs [OF assms(2)] message_runs [OF assms(3)] user_runs [OF assms(4)]
      websocket_runs [OF assms(5)] gateway_runs)+


lemma follows_RunOk:
  assumes "follows plan Q w (RunOk, w')"
  shows "\<exists>tail. trace w' = trace w @ plan @ tail @ closings plan \<and> Q RunOk tail"
  using assms by (auto simp: follows_def split: if_splits)

lemma auth_plan_timeouts: "auth_plan L mail txt (cfg\<lparr>acfg_Timeouts := t\<rparr>) = auth_plan L mail txt cfg"
  by (simp add: auth_plan_def auth_settings_def)

definition sample_AuthConfig :: AuthConfig where
  "sample_AuthConfig =
     \<lparr>acfg_Env = EnvDevelopment, acfg_LogLevel = ''Debug'', acfg_Server = \<lparr>srv_GRPCPort = ''50051'', srv_HealthListenAddr = '':8080''\<rparr>,
      acfg_Timeouts = \<lparr>to_Shutdown = 0, to_ReadHeader = 0, to_GRPCGraceful = 0\<rparr>,
      acfg_NATS = \<lparr>nats_URL = ''n'', nats_User = ''u'', nats_Pass = ''p'', nats_ReconnectWait = 1, nats_MaxReconnects = 3,
        nats_AckWait = 1, nats_MaxDeliver = 3, nats_ConsumerRetryWait = 1\<rparr>,
      acfg_DSN = ''d'', acfg_CacheAddr = ''c'', acfg_CachePass = [], acfg_Secret = replicate 32 CHR ''s'',
      acfg_AccessTTL = second, acfg_RefreshTTL = second, acfg_Requests = 5, acfg_Window = second\<rparr>"

definition sample_signal :: ending where
  "sample_signal = \<lparr>first_error = None, graceful_takes = Some second, shutdown_takes = Some second\<rparr>"

definition new_process :: "(auth_world authHandler) process" where
  "new_process = \<lparr>env = calm_env, calls = 0, published = [], trace = []\<rparr>"

lemma sample_server: "acfg_Server sample_AuthConfig = \<lparr>srv_GRPCPort = ''50051'', srv_HealthListenAddr = '':8080''\<rparr>"
  by (simp add: sample_AuthConfig_def)

lemma silent_ret [simp]: "silent (ret ())"
  by (simp add: silent_def ret_def)

lemma sample_auth_loads:
  "auth_Load [''config.yaml'' \<mapsto> sample_AuthConfig] (config_path []) =
     Inr (sample_AuthConfig\<lparr>acfg_Timeouts := \<lparr>to_Shutdown = 15 * second, to_ReadHeader = 5 * second, to_GRPCGraceful = 10 * second\<rparr>\<rparr>)"
  by (simp add: auth_Load_def config_path_def sample_AuthConfig_def WithDefaults_def default_to_def checked_def Environment_Validate_def
      AuthConfig_Validate_def byte_length_def second_def Let_def sum_list_replicate)

lemma sample_auth_signalled:
  "\<exists>w'. auth_run sample_libs (\<lambda>_. True) concat [''config.yaml'' \<mapsto> sample_AuthConfig] [] (\<lambda>_. ret ()) sample_signal new_process = Some (RunOk, w')"
  by (simp add: auth_run_def sample_auth_loads configured_def doing_def postgres_def with_open_def trying_def calling_def nats_Connect_def
      nats_New_def provisioning_def auth_Streams_def reflected_def grpc_servers_def grpc_wait_def sample_signal_def ext_call_def
      tick_def did_def new_process_def calm_env_def ret_def tryE_def Let_def)

theorem processes_run_witness:
  "\<exists>w' stops. auth_run sample_libs (\<lambda>_. True) concat [''config.yaml'' \<mapsto> sample_AuthConfig] [] (\<lambda>_. ret ()) sample_signal new_process = Some (RunOk, w') \<and>
     trace w' = auth_plan sample_libs (\<lambda>_. True) concat sample_AuthConfig @
       [Serving GrpcServer '':50051'', Serving HealthServer '':8080'', SetReady] @ stops @
       [Closed (NatsConn ''n'' ''u'' ''p'' 1 3), Closed (ValkeyClient ''c'' []), Closed (PgPool ''d'')]"
proof -
  let ?run = "auth_run sample_libs (\<lambda>_. True) concat [''config.yaml'' \<mapsto> sample_AuthConfig] [] (\<lambda>_. ret ()) sample_signal new_process"
  let ?plan = "auth_plan sample_libs (\<lambda>_. True) concat sample_AuthConfig"
  obtain w' where run: "?run = Some (RunOk, w')" using sample_auth_signalled ..
  have "\<forall>w x. auth_run sample_libs (\<lambda>_. True) concat [''config.yaml'' \<mapsto> sample_AuthConfig] [] (\<lambda>_. ret ()) sample_signal w = Some x \<longrightarrow>
      runs_as (auth_Load [''config.yaml'' \<mapsto> sample_AuthConfig] (config_path [])) (auth_plan sample_libs (\<lambda>_. True) concat)
        (\<lambda>cfg. grpc_ending (acfg_Server cfg) (acfg_Timeouts cfg) sample_signal) (w :: (auth_world authHandler) process) x"
    by (rule processes_run [of "\<lambda>_. ret ()" "\<lambda>_. ret ()" "\<lambda>_. ret ()" "\<lambda>_ _. ret ()" "\<lambda>_ _. ret ()", THEN conjunct1]) simp_all
  from this [rule_format, OF run] obtain tail where tail: "trace w' = trace new_process @ ?plan @ tail @ closings ?plan"
      "grpc_ending (acfg_Server sample_AuthConfig) \<lparr>to_Shutdown = 15 * second, to_ReadHeader = 5 * second, to_GRPCGraceful = 10 * second\<rparr>
        sample_signal RunOk tail"
    using follows_RunOk by (fastforce simp: runs_as_def sample_auth_loads auth_plan_timeouts)
  moreover have "closings ?plan = [Closed (NatsConn ''n'' ''u'' ''p'' 1 3), Closed (ValkeyClient ''c'' []), Closed (PgPool ''d'')]"
    by (simp add: auth_plan_def first_steps_def last_steps_def sample_AuthConfig_def nats_conn_def)
  moreover obtain stops where "tail = [Serving GrpcServer '':50051'', Serving HealthServer '':8080'', SetReady] @ stops"
    using tail(2) by (auto simp: grpc_ending_def sample_server)
  moreover have "trace new_process = []" by (simp add: new_process_def)
  ultimately show ?thesis using run tail(1) by (intro exI [of _ w'] exI [of _ stops]) simp
qed

end
