(* ===== verification/Spec2Isabelle.thy ===== *)
theory Spec2Isabelle
  imports Chat MessageInterleaving AuthInterleaving Streams Interceptors Sessions Lifecycle
begin

text \<open>
  Verification of efir, a chat backend of six Go services (\<open>src/services\<close>).

  \<^bold>\<open>The program.\<close>  Clients speak HTTP to the gateway and hold a websocket.  The gateway
  authenticates a request by the token in its cookie, limits the rate of a user and calls the auth,
  user, room and message services over gRPC.  The auth service keeps accounts in Postgres and refresh
  tokens and counters in Valkey, and publishes \<open>auth.user.registered\<close> on NATS, from which the user
  service makes a profile.  The room service keeps rooms and members in Postgres and publishes their
  changes.  The message service keeps messages in Postgres, asks the room service over gRPC who is a
  member, and publishes \<open>message.created\<close>.  The websocket service hears the events of rooms and
  messages and sends frames to the connections that listen; a connection is opened with a ticket that
  the gateway handed out.

  \<^bold>\<open>The model.\<close>  \<open>World\<close> has what all services share: an operation is a function on a world, which
  returns an error or a value and the world it leaves; every call that leaves the process asks the
  environment of the world whether it works, fails, or works and loses its answer, and what the clock
  and the random numbers are.  Nothing is assumed of the environment unless a statement says so; \<open>calm\<close>
  is an environment without failures.  A service's world extends this record by its stores, so that
  services that share a store or call each other live in one world.  Requests are served one after
  the other, except in the websocket service, which is a step relation, and in the three theories on
  interleaving, where other requests act between the calls that one request makes.

  \<^item> \<open>Prelude\<close>, \<open>Errors\<close> (\<open>shared/pkg/errors\<close>, \<open>shared/pkg/mapper\<close>), \<open>Json\<close> (what is used of
    \<open>encoding/json\<close> and base64), \<open>World\<close> (external calls, SQL statements and transactions, gRPC).
  \<^item> Rooms: \<open>RoomRepo\<close> (the tables and \<open>internal/repository\<close>), \<open>RoomService\<close> (\<open>internal/service\<close>,
    \<open>internal/nats\<close>), \<open>RoomHandler\<close> (\<open>internal/handler\<close>).
  \<^item> Messages: \<open>MessageContent\<close> (the seven kinds of content and their JSON), \<open>MessageRepo\<close>
    (\<open>internal/repository\<close>), \<open>RoomClient\<close> (\<open>internal/client\<close> with its retries), \<open>MessageService\<close>
    (\<open>internal/service\<close>, \<open>internal/nats\<close>), \<open>MessageHandler\<close> (\<open>internal/handler\<close>); \<open>Chat\<close> runs rooms and
    messages in one world; \<open>Interleaving\<close> (rooms) and \<open>MessageInterleaving\<close> run a request while others
    change what it reads and writes.
  \<^item> Websocket: \<open>Hub\<close> (the tables of \<open>internal/hub\<close>), \<open>HubActor\<close> (its goroutine and channels as a step
    relation), \<open>Subscriber\<close> (\<open>internal/subscriber\<close>, \<open>internal/nats\<close>), \<open>WsHandler\<close> (\<open>internal/handler\<close>:
    connections, pumps, and the step relation of the service).
  \<^item> Auth: \<open>Valkey\<close> (\<open>shared/pkg/valkey\<close>: keys, scripts, the store), \<open>AuthRepo\<close>
    (\<open>internal/repository\<close>, \<open>internal/ratelimit\<close>), \<open>AuthService\<close> (\<open>internal/service\<close>,
    \<open>internal/handler\<close>, \<open>internal/nats\<close>), \<open>Auth\<close> and \<open>AuthRequests\<close> (its properties, for one request
    and for sequences of them), \<open>AuthInterleaving\<close> (for requests at the same time).
  \<^item> Users: \<open>Usernames\<close> (\<open>shared/pkg/username.go\<close> and the word lists), \<open>UserRepo\<close>, \<open>UserService\<close>
    (\<open>internal/service\<close>, \<open>internal/handler\<close>, \<open>internal/nats\<close>).
  \<^item> Gateway: \<open>Gateway\<close> (\<open>internal/handler\<close>, \<open>internal/middleware\<close> and the routes of \<open>cmd/main.go\<close>),
    \<open>Sessions\<close> (the gateway in front of the auth and the websocket service).
  \<^item> Shared: \<open>Config\<close> (\<open>shared/pkg/config\<close> and every \<open>internal/config\<close>), \<open>Interceptors\<close>
    (\<open>shared/pkg/middleware\<close>), \<open>Streams\<close> (\<open>shared/pkg/nats\<close> and every \<open>internal/nats/streams.go\<close>).
  \<^item> Processes: \<open>Loggers\<close> (\<open>shared/pkg/logger\<close>), \<open>Lifecycle\<close> (\<open>run\<close> of every \<open>cmd/main.go\<close>: what is
    opened, started, served and closed, in which order, and how it ends).

  Names are those of the code; a prefix tells packages apart where Go does (\<open>pgRoom_\<close>,
  \<open>roomService_\<close>, \<open>roomHandler_\<close>, \<open>gw_\<close>).  An interface of the code is a record of operations, and the
  constructor of an implementation fills it.  A handler's request is the record of its protobuf
  message, with the rules of the \<open>.proto\<close> file as the list of the fields that break one.

  \<^bold>\<open>The contracts.\<close>  Where a component relies on another, what it relies on is a locale, and the
  other's model is an interpretation of it.  \<open>room_repository\<close> (interpreted as \<open>pg\<close>) and
  \<open>room_backend\<close> (\<open>pgb\<close>) carry the room service; \<open>room_client\<close> (\<open>rcl\<close>), \<open>message_repository\<close> (\<open>pgm\<close>) and
  \<open>message_backend\<close> (\<open>mb\<close>) the message service; \<open>account_store\<close> (\<open>pga\<close>) the auth service; \<open>user_store\<close>
  (\<open>pgu\<close>) the user service; \<open>subscriptions\<close> (\<open>hs\<close>) the users of the hub.  \<open>one_time_tokens\<close> is provided by the
  refresh tokens and by the tickets, \<open>window_counter\<close> by both rate limiters.

  \<^bold>\<open>What is shown.\<close>
  \<^item> Rooms: every request is a step of the abstract machine \<open>room_step\<close> (one owner per room, two members
    and one room per pair for direct rooms); who may do what, with the code of every refusal; a repeated
    request for a direct room makes no second one.
  \<^item> Messages: what is sent is what members read; replies stay inside a room; a stored message only ever
    becomes deleted; following the cursors visits every message once; no one who is no member reads or
    writes.
  \<^item> Interleaving: beside the world runs a trace with one turn for every call of a request: what was there,
    what the call found after others had acted (the rely), and what it left.  So what the request itself did is
    told apart from what others did: it changes rooms or messages in at most one of its calls (\<open>once\<close>), in none when it is
    refused (\<open>idle\<close>), and in a way that others may rely on (the guarantee), so requests
    may be nested to any depth; deleting, renaming and removing are allowed in the very state where they take
    place, while a member who adds somebody or sends a message may have been removed since the check.
    For the auth service a budget is kept by whatever is nested: the exchanges of a token that were answered,
    and one more while the token is there; the registrations of an address, and one more while it is free.
  \<^item> Websocket: the tables of the hub agree in every reachable state and say who listens; a broadcast
    reaches every listener once; a ticket opens one connection; queues keep their bounds; and what the
    wire formats of publisher and subscriber lose between them.
  \<^item> Auth: tokens only for the right password, good for their user until they expire; a refresh token is
    exchanged at most once and an address registered at most once, also by requests at the same time; a
    bound on guesses; accounts never change or vanish; a registration that fails after its account was stored
    stays without its event for ever.
  \<^item> Users: the event of a registration ends, under any failures and redeliveries, in exactly one
    profile once one of its at most \<open>MaxDeliver\<close> deliveries works; what is written is what is read.
  \<^item> Gateway: a request acts as the user of its token and as nobody else; the bound of the rate limiter;
    what a ticket is good for.
  \<^item> Together: rooms and messages stay consistent under any mixture of requests; a message that is sent
    reaches the queues of the connections that listen.
  \<^item> Processes: every service serves only after its whole start has worked, ends with success exactly on the
    signal, and closes what it opened, last first, on every path.

  \<^bold>\<open>Bounds.\<close>  Loops over data are structural recursions.  The retries of \<open>RoomClient\<close> and the attempts
  to find a free name recurse over the configured delays and over a number; the loops that may go on for
  ever, \<open>provision_loop\<close> and \<open>AwaitReady\<close>, are partial functions whose value \<open>None\<close> is not to return, and
  \<open>Subscriber.provision_returns\<close> says when the first one returns.  \<open>digits\<close> has as fuel the number itself plus one, and
  a number has no more digits than that.  Integers of Go that can overflow are words (the limit of a
  page, the limit on bodies, sizes and durations inside contents); times are integers in
  microseconds, counters of Valkey are integers with the error of an overflow at \<open>2 ^ 63\<close>.

  \<^bold>\<open>Parameters.\<close>  Libraries are arguments: the UUID library, bcrypt, JWT, \<open>status.FromError\<close> and the
  status of a failed connection, protovalidate's texts and its e-mail rule, \<open>protojson\<close>, JetStream's
  provisioning, reading a configuration.  What is relied on is a named predicate (\<open>uuid_lib_ok\<close>,
  \<open>bcrypt_ok\<close>, \<open>jwt_ok\<close>, \<open>grpc_status_ok\<close>), each shown to hold for a concrete instance.

  \<^bold>\<open>Not modelled.\<close>  Mocks and test fixtures; the lines that loggers write; what a process does while its
  servers run is a parameter of its \<open>run\<close> (the first error or the signal, and how long stopping takes).
  Interleavings of requests to the user service: its statements are guarded by the constraints of the
  table, and what an answer says when another request wins is stated where the code depends on it.  A method of the room repository is taken as one step among others
  (each is one statement, \<open>CreateRoom\<close> a serializable transaction), and so is a call of the room service
  by the message service, of which one query decides the answer.  The text of JSON, of SQL and of log
  messages, and the hashing of addresses for the log.  The router of the gateway, which matches a path to a
  route.  Time limits of single calls appear as failures of the call.
\<close>

section \<open>Properties of the whole\<close>

text \<open>C1: After any sequence of requests to the room service and the message service, interleaved in
  any order and under any faults of the databases, the bus and the calls between the services, the
  rooms and the messages are consistent: one owner per room, two members per direct room and one
  direct room per pair; every reply is to a message of the same room; and the history only grows:
  whatever came before, later requests change no message except to mark it deleted.\<close>

theorem chat_consistent:
  assumes "uuid_lib_ok U" and "\<forall>req \<in> set (earlier @ later). chat_request_ok req"
  shows "rooms_inv (pg_view (chat_after L U delays errtxt E earlier)) \<and>
    replies_inside (pg_messages (chat_after L U delays errtxt E earlier)) \<and>
    history (pg_messages (chat_after L U delays errtxt E earlier))
      (pg_messages (chat_after L U delays errtxt E (earlier @ later)))"
proof -
  have "chat_inv U (chat_after L U delays errtxt E earlier)"
    unfolding chat_after_def using assms(2)
    by (intro serve_chat_all [THEN conjunct1] chat_start [OF assms(1)]) auto
  then show ?thesis
    using serve_chat_all [of U "chat_after L U delays errtxt E earlier" later L delays errtxt] assms(2)
    by (auto simp: chat_inv_def chat_after_def)
qed

theorem chat_consistent_witness:
  "history (pg_messages (chat_after sample_grpc sample_uuids [] concat calm_env [RoomRequest (CreateRoomReq ''a'' RoomTypeGroup 1 0)]))
      (pg_messages (chat_after sample_grpc sample_uuids [] concat calm_env
        [RoomRequest (CreateRoomReq ''a'' RoomTypeGroup 1 0), MessageRequest (DeleteReq 5 1)]))"
  using chat_consistent [OF sample_uuids_ok, of "[RoomRequest (CreateRoomReq ''a'' RoomTypeGroup 1 0)]"
      "[MessageRequest (DeleteReq 5 1)]" sample_grpc "[]" concat calm_env] by simp

text \<open>C9: From the sender to the clients.  When the policy allows a message, no external call of the
  message service fails and the generated ids are fresh, \<open>SendMessage\<close> answers the message; the event
  it published, once handed to a started subscriber whose hub had no other broadcast waiting, makes
  the next broadcast of the hub, and it appends one frame with the id of the message and its room to
  the queue of every connection that listens to the room, is not closed and has a queue shorter than its
  buffer (or an empty one while its write pump waits for a frame), and none to any connection that does
  not listen.  The frame has neither the sender nor the content.\<close>

theorem message_reaches_listeners:
  assumes "backend_ok U w" and "calm w" and "names_input U req input" and "input_storable input"
    and "range (uuid_at (env w)) \<inter> dom (pg_messages w) = {}"
    and "send_policy (pg_view w) (pg_messages w) input = None"
    and "ws_reach U cfg bufferSize E v" and "started s" and "sub_hub s = ws_hub v"
    and "hub_free (ws_hub v)" and "ha_broadcast (ws_hub v) = []"
  shows "case messageHandler_SendMessage (message_handler L U delays errtxt) req w of (r, w1) \<Rightarrow>
    \<exists>pm event v1. r = Inr pm \<and> pm_RoomId pm = uuid_String U (si_RoomID input) \<and>
      published w1 = published w @ [event] \<and>
      hub_case_step CaseBroadcast (v\<lparr>ws_hub := sub_hub (deliver_event event s)\<rparr>) = Some v1 \<and>
      (\<forall>c. let frame = marshal_Envelope (message_frame (pm_MessageId pm) (pm_RoomId pm) '''' JNull);
               listening = listens (ha_served (ws_hub v)) c (pm_RoomId pm);
               takes = \<not> wc_closed (ws_conns v c) \<and>
                 (length (wc_outbound (ws_conns v c)) < wc_bufSize (ws_conns v c) \<or>
                  wc_receiving (ws_conns v c) \<and> wc_outbound (ws_conns v c) = [])
           in wc_outbound (ws_conns v1 c) =
             (if listening \<and> takes then wc_outbound (ws_conns v c) @ [frame] else wc_outbound (ws_conns v c)))"
proof (cases rule: calm_send [OF assms(1,2) names_input_sendable [OF assms(3)] assms(4,5), of L delays errtxt])
  case (1 m ids w1)
  let ?pm = "messageToProto U (toMessage m)"
  have "sm_RoomID (toMessage m) = si_RoomID input"
    using 1(3) by (auto simp: stored_def toCreateInput_def toMessage_def message_of_def)
  then have room: "pm_RoomId ?pm = uuid_String U (si_RoomID input)" by (simp add: messageToProto_def)
  have pm: "pm_MessageId ?pm = uuid_String U (sm_ID (toMessage m))" "pm_RoomId ?pm = uuid_String U (sm_RoomID (toMessage m))"
    by (simp_all add: messageToProto_def)
  let ?env = "message_frame (pm_MessageId ?pm) (pm_RoomId ?pm) '''' JNull"
  let ?v = "hub_do (hub_BroadcastToRoom (pm_RoomId ?pm) ?env) v"
  have deliver: "v\<lparr>ws_hub := sub_hub (deliver_event (message_event U (toMessage m) ids) s)\<rparr> = ?v"
    by (simp add: relay_message_event [OF assms(8)] hub_do_def assms(9) pm)
  have "ws_step U cfg v ?v" using assms(10) by (rule ws_step.event)
  then have reach: "ws_reach U cfg bufferSize E ?v"
    using assms(7) unfolding ws_reach_def by (meson rtranclp.rtrancl_into_rtrancl)
  have hub: "ha_broadcast (ws_hub ?v) = [\<lparr>bm_RoomID = pm_RoomId ?pm, bm_Envelope = ?env\<rparr>]"
      "ha_served (ws_hub ?v) = ha_served (ws_hub v)" "ws_conns ?v = ws_conns v"
    using assms(11) by (simp_all add: hub_do_def hub_BroadcastToRoom_def)
  then obtain v1 where v1: "hub_case_step CaseBroadcast ?v = Some v1" by (simp add: hub_case_step_def)
  have "wc_outbound (ws_conns v1 c) =
      (if listens (ha_served (ws_hub v)) c (pm_RoomId ?pm) \<and> fst (Send (marshal_Envelope ?env) (ws_conns v c))
       then wc_outbound (ws_conns v c) @ [marshal_Envelope ?env] else wc_outbound (ws_conns v c))" for c
    using broadcast_effect [OF reach v1] hub by (auto simp: Let_def)
  then show ?thesis
    unfolding send_run [OF assms(3)] tryE_def 1(1) prod.case sum.case ret_def
    using v1 1(8) deliver
    by (intro exI [of _ ?pm] exI [of _ "message_event U (toMessage m) ids"] exI [of _ v1])
      (simp add: Let_def room Send_takes)
next
  case (2 s w')
  with assms(6) show ?thesis by simp
qed

theorem message_reaches_listeners_witness:
  "case messageHandler_SendMessage (message_handler sample_grpc sample_uuids [] concat) sample_send sample_chat of (r, w1) \<Rightarrow>
    \<exists>pm event s v1. r = Inr pm \<and> published w1 = [event] \<and>
      hub_case_step CaseBroadcast (subscribed_world\<lparr>ws_hub := sub_hub (deliver_event event s)\<rparr>) = Some v1 \<and>
      length (wc_outbound (ws_conns v1 0)) = 1"
proof -
  obtain s where "Subscriber_Start ready_streams ws_subscriber_config (NewSubscriber (ws_hub subscribed_world)) quiet_world =
      Some ((None, s), tick (tick (tick quiet_world)))"
    using ready_start by blast
  note s = Start_started [OF this]
  have policy: "send_policy (pg_view sample_chat) (pg_messages sample_chat) sample_input = None"
    by (simp add: send_policy_def sample_chat_views sample_input_def sample_members reply_ok_def)
  have "uuid_String sample_uuids (si_RoomID sample_input) = ''uuuuuuuuuuu''"
    by (simp only: sample_uuids_def sample_input_def uuid_lib.select_convs SendMessageInput.select_convs) code_simp
  moreover have "listens (ha_served (ws_hub subscribed_world)) 0 ''uuuuuuuuuuu''"
    by (simp add: subscribed_hub listens_def)
  moreover have "\<not> wc_closed (ws_conns subscribed_world 0)" "wc_bufSize (ws_conns subscribed_world 0) = 2"
      "wc_outbound (ws_conns subscribed_world 0) = []"
    by (simp_all add: subscribed_hub newWSConnWrapper_def)
  moreover have "published sample_chat = []" by (simp add: sample_chat_def)
  ultimately show ?thesis
    using message_reaches_listeners [OF sample_chat_ok sample_names sample_storable sample_fresh policy subscribed_reach
        s [THEN conjunct1] s [THEN conjunct2] subscribed_free, of sample_grpc "[]" concat]
    by (fastforce simp: Let_def)
qed

end
